(* ===== verification/Prelude.thy ===== *)
theory Prelude
  imports Complex_Main "HOL-Library.Sublist"
begin

text \<open>
  Shared vocabulary of the development: the exceptions of the program as a datatype, the
  result type of pure code that may raise, the state-and-exception type of code that runs
  inside a database transaction, the partial-correctness triples used to carry an invariant
  through such code, and the table operations (\<open>SELECT\<close>, \<open>UPDATE\<close>, row counts) on lists of
  rows.
\<close>

section \<open>Exceptions and results\<close>

text \<open>
  One constructor per exception class the modelled code raises, carrying the message.
  A message that the source builds with an f-string from values is kept up to its constant
  part.  \<open>WideText\<close> is not an exception of the program: it is the answer of the model where a
  decoded text would hold a code point above U+00FF, which the texts of the model do not have.
\<close>

datatype error =
    ValueError string
  | TypeError string
  | RuntimeError string
  | PermissionError string
  | UnknownMemoryClient string
  | StateSlotInvariantError string
  | IdempotencyConflict string
  | ClientIdentityConflict string
  | SessionContextConflict string
  | ErasureError string
  | IntegrityError string
  | OverflowError string
  | AttributeError string
  | IndexError string
  | KeyError string
  | RecursionError string
  | JSONDecodeError string
  | UnicodeDecodeError string
  | ProtocolValidationError string
  | FrameTooLargeError string
  | ProtocolVersionMismatch string
  | RequestHandlingError string string
  | ServerConfigError string
  | ExtractionContractError string
  | PermanentExtractionError string
  | ExtractionProcessorUnavailable string
  | ExtractionQueueUnavailable string
  | CaptureDisabled string
  | GuardRailError string
  | OtherException string
  | WideText

type_synonym 'a res = "error + 'a"

definition bindE :: "'a res \<Rightarrow> ('a \<Rightarrow> 'b res) \<Rightarrow> 'b res" where
  "bindE m f = (case m of Inl e \<Rightarrow> Inl e | Inr a \<Rightarrow> f a)"

definition checkE :: "bool \<Rightarrow> error \<Rightarrow> unit res" where
  "checkE b e = (if b then Inr () else Inl e)"

lemma bindE_simps [simp]:
  "bindE (Inl e) f = Inl e"
  "bindE (Inr a) f = f a"
  by (simp_all add: bindE_def)

lemma bindE_Inr_iff: "bindE m f = Inr b \<longleftrightarrow> (\<exists>a. m = Inr a \<and> f a = Inr b)"
  by (cases m) simp_all

lemma bindE_Inl_iff: "bindE m f = Inl e \<longleftrightarrow> m = Inl e \<or> (\<exists>a. m = Inr a \<and> f a = Inl e)"
  by (cases m) simp_all

lemma checkE_Inr_iff [simp]: "checkE b e = Inr u \<longleftrightarrow> b"
  by (simp add: checkE_def)

lemma checkE_Inl_iff [simp]: "checkE b e = Inl e' \<longleftrightarrow> \<not> b \<and> e' = e"
  by (auto simp: checkE_def)

text \<open>A comprehension or loop over a list whose body may raise, collecting the values.\<close>

fun mapE :: "('a \<Rightarrow> 'b res) \<Rightarrow> 'a list \<Rightarrow> 'b list res" where
  "mapE f [] = Inr []"
| "mapE f (x # xs) = bindE (f x) (\<lambda>y. bindE (mapE f xs) (\<lambda>ys. Inr (y # ys)))"

lemma mapE_Inr: "mapE f xs = Inr ys \<longleftrightarrow> list_all2 (\<lambda>x y. f x = Inr y) xs ys"
  by (induction xs arbitrary: ys) (auto simp: bindE_Inr_iff list_all2_Cons1)

lemma mapE_set: "mapE f xs = Inr ys \<Longrightarrow> y \<in> set ys \<Longrightarrow> \<exists>x \<in> set xs. f x = Inr y"
  by (induction xs arbitrary: ys) (auto simp: bindE_Inr_iff)

lemma mapE_const: "(\<And>x. x \<in> set xs \<Longrightarrow> f x = Inr x) \<Longrightarrow> mapE f xs = Inr xs"
  by (induction xs) simp_all

text \<open>\<open>dict.fromkeys\<close>: duplicates removed, the first occurrence kept.\<close>

definition dedup_first :: "'a list \<Rightarrow> 'a list" where
  "dedup_first xs = rev (remdups (rev xs))"

lemma set_dedup_first [simp]: "set (dedup_first xs) = set xs"
  by (simp add: dedup_first_def)

fun is_ok :: "'a res \<Rightarrow> bool" where
  "is_ok (Inr a) = True"
| "is_ok (Inl e) = False"

lemma is_ok_iff: "is_ok m \<longleftrightarrow> (\<exists>a. m = Inr a)"
  by (cases m) simp_all

section \<open>Transactional code\<close>

text \<open>
  Code that runs on an open transaction maps the store to an exception, or to a value and the
  new store.  An exception carries no store: every caller of the program rolls the transaction
  back when one is raised, so the store after an exception is the one before the transaction.
\<close>

type_synonym ('s, 'a) tx = "'s \<Rightarrow> error + ('a \<times> 's)"

definition ret :: "'a \<Rightarrow> ('s, 'a) tx" where
  "ret a = (\<lambda>s. Inr (a, s))"

definition raise :: "error \<Rightarrow> ('s, 'a) tx" where
  "raise e = (\<lambda>s. Inl e)"

definition andThen :: "('s, 'a) tx \<Rightarrow> ('a \<Rightarrow> ('s, 'b) tx) \<Rightarrow> ('s, 'b) tx" where
  "andThen m f = (\<lambda>s. case m s of Inl e \<Rightarrow> Inl e | Inr (a, s') \<Rightarrow> f a s')"

definition gets :: "('s \<Rightarrow> 'a) \<Rightarrow> ('s, 'a) tx" where
  "gets f = (\<lambda>s. Inr (f s, s))"

definition modify :: "('s \<Rightarrow> 's) \<Rightarrow> ('s, unit) tx" where
  "modify f = (\<lambda>s. Inr ((), f s))"

definition require :: "bool \<Rightarrow> error \<Rightarrow> ('s, unit) tx" where
  "require b e = (if b then ret () else raise e)"

definition liftE :: "'a res \<Rightarrow> ('s, 'a) tx" where
  "liftE m = (\<lambda>s. case m of Inl e \<Rightarrow> Inl e | Inr a \<Rightarrow> Inr (a, s))"

named_theorems tx_defs \<open>unfold the transaction combinators\<close>

lemmas tx_basic [tx_defs] =
  ret_def raise_def andThen_def gets_def modify_def require_def liftE_def

lemma andThen_Inr_iff:
  "andThen m f s = Inr (b, t) \<longleftrightarrow> (\<exists>a s'. m s = Inr (a, s') \<and> f a s' = Inr (b, t))"
  by (auto simp: andThen_def split: sum.splits prod.splits)

lemma andThen_Inl_iff:
  "andThen m f s = Inl e \<longleftrightarrow> m s = Inl e \<or> (\<exists>a s'. m s = Inr (a, s') \<and> f a s' = Inl e)"
  by (auto simp: andThen_def split: sum.splits prod.splits)

lemma ret_apply [simp]: "ret a s = Inr (a, s)"
  by (simp add: ret_def)

lemma raise_apply [simp]: "raise e s = Inl e"
  by (simp add: raise_def)

lemma gets_apply [simp]: "gets f s = Inr (f s, s)"
  by (simp add: gets_def)

lemma modify_apply [simp]: "modify f s = Inr ((), f s)"
  by (simp add: modify_def)

lemma require_apply: "require b e s = (if b then Inr ((), s) else Inl e)"
  by (simp add: require_def)

lemma require_Inr_iff [simp]: "require b e s = Inr r \<longleftrightarrow> b \<and> r = ((), s)"
  by (auto simp: require_apply)

lemma liftE_Inr_iff [simp]: "liftE m s = Inr (a, t) \<longleftrightarrow> m = Inr a \<and> t = s"
  by (auto simp: liftE_def split: sum.splits)

lemma liftE_Inl_iff [simp]: "liftE m s = Inl e \<longleftrightarrow> m = Inl e"
  by (auto simp: liftE_def split: sum.splits)

lemma liftE_ok [simp]: "liftE (Inr a) = ret a"
  by (simp add: liftE_def ret_def)

lemma liftE_fail [simp]: "liftE (Inl e) = raise e"
  by (simp add: liftE_def raise_def)

lemma require_True [simp]: "require True e = ret ()"
  by (simp add: require_def)

lemma require_False [simp]: "require False e = raise e"
  by (simp add: require_def)

lemma andThen_eval:
  "m s = Inr (a, s') \<Longrightarrow> andThen m f s = f a s'"
  "m s = Inl e \<Longrightarrow> andThen m f s = Inl e"
  by (simp_all add: andThen_def)

lemma andThen_ret [simp]: "andThen (ret a) f = f a"
  by (simp add: andThen_def ret_def)

lemma andThen_raise [simp]: "andThen (raise e) f = raise e"
  by (simp add: andThen_def raise_def)

text \<open>A \<open>for\<close> loop whose body may raise, threading the store and an accumulator.\<close>

fun foldTx :: "('b \<Rightarrow> 'a \<Rightarrow> ('s, 'b) tx) \<Rightarrow> 'b \<Rightarrow> 'a list \<Rightarrow> ('s, 'b) tx" where
  "foldTx f acc [] = ret acc"
| "foldTx f acc (x # xs) = andThen (f acc x) (\<lambda>acc'. foldTx f acc' xs)"

subsection \<open>Partial-correctness triples\<close>

text \<open>
  \<open>holds P m Q\<close>: from a store satisfying \<open>P\<close>, when \<open>m\<close> returns a value, the value and the
  new store satisfy \<open>Q\<close>.  That \<open>m\<close> returns is always stated and proved separately.
\<close>

definition holds :: "('s \<Rightarrow> bool) \<Rightarrow> ('s, 'a) tx \<Rightarrow> ('a \<Rightarrow> 's \<Rightarrow> bool) \<Rightarrow> bool" where
  "holds P m Q \<longleftrightarrow> (\<forall>s a t. P s \<longrightarrow> m s = Inr (a, t) \<longrightarrow> Q a t)"

named_theorems wp \<open>compositional rules for triples\<close>

lemma holdsI: "(\<And>s a t. P s \<Longrightarrow> m s = Inr (a, t) \<Longrightarrow> Q a t) \<Longrightarrow> holds P m Q"
  by (auto simp: holds_def)

lemma holdsD: "holds P m Q \<Longrightarrow> P s \<Longrightarrow> m s = Inr (a, t) \<Longrightarrow> Q a t"
  by (auto simp: holds_def)

lemma holds_weaken:
  "holds P m Q \<Longrightarrow> (\<And>s. P' s \<Longrightarrow> P s) \<Longrightarrow> (\<And>a s. Q a s \<Longrightarrow> Q' a s) \<Longrightarrow> holds P' m Q'"
  unfolding holds_def by metis

lemma holds_ret [wp]: "(\<And>s. P s \<Longrightarrow> Q a s) \<Longrightarrow> holds P (ret a) Q"
  by (auto simp: holds_def)

lemma holds_raise [wp]: "holds P (raise e) Q"
  by (auto simp: holds_def)

lemma holds_gets [wp]: "(\<And>s. P s \<Longrightarrow> Q (f s) s) \<Longrightarrow> holds P (gets f) Q"
  by (auto simp: holds_def)

lemma holds_modify [wp]: "(\<And>s. P s \<Longrightarrow> Q () (f s)) \<Longrightarrow> holds P (modify f) Q"
  by (auto simp: holds_def)

lemma holds_require [wp]: "(\<And>s. P s \<Longrightarrow> b \<Longrightarrow> Q () s) \<Longrightarrow> holds P (require b e) Q"
  by (auto simp: holds_def)

lemma holds_liftE [wp]: "(\<And>s a. P s \<Longrightarrow> m = Inr a \<Longrightarrow> Q a s) \<Longrightarrow> holds P (liftE m) Q"
  by (auto simp: holds_def)

lemma holds_andThen:
  "holds P m R \<Longrightarrow> (\<And>a. holds (R a) (f a) Q) \<Longrightarrow> holds P (andThen m f) Q"
  by (fastforce simp: holds_def andThen_Inr_iff)

lemma holds_foldTx:
  assumes "\<And>acc x. x \<in> set xs \<Longrightarrow> holds I (f acc x) (\<lambda>_. I)"
  shows "holds I (foldTx f acc xs) (\<lambda>_. I)"
  using assms
proof (induction xs arbitrary: acc)
  case Nil
  then show ?case by (simp add: holds_def)
next
  case (Cons x xs)
  have "holds I (f acc x) (\<lambda>_. I)" using Cons.prems by simp
  moreover have "holds I (foldTx f acc' xs) (\<lambda>_. I)" for acc'
    using Cons.prems by (intro Cons.IH) simp
  ultimately show ?case by (simp add: holds_andThen)
qed

text \<open>Code that only reads leaves the store as it is.\<close>

definition reads :: "('s, 'a) tx \<Rightarrow> bool" where
  "reads m \<longleftrightarrow> (\<forall>s a t. m s = Inr (a, t) \<longrightarrow> t = s)"

lemma readsD: "reads m \<Longrightarrow> m s = Inr (a, t) \<Longrightarrow> t = s"
  by (auto simp: reads_def)

lemma reads_intros [intro]:
  "reads (ret a)" "reads (raise e)" "reads (gets f)" "reads (require b e)" "reads (liftE m)"
  by (auto simp: reads_def)

lemma reads_andThen [intro]:
  "reads m \<Longrightarrow> (\<And>a. reads (f a)) \<Longrightarrow> reads (andThen m f)"
  unfolding reads_def by (metis andThen_Inr_iff)

section \<open>Tables\<close>

text \<open>
  A table is a list of rows.  \<open>update_where p f rows\<close> is \<open>UPDATE ... WHERE p\<close>, whose row count
  is \<open>count_where p rows\<close>; \<open>first_where\<close> is a query with \<open>fetchone\<close>.
\<close>

definition update_where :: "('r \<Rightarrow> bool) \<Rightarrow> ('r \<Rightarrow> 'r) \<Rightarrow> 'r list \<Rightarrow> 'r list" where
  "update_where p f rows = map (\<lambda>r. if p r then f r else r) rows"

definition count_where :: "('r \<Rightarrow> bool) \<Rightarrow> 'r list \<Rightarrow> nat" where
  "count_where p rows = length (filter p rows)"

definition first_where :: "('r \<Rightarrow> bool) \<Rightarrow> 'r list \<Rightarrow> 'r option" where
  "first_where p rows = find p rows"

lemma first_where_Some: "first_where p rows = Some r \<Longrightarrow> r \<in> set rows \<and> p r"
  by (auto simp: first_where_def find_Some_iff)

lemma first_where_None: "first_where p rows = None \<longleftrightarrow> (\<forall>r \<in> set rows. \<not> p r)"
  by (auto simp: first_where_def find_None_iff)

lemma first_where_unique:
  assumes "distinct (map k rows)" and "r \<in> set rows"
  shows "first_where (\<lambda>x. k x = k r) rows = Some r"
  using assms unfolding first_where_def
  by (induction rows) (auto simp: image_iff)

lemma length_update_where [simp]: "length (update_where p f rows) = length rows"
  by (simp add: update_where_def)

lemma update_where_simps [simp]:
  "update_where p f [] = []"
  "update_where p f (r # rows) = (if p r then f r else r) # update_where p f rows"
  "update_where p f (xs @ ys) = update_where p f xs @ update_where p f ys"
  by (simp_all add: update_where_def)

lemma set_update_where: "set (update_where p f rows) = (\<lambda>r. if p r then f r else r) ` set rows"
  by (simp add: update_where_def)

lemma in_update_where: "f \<in> set (update_where p g fs) \<Longrightarrow> \<exists>f1 \<in> set fs. f = (if p f1 then g f1 else f1)"
  by (simp only: set_update_where image_iff)

lemma update_where_hit: "r \<in> set rows \<Longrightarrow> p r \<Longrightarrow> f r \<in> set (update_where p f rows)"
  by (induction rows) auto

lemma update_where_miss: "r \<in> set rows \<Longrightarrow> \<not> p r \<Longrightarrow> r \<in> set (update_where p f rows)"
  by (induction rows) auto

lemma map_update_where:
  "(\<And>r. r \<in> set rows \<Longrightarrow> p r \<Longrightarrow> k (f r) = k r) \<Longrightarrow> map k (update_where p f rows) = map k rows"
  by (auto simp: update_where_def)

lemma update_where_none: "\<forall>r \<in> set rows. \<not> p r \<Longrightarrow> update_where p f rows = rows"
  by (auto simp: update_where_def intro: map_idI)

lemma count_where_pos: "0 < count_where p rows \<longleftrightarrow> (\<exists>r \<in> set rows. p r)"
  by (auto simp: count_where_def filter_empty_conv)

lemma count_where_one:
  "count_where p rows = Suc 0 \<Longrightarrow> \<exists>r \<in> set rows. p r"
  by (metis count_where_pos zero_less_Suc)

text \<open>A partial unique index: the keys of the rows it covers are distinct.\<close>

lemma distinct_keys_update:
  assumes "distinct (map k (filter q rows))"
    and "\<And>r. r \<in> set rows \<Longrightarrow> p r \<Longrightarrow> q (f r) \<Longrightarrow> q r \<and> k (f r) = k r"
  shows "distinct (map k (filter q (update_where p f rows)))"
proof -
  have "distinct (map k (filter q (update_where p f rows)))
      \<and> k ` set (filter q (update_where p f rows)) \<subseteq> k ` set (filter q rows)"
    using assms
  proof (induction rows)
    case (Cons r rows)
    have IH: "distinct (map k (filter q (update_where p f rows)))"
      "k ` set (filter q (update_where p f rows)) \<subseteq> k ` set (filter q rows)"
      using Cons.IH Cons.prems by (auto split: if_splits)
    let ?h = "if p r then f r else r"
    show ?case
    proof (cases "q ?h")
      case True
      then have "q r" "k ?h = k r" using Cons.prems(2) [of r] by (auto split: if_splits)
      with True IH Cons.prems(1) show ?thesis by auto
    next
      case False
      with IH show ?thesis by auto
    qed
  qed simp
  then show ?thesis ..
qed

lemma distinct_filter_keys:
  assumes "distinct (map i rows)"
  shows "distinct (map k (filter q rows))
    \<longleftrightarrow> (\<forall>a \<in> set rows. \<forall>b \<in> set rows. q a \<and> q b \<and> k a = k b \<longrightarrow> i a = i b)"
proof -
  have "distinct rows" "inj_on i (set rows)" using assms by (simp_all add: distinct_map)
  then have "distinct (map k (filter q rows)) \<longleftrightarrow> inj_on k (set (filter q rows))"
    by (simp add: distinct_map)
  also have "\<dots> \<longleftrightarrow> (\<forall>a \<in> set rows. \<forall>b \<in> set rows. q a \<and> q b \<and> k a = k b \<longrightarrow> i a = i b)"
    using \<open>inj_on i (set rows)\<close> by (auto simp: inj_on_def)
  finally show ?thesis .
qed

lemma count_where_key:
  assumes "distinct (map k rows)"
  shows "count_where (\<lambda>r. k r = i \<and> q r) rows = (if \<exists>r \<in> set rows. k r = i \<and> q r then 1 else 0)"
  using assms
proof (induction rows)
  case Nil
  then show ?case by (simp add: count_where_def)
next
  case (Cons r rows)
  then have IH: "count_where (\<lambda>r. k r = i \<and> q r) rows =
      (if \<exists>r \<in> set rows. k r = i \<and> q r then 1 else 0)" by simp
  show ?case
  proof (cases "k r = i")
    case True
    with Cons.prems have "\<forall>x \<in> set rows. k x \<noteq> i" by (metis distinct.simps(2) image_eqI list.set_map list.simps(9))
    with True IH show ?thesis by (auto simp: count_where_def)
  next
    case False
    with IH show ?thesis by (auto simp: count_where_def)
  qed
qed

end
