(* ===== verification/PyText.thy ===== *)
theory PyText
  imports Prelude
begin

text \<open>
  The string operations of the Python standard library that the modelled code uses:
  \<open>strip\<close>, \<open>lower\<close>, \<open>casefold\<close>, \<open>split\<close>, \<open>rpartition\<close>, \<open>join\<close>, maximal-run substitution
  (\<open>re.sub\<close> of a character class followed by \<open>+\<close>), \<open>re.findall\<close> of such a class, and decimal
  numbers.

  A Python string is a list of characters, each a code point up to U+00FF: the character
  classes below are those of Python on that range (the white-space set of \<open>str.isspace\<close> and of
  \<open>\s\<close>, the letters of Latin-1 under \<open>lower\<close>, the sharp s under \<open>casefold\<close>).  One code point of
  the range folds outside it (U+00B5); it is left as it is, which no key accepts either way.
\<close>

section \<open>Character classes\<close>

definition code :: "char \<Rightarrow> nat" where
  "code c = of_char c"

definition py_space :: "char \<Rightarrow> bool" where
  "py_space c \<longleftrightarrow> (let n = code c in (9 \<le> n \<and> n \<le> 13) \<or> (28 \<le> n \<and> n \<le> 32) \<or> n = 133 \<or> n = 160)"

definition is_digit :: "char \<Rightarrow> bool" where
  "is_digit c \<longleftrightarrow> 48 \<le> code c \<and> code c \<le> 57"

definition is_lower :: "char \<Rightarrow> bool" where
  "is_lower c \<longleftrightarrow> 97 \<le> code c \<and> code c \<le> 122"

definition is_upper :: "char \<Rightarrow> bool" where
  "is_upper c \<longleftrightarrow> 65 \<le> code c \<and> code c \<le> 90"

definition is_key_char :: "char \<Rightarrow> bool" where
  "is_key_char c \<longleftrightarrow> is_lower c \<or> is_digit c"

definition lower_char :: "char \<Rightarrow> char" where
  "lower_char c = (let n = code c in
     if (65 \<le> n \<and> n \<le> 90) \<or> (192 \<le> n \<and> n \<le> 222 \<and> n \<noteq> 215) then char_of (n + 32) else c)"

definition casefold_char :: "char \<Rightarrow> string" where
  "casefold_char c = (if code c = 223 then ''ss'' else [lower_char c])"

section \<open>Whole strings\<close>

definition lstrip :: "string \<Rightarrow> string" where
  "lstrip s = dropWhile py_space s"

definition rstrip_by :: "(char \<Rightarrow> bool) \<Rightarrow> string \<Rightarrow> string" where
  "rstrip_by p s = rev (dropWhile p (rev s))"

definition strip_by :: "(char \<Rightarrow> bool) \<Rightarrow> string \<Rightarrow> string" where
  "strip_by p s = rstrip_by p (dropWhile p s)"

definition strip :: "string \<Rightarrow> string" where
  "strip s = strip_by py_space s"

definition lower :: "string \<Rightarrow> string" where
  "lower s = map lower_char s"

definition casefold :: "string \<Rightarrow> string" where
  "casefold s = concat (map casefold_char s)"

text \<open>\<open>re.sub\<close> of a run of characters in \<open>p\<close> by one character; the flag says a run is open.\<close>

fun sub_runs :: "(char \<Rightarrow> bool) \<Rightarrow> char \<Rightarrow> bool \<Rightarrow> string \<Rightarrow> string" where
  "sub_runs p r b [] = []"
| "sub_runs p r b (c # cs) =
     (if p c then (if b then sub_runs p r True cs else r # sub_runs p r True cs)
      else c # sub_runs p r False cs)"

text \<open>\<open>re.findall\<close> of a maximal run of characters in \<open>p\<close>, the open run kept reversed.\<close>

fun find_runs :: "(char \<Rightarrow> bool) \<Rightarrow> string \<Rightarrow> string \<Rightarrow> string list" where
  "find_runs p acc [] = (if acc = [] then [] else [rev acc])"
| "find_runs p acc (c # cs) =
     (if p c then find_runs p (c # acc) cs
      else (if acc = [] then [] else [rev acc]) @ find_runs p [] cs)"

fun join :: "string \<Rightarrow> string list \<Rightarrow> string" where
  "join sep [] = []"
| "join sep [x] = x"
| "join sep (x # y # ys) = x @ sep @ join sep (y # ys)"

fun split_by :: "(char \<Rightarrow> bool) \<Rightarrow> string \<Rightarrow> string list" where
  "split_by p [] = [[]]"
| "split_by p (c # cs) =
     (if p c then [] # split_by p cs
      else (case split_by p cs of [] \<Rightarrow> [[c]] | x # xs \<Rightarrow> (c # x) # xs))"

text \<open>\<open>s.split(c, 1)\<close> where \<open>c\<close> occurs, and \<open>s.rpartition(c)\<close>: prefix, whether found, rest.\<close>

definition split_first :: "char \<Rightarrow> string \<Rightarrow> string \<times> string" where
  "split_first c s = (takeWhile (\<lambda>x. x \<noteq> c) s, drop 1 (dropWhile (\<lambda>x. x \<noteq> c) s))"

definition rpartition :: "char \<Rightarrow> string \<Rightarrow> string \<times> bool \<times> string" where
  "rpartition c s = (if c \<in> set s
     then (rev (drop 1 (dropWhile (\<lambda>x. x \<noteq> c) (rev s))), True, rev (takeWhile (\<lambda>x. x \<noteq> c) (rev s)))
     else ([], False, s))"

definition digit_val :: "char \<Rightarrow> int" where
  "digit_val c = int (code c) - 48"

definition digits_val :: "string \<Rightarrow> int" where
  "digits_val s = foldl (\<lambda>n c. 10 * n + digit_val c) 0 s"

fun show_nat :: "nat \<Rightarrow> string" where
  "show_nat n = (if n < 10 then [char_of (48 + n)] else show_nat (n div 10) @ [char_of (48 + n mod 10)])"

declare show_nat.simps [simp del]

definition show_int :: "int \<Rightarrow> string" where
  "show_int i = (if i < 0 then CHR ''-'' # show_nat (nat (- i)) else show_nat (nat i))"

text \<open>
  The validation every value object of the program starts with: strip, then refuse the empty
  text (\<open>_required\<close> in \<open>provenance.py\<close> and \<open>state_slots.py\<close>, \<open>_required_text\<close> in
  \<open>core_store.py\<close>).
\<close>

definition required :: "string \<Rightarrow> string \<Rightarrow> string res" where
  "required value name =
     (let value = strip value in
      if value = [] then Inl (ValueError (name @ '' must not be empty'')) else Inr value)"

text \<open>UTF-8, a byte being a character: one byte up to U+007F, two above.\<close>

definition utf8_char :: "char \<Rightarrow> string" where
  "utf8_char c = (let n = code c in
     if n < 128 then [c] else [char_of (192 + n div 64), char_of (128 + n mod 64)])"

definition utf8 :: "string \<Rightarrow> string" where
  "utf8 s = concat (map utf8_char s)"

definition continuation :: "char \<Rightarrow> bool" where
  "continuation b \<longleftrightarrow> 128 \<le> code b \<and> code b < 192"

section \<open>Facts about them\<close>

lemma strip_by_ends:
  assumes "strip_by p s \<noteq> []"
  shows "\<not> p (hd (strip_by p s)) \<and> \<not> p (last (strip_by p s))"
proof -
  let ?t = "dropWhile p s"
  let ?u = "dropWhile p (rev ?t)"
  from assms have ne: "?u \<noteq> []" by (simp add: strip_by_def rstrip_by_def)
  then have l: "\<not> p (hd ?u)" by (rule hd_dropWhile)
  have "?t \<noteq> []" using ne by (metis dropWhile.simps(1) rev.simps(1))
  then have h: "\<not> p (hd ?t)" by (rule hd_dropWhile)
  have "last ?u = hd ?t"
    using ne \<open>?t \<noteq> []\<close> by (metis dropWhile_eq_drop last_drop last_rev length_drop length_greater_0_conv zero_less_diff)
  then have "hd (rev ?u) = hd ?t" using ne by (simp add: hd_rev)
  with l h ne show ?thesis by (simp add: strip_by_def rstrip_by_def last_rev)
qed

lemma strip_by_id:
  assumes "s \<noteq> [] \<Longrightarrow> \<not> p (hd s) \<and> \<not> p (last s)"
  shows "strip_by p s = s"
proof (cases s)
  case Nil
  then show ?thesis by (simp add: strip_by_def rstrip_by_def)
next
  case (Cons c cs)
  with assms have h: "\<not> p c" and l: "\<not> p (last s)" by auto
  from h Cons have d: "dropWhile p s = s" by simp
  have "rev s \<noteq> []" using Cons by simp
  moreover have "hd (rev s) = last s" using Cons by (simp add: hd_rev)
  ultimately have "dropWhile p (rev s) = rev s" using l
    by (metis dropWhile.simps(2) list.collapse)
  with d show ?thesis by (simp add: strip_by_def rstrip_by_def)
qed

lemma strip_by_idem: "strip_by p (strip_by p s) = strip_by p s"
  by (rule strip_by_id) (rule strip_by_ends)

lemma strip_idem [simp]: "strip (strip s) = strip s"
  by (simp add: strip_def strip_by_idem)

lemma strip_by_all: "\<forall>c \<in> set s. \<not> p c \<Longrightarrow> strip_by p s = s"
  by (rule strip_by_id) (auto simp: hd_in_set last_in_set)

lemma required_ok: "required v n = Inr w \<longleftrightarrow> w = strip v \<and> w \<noteq> []"
  by (auto simp: required_def Let_def)

lemma required_idem: "required v n = Inr w \<Longrightarrow> required w m = Inr w"
  by (auto simp: required_ok)

lemma required_fails: "required v n = Inl e \<longleftrightarrow> strip v = [] \<and> e = ValueError (n @ '' must not be empty'')"
  by (auto simp: required_def Let_def)

lemma sub_runs_id: "\<forall>c \<in> set s. \<not> p c \<Longrightarrow> sub_runs p r b s = s"
  by (induction s arbitrary: b) auto

lemma sub_runs_set: "set (sub_runs p r b s) \<subseteq> insert r {c \<in> set s. \<not> p c}"
  by (induction s arbitrary: b) (auto split: if_splits)

lemma find_runs_elem:
  "w \<in> set (find_runs p acc s) \<Longrightarrow> \<forall>c \<in> set acc. p c \<Longrightarrow> w \<noteq> [] \<and> (\<forall>c \<in> set w. p c)"
proof (induction s arbitrary: acc)
  case Nil
  then show ?case by (simp split: if_splits)
next
  case (Cons c s)
  show ?case
  proof (cases "p c")
    case True
    with Cons.prems have "w \<in> set (find_runs p (c # acc) s)" by simp
    moreover have "\<forall>d \<in> set (c # acc). p d" using True Cons.prems(2) by simp
    ultimately show ?thesis by (rule Cons.IH)
  next
    case False
    with Cons.prems have "(acc \<noteq> [] \<and> w = rev acc) \<or> w \<in> set (find_runs p [] s)"
      by (cases "acc = []") auto
    then show ?thesis
    proof
      assume "acc \<noteq> [] \<and> w = rev acc"
      with Cons.prems(2) show ?thesis by simp
    next
      assume "w \<in> set (find_runs p [] s)"
      then show ?thesis by (rule Cons.IH) simp
    qed
  qed
qed

lemma lower_char_key: "is_key_char c \<Longrightarrow> lower_char c = c"
  by (elim is_key_char_def [THEN iffD1, THEN disjE])
    (simp_all add: lower_char_def is_lower_def is_digit_def Let_def)

lemma casefold_id: "\<forall>c \<in> set s. casefold_char c = [c] \<Longrightarrow> casefold s = s"
  by (induction s) (auto simp: casefold_def)

lemma code_lt [simp]: "code c < 256"
  by (simp add: code_def)

lemma code_char_of: "n < 256 \<Longrightarrow> code (char_of n) = n"
  by (simp add: code_def)

lemma code_less: "code c < 256"
  by (simp add: code_def)

lemma utf8_Cons [simp]: "utf8 [] = []" "utf8 (c # cs) = utf8_char c @ utf8 cs"
  by (simp_all add: utf8_def)

end
