(* ===== verification/IsoTime.thy ===== *)
theory IsoTime
  imports PyText
begin

text \<open>
  The part of the standard library's \<open>datetime\<close> the program's clocks rest on:
  \<open>datetime.fromisoformat\<close> as the C implementation of CPython 3.11 reads its input (calendar
  and week dates, with and without separators, fractions, UTC offsets), and \<open>astimezone(utc)\<close>.
  An aware instant is its number of microseconds from 0001-01-01T00:00:00 UTC; comparing two
  aware datetimes compares these numbers.
\<close>

type_synonym instant = int

definition usec_per_sec :: int where
  "usec_per_sec = 1000000"

definition usec_per_day :: int where
  "usec_per_day = 86400 * usec_per_sec"

definition max_ordinal :: int where
  "max_ordinal = 3652059"

section \<open>The proleptic Gregorian calendar\<close>

definition is_leap :: "int \<Rightarrow> bool" where
  "is_leap y \<longleftrightarrow> y mod 4 = 0 \<and> (y mod 100 \<noteq> 0 \<or> y mod 400 = 0)"

definition days_in_month :: "int \<Rightarrow> int \<Rightarrow> int" where
  "days_in_month y m =
     (if m = 2 then (if is_leap y then 29 else 28)
      else if m \<in> {4, 6, 9, 11} then 30 else 31)"

definition days_before_year :: "int \<Rightarrow> int" where
  "days_before_year y = (let p = y - 1 in p * 365 + p div 4 - p div 100 + p div 400)"

definition days_before_month :: "int \<Rightarrow> int \<Rightarrow> int" where
  "days_before_month y m =
     [0, 31, 59, 90, 120, 151, 181, 212, 243, 273, 304, 334] ! nat (m - 1)
       + (if 2 < m \<and> is_leap y then 1 else 0)"

definition ymd_ordinal :: "int \<Rightarrow> int \<Rightarrow> int \<Rightarrow> int option" where
  "ymd_ordinal y m d =
     (if 1 \<le> y \<and> y \<le> 9999 \<and> 1 \<le> m \<and> m \<le> 12 \<and> 1 \<le> d \<and> d \<le> days_in_month y m
      then Some (days_before_year y + days_before_month y m + d) else None)"

definition isoweek_ordinal :: "int \<Rightarrow> int \<Rightarrow> int \<Rightarrow> int option" where
  "isoweek_ordinal y w d =
     (let first = days_before_year y + 1;
          weekday = (first + 6) mod 7;
          long = (first mod 7 = 4 \<or> (first mod 7 = 3 \<and> is_leap y));
          monday = first - weekday + (if 3 < weekday then 7 else 0);
          n = monday + (w - 1) * 7 + (d - 1)
      in if 1 \<le> y \<and> y \<le> 9999 \<and> 1 \<le> w \<and> (w \<le> 52 \<or> (w = 53 \<and> long)) \<and> 1 \<le> d \<and> d \<le> 7
            \<and> 1 \<le> n \<and> n \<le> max_ordinal
         then Some n else None)"

section \<open>Parsing\<close>

definition all_digits :: "string \<Rightarrow> bool" where
  "all_digits s \<longleftrightarrow> list_all is_digit s"

definition int_field :: "nat \<Rightarrow> string \<Rightarrow> int option" where
  "int_field n s = (if length s = n \<and> all_digits s then Some (digits_val s) else None)"

text \<open>Where the date ends (\<open>_find_isoformat_datetime_separator\<close>); the input has 7 characters or more.\<close>

definition date_end :: "string \<Rightarrow> nat option" where
  "date_end s =
     (let n = length s in
      if n = 7 then Some 7
      else if s ! 4 = CHR ''-'' then
        (if s ! 5 = CHR ''W'' then
           (if 8 < n \<and> s ! 8 = CHR ''-'' then
              (if n = 9 then None
               else if 10 < n \<and> is_digit (s ! 10) then Some 8 else Some 10)
            else Some 8)
         else Some 10)
      else if s ! 4 = CHR ''W'' then
        (let i = 7 + length (takeWhile is_digit (drop 7 s)) in
         if i < 9 then Some i else if even i then Some 7 else Some 8)
      else Some 8)"

definition parse_date :: "string \<Rightarrow> int option" where
  "parse_date s =
     (let sep = (take 1 (drop 4 s) = ''-'');
          rest = drop (if sep then 5 else 4) s in
      case int_field 4 (take 4 s) of None \<Rightarrow> None | Some y \<Rightarrow>
      if take 1 rest = ''W'' then
        (case int_field 2 (take 2 (drop 1 rest)) of None \<Rightarrow> None | Some w \<Rightarrow>
         let tl = drop 3 rest in
         if tl = [] then isoweek_ordinal y w 1
         else if (take 1 tl = ''-'') \<noteq> sep then None
         else (case int_field 1 (drop (if sep then 1 else 0) tl) of
                 None \<Rightarrow> None | Some d \<Rightarrow> isoweek_ordinal y w d))
      else
        (case int_field 2 (take 2 rest) of None \<Rightarrow> None | Some m \<Rightarrow>
         let tl = drop 2 rest in
         if (take 1 tl = ''-'') \<noteq> sep then None
         else (case int_field 2 (drop (if sep then 1 else 0) tl) of
                 None \<Rightarrow> None | Some d \<Rightarrow> ymd_ordinal y m d)))"

definition parse_fraction :: "string \<Rightarrow> int option" where
  "parse_fraction s =
     (if s \<noteq> [] \<and> all_digits s
      then Some (digits_val (take 6 s) * 10 ^ (6 - min 6 (length s))) else None)"

text \<open>
  \<open>HH[:]MM[:]SS[.,]f+\<close>, a component at a time: the index of the component, whether the first
  separator was a colon, the components so far; the result is [hour, minute, second,
  microsecond].
\<close>

fun parse_hms :: "nat \<Rightarrow> bool \<Rightarrow> int list \<Rightarrow> string \<Rightarrow> int list option" where
  "parse_hms i sep acc (a # b # r) =
     (if \<not> (is_digit a \<and> is_digit b) then None else
      let acc' = acc @ [digits_val [a, b]] in
      case r of
        [] \<Rightarrow> Some (acc' @ replicate (4 - length acc') 0)
      | c # r' \<Rightarrow>
          let sep' = (if i = 0 then c = CHR '':'' else sep);
              frac = (\<lambda>t. map_option (\<lambda>f. acc' @ replicate (3 - length acc') 0 @ [f]) (parse_fraction t)) in
          if r' = [] then None
          else if sep' \<and> c = CHR '':'' then (if i = 2 then frac r' else parse_hms (Suc i) sep' acc' r')
          else if c = CHR ''.'' \<or> c = CHR '','' then frac r'
          else if \<not> sep' then (if i = 2 then frac r else parse_hms (Suc i) sep' acc' r)
          else None)"
| "parse_hms i sep acc s = None"

definition clock_usec :: "int list \<Rightarrow> int" where
  "clock_usec t = ((t ! 0 * 60 + t ! 1) * 60 + t ! 2) * usec_per_sec + t ! 3"

definition is_tz_char :: "char \<Rightarrow> bool" where
  "is_tz_char c \<longleftrightarrow> c \<in> {CHR ''+'', CHR ''-'', CHR ''Z''}"

text \<open>The time of day in microseconds, and the UTC offset when the text carries one.\<close>

definition parse_time :: "string \<Rightarrow> (int \<times> int option) option" where
  "parse_time s =
     (let t = takeWhile (\<lambda>c. \<not> is_tz_char c) s;
          z = dropWhile (\<lambda>c. \<not> is_tz_char c) s in
      case parse_hms 0 True [] t of None \<Rightarrow> None | Some v \<Rightarrow>
      if \<not> (v ! 0 < 24 \<and> v ! 1 < 60 \<and> v ! 2 < 60) then None
      else if z = [] then Some (clock_usec v, None)
      else if z = ''Z'' then Some (clock_usec v, Some 0)
      else (case parse_hms 0 True [] (drop 1 z) of None \<Rightarrow> None | Some o' \<Rightarrow>
              let off = clock_usec o' in
              if usec_per_day \<le> off then None
              else Some (clock_usec v, Some (if hd z = CHR ''-'' then - off else off))))"

datatype parsed_datetime = Naive instant | Aware instant int

definition fromisoformat :: "string \<Rightarrow> parsed_datetime option" where
  "fromisoformat s =
     (if length s < 7 then None else
      case date_end s of None \<Rightarrow> None | Some k \<Rightarrow>
      case parse_date (take k s) of None \<Rightarrow> None | Some n \<Rightarrow>
      let day = (n - 1) * usec_per_day; t = drop (k + 1) s in
      if t = [] then Some (Naive day)
      else (case parse_time t of None \<Rightarrow> None
            | Some (us, None) \<Rightarrow> Some (Naive (day + us))
            | Some (us, Some off) \<Rightarrow> Some (Aware (day + us) off)))"

text \<open>
  \<open>replace(tzinfo=utc)\<close> of a naive value, then \<open>astimezone(utc)\<close>, which overflows when the
  instant leaves the years 1 to 9999.
\<close>

definition to_utc :: "parsed_datetime \<Rightarrow> instant res" where
  "to_utc d = (case d of
     Naive i \<Rightarrow> Inr i
   | Aware i off \<Rightarrow>
       (let u = i - off in
        if 0 \<le> u \<and> u < max_ordinal * usec_per_day then Inr u
        else Inl (OverflowError ''date value out of range'')))"

text \<open>The normalisation both clock readers of the program apply first.\<close>

definition z_to_offset :: "string \<Rightarrow> string" where
  "z_to_offset s = (if suffix ''Z'' s then butlast s @ ''+00:00'' else s)"

section \<open>Bounds\<close>

lemma days_before_month_bound:
  assumes "1 \<le> m" "m \<le> 12"
  shows "0 \<le> days_before_month y m \<and> days_before_month y m + days_in_month y m \<le> (if is_leap y then 366 else 365)"
proof -
  from assms have "m = 1 \<or> m = 2 \<or> m = 3 \<or> m = 4 \<or> m = 5 \<or> m = 6 \<or> m = 7 \<or> m = 8
      \<or> m = 9 \<or> m = 10 \<or> m = 11 \<or> m = 12" by presburger
  then show ?thesis by (auto simp: days_before_month_def days_in_month_def)
qed

lemma days_before_year_bound:
  assumes "1 \<le> y" "y \<le> 9999"
  shows "0 \<le> days_before_year y \<and> days_before_year y + (if is_leap y then 366 else 365) \<le> max_ordinal"
proof -
  define p where "p = y - 1"
  have p: "0 \<le> p" "p \<le> 9998" using assms by (simp_all add: p_def)
  have q4: "4 * (p div 4) \<le> p" and q4': "p < 4 * (p div 4) + 4"
    and q100: "p < 100 * (p div 100) + 100" and q100': "100 * (p div 100) \<le> p"
    and q400: "400 * (p div 400) \<le> p" and q400': "p < 400 * (p div 400) + 400" by linarith+
  have "is_leap y \<Longrightarrow> y \<le> 9996" using assms(2) unfolding is_leap_def by presburger
  then have leap: "is_leap y \<Longrightarrow> p \<le> 9995" by (simp add: p_def)
  show ?thesis
  proof (cases "p = 9998")
    case True
    with leap have "\<not> is_leap y" by auto
    with True p_def show ?thesis by (simp add: days_before_year_def max_ordinal_def)
  next
    case False
    with p have "p \<le> 9997" by simp
    with p q4 q4' q100 q100' q400 q400' leap show ?thesis
      by (auto simp: days_before_year_def max_ordinal_def Let_def p_def [symmetric])
  qed
qed

lemma ymd_ordinal_bounds: "ymd_ordinal y m d = Some n \<Longrightarrow> 1 \<le> n \<and> n \<le> max_ordinal"
  using days_before_month_bound [of m y] days_before_year_bound [of y]
  by (auto simp: ymd_ordinal_def split: if_splits)

lemma isoweek_ordinal_bounds: "isoweek_ordinal y w d = Some n \<Longrightarrow> 1 \<le> n \<and> n \<le> max_ordinal"
  by (auto simp: isoweek_ordinal_def Let_def split: if_splits)

lemma parse_date_bounds: "parse_date s = Some n \<Longrightarrow> 1 \<le> n \<and> n \<le> max_ordinal"
  unfolding parse_date_def Let_def
  by (auto split: option.splits if_splits dest: ymd_ordinal_bounds isoweek_ordinal_bounds)

end
