(* ===== verification/Store.thy ===== *)
theory Store
  imports IsoTime
begin

text \<open>
  The SQLite store as the code leaves it after \<open>migrate\<close>: one record per table row, one list
  per table, the counters behind \<open>AUTOINCREMENT\<close> and \<open>uuid4\<close>, the partial unique index on
  current state slots, and the single primitive through which every \<open>UPDATE facts\<close> of the
  program passes (it reports the row count and enforces the index).

  The schema is the current one, in which every column exists, so the \<open>PRAGMA table_info\<close>
  probes the code makes for older files are constantly true here.  A column that holds JSON
  text holds the JSON value; real columns are only compared, and are rationals.
\<close>

section \<open>JSON values\<close>

datatype json =
    JNull
  | JBool bool
  | JInt int
  | JFloat rat
  | JStr string
  | JArr "json list"
  | JObj "(string \<times> json) list"

definition jopt :: "string option \<Rightarrow> json" where
  "jopt v = (case v of None \<Rightarrow> JNull | Some s \<Rightarrow> JStr s)"

definition jint_opt :: "int option \<Rightarrow> json" where
  "jint_opt v = (case v of None \<Rightarrow> JNull | Some i \<Rightarrow> JInt i)"

fun jget :: "string \<Rightarrow> json \<Rightarrow> json option" where
  "jget k (JObj kvs) = map_of kvs k"
| "jget k _ = None"

text \<open>
  \<open>json.loads\<close> of a text the caller supplied, then the check that it is an object: a text is
  \<open>None\<close> when it does not parse.
\<close>

definition json_object :: "string \<Rightarrow> json option \<Rightarrow> json res" where
  "json_object name v = (case v of
     Some (JObj kvs) \<Rightarrow> Inr (JObj kvs)
   | _ \<Rightarrow> Inl (ValueError (name @ '' must be a JSON object'')))"

section \<open>Rows\<close>

record fact =
  f_id :: int
  f_content :: string
  f_category :: string
  f_tags :: string
  f_trust :: rat
  f_created_at :: string
  f_valid_from :: "string option"
  f_valid_to :: "string option"
  f_invalid_at :: "string option"
  f_expired_at :: "string option"
  f_superseded_by :: "int option"
  f_kind :: "string option"
  f_subject :: "string option"
  f_predicate :: "string option"
  f_object :: "string option"
  f_object_entity :: "int option"
  f_confidence :: "rat option"
  f_authority :: "rat option"
  f_scope :: string
  f_sensitivity :: string
  f_correction :: "string option"
  f_conflict :: "string option"

record conflict =
  cf_id :: string
  cf_scope :: string
  cf_subject :: string
  cf_predicate :: string
  cf_detected_at :: string
  cf_resolved_at :: "string option"
  cf_resolution :: "int option"
  cf_resolved_by :: "string option"
  cf_reason :: "string option"
  cf_detail :: json

record review =
  rv_id :: string
  rv_scope :: string
  rv_reason :: string
  rv_content :: "string option"
  rv_subject :: "string option"
  rv_predicate :: "string option"
  rv_detail :: json
  rv_recorded_at :: string
  rv_resolved_at :: "string option"

record resolution =
  rs_conflict :: string
  rs_fact :: int
  rs_client :: string
  rs_session :: string
  rs_agent :: string
  rs_reason :: string
  rs_at :: string

record client =
  cl_id :: string
  cl_surface :: string
  cl_display :: "string option"
  cl_created_at :: string
  cl_disabled_at :: "string option"

record session =
  se_id :: string
  se_client :: string
  se_agent :: string
  se_parent :: "string option"
  se_root :: "string option"
  se_repo :: "string option"
  se_branch :: "string option"
  se_commit :: "string option"
  se_capabilities :: "string list"
  se_scopes :: "string list"
  se_started_at :: string

record observation =
  ob_id :: int
  ob_client :: string
  ob_session :: string
  ob_source_type :: string
  ob_source_uri :: "string option"
  ob_root :: "string option"
  ob_repo :: "string option"
  ob_branch :: "string option"
  ob_commit :: "string option"
  ob_content :: string
  ob_sha256 :: string
  ob_asserted_by :: "string option"
  ob_performed_by :: "string option"
  ob_observed_at :: "string option"
  ob_recorded_at :: string
  ob_scope :: string
  ob_sensitivity :: string
  ob_redacted_at :: "string option"
  ob_metadata :: json

record provenance =
  pv_fact :: int
  pv_observation :: int
  pv_relation :: string
  pv_excerpt :: "string option"
  pv_created_at :: string

record write_log =
  lg_write_id :: string
  lg_key :: string
  lg_client :: string
  lg_session :: string
  lg_operation :: string
  lg_outcome :: string
  lg_fact :: "int option"
  lg_existing :: "int option"
  lg_observation :: "int option"
  lg_recorded_at :: string
  lg_sha256 :: string
  lg_detail :: json

record erasure_log =
  er_id :: string
  er_fact :: int
  er_requested_by :: string
  er_reason :: string
  er_erased_at :: string
  er_observations :: nat
  er_embeddings :: nat
  er_queue_rows :: nat

record embedding_job =
  ej_id :: int
  ej_fact :: int
  ej_identity :: string
  ej_version :: string
  ej_dimensions :: int
  ej_sha256 :: string
  ej_status :: string
  ej_attempts :: int
  ej_available_at :: int
  ej_token :: "string option"
  ej_owner :: "string option"
  ej_expires_at :: "int option"
  ej_error :: "string option"
  ej_created_at :: int
  ej_updated_at :: int
  ej_completed_at :: "int option"

record embedding =
  em_fact :: int
  em_identity :: string
  em_dim :: int
  em_vector :: string

record queue_row =
  q_id :: int
  q_payload :: string
  q_created_at :: rat
  q_attempts :: int
  q_error :: "string option"
  q_status :: string
  q_not_before :: "rat option"
  q_owner :: "string option"
  q_until :: "rat option"
  q_hash :: "string option"
  q_proposal :: "json option"
  q_proposal_hash :: "string option"

record entity =
  en_id :: int
  en_name :: string
  en_type :: string
  en_aliases :: string

record db =
  facts :: "fact list"
  next_fact :: int
  conflicts :: "conflict list"
  members :: "(string \<times> int) list"
  reviews :: "review list"
  resolutions :: "resolution list"
  clients :: "client list"
  sessions :: "session list"
  observations :: "observation list"
  provenances :: "provenance list"
  logs :: "write_log list"
  erasures :: "erasure_log list"
  entities :: "entity list"
  next_entity :: int
  fact_entities :: "(int \<times> int) list"
  jobs :: "embedding_job list"
  embeddings :: "embedding list"
  queue :: "queue_row list"
  next_queue :: int
  uuid_ctr :: nat

text \<open>
  What an operation takes from its process: three readings of \<open>datetime.now(utc).isoformat\<close>
  (one when it starts, one inside the first callee that reads the clock, one after that; \<open>tick\<close> is the first as an instant, for columns the program
  compares as fixed-width stamps), the \<open>uuid4\<close> values in the order they are drawn,
  and SHA-256 (of a text, and of the canonical JSON text of a value).
\<close>

record env =
  now :: string
  later :: string
  latest :: string
  tick :: int
  uuid :: "nat \<Rightarrow> string"
  sha256 :: "string \<Rightarrow> string"
  sha256_json :: "json \<Rightarrow> string"

type_synonym 'a dbtx = "(db, 'a) tx"

definition uuid4 :: "env \<Rightarrow> string dbtx" where
  "uuid4 env = (\<lambda>d. Inr (uuid env (uuid_ctr d), d\<lparr>uuid_ctr := Suc (uuid_ctr d)\<rparr>))"

section \<open>The facts table\<close>

text \<open>\<open>invalid_at IS NULL AND superseded_by IS NULL\<close>, and with \<open>conflict_group IS NULL\<close>.\<close>

definition current :: "fact \<Rightarrow> bool" where
  "current f \<longleftrightarrow> f_invalid_at f = None \<and> f_superseded_by f = None"

definition active :: "fact \<Rightarrow> bool" where
  "active f \<longleftrightarrow> current f \<and> f_conflict f = None"

definition is_state :: "fact \<Rightarrow> bool" where
  "is_state f \<longleftrightarrow> f_kind f = Some ''state''"

text \<open>The rows of the partial index \<open>uq_facts_current_state_slot\<close> and their keys.\<close>

definition in_slot_index :: "fact \<Rightarrow> bool" where
  "in_slot_index f \<longleftrightarrow> is_state f \<and> f_subject f \<noteq> None \<and> f_predicate f \<noteq> None \<and> active f"

definition slot_key :: "fact \<Rightarrow> string \<times> string option \<times> string option" where
  "slot_key f = (f_scope f, f_subject f, f_predicate f)"

definition slots_unique :: "fact list \<Rightarrow> bool" where
  "slots_unique fs \<longleftrightarrow> distinct (map slot_key (filter in_slot_index fs))"

definition find_fact :: "int \<Rightarrow> db \<Rightarrow> fact option" where
  "find_fact i d = first_where (\<lambda>f. f_id f = i) (facts d)"

text \<open>\<open>UPDATE facts SET ... WHERE ...\<close>: the row count, or the index's refusal.\<close>

definition update_facts :: "(fact \<Rightarrow> bool) \<Rightarrow> (fact \<Rightarrow> fact) \<Rightarrow> nat dbtx" where
  "update_facts p g = (\<lambda>d.
     let fs = update_where p g (facts d) in
     if slots_unique fs then Inr (count_where p (facts d), d\<lparr>facts := fs\<rparr>)
     else Inl (IntegrityError ''UNIQUE constraint failed: uq_facts_current_state_slot''))"

text \<open>\<open>INSERT INTO facts\<close> of a row made for the next \<open>AUTOINCREMENT\<close> id, which it returns.\<close>

definition insert_row :: "(int \<Rightarrow> fact) \<Rightarrow> int dbtx" where
  "insert_row mk = (\<lambda>d.
     let fs = facts d @ [mk (next_fact d)] in
     if slots_unique fs then Inr (next_fact d, d\<lparr>facts := fs, next_fact := next_fact d + 1\<rparr>)
     else Inl (IntegrityError ''UNIQUE constraint failed: uq_facts_current_state_slot''))"

text \<open>\<open>INSERT\<close> into the conflict tables, whose primary keys are the id and the pair.\<close>

definition insert_conflict :: "conflict \<Rightarrow> unit dbtx" where
  "insert_conflict c = (\<lambda>d.
     if \<exists>x \<in> set (conflicts d). cf_id x = cf_id c
     then Inl (IntegrityError ''UNIQUE constraint failed: fact_conflicts.conflict_id'')
     else Inr ((), d\<lparr>conflicts := conflicts d @ [c]\<rparr>))"

definition insert_member :: "string \<Rightarrow> int \<Rightarrow> unit dbtx" where
  "insert_member c i = (\<lambda>d.
     if (c, i) \<in> set (members d)
     then Inl (IntegrityError ''UNIQUE constraint failed: fact_conflict_members'')
     else Inr ((), d\<lparr>members := members d @ [(c, i)]\<rparr>))"

text \<open>\<open>ORDER BY fact_id\<close> and \<open>fact_id IN (...)\<close>.\<close>

definition by_id :: "fact list \<Rightarrow> fact list" where
  "by_id fs = sort_key f_id fs"

definition in_slot :: "string \<Rightarrow> string \<Rightarrow> string \<Rightarrow> fact \<Rightarrow> bool" where
  "in_slot sc subj pr f \<longleftrightarrow>
     is_state f \<and> f_scope f = sc \<and> f_subject f = Some subj \<and> f_predicate f = Some pr"

section \<open>Well-formed stores\<close>

text \<open>
  \<open>ids_ok\<close>: fact ids are a key below the \<open>AUTOINCREMENT\<close> counter.  \<open>lineage_ok\<close>: a superseded
  fact is invalid, its successor exists, and following \<open>superseded_by\<close> never returns to where
  it started.  \<open>groups_ok\<close>: the conflict group of a current fact is an open conflict of its
  scope (and, for state, of its slot) that lists it as a member, except for the facts named,
  which an operation is about to attach.
\<close>

definition ids_ok :: "db \<Rightarrow> bool" where
  "ids_ok d \<longleftrightarrow> distinct (map f_id (facts d)) \<and> (\<forall>f \<in> set (facts d). 0 < f_id f \<and> f_id f < next_fact d)
     \<and> 0 < next_fact d"

definition successor :: "fact list \<Rightarrow> (int \<times> int) set" where
  "successor fs = {(f_id f, j) |f j. f \<in> set fs \<and> f_superseded_by f = Some j}"

definition lineage_ok :: "db \<Rightarrow> bool" where
  "lineage_ok d \<longleftrightarrow>
     (\<forall>f \<in> set (facts d). f_superseded_by f \<noteq> None \<longrightarrow>
        f_invalid_at f \<noteq> None \<and> (\<exists>g \<in> set (facts d). Some (f_id g) = f_superseded_by f))
     \<and> acyclic (successor (facts d))"

definition open_group :: "db \<Rightarrow> fact \<Rightarrow> string \<Rightarrow> bool" where
  "open_group d f c \<longleftrightarrow> (\<exists>cf \<in> set (conflicts d). cf_id cf = c \<and> cf_resolved_at cf = None
     \<and> cf_scope cf = f_scope f
     \<and> (is_state f \<longrightarrow> f_subject f = Some (cf_subject cf) \<and> f_predicate f = Some (cf_predicate cf)))"

definition groups_ok :: "int set \<Rightarrow> db \<Rightarrow> bool" where
  "groups_ok X d \<longleftrightarrow> distinct (map cf_id (conflicts d)) \<and>
     (\<forall>f \<in> set (facts d). \<forall>c. current f \<and> f_conflict f = Some c \<longrightarrow>
        open_group d f c \<and> (f_id f \<notin> X \<longrightarrow> (c, f_id f) \<in> set (members d)))"

definition wf_db :: "db \<Rightarrow> bool" where
  "wf_db d \<longleftrightarrow> ids_ok d \<and> slots_unique (facts d) \<and> lineage_ok d \<and> groups_ok {} d"

lemma find_fact_Some: "find_fact i d = Some f \<Longrightarrow> f \<in> set (facts d) \<and> f_id f = i"
  by (auto simp: find_fact_def dest: first_where_Some)

lemma find_fact_None: "find_fact i d = None \<longleftrightarrow> (\<forall>f \<in> set (facts d). f_id f \<noteq> i)"
  by (simp add: find_fact_def first_where_None)

lemma find_fact_in: "ids_ok d \<Longrightarrow> f \<in> set (facts d) \<Longrightarrow> find_fact (f_id f) d = Some f"
  unfolding find_fact_def ids_ok_def by (rule first_where_unique) simp_all

lemma same_id_same_fact:
  "ids_ok d \<Longrightarrow> f \<in> set (facts d) \<Longrightarrow> g \<in> set (facts d) \<Longrightarrow> f_id f = f_id g \<Longrightarrow> f = g"
  by (metis find_fact_in option.inject)

lemma update_facts_Inr:
  "update_facts p g d = Inr (n, t) \<longleftrightarrow>
     t = d\<lparr>facts := update_where p g (facts d)\<rparr> \<and> n = count_where p (facts d)
     \<and> slots_unique (update_where p g (facts d))"
  by (auto simp: update_facts_def Let_def)

lemma insert_row_Inr:
  "insert_row mk d = Inr (i, t) \<longleftrightarrow>
     i = next_fact d \<and> t = d\<lparr>facts := facts d @ [mk i], next_fact := i + 1\<rparr>
     \<and> slots_unique (facts d @ [mk i])"
  by (auto simp: insert_row_def Let_def)

lemma insert_conflict_Inr:
  "insert_conflict c d = Inr (u, t) \<longleftrightarrow>
     t = d\<lparr>conflicts := conflicts d @ [c]\<rparr> \<and> (\<forall>x \<in> set (conflicts d). cf_id x \<noteq> cf_id c)"
  by (auto simp: insert_conflict_def)

lemma insert_member_Inr:
  "insert_member c i d = Inr (u, t) \<longleftrightarrow>
     t = d\<lparr>members := members d @ [(c, i)]\<rparr> \<and> (c, i) \<notin> set (members d)"
  by (auto simp: insert_member_def)

lemma set_by_id [simp]: "set (by_id fs) = set fs"
  by (simp add: by_id_def)

lemma slots_unique_current:
  assumes "slots_unique fs" "f \<in> set fs" "g \<in> set fs"
    and "in_slot_index f" "in_slot_index g" "slot_key f = slot_key g"
  shows "f = g"
  using assms unfolding slots_unique_def distinct_map inj_on_def by auto

end
