(* ===== verification/StoreInv.thy ===== *)
theory StoreInv
  imports Store
begin

text \<open>
  How the invariants of the store survive the shapes of update the program makes: rewriting
  columns that no invariant reads, retiring facts in favour of a successor, and inserting a
  fresh row.
\<close>

named_theorems keep \<open>an update keeps a part of the store invariant\<close>

lemma ids_ok_update [keep]:
  "ids_ok d \<Longrightarrow> (\<And>f. p f \<Longrightarrow> f_id (g f) = f_id f) \<Longrightarrow> ids_ok (d\<lparr>facts := update_where p g (facts d)\<rparr>)"
  by (auto simp: ids_ok_def map_update_where set_update_where)

lemma slots_unique_update:
  assumes "slots_unique fs"
    and "\<And>f. f \<in> set fs \<Longrightarrow> p f \<Longrightarrow> in_slot_index (g f) \<Longrightarrow> in_slot_index f \<and> slot_key (g f) = slot_key f"
  shows "slots_unique (update_where p g fs)"
  using assms unfolding slots_unique_def by (intro distinct_keys_update) auto

lemma slots_unique_append:
  "slots_unique (fs @ [f]) \<longleftrightarrow>
     slots_unique fs \<and> (in_slot_index f \<longrightarrow> (\<forall>g \<in> set fs. in_slot_index g \<longrightarrow> slot_key g \<noteq> slot_key f))"
  by (simp add: slots_unique_def image_iff) metis

lemma find_fact_update:
  assumes "\<And>f. p f \<Longrightarrow> f_id (g f) = f_id f"
  shows "find_fact i (d\<lparr>facts := update_where p g (facts d)\<rparr>)
    = map_option (\<lambda>f. if p f then g f else f) (find_fact i d)"
proof -
  have "find (\<lambda>f. f_id f = i) (update_where p g fs)
      = map_option (\<lambda>f. if p f then g f else f) (find (\<lambda>f. f_id f = i) fs)" for fs
    using assms by (induction fs) auto
  then show ?thesis by (simp add: find_fact_def first_where_def)
qed

lemma count_where_id:
  assumes "ids_ok d"
  shows "count_where (\<lambda>f. f_id f = i \<and> q f) (facts d)
    = (case find_fact i d of None \<Rightarrow> 0 | Some f \<Rightarrow> if q f then 1 else 0)"
proof -
  have "count_where (\<lambda>f. f_id f = i \<and> q f) (facts d) = (if \<exists>f \<in> set (facts d). f_id f = i \<and> q f then 1 else 0)"
    using assms by (intro count_where_key) (simp add: ids_ok_def)
  also have "(\<exists>f \<in> set (facts d). f_id f = i \<and> q f) \<longleftrightarrow> (\<exists>f. find_fact i d = Some f \<and> q f)"
    using assms find_fact_in find_fact_Some by metis
  finally show ?thesis by (auto split: option.splits)
qed

subsection \<open>Lineage\<close>

lemma acyclic_into_sink:
  assumes "acyclic S" and "S' \<subseteq> S \<union> A \<times> {j}" and "j \<notin> Domain S'"
  shows "acyclic S'"
proof -
  have step: "(x, y) \<in> S\<^sup>+ \<or> y = j" if "(x, y) \<in> S'\<^sup>+" for x y
    using that
  proof induction
    case (base y)
    with assms(2) show ?case by auto
  next
    case (step y z)
    from step.hyps assms(3) have "y \<noteq> j" by auto
    with step.IH have xy: "(x, y) \<in> S\<^sup>+" by simp
    from step.hyps assms(2) have "(y, z) \<in> S \<or> z = j" by auto
    with xy show ?case by (auto intro: trancl_into_trancl)
  qed
  show ?thesis
  proof (rule acyclicI, intro allI notI)
    fix x assume cyc: "(x, x) \<in> S'\<^sup>+"
    then have "x \<in> Domain S'" by (metis tranclD Domain.DomainI)
    with assms(3) have "x \<noteq> j" by auto
    with step [OF cyc] assms(1) show False by (auto simp: acyclic_def)
  qed
qed

lemma successor_Cons:
  "successor (f # fs) = {(f_id f, j) |j. f_superseded_by f = Some j} \<union> successor fs"
  by (auto simp: successor_def)

lemma successor_update:
  "(\<And>f. p f \<Longrightarrow> f_id (g f) = f_id f \<and> f_superseded_by (g f) = f_superseded_by f)
    \<Longrightarrow> successor (update_where p g fs) = successor fs"
proof (induction fs)
  case Nil
  then show ?case by simp
next
  case (Cons f fs)
  have "successor (update_where p g fs) = successor fs" by (rule Cons.IH) (rule Cons.prems)
  with Cons.prems [of f] show ?case by (simp add: successor_Cons)
qed

lemma lineage_same:
  assumes "lineage_ok d"
    and "\<And>f. p f \<Longrightarrow> f_id (g f) = f_id f \<and> f_superseded_by (g f) = f_superseded_by f
        \<and> (f_invalid_at f \<noteq> None \<longrightarrow> f_invalid_at (g f) \<noteq> None)"
  shows "lineage_ok (d\<lparr>facts := update_where p g (facts d)\<rparr>)"
proof -
  let ?fs = "update_where p g (facts d)"
  have "successor ?fs = successor (facts d)"
    using assms(2) by (intro successor_update) simp
  moreover have "\<exists>h \<in> set ?fs. Some (f_id h) = f_superseded_by f \<and> f_invalid_at f \<noteq> None"
    if f: "f \<in> set ?fs" "f_superseded_by f \<noteq> None" for f
  proof -
    from f(1) obtain f0 where f0: "f0 \<in> set (facts d)" "f = (if p f0 then g f0 else f0)"
      by (auto simp: set_update_where)
    with assms(2) f(2) have s: "f_superseded_by f = f_superseded_by f0" "f_superseded_by f0 \<noteq> None"
      by (auto split: if_splits)
    with assms(1) f0(1) obtain h where h: "h \<in> set (facts d)" "Some (f_id h) = f_superseded_by f0"
      "f_invalid_at f0 \<noteq> None"
      by (auto simp: lineage_ok_def)
    let ?h = "if p h then g h else h"
    have "?h \<in> set ?fs" using h(1) by (auto simp: set_update_where)
    moreover have "f_id ?h = f_id h" using assms(2) by auto
    moreover have "f_invalid_at f \<noteq> None" using assms(2) f0(2) h(3) by (auto split: if_splits)
    ultimately show ?thesis using h(2) s(1) by metis
  qed
  ultimately show ?thesis using assms(1) by (auto simp: lineage_ok_def)
qed

text \<open>Retiring the rows \<open>p\<close> in favour of a fact \<open>j\<close> that has no successor.\<close>

lemma lineage_retire:
  assumes ok: "lineage_ok d"
    and g: "\<And>f. p f \<Longrightarrow> f_id (g f) = f_id f \<and> f_superseded_by (g f) = Some j \<and> f_invalid_at (g f) \<noteq> None"
    and h: "h \<in> set (facts d)" "f_id h = j"
    and sink: "\<And>f. f \<in> set (facts d) \<Longrightarrow> f_id f = j \<Longrightarrow> \<not> p f \<and> f_superseded_by f = None"
  shows "lineage_ok (d\<lparr>facts := update_where p g (facts d)\<rparr>)"
proof -
  let ?fs = "update_where p g (facts d)"
  let ?A = "f_id ` {f \<in> set (facts d). p f}"
  have sub: "successor ?fs \<subseteq> successor (facts d) \<union> ?A \<times> {j}"
    using g by (auto simp: successor_def set_update_where split: if_splits)
  have "j \<notin> Domain (successor ?fs)"
    using g sink by (auto simp: successor_def set_update_where Domain_iff split: if_splits)
  with sub ok have acy: "acyclic (successor ?fs)"
    by (metis acyclic_into_sink lineage_ok_def)
  have "\<exists>h \<in> set ?fs. Some (f_id h) = f_superseded_by f \<and> f_invalid_at f \<noteq> None"
    if f: "f \<in> set ?fs" "f_superseded_by f \<noteq> None" for f
  proof -
    from f(1) obtain f0 where f0: "f0 \<in> set (facts d)" "f = (if p f0 then g f0 else f0)"
      by (auto simp: set_update_where)
    show ?thesis
    proof (cases "p f0")
      case True
      have "h \<in> set ?fs" using h sink by (auto simp: set_update_where intro!: rev_image_eqI)
      with True g f0 h show ?thesis by auto
    next
      case False
      with f0 f(2) ok obtain k where k: "k \<in> set (facts d)" "Some (f_id k) = f_superseded_by f0"
        "f_invalid_at f0 \<noteq> None"
        by (auto simp: lineage_ok_def)
      let ?k = "if p k then g k else k"
      have "?k \<in> set ?fs" using k(1) by (auto simp: set_update_where)
      moreover have "f_id ?k = f_id k" using g by auto
      ultimately show ?thesis using k f0 False by metis
    qed
  qed
  with acy show ?thesis by (auto simp: lineage_ok_def)
qed

lemma lineage_append:
  assumes "lineage_ok d" and "f_superseded_by f = None"
  shows "lineage_ok (d\<lparr>facts := facts d @ [f], next_fact := n\<rparr>)"
proof -
  have "successor (facts d @ [f]) = successor (facts d)"
    using assms(2) by (auto simp: successor_def)
  with assms show ?thesis by (auto simp: lineage_ok_def)
qed

subsection \<open>Groups\<close>

text \<open>An update that leaves slot and group alone, and makes no fact current again.\<close>

definition slot_frame :: "(fact \<Rightarrow> bool) \<Rightarrow> (fact \<Rightarrow> fact) \<Rightarrow> bool" where
  "slot_frame p g \<longleftrightarrow> (\<forall>f. p f \<longrightarrow> f_id (g f) = f_id f \<and> f_kind (g f) = f_kind f
     \<and> f_scope (g f) = f_scope f \<and> f_subject (g f) = f_subject f \<and> f_predicate (g f) = f_predicate f
     \<and> f_conflict (g f) = f_conflict f \<and> (current (g f) \<longrightarrow> current f))"

lemma groups_ok_update:
  assumes "groups_ok X d" and "slot_frame p g"
  shows "groups_ok X (d\<lparr>facts := update_where p g (facts d)\<rparr>)"
  using assms
  by (auto simp: groups_ok_def slot_frame_def set_update_where open_group_def is_state_def)

lemma slot_frame_slots:
  assumes "slots_unique fs" and "slot_frame p g"
  shows "slots_unique (update_where p g fs)"
  using assms(1)
proof (rule slots_unique_update)
  fix f assume "p f" "in_slot_index (g f)"
  with assms(2) show "in_slot_index f \<and> slot_key (g f) = slot_key f"
    by (auto simp: slot_frame_def in_slot_index_def slot_key_def active_def is_state_def)
qed

lemma groups_ok_weaken: "groups_ok X d \<Longrightarrow> X \<subseteq> Y \<Longrightarrow> groups_ok Y d"
  unfolding groups_ok_def by blast

subsection \<open>The invariant as a whole\<close>

lemma wf_retire:
  assumes wf: "wf_db d" and frame: "slot_frame p g"
    and g: "\<And>f. p f \<Longrightarrow> f_superseded_by (g f) = Some j \<and> f_invalid_at (g f) \<noteq> None"
    and h: "h \<in> set (facts d)" "f_id h = j" "f_superseded_by h = None" "\<not> p h"
  shows "wf_db (d\<lparr>facts := update_where p g (facts d)\<rparr>)"
proof -
  have ids: "ids_ok d" using wf by (simp add: wf_db_def)
  have sink: "\<not> p f \<and> f_superseded_by f = None" if "f \<in> set (facts d)" "f_id f = j" for f
    using same_id_same_fact [OF ids that(1) h(1)] h that by simp
  have "f_id (g f) = f_id f \<and> f_superseded_by (g f) = Some j \<and> f_invalid_at (g f) \<noteq> None" if "p f" for f
    using frame g that by (simp add: slot_frame_def)
  then have "lineage_ok (d\<lparr>facts := update_where p g (facts d)\<rparr>)"
    using wf h(1,2) sink by (intro lineage_retire) (auto simp: wf_db_def)
  with wf frame show ?thesis
    by (auto simp: wf_db_def intro!: ids_ok_update slot_frame_slots groups_ok_update)
      (auto simp: slot_frame_def)
qed

lemma wf_frame:
  assumes wf: "wf_db d" and frame: "slot_frame p g"
    and g: "\<And>f. p f \<Longrightarrow> f_superseded_by (g f) = f_superseded_by f
        \<and> (f_invalid_at f \<noteq> None \<longrightarrow> f_invalid_at (g f) \<noteq> None)"
  shows "wf_db (d\<lparr>facts := update_where p g (facts d)\<rparr>)"
  using wf frame g
  by (auto simp: wf_db_def intro!: ids_ok_update slot_frame_slots groups_ok_update lineage_same)
    (auto simp: slot_frame_def)

section \<open>Stores to start from\<close>

text \<open>The row the column defaults of the schema make, and the store right after \<open>migrate\<close>.\<close>

definition default_fact :: "int \<Rightarrow> string \<Rightarrow> string \<Rightarrow> string \<Rightarrow> fact" where
  "default_fact i content sc created =
     \<lparr>f_id = i, f_content = content, f_category = ''general'', f_tags = [], f_trust = 1/2,
      f_created_at = created, f_valid_from = None, f_valid_to = None, f_invalid_at = None,
      f_expired_at = None, f_superseded_by = None, f_kind = None, f_subject = None,
      f_predicate = None, f_object = None, f_object_entity = None, f_confidence = None,
      f_authority = None, f_scope = sc, f_sensitivity = ''normal'', f_correction = None,
      f_conflict = None\<rparr>"

definition empty_db :: db where
  "empty_db = \<lparr>facts = [], next_fact = 1, conflicts = [], members = [], reviews = [],
     resolutions = [], clients = [], sessions = [], observations = [], provenances = [],
     logs = [], erasures = [], entities = [], next_entity = 1, fact_entities = [], jobs = [], embeddings = [], queue = [],
     next_queue = 1, uuid_ctr = 0\<rparr>"

lemma wf_empty_db: "wf_db empty_db"
  by (simp add: wf_db_def empty_db_def ids_ok_def slots_unique_def lineage_ok_def groups_ok_def
      successor_def acyclic_def)

end
