(* ===== verification/Temporal.thy ===== *)
theory Temporal
  imports StoreInv "HOL-Library.List_Lexorder" "HOL-Library.Char_ord" "HOL-Library.Product_Lexorder"
begin

text \<open>
  \<^verbatim>\<open>enfold/temporal.py\<close>: the token heuristics that separate a value update from a
  restatement, heuristic supersession (invalidate, never delete), the supersession history
  walk, and the bitemporal as-of predicate.
\<close>

section \<open>Tokens\<close>

definition STOPWORDS :: "string list" where
  "STOPWORDS = [''a'', ''an'', ''the'', ''is'', ''are'', ''was'', ''were'', ''be'', ''been'', ''being'',
     ''am'', ''of'', ''to'', ''in'', ''on'', ''at'', ''for'', ''and'', ''or'', ''with'', ''by'',
     ''as'', ''it'', ''its'', ''this'', ''that'', ''these'', ''those'', ''from'', ''into'', ''over'',
     ''under'', ''has'', ''have'', ''had'', ''do'', ''does'', ''did'',
     ''will'', ''would'', ''can'', ''could'', ''should'', ''may'', ''might'', ''must'', ''not'', ''no'']"

definition STATE_WORD_GROUPS :: "string list list" where
  "STATE_WORD_GROUPS = [[''enabled'', ''disabled''], [''active'', ''inactive'', ''archived''],
     [''on'', ''off''], [''open'', ''closed''], [''paused'', ''resumed''], [''up'', ''down''],
     [''alive'', ''dead''], [''started'', ''stopped'']]"

definition STATE_WORDS :: "string list" where
  "STATE_WORDS = concat STATE_WORD_GROUPS"

definition NEGATION_WORDS :: "string list" where
  "NEGATION_WORDS = [''not'', ''no'', ''never'', ''without'']"

definition SUFFIXES :: "string list" where
  "SUFFIXES = [''ation'', ''ing'', ''ed'', ''ic'', ''ion'', ''s'']"

definition norm_token_sequence :: "string \<Rightarrow> string list" where
  "norm_token_sequence text = find_runs is_key_char [] (lower text)"

definition norm_tokens :: "string \<Rightarrow> string set" where
  "norm_tokens text = set (norm_token_sequence text)"

definition value_tokens :: "string \<Rightarrow> string list" where
  "value_tokens text = filter (list_ex is_digit) (norm_token_sequence text)"

definition content_tokens :: "string \<Rightarrow> string set" where
  "content_tokens text = norm_tokens text - set STOPWORDS"

definition state_words :: "string \<Rightarrow> string set" where
  "state_words text = content_tokens text \<inter> set STATE_WORDS"

definition negation_words :: "string \<Rightarrow> string set" where
  "negation_words text = norm_tokens text \<inter> set NEGATION_WORDS"

definition stems :: "string \<Rightarrow> string list" where
  "stems t = map (\<lambda>x. take (length t - length x) t)
     (filter (\<lambda>x. suffix x t \<and> length x + 2 < length t) SUFFIXES)"

definition subjectish_tokens :: "string \<Rightarrow> string set" where
  "subjectish_tokens text =
     (let tokens = content_tokens text - set STATE_WORDS in tokens \<union> (\<Union>t \<in> tokens. set (stems t)))"

definition has_subjectish_overlap :: "string \<Rightarrow> string \<Rightarrow> bool" where
  "has_subjectish_overlap content other \<longleftrightarrow> subjectish_tokens content \<inter> subjectish_tokens other \<noteq> {}"

definition has_opposing_state_words :: "bool \<Rightarrow> string \<Rightarrow> string \<Rightarrow> bool" where
  "has_opposing_state_words require_context content other \<longleftrightarrow>
     (if require_context \<and> \<not> has_subjectish_overlap content other then False
      else let a = state_words content; b = state_words other in
        if a = {} \<or> b = {} then False
        else list_ex (\<lambda>g. a \<inter> set g \<noteq> {} \<and> b \<inter> set g \<noteq> {} \<and> a \<inter> set g \<noteq> b \<inter> set g) STATE_WORD_GROUPS)"

definition has_negation_mismatch :: "bool \<Rightarrow> string \<Rightarrow> string \<Rightarrow> bool" where
  "has_negation_mismatch require_context content other \<longleftrightarrow>
     (if require_context \<and> \<not> has_subjectish_overlap content other then False
      else (negation_words content \<noteq> {}) \<noteq> (negation_words other \<noteq> {}))"

definition is_value_update :: "string \<Rightarrow> string \<Rightarrow> bool" where
  "is_value_update content other =
     (let a = value_tokens content; b = value_tokens other in
      if a = b then
        has_opposing_state_words True content other \<or> has_negation_mismatch True content other
      else if set a = {} \<or> set b = {} then
        has_opposing_state_words True content other \<or> has_negation_mismatch True content other
      else content_tokens content - set a - state_words content
             = content_tokens other - set b - state_words other)"

text \<open>
  \<open>candidate.get(...)\<close> is truthy for a non-zero id and for a non-empty group.
\<close>

definition truthy_id :: "int option \<Rightarrow> bool" where
  "truthy_id v \<longleftrightarrow> (case v of None \<Rightarrow> False | Some i \<Rightarrow> i \<noteq> 0)"

definition truthy_text :: "string option \<Rightarrow> bool" where
  "truthy_text v \<longleftrightarrow> (case v of None \<Rightarrow> False | Some s \<Rightarrow> s \<noteq> [])"

fun find_value_update_target :: "string \<Rightarrow> fact list \<Rightarrow> fact option" where
  "find_value_update_target content [] = None"
| "find_value_update_target content (c # cs) =
     (if truthy_id (f_superseded_by c) then find_value_update_target content cs
      else if f_kind c = Some ''state'' \<or> truthy_text (f_conflict c) then find_value_update_target content cs
      else if is_value_update content (f_content c) then Some c
      else find_value_update_target content cs)"

section \<open>Heuristic supersession\<close>

definition protected_from_heuristic_supersede :: "db \<Rightarrow> int \<Rightarrow> bool" where
  "protected_from_heuristic_supersede d i =
     (case find_fact i d of None \<Rightarrow> False
      | Some f \<Rightarrow> f_kind f = Some ''state'' \<or> f_conflict f \<noteq> None)"

definition coalesce :: "'a option \<Rightarrow> 'a option \<Rightarrow> 'a option" where
  "coalesce a b = (case a of None \<Rightarrow> b | Some x \<Rightarrow> Some x)"

text \<open>\<open>ts\<close> is the database's \<open>CURRENT_TIMESTAMP\<close>.\<close>

definition supersede :: "string \<Rightarrow> int \<Rightarrow> int \<Rightarrow> bool dbtx" where
  "supersede ts old new =
     andThen (gets (\<lambda>d. protected_from_heuristic_supersede d old)) (\<lambda>protected.
     if protected then ret False else
     andThen (gets (\<lambda>d. Option.bind (find_fact new d) f_valid_from)) (\<lambda>successor_from.
     andThen (update_facts (\<lambda>f. f_id f = old \<and> f_invalid_at f = None)
       (\<lambda>f. f\<lparr>f_invalid_at := Some ts, f_superseded_by := Some new, f_expired_at := Some ts,
              f_valid_to := coalesce (f_valid_to f) successor_from\<rparr>)) (\<lambda>n.
     ret (n = 1))))"

section \<open>History\<close>

definition ids_of :: "fact list \<Rightarrow> int set" where
  "ids_of fs = f_id ` set fs"

definition predecessors :: "fact list \<Rightarrow> fact list \<Rightarrow> fact list" where
  "predecessors fs chain =
     filter (\<lambda>r. (case f_superseded_by r of None \<Rightarrow> False | Some j \<Rightarrow> j \<in> ids_of chain)
                 \<and> f_id r \<notin> ids_of chain) fs"

definition successors :: "fact list \<Rightarrow> fact list \<Rightarrow> fact list" where
  "successors fs chain =
     filter (\<lambda>r. (\<exists>c \<in> set chain. f_superseded_by c = Some (f_id r) \<and> f_id r \<noteq> 0)
                 \<and> f_id r \<notin> ids_of chain) fs"

lemma closure_measure:
  assumes "set new \<subseteq> set fs" "new \<noteq> []" "\<forall>r \<in> set new. f_id r \<notin> ids_of chain"
  shows "length (filter (\<lambda>r. f_id r \<notin> ids_of (chain @ new)) fs)
       < length (filter (\<lambda>r. f_id r \<notin> ids_of chain) fs)"
proof -
  obtain r where "r \<in> set new" using assms(2) by (cases new) auto
  then have "r \<in> set (filter (\<lambda>r. f_id r \<notin> ids_of chain) fs)" and "f_id r \<in> ids_of (chain @ new)"
    using assms by (auto simp: ids_of_def)
  then have "length (filter (\<lambda>r. f_id r \<notin> ids_of (chain @ new)) (filter (\<lambda>r. f_id r \<notin> ids_of chain) fs))
      < length (filter (\<lambda>r. f_id r \<notin> ids_of chain) fs)"
    by (intro length_filter_less) auto
  moreover have "filter (\<lambda>r. f_id r \<notin> ids_of (chain @ new)) (filter (\<lambda>r. f_id r \<notin> ids_of chain) fs)
      = filter (\<lambda>r. f_id r \<notin> ids_of (chain @ new)) fs"
    by (auto simp: ids_of_def intro: filter_cong)
  ultimately show ?thesis by simp
qed

text \<open>
  The two closure loops.  Each round adds every row not yet in the chain that points at it (or
  that it points at), until a round adds nothing.
\<close>

function walk_back :: "fact list \<Rightarrow> fact list \<Rightarrow> fact list" where
  "walk_back fs chain =
     (let new = predecessors fs chain in if new = [] then chain else walk_back fs (chain @ new))"
  by pat_completeness auto
termination
  by (relation "measure (\<lambda>(fs, chain). length (filter (\<lambda>r. f_id r \<notin> ids_of chain) fs))")
    (auto intro!: closure_measure simp: predecessors_def)

function walk_forward :: "fact list \<Rightarrow> fact list \<Rightarrow> fact list" where
  "walk_forward fs chain =
     (let new = successors fs chain in if new = [] then chain else walk_forward fs (chain @ new))"
  by pat_completeness auto
termination
  by (relation "measure (\<lambda>(fs, chain). length (filter (\<lambda>r. f_id r \<notin> ids_of chain) fs))")
    (auto intro!: closure_measure simp: successors_def)

declare walk_back.simps [simp del] walk_forward.simps [simp del]

definition fact_history :: "db \<Rightarrow> int \<Rightarrow> fact list" where
  "fact_history d i =
     (case find_fact i d of
        None \<Rightarrow> []
      | Some row \<Rightarrow>
          sort_key (\<lambda>f. (f_created_at f, f_id f))
            (walk_forward (facts d) (walk_back (facts d) [row])))"

section \<open>Bitemporal as-of\<close>

definition iso_or_none :: "string \<Rightarrow> instant option res" where
  "iso_or_none s = (case fromisoformat s of
     None \<Rightarrow> Inr None | Some t \<Rightarrow> bindE (to_utc t) (\<lambda>u. Inr (Some u)))"

fun replace_first_space :: "string \<Rightarrow> string" where
  "replace_first_space [] = []"
| "replace_first_space (c # cs) = (if c = CHR '' '' then CHR ''T'' # cs else c # replace_first_space cs)"

definition parse_clock :: "string option \<Rightarrow> instant option res" where
  "parse_clock value = (case value of
     None \<Rightarrow> Inr None
   | Some v \<Rightarrow>
       let candidate = strip v in
       if candidate = [] then Inr None
       else
         let candidate = z_to_offset candidate in
         (case fromisoformat candidate of
            None \<Rightarrow> iso_or_none (replace_first_space candidate)
          | Some t \<Rightarrow> bindE (to_utc t) (\<lambda>u. Inr (Some u))))"

definition after :: "instant option \<Rightarrow> instant \<Rightarrow> bool" where
  "after t p \<longleftrightarrow> (case t of None \<Rightarrow> False | Some u \<Rightarrow> p < u)"

definition ended_by :: "instant option \<Rightarrow> instant \<Rightarrow> bool" where
  "ended_by t p \<longleftrightarrow> (case t of None \<Rightarrow> False | Some u \<Rightarrow> u \<le> p)"

text \<open>The valid-time block of the predicate, then its transaction-time block.\<close>

definition matches_valid :: "fact \<Rightarrow> string \<Rightarrow> string option \<Rightarrow> bool res" where
  "matches_valid row as_of_valid as_of_tx =
     bindE (parse_clock (Some as_of_valid)) (\<lambda>p. case p of None \<Rightarrow> Inr False | Some point \<Rightarrow>
     bindE (parse_clock (f_valid_from row)) (\<lambda>start.
     bindE (parse_clock (f_valid_to row)) (\<lambda>end0.
     if after start point then Inr False else
     bindE (if end0 = None \<and> as_of_tx = None \<and> (f_invalid_at row \<noteq> None \<or> f_superseded_by row \<noteq> None)
            then bindE (parse_clock (f_invalid_at row)) (\<lambda>e. Inr (e, e = None))
            else Inr (end0, False)) (\<lambda>(end1, unknown).
     if unknown then Inr False
     else if ended_by end1 point then Inr False
     else if as_of_tx = None \<and> f_expired_at row \<noteq> None then Inr False
     else Inr True))))"

definition matches_tx :: "fact \<Rightarrow> string \<Rightarrow> bool res" where
  "matches_tx row as_of_tx =
     bindE (parse_clock (Some as_of_tx)) (\<lambda>p. case p of None \<Rightarrow> Inr False | Some point \<Rightarrow>
     bindE (parse_clock (Some (f_created_at row))) (\<lambda>created.
     bindE (parse_clock (f_expired_at row)) (\<lambda>expired0.
     bindE (if expired0 = None \<and> f_superseded_by row \<noteq> None \<and> f_valid_to row = None
            then parse_clock (f_invalid_at row) else Inr expired0) (\<lambda>expired.
     if after created point then Inr False
     else if ended_by expired point then Inr False
     else Inr True))))"

definition row_matches_as_of :: "fact \<Rightarrow> string option \<Rightarrow> string option \<Rightarrow> bool res" where
  "row_matches_as_of row as_of_valid as_of_tx =
     bindE (case as_of_valid of None \<Rightarrow> Inr True | Some v \<Rightarrow> matches_valid row v as_of_tx) (\<lambda>ok.
     if \<not> ok then Inr False
     else (case as_of_tx of None \<Rightarrow> Inr True | Some t \<Rightarrow> matches_tx row t))"

section \<open>The detectors do not depend on the order of their arguments\<close>

lemma has_subjectish_overlap_sym: "has_subjectish_overlap a b = has_subjectish_overlap b a"
  by (auto simp: has_subjectish_overlap_def)

lemma has_opposing_state_words_sym: "has_opposing_state_words c a b = has_opposing_state_words c b a"
  unfolding has_opposing_state_words_def Let_def has_subjectish_overlap_sym [of a b]
  by (auto simp: list_ex_iff)

lemma has_negation_mismatch_sym: "has_negation_mismatch c a b = has_negation_mismatch c b a"
  unfolding has_negation_mismatch_def has_subjectish_overlap_sym [of a b] by auto

lemma not_own_opposite: "\<not> has_opposing_state_words c a a" "\<not> has_negation_mismatch c a a"
  by (auto simp: has_opposing_state_words_def has_negation_mismatch_def list_ex_iff Let_def)

text \<open>The value-update test is symmetric and never holds between a text and itself.\<close>

theorem is_value_update_symmetric:
  "is_value_update a b = is_value_update b a \<and> \<not> is_value_update a a"
  unfolding is_value_update_def Let_def
    has_opposing_state_words_sym [of True a b] has_negation_mismatch_sym [of True a b]
  by (auto simp: not_own_opposite)

section \<open>Supersession\<close>

lemma supersede_Inr:
  "supersede ts old new d = Inr (r, t) \<longleftrightarrow>
     (if protected_from_heuristic_supersede d old then \<not> r \<and> t = d
      else \<exists>n. update_facts (\<lambda>f. f_id f = old \<and> f_invalid_at f = None)
          (\<lambda>f. f\<lparr>f_invalid_at := Some ts, f_superseded_by := Some new, f_expired_at := Some ts,
             f_valid_to := coalesce (f_valid_to f) (Option.bind (find_fact new d) f_valid_from)\<rparr>) d = Inr (n, t)
        \<and> r = (n = 1))"
  by (auto simp: supersede_def andThen_Inr_iff)

theorem supersede_preserves_wf:
  assumes "wf_db d" and "supersede ts old new d = Inr (r, d')"
    and "find_fact new d = Some h" "f_superseded_by h = None" "old \<noteq> new"
  shows "wf_db d'"
proof (cases "protected_from_heuristic_supersede d old")
  case True
  with assms show ?thesis by (simp add: supersede_Inr)
next
  case False
  let ?p = "\<lambda>f. f_id f = old \<and> f_invalid_at f = None"
  let ?g = "\<lambda>f. f\<lparr>f_invalid_at := Some ts, f_superseded_by := Some new, f_expired_at := Some ts,
             f_valid_to := coalesce (f_valid_to f) (f_valid_from h)\<rparr>"
  from False assms(2,3) have "d' = d\<lparr>facts := update_where ?p ?g (facts d)\<rparr>"
    by (auto simp: supersede_Inr update_facts_Inr)
  moreover have "wf_db (d\<lparr>facts := update_where ?p ?g (facts d)\<rparr>)"
    using assms(1)
  proof (rule wf_retire)
    show "slot_frame ?p ?g" by (simp add: slot_frame_def current_def)
    show "h \<in> set (facts d)" "f_id h = new" using find_fact_Some [OF assms(3)] by auto
  qed (use assms(4,5) find_fact_Some [OF assms(3)] in auto)
  ultimately show ?thesis by simp
qed

lemma supersede_runs:
  assumes "wf_db d"
  shows "\<exists>r d'. supersede ts old new d = Inr (r, d')"
proof -
  let ?p = "\<lambda>f. f_id f = old \<and> f_invalid_at f = None"
  let ?g = "\<lambda>f. f\<lparr>f_invalid_at := Some ts, f_superseded_by := Some new, f_expired_at := Some ts,
             f_valid_to := coalesce (f_valid_to f) (Option.bind (find_fact new d) f_valid_from)\<rparr>"
  have "slots_unique (update_where ?p ?g (facts d))"
    using assms by (intro slot_frame_slots) (auto simp: wf_db_def slot_frame_def current_def)
  then show ?thesis by (auto simp: supersede_Inr update_facts_Inr)
qed

text \<open>Heuristic supersession never raises and never deletes.  It reports success exactly for
  an existing fact that is not typed state, in no conflict group and not yet invalid; that
  row then keeps its content and records the successor, and every other row is as before.
  Otherwise nothing changes.
\<close>

theorem supersede_effect:
  assumes wf: "wf_db d"
  shows "\<exists>r d'. supersede ts old new d = Inr (r, d')
    \<and> (r \<longleftrightarrow> (\<exists>f. find_fact old d = Some f \<and> \<not> is_state f \<and> f_conflict f = None \<and> f_invalid_at f = None))
    \<and> (\<not> r \<longrightarrow> facts d' = facts d)
    \<and> (r \<longrightarrow> (\<exists>f. find_fact old d' = Some f \<and> f_superseded_by f = Some new \<and> f_invalid_at f = Some ts
          \<and> map_option f_content (find_fact old d) = Some (f_content f)))
    \<and> (\<forall>i. i \<noteq> old \<longrightarrow> find_fact i d' = find_fact i d)"
proof -
  obtain r d' where run: "supersede ts old new d = Inr (r, d')" using supersede_runs [OF wf] by blast
  let ?p = "\<lambda>f. f_id f = old \<and> f_invalid_at f = None"
  let ?g = "\<lambda>f. f\<lparr>f_invalid_at := Some ts, f_superseded_by := Some new, f_expired_at := Some ts,
             f_valid_to := coalesce (f_valid_to f) (Option.bind (find_fact new d) f_valid_from)\<rparr>"
  show ?thesis
  proof (cases "protected_from_heuristic_supersede d old")
    case True
    with run show ?thesis
      by (auto simp: supersede_Inr protected_from_heuristic_supersede_def is_state_def split: option.splits)
  next
    case False
    with run have d': "d' = d\<lparr>facts := update_where ?p ?g (facts d)\<rparr>" and n: "r = (count_where ?p (facts d) = 1)"
      by (auto simp: supersede_Inr update_facts_Inr)
    have found: "find_fact i d' = map_option (\<lambda>f. if ?p f then ?g f else f) (find_fact i d)" for i
      unfolding d' by (rule find_fact_update) simp
    have cnt: "count_where ?p (facts d) = (case find_fact old d of None \<Rightarrow> 0 | Some f \<Rightarrow> if f_invalid_at f = None then 1 else 0)"
      using wf by (intro count_where_id) (simp add: wf_db_def)
    have r: "r \<longleftrightarrow> (\<exists>f. find_fact old d = Some f \<and> f_invalid_at f = None)"
      unfolding n cnt by (auto split: option.splits)
    have other: "find_fact i d' = find_fact i d" if "i \<noteq> old" for i
      using that by (cases "find_fact i d") (auto simp: found dest: find_fact_Some)
    have same: "facts d' = facts d" if "\<not> r"
      using that r wf unfolding d' wf_db_def by (auto intro!: update_where_none dest: find_fact_in)
    have hit: "\<exists>f. find_fact old d' = Some f \<and> f_superseded_by f = Some new \<and> f_invalid_at f = Some ts
          \<and> map_option f_content (find_fact old d) = Some (f_content f)" if "r"
    proof -
      from that r obtain f where f: "find_fact old d = Some f" "f_invalid_at f = None" by blast
      with find_fact_Some [OF f(1)] show ?thesis by (simp add: found)
    qed
    have "r \<longleftrightarrow> (\<exists>f. find_fact old d = Some f \<and> \<not> is_state f \<and> f_conflict f = None \<and> f_invalid_at f = None)"
      using False r by (auto simp: protected_from_heuristic_supersede_def is_state_def split: option.splits)
    with run other same hit show ?thesis by blast
  qed
qed

section \<open>The history walk\<close>

lemma walk_back_subset:
  "set chain \<subseteq> set fs \<Longrightarrow> set chain \<subseteq> set (walk_back fs chain) \<and> set (walk_back fs chain) \<subseteq> set fs"
proof (induction fs chain rule: walk_back.induct)
  case (1 fs chain)
  have "set (predecessors fs chain) \<subseteq> set fs" by (auto simp: predecessors_def)
  with 1 show ?case by (subst (1 2) walk_back.simps) (auto simp: Let_def)
qed

lemma walk_forward_subset:
  "set chain \<subseteq> set fs \<Longrightarrow> set chain \<subseteq> set (walk_forward fs chain) \<and> set (walk_forward fs chain) \<subseteq> set fs"
proof (induction fs chain rule: walk_forward.induct)
  case (1 fs chain)
  have "set (successors fs chain) \<subseteq> set fs" by (auto simp: successors_def)
  with 1 show ?case by (subst (1 2) walk_forward.simps) (auto simp: Let_def)
qed

lemma walk_back_sound:
  assumes "set chain \<subseteq> set fs" and "\<forall>r \<in> set chain. (f_id r, i) \<in> (successor fs)\<^sup>*"
  shows "\<forall>r \<in> set (walk_back fs chain). (f_id r, i) \<in> (successor fs)\<^sup>*"
  using assms
proof (induction fs chain rule: walk_back.induct)
  case (1 fs chain)
  let ?new = "predecessors fs chain"
  have "(f_id r, i) \<in> (successor fs)\<^sup>*" if r: "r \<in> set ?new" for r
  proof -
    from r obtain c where c: "c \<in> set chain" "f_superseded_by r = Some (f_id c)" "r \<in> set fs"
      by (auto simp: predecessors_def ids_of_def split: option.splits)
    then have "(f_id r, f_id c) \<in> successor fs" by (auto simp: successor_def)
    with "1.prems" c(1) show ?thesis by (auto intro: converse_rtrancl_into_rtrancl)
  qed
  moreover have "set ?new \<subseteq> set fs" by (auto simp: predecessors_def)
  ultimately show ?case using 1 by (subst walk_back.simps) (auto simp: Let_def)
qed

lemma walk_forward_sound:
  assumes "set chain \<subseteq> set fs" and "\<forall>r \<in> set chain. P (f_id r)"
    and "\<And>a b. P a \<Longrightarrow> (a, b) \<in> successor fs \<Longrightarrow> P b"
  shows "\<forall>r \<in> set (walk_forward fs chain). P (f_id r)"
  using assms
proof (induction fs chain rule: walk_forward.induct)
  case (1 fs chain)
  let ?new = "successors fs chain"
  have "P (f_id r)" if r: "r \<in> set ?new" for r
  proof -
    from r obtain c where c: "c \<in> set chain" "f_superseded_by c = Some (f_id r)"
      by (auto simp: successors_def)
    with "1.prems"(1) have "(f_id c, f_id r) \<in> successor fs" by (auto simp: successor_def)
    with "1.prems" c(1) show ?thesis by blast
  qed
  moreover have "set ?new \<subseteq> set fs" by (auto simp: successors_def)
  ultimately show ?case using 1 by (subst walk_forward.simps) (auto simp: Let_def)
qed

lemma walk_back_closed: "predecessors fs (walk_back fs chain) = []"
  by (induction fs chain rule: walk_back.induct) (subst walk_back.simps, simp add: Let_def)

lemma walk_forward_closed: "successors fs (walk_forward fs chain) = []"
  by (induction fs chain rule: walk_forward.induct) (subst walk_forward.simps, simp add: Let_def)

lemma back_complete:
  assumes "set chain \<subseteq> set fs" and "(a, i) \<in> (successor fs)\<^sup>*" and "i \<in> ids_of chain"
  shows "a \<in> ids_of (walk_back fs chain)"
  using assms(2)
proof (induction rule: converse_rtrancl_induct)
  case base
  with assms walk_back_subset [OF assms(1)] show ?case by (auto simp: ids_of_def)
next
  case (step a b)
  from step.hyps(1) obtain r where r: "r \<in> set fs" "f_id r = a" "f_superseded_by r = Some b"
    by (auto simp: successor_def)
  have "r \<notin> set (predecessors fs (walk_back fs chain))" by (simp add: walk_back_closed)
  with r step.IH show ?case by (auto simp: predecessors_def)
qed

lemma forward_complete:
  assumes ok: "lineage_ok d" "ids_ok d" and "set chain \<subseteq> set (facts d)"
    and "(i, b) \<in> (successor (facts d))\<^sup>*" and "i \<in> ids_of chain"
  shows "b \<in> ids_of (walk_forward (facts d) chain)"
  using assms(4)
proof (induction rule: rtrancl_induct)
  case base
  with assms walk_forward_subset [OF assms(3)] show ?case by (auto simp: ids_of_def)
next
  case (step b c)
  let ?W = "walk_forward (facts d) chain"
  from step.hyps(2) obtain r0 where r0: "r0 \<in> set (facts d)" "f_id r0 = b" "f_superseded_by r0 = Some c"
    by (auto simp: successor_def)
  with ok(1) obtain g where g: "g \<in> set (facts d)" "f_id g = c" by (fastforce simp: lineage_ok_def)
  from step.IH obtain r where r: "r \<in> set ?W" "f_id r = b" by (auto simp: ids_of_def)
  then have "r = r0"
    using walk_forward_subset [OF assms(3)] r0 ok(2) by (auto intro: same_id_same_fact)
  moreover have "g \<notin> set (successors (facts d) ?W)" by (simp add: walk_forward_closed)
  ultimately show ?case using g r r0 ok(2) by (auto simp: successors_def ids_ok_def)
qed

lemma successor_functional:
  assumes "ids_ok d" "(a, b) \<in> successor (facts d)" "(a, c) \<in> successor (facts d)"
  shows "b = c"
proof -
  from assms obtain f g where "f \<in> set (facts d)" "g \<in> set (facts d)" "f_id f = a" "f_id g = a"
    "f_superseded_by f = Some b" "f_superseded_by g = Some c"
    by (auto simp: successor_def)
  with same_id_same_fact [OF assms(1), of f g] show ?thesis by simp
qed

lemma functional_paths:
  assumes "ids_ok d" "(a, i) \<in> (successor (facts d))\<^sup>*" "(a, b) \<in> (successor (facts d))\<^sup>*"
  shows "(b, i) \<in> (successor (facts d))\<^sup>* \<or> (i, b) \<in> (successor (facts d))\<^sup>*"
  using assms(3)
proof (induction rule: rtrancl_induct)
  case base
  with assms(2) show ?case by simp
next
  case (step b c)
  then show ?case
  proof (elim disjE)
    assume "(b, i) \<in> (successor (facts d))\<^sup>*"
    then show ?thesis
    proof (cases rule: converse_rtranclE)
      case base
      with step.hyps(2) show ?thesis by auto
    next
      case (step y)
      with \<open>(b, c) \<in> successor (facts d)\<close> have "y = c" using successor_functional assms(1) by blast
      with step show ?thesis by simp
    qed
  next
    assume "(i, b) \<in> (successor (facts d))\<^sup>*"
    with step.hyps(2) show ?thesis by (meson rtrancl.rtrancl_into_rtrancl)
  qed
qed


subsection \<open>A fork\<close>

definition forked_db :: db where
  "forked_db = empty_db\<lparr>next_fact := 4, facts :=
     [(default_fact 1 ''port 3100'' ''private'' ''2026-01-01'')\<lparr>f_invalid_at := Some ''t'', f_superseded_by := Some 3\<rparr>,
      (default_fact 2 ''port 3200'' ''private'' ''2026-01-02'')\<lparr>f_invalid_at := Some ''t'', f_superseded_by := Some 3\<rparr>,
      default_fact 3 ''port 3300'' ''private'' ''2026-01-03'']\<rparr>"

lemma wf_forked_db: "wf_db forked_db"
proof -
  have "acyclic (successor (facts forked_db))"
    by (rule acyclic_into_sink [where S = "{}" and A = UNIV and j = 3])
      (auto simp: acyclic_def successor_def forked_db_def default_fact_def)
  then show ?thesis
    by (simp add: wf_db_def ids_ok_def lineage_ok_def groups_ok_def slots_unique_def
        in_slot_index_def is_state_def current_def forked_db_def default_fact_def empty_db_def)
qed

text \<open>Two facts superseded by the same third one (as the losers of a conflict are) have
  different histories, and neither is that of the winner: the walk does not give "the same
  complete history" from every fact of a chain, as its documentation says.
\<close>

theorem history_depends_on_entry_point:
  "wf_db forked_db
   \<and> map f_id (fact_history forked_db 1) = [1, 3]
   \<and> map f_id (fact_history forked_db 2) = [2, 3]
   \<and> map f_id (fact_history forked_db 3) = [1, 2, 3]"
  by (intro conjI, rule wf_forked_db, code_simp, code_simp, code_simp)

section \<open>As-of reads\<close>

lemma matches_valid_True:
  assumes "matches_valid row v tx = Inr True"
  obtains point start where "parse_clock (Some v) = Inr (Some point)"
    "parse_clock (f_valid_from row) = Inr start" "\<not> after start point"
    "\<And>u. parse_clock (f_valid_to row) = Inr (Some u) \<Longrightarrow> point < u"
  using assms
  by (auto simp: matches_valid_def bindE_Inr_iff ended_by_def split: option.splits if_splits)

lemma row_matches_valid: "row_matches_as_of row (Some v) tx = Inr True \<Longrightarrow> matches_valid row v tx = Inr True"
  by (auto simp: row_matches_as_of_def bindE_Inr_iff split: if_splits)

lemma adjacent_intervals_disjoint:
  assumes "f_valid_to a = f_valid_from b" and "parse_clock (f_valid_from b) = Inr (Some w)"
  shows "\<not> (row_matches_as_of a (Some v) tx = Inr True \<and> row_matches_as_of b (Some v) tx' = Inr True)"
proof
  assume *: "row_matches_as_of a (Some v) tx = Inr True \<and> row_matches_as_of b (Some v) tx' = Inr True"
  from * have a: "matches_valid a v tx = Inr True" and b: "matches_valid b v tx' = Inr True"
    by (auto dest: row_matches_valid)
  obtain p where p: "parse_clock (Some v) = Inr (Some p)" "p < w"
    using a assms by (elim matches_valid_True) auto
  obtain q start where q: "parse_clock (Some v) = Inr (Some q)" "parse_clock (f_valid_from b) = Inr start"
    "\<not> after start q"
    using b by (elim matches_valid_True) auto
  from p q assms(2) show False by (auto simp: after_def)
qed


end
