(* ===== verification/Provenance.thy ===== *)
theory Provenance
  imports Temporal
begin

text \<open>
  \<^verbatim>\<open>enfold/provenance.py\<close>: the value objects at the write boundary.  A frozen dataclass is a
  record; its \<open>__post_init__\<close> is a function that normalises the fields or raises.
\<close>

text \<open>\<open>json.dumps(..., sort_keys=True)\<close> of a decoded object: keys in order, at every depth.\<close>

primrec canon :: "json \<Rightarrow> json" where
  "canon JNull = JNull"
| "canon (JBool b) = JBool b"
| "canon (JInt i) = JInt i"
| "canon (JFloat q) = JFloat q"
| "canon (JStr s) = JStr s"
| "canon (JArr xs) = JArr (map canon xs)"
| "canon (JObj kvs) = JObj (sort_key fst (map (map_prod id canon) kvs))"

text \<open>
  \<open>json.dumps\<close> with the compact separators, of a value whose keys are already in order, escaping
  what is not printable ASCII.  The text of a float is the runtime's \<open>repr\<close>, a parameter.
\<close>

definition hex_digit :: "nat \<Rightarrow> char" where
  "hex_digit n = ''0123456789abcdef'' ! n"

definition json_char :: "char \<Rightarrow> string" where
  "json_char c = (let n = code c in
     if n = 34 then [CHR 0x5C, c] else if n = 92 then [c, c]
     else if n = 10 then CHR 0x5C # ''n'' else if n = 13 then CHR 0x5C # ''r''
     else if n = 9 then CHR 0x5C # ''t'' else if n = 8 then CHR 0x5C # ''b''
     else if n = 12 then CHR 0x5C # ''f''
     else if 32 \<le> n \<and> n < 127 then [c]
     else if n = 127 then [c]
     else CHR 0x5C # ''u00'' @ [hex_digit (n div 16), hex_digit (n mod 16)])"

definition json_quote :: "string \<Rightarrow> string" where
  "json_quote s = [CHR 0x22] @ concat (map json_char s) @ [CHR 0x22]"

primrec json_text :: "(rat \<Rightarrow> string) \<Rightarrow> json \<Rightarrow> string" where
  "json_text ft JNull = ''null''"
| "json_text ft (JBool b) = (if b then ''true'' else ''false'')"
| "json_text ft (JInt i) = show_int i"
| "json_text ft (JFloat q) = ft q"
| "json_text ft (JStr s) = json_quote s"
| "json_text ft (JArr xs) = ''['' @ join '','' (map (json_text ft) xs) @ '']''"
| "json_text ft (JObj kvs) = ''{'' @ join '','' (map (\<lambda>kt. json_quote (fst kt) @ '':'' @ snd kt)
     (map (map_prod id (json_text ft)) kvs)) @ ''}''"

text \<open>The same with \<open>ensure_ascii=False\<close>: only what JSON forbids in a string is escaped.\<close>

definition json_char_raw :: "char \<Rightarrow> string" where
  "json_char_raw c = (if code c < 127 then json_char c else [c])"

definition json_quote_raw :: "string \<Rightarrow> string" where
  "json_quote_raw s = [CHR 0x22] @ concat (map json_char_raw s) @ [CHR 0x22]"

primrec json_raw :: "(rat \<Rightarrow> string) \<Rightarrow> json \<Rightarrow> string" where
  "json_raw ft JNull = ''null''"
| "json_raw ft (JBool b) = (if b then ''true'' else ''false'')"
| "json_raw ft (JInt i) = show_int i"
| "json_raw ft (JFloat q) = ft q"
| "json_raw ft (JStr s) = json_quote_raw s"
| "json_raw ft (JArr xs) = ''['' @ join '','' (map (json_raw ft) xs) @ '']''"
| "json_raw ft (JObj kvs) = ''{'' @ join '','' (map (\<lambda>kt. json_quote_raw (fst kt) @ '':'' @ snd kt)
     (map (map_prod id (json_raw ft)) kvs)) @ ''}''"

definition canonical_json_object :: "json option \<Rightarrow> string \<Rightarrow> json res" where
  "canonical_json_object value name = bindE (json_object name value) (\<lambda>v. Inr (canon v))"

definition sorted_set :: "string list \<Rightarrow> string list" where
  "sorted_set xs = sort (remdups xs)"

record conn_context =
  cx_client :: string
  cx_surface :: string
  cx_agent :: string
  cx_session :: string
  cx_display :: "string option"
  cx_parent :: "string option"
  cx_root :: "string option"
  cx_repo :: "string option"
  cx_branch :: "string option"
  cx_commit :: "string option"
  cx_capabilities :: "string list"
  cx_scopes :: "string list"
  cx_started_at :: "string option"

definition make_context :: "conn_context \<Rightarrow> conn_context res" where
  "make_context c =
     bindE (required (cx_client c) ''client_id'') (\<lambda>client.
     bindE (required (cx_surface c) ''surface'') (\<lambda>surface.
     bindE (required (cx_agent c) ''agent_id'') (\<lambda>agent.
     bindE (required (cx_session c) ''session_id'') (\<lambda>sess.
     bindE (mapE (\<lambda>v. required v ''capability'') (cx_capabilities c)) (\<lambda>caps.
     bindE (mapE (\<lambda>v. required v ''access_scope'') (cx_scopes c)) (\<lambda>scopes.
     bindE (checkE (scopes \<noteq> []) (ValueError ''access_scopes must not be empty'')) (\<lambda>_.
     Inr (c\<lparr>cx_client := client, cx_surface := surface, cx_agent := agent, cx_session := sess,
            cx_capabilities := sorted_set caps, cx_scopes := sorted_set scopes\<rparr>))))))))"

record write_request =
  rq_key :: string
  rq_content :: string
  rq_source_type :: string
  rq_category :: string
  rq_tags :: string
  rq_trust :: rat
  rq_authority :: rat
  rq_source_uri :: "string option"
  rq_observation :: "string option"
  rq_asserted_by :: "string option"
  rq_performed_by :: "string option"
  rq_observed_at :: "string option"
  rq_scope :: string
  rq_sensitivity :: string
  rq_correction :: "string option"
  rq_excerpt :: "string option"
  rq_relation :: string
  rq_metadata :: json
  rq_supersede :: "int option"
  rq_operation :: string

text \<open>The metadata text is passed decoded: \<open>None\<close> when it is not JSON.\<close>

definition make_request :: "write_request \<Rightarrow> json option \<Rightarrow> write_request res" where
  "make_request r metadata =
     bindE (required (rq_key r) ''idempotency_key'') (\<lambda>key.
     bindE (required (rq_content r) ''content'') (\<lambda>content.
     bindE (required (rq_source_type r) ''source_type'') (\<lambda>source_type.
     bindE (required (rq_category r) ''category'') (\<lambda>category.
     bindE (required (rq_scope r) ''scope'') (\<lambda>scope.
     bindE (required (rq_sensitivity r) ''sensitivity'') (\<lambda>sensitivity.
     bindE (required (rq_relation r) ''relation'') (\<lambda>relation.
     bindE (required (rq_operation r) ''operation'') (\<lambda>operation.
     bindE (checkE (0 \<le> rq_trust r \<and> rq_trust r \<le> 1) (ValueError ''trust_score must be between 0 and 1'')) (\<lambda>_.
     bindE (checkE (0 \<le> rq_authority r \<and> rq_authority r \<le> 1) (ValueError ''source_authority must be between 0 and 1'')) (\<lambda>_.
     bindE (checkE (case rq_supersede r of None \<Rightarrow> True | Some i \<Rightarrow> 0 < i) (ValueError ''supersede_fact_id must be positive'')) (\<lambda>_.
     bindE (canonical_json_object metadata ''metadata_json'') (\<lambda>m.
     Inr (r\<lparr>rq_key := key, rq_content := content, rq_source_type := source_type, rq_category := category,
            rq_scope := scope, rq_sensitivity := sensitivity, rq_relation := relation,
            rq_operation := operation, rq_metadata := m\<rparr>)))))))))))))"

record write_outcome =
  oc_write_id :: string
  oc_outcome :: string
  oc_fact :: "int option"
  oc_existing :: "int option"
  oc_observation :: "int option"
  oc_replayed :: bool
  oc_detail :: json

definition positive_opt :: "int option \<Rightarrow> bool" where
  "positive_opt v \<longleftrightarrow> (case v of None \<Rightarrow> True | Some i \<Rightarrow> 0 < i)"

definition make_outcome :: "write_outcome \<Rightarrow> write_outcome res" where
  "make_outcome oc =
     bindE (required (oc_write_id oc) ''write_id'') (\<lambda>wid.
     bindE (required (oc_outcome oc) ''outcome'') (\<lambda>out.
     bindE (checkE (positive_opt (oc_fact oc)) (ValueError ''fact_id must be positive'')) (\<lambda>_.
     bindE (checkE (positive_opt (oc_existing oc)) (ValueError ''existing_fact_id must be positive'')) (\<lambda>_.
     bindE (checkE (positive_opt (oc_observation oc)) (ValueError ''observation_id must be positive'')) (\<lambda>_.
     bindE (canonical_json_object (Some (oc_detail oc)) ''detail_json'') (\<lambda>det.
     Inr (oc\<lparr>oc_write_id := wid, oc_outcome := out, oc_detail := det\<rparr>)))))))"

section \<open>Facts\<close>

lemma sorted_set_props [simp]:
  "set (sorted_set xs) = set xs" "sorted (sorted_set xs)" "distinct (sorted_set xs)"
  by (simp_all add: sorted_set_def)

lemma sorted_set_id: "sorted xs \<Longrightarrow> distinct xs \<Longrightarrow> sorted_set xs = xs"
  by (simp add: sorted_set_def distinct_remdups_id sort_key_id_if_sorted)

lemma sorted_set_idem [simp]: "sorted_set (sorted_set xs) = sorted_set xs"
  by (simp add: sorted_set_id)

lemma mapE_required: "mapE (\<lambda>v. required v n) xs = Inr ys \<Longrightarrow> y \<in> set ys \<Longrightarrow> strip y = y \<and> y \<noteq> []"
  by (auto dest!: mapE_set simp: required_ok)

lemma mapE_required_id:
  "\<forall>y \<in> set ys. strip y = y \<and> y \<noteq> [] \<Longrightarrow> mapE (\<lambda>v. required v n) ys = Inr ys"
  by (rule mapE_const) (simp add: required_ok)

lemma insort_key_map_fst:
  "insort_key fst (map_prod id f x) (map (map_prod id f) xs) = map (map_prod id f) (insort_key fst x xs)"
  by (induction xs) auto

lemma sort_key_map_fst: "sort_key fst (map (map_prod id f) kvs) = map (map_prod id f) (sort_key fst kvs)"
  by (induction kvs) (simp_all add: insort_key_map_fst [unfolded id_def] id_def)

lemma canon_idem [simp]: "canon (canon v) = canon v"
proof (induction v)
  case (JArr xs)
  then show ?case by simp
next
  case (JObj kvs)
  have each: "map_prod id (canon \<circ> canon) kv = map_prod id canon kv" if "kv \<in> set (sort_key fst kvs)" for kv
  proof -
    from that have "kv \<in> set kvs" by simp
    then have "canon (canon (snd kv)) = canon (snd kv)" by (intro JObj) (auto intro: snds.intros)
    then show ?thesis by (cases kv) simp
  qed
  have "canon (canon (JObj kvs)) = JObj (map (map_prod id (canon \<circ> canon)) (sort_key fst kvs))"
    by (simp add: sort_key_map_fst map_prod.comp sort_key_id_if_sorted)
  also have "\<dots> = JObj (map (map_prod id canon) (sort_key fst kvs))"
    using each by (simp cong: map_cong)
  also have "\<dots> = canon (JObj kvs)"
    by (simp add: sort_key_map_fst)
  finally show ?case .
qed simp_all

lemma canonical_json_object_ok:
  "canonical_json_object v n = Inr w \<longleftrightarrow> (\<exists>kvs. v = Some (JObj kvs) \<and> w = canon (JObj kvs))"
  by (auto simp: canonical_json_object_def json_object_def bindE_Inr_iff split: option.splits json.splits)

end
