(* ===== verification/PyRegex.thy ===== *)
theory PyRegex
  imports PyText
begin

text \<open>
  The fragment of \<open>re\<close> the program's screens use, as a matcher that answers whether a pattern
  occurs in a text: character sets, sequence, alternation, counted repetition, the word
  boundary and the start of the text.  The meaning of a pattern at a position is the list of positions where a match
  that starts there can end, so greedy and lazy repetition coincide.
\<close>

datatype rx =
    RSet "char \<Rightarrow> bool"
  | REps
  | RSeq rx rx
  | RAlt rx rx
  | RRep rx nat "nat option"
  | RBound
  | RStart

definition word_char :: "char \<Rightarrow> bool" where
  "word_char c \<longleftrightarrow> is_digit c \<or> is_upper c \<or> is_lower c \<or> c = CHR ''_''
     \<or> (let n = code c in n \<in> {170, 178, 179, 181, 185, 186, 188, 189, 190}
          \<or> (192 \<le> n \<and> n \<noteq> 215 \<and> n \<noteq> 247))"

definition at_boundary :: "string \<Rightarrow> nat \<Rightarrow> bool" where
  "at_boundary s i \<longleftrightarrow>
     (0 < i \<and> i \<le> length s \<and> word_char (s ! (i - 1))) \<noteq> (i < length s \<and> word_char (s ! i))"

text \<open>\<open>reps f m n xs\<close>: the ends after \<open>m\<close> to \<open>m + n\<close> iterations from the positions \<open>xs\<close>.\<close>

fun optional_reps :: "(nat \<Rightarrow> nat list) \<Rightarrow> nat \<Rightarrow> nat list \<Rightarrow> nat list" where
  "optional_reps f 0 xs = xs"
| "optional_reps f (Suc n) xs = remdups (xs @ optional_reps f n (remdups (concat (map f xs))))"

fun reps :: "(nat \<Rightarrow> nat list) \<Rightarrow> nat \<Rightarrow> nat \<Rightarrow> nat list \<Rightarrow> nat list" where
  "reps f 0 n xs = optional_reps f n xs"
| "reps f (Suc m) n xs = reps f m n (remdups (concat (map f xs)))"

text \<open>
  An unbounded repetition is cut at the length of the text: an iteration beyond that many
  consumes nothing.
\<close>

primrec ends :: "rx \<Rightarrow> string \<Rightarrow> nat \<Rightarrow> nat list" where
  "ends (RSet p) s i = (if i < length s \<and> p (s ! i) then [Suc i] else [])"
| "ends REps s i = [i]"
| "ends RBound s i = (if at_boundary s i then [i] else [])"
| "ends RStart s i = (if i = 0 then [i] else [])"
| "ends (RSeq a b) s i = remdups (concat (map (ends b s) (ends a s i)))"
| "ends (RAlt a b) s i = remdups (ends a s i @ ends b s i)"
| "ends (RRep r m n) s i =
     reps (ends r s) m (case n of None \<Rightarrow> length s | Some k \<Rightarrow> k - m) [i]"

definition search :: "rx \<Rightarrow> string \<Rightarrow> bool" where
  "search r s \<longleftrightarrow> list_ex (\<lambda>i. ends r s i \<noteq> []) [0..<Suc (length s)]"

definition fullmatch :: "rx \<Rightarrow> string \<Rightarrow> bool" where
  "fullmatch r s \<longleftrightarrow> length s \<in> set (ends r s 0)"

text \<open>Ways to write patterns.\<close>

definition RLit :: "string \<Rightarrow> rx" where
  "RLit w = foldr (\<lambda>c r. RSeq (RSet (\<lambda>x. x = c)) r) w REps"

definition ROpt :: "rx \<Rightarrow> rx" where
  "ROpt r = RRep r 0 (Some 1)"

definition RStar :: "(char \<Rightarrow> bool) \<Rightarrow> rx" where
  "RStar p = RRep (RSet p) 0 None"

definition RPlus :: "(char \<Rightarrow> bool) \<Rightarrow> rx" where
  "RPlus p = RRep (RSet p) 1 None"

definition RMin :: "(char \<Rightarrow> bool) \<Rightarrow> nat \<Rightarrow> rx" where
  "RMin p n = RRep (RSet p) n None"

definition RTimes :: "(char \<Rightarrow> bool) \<Rightarrow> nat \<Rightarrow> rx" where
  "RTimes p n = RRep (RSet p) n (Some n)"

definition RSeqs :: "rx list \<Rightarrow> rx" where
  "RSeqs rs = foldr RSeq rs REps"

fun RAlts :: "rx list \<Rightarrow> rx" where
  "RAlts [] = RSet (\<lambda>_. False)"
| "RAlts [r] = r"
| "RAlts (r # q # rs) = RAlt r (RAlts (q # rs))"

section \<open>Laws\<close>

lemma ends_Seq: "j \<in> set (ends (RSeq a b) s i) \<longleftrightarrow> (\<exists>k \<in> set (ends a s i). j \<in> set (ends b s k))"
  by auto

lemma ends_Alt: "j \<in> set (ends (RAlt a b) s i) \<longleftrightarrow> j \<in> set (ends a s i) \<or> j \<in> set (ends b s i)"
  by auto

lemma ends_Seqs_Cons:
  "j \<in> set (ends (RSeqs (r # rs)) s i) \<longleftrightarrow> (\<exists>k \<in> set (ends r s i). j \<in> set (ends (RSeqs rs) s k))"
  by (simp add: RSeqs_def)

lemma ends_Seqs_Nil: "j \<in> set (ends (RSeqs []) s i) \<longleftrightarrow> j = i"
  by (auto simp: RSeqs_def)

lemma ends_Lit: "take (length w) (drop i s) = w \<Longrightarrow> i + length w \<in> set (ends (RLit w) s i)"
proof (induction w arbitrary: i)
  case Nil
  then show ?case by (simp add: RLit_def)
next
  case (Cons c w)
  then have "drop i s \<noteq> []" by auto
  then have i: "i < length s" by simp
  then have "drop i s = s ! i # drop (Suc i) s" by (simp add: Cons_nth_drop_Suc)
  with Cons.prems have "s ! i = c" "take (length w) (drop (Suc i) s) = w" by simp_all
  with Cons.IH [of "Suc i"] i show ?case by (simp add: RLit_def)
qed

lemma reps_exact:
  assumes "\<And>k. i \<le> k \<Longrightarrow> k < i + m \<Longrightarrow> Suc k \<in> set (f k)"
  shows "i \<in> set xs \<Longrightarrow> i + m \<in> set (reps f m 0 xs)"
  using assms
proof (induction m arbitrary: i xs)
  case 0
  then show ?case by simp
next
  case (Suc m)
  have "Suc i \<in> set (f i)" using Suc.prems(2) [of i] by simp
  with Suc.prems(1) have "Suc i \<in> set (remdups (concat (map f xs)))" by auto
  then have "Suc i + m \<in> set (reps f m 0 (remdups (concat (map f xs))))"
    by (rule Suc.IH) (use Suc.prems(2) in auto)
  then show ?case by simp
qed

lemma ends_Times:
  assumes "\<forall>k < n. i + k < length s \<and> p (s ! (i + k))"
  shows "i + n \<in> set (ends (RTimes p n) s i)"
proof -
  have "i + n \<in> set (reps (ends (RSet p) s) n 0 [i])"
  proof (rule reps_exact)
    fix k assume "i \<le> k" "k < i + n"
    with assms [rule_format, of "k - i"] show "Suc k \<in> set (ends (RSet p) s k)" by simp
  qed simp
  then show ?thesis by (simp add: RTimes_def)
qed

lemma searchI: "j \<in> set (ends r s i) \<Longrightarrow> i \<le> length s \<Longrightarrow> search r s"
proof -
  assume "j \<in> set (ends r s i)" "i \<le> length s"
  then have "ends r s i \<noteq> []" "i \<in> set [0..<Suc (length s)]" by auto
  then show ?thesis unfolding search_def list_ex_iff by blast
qed

end
