(* ===== verification/Policy.thy ===== *)
theory Policy
  imports Provenance PyRegex
begin

text \<open>
  \<^verbatim>\<open>enfold/policy.py\<close>: the vocabulary of scopes and labels, the credential screen, and the
  immutable server-side policy that grants scopes and screens writes.
\<close>

section \<open>Scopes and labels\<close>

definition BASE_SCOPES :: "string list" where
  "BASE_SCOPES = [''private'', ''work'', ''public'', ''sensitive'', ''secret'']"

definition SENSITIVITIES :: "string list" where
  "SENSITIVITIES = [''normal'', ''sensitive'', ''secret'']"

definition LEGACY_EXTRACTION_CLIENT_ID :: string where
  "LEGACY_EXTRACTION_CLIENT_ID = ''legacy-extract-queue''"

definition PROVENANCE_RELATIONS :: "string list" where
  "PROVENANCE_RELATIONS = [''supports'', ''contradicts'', ''verifies'', ''corrects'', ''derived_from'']"

definition CORRECTION_STATUSES :: "string list" where
  "CORRECTION_STATUSES = [''unreviewed'', ''human_corrected'', ''human_confirmed'']"

definition alnum :: "char \<Rightarrow> bool" where
  "alnum c \<longleftrightarrow> is_digit c \<or> is_upper c \<or> is_lower c"

text \<open>\<open>[A-Za-z0-9][A-Za-z0-9._-]{0,127}\<close> after a fixed prefix.\<close>

definition scope_token :: "string \<Rightarrow> bool" where
  "scope_token t \<longleftrightarrow> t \<noteq> [] \<and> length t \<le> 128 \<and> alnum (hd t)
     \<and> list_all (\<lambda>c. alnum c \<or> c \<in> set ''._-'') (tl t)"

definition is_project_scope :: "string \<Rightarrow> bool" where
  "is_project_scope v \<longleftrightarrow> prefix ''project:'' v \<and> scope_token (drop 8 v)"

definition is_run_scope :: "string \<Rightarrow> bool" where
  "is_run_scope v \<longleftrightarrow> prefix ''run:'' v \<and> scope_token (drop 4 v)"

definition run_scope_for_session :: "env \<Rightarrow> string \<Rightarrow> string" where
  "run_scope_for_session env session_id =
     (let token = strip session_id; candidate = ''run:'' @ token in
      if is_run_scope candidate then candidate
      else ''run:'' @ take 24 (sha256 env token))"

definition scope_authorized :: "string \<Rightarrow> string list \<Rightarrow> bool" where
  "scope_authorized sc access_scopes \<longleftrightarrow>
     (if sc \<in> set access_scopes then True
      else is_run_scope sc \<and> ''private'' \<in> set access_scopes)"

definition validate_scope :: "string \<Rightarrow> string res" where
  "validate_scope v =
     (if v \<in> set BASE_SCOPES \<or> is_project_scope v \<or> is_run_scope v then Inr v
      else Inl (ValueError ''unsupported memory scope''))"

definition validate_sensitivity :: "string \<Rightarrow> string res" where
  "validate_sensitivity v =
     (if v \<notin> set SENSITIVITIES then Inl (ValueError ''unsupported memory sensitivity'') else Inr v)"

definition validate_relation :: "string \<Rightarrow> string res" where
  "validate_relation v =
     (if v \<notin> set PROVENANCE_RELATIONS then Inl (ValueError ''unsupported provenance relation'') else Inr v)"

definition validate_correction_status :: "string option \<Rightarrow> string option res" where
  "validate_correction_status v =
     (case v of None \<Rightarrow> Inr None
      | Some s \<Rightarrow> if s \<notin> set CORRECTION_STATUSES
                  then Inl (ValueError ''unsupported correction status'') else Inr (Some s))"

section \<open>Decisions and the credential screen\<close>

record decision =
  pd_outcome :: string
  pd_reason :: string

definition policy_decision :: "string \<Rightarrow> string \<Rightarrow> decision res" where
  "policy_decision out reason =
     (if out \<notin> {''rejected'', ''needs_review''} then Inl (ValueError ''policy outcome must be rejected or needs_review'')
      else if strip reason = [] then Inl (ValueError ''policy reason must not be empty'')
      else Inr \<lparr>pd_outcome = out, pd_reason = reason\<rparr>)"

definition rejected :: "string \<Rightarrow> decision" where
  "rejected reason = \<lparr>pd_outcome = ''rejected'', pd_reason = reason\<rparr>"

definition needs_review :: "string \<Rightarrow> decision" where
  "needs_review reason = \<lparr>pd_outcome = ''needs_review'', pd_reason = reason\<rparr>"

definition is_quote :: "char \<Rightarrow> bool" where
  "is_quote c \<longleftrightarrow> c = CHR 0x27 \<or> c = CHR 0x22"

definition token_char :: "char \<Rightarrow> bool" where
  "token_char c \<longleftrightarrow> alnum c \<or> c \<in> set ''_-''"

definition upper_or_digit :: "char \<Rightarrow> bool" where
  "upper_or_digit c \<longleftrightarrow> is_upper c \<or> is_digit c"

definition in_chars :: "string \<Rightarrow> char \<Rightarrow> bool" where
  "in_chars cs c \<longleftrightarrow> c \<in> set cs"

definition aws_key_shape :: rx where
  "aws_key_shape = RSeqs [RBound, RLit ''AKIA'', RTimes upper_or_digit 16, RBound]"

text \<open>The patterns in the source's order; the flag marks \<open>(?i)\<close>, whose text is lower-cased first.\<close>

definition CREDENTIAL_SHAPES :: "(bool \<times> rx) list" where
  "CREDENTIAL_SHAPES =
    (let sep = ROpt (RSet (in_chars ''_ -''));
         quote = ROpt (RSet is_quote);
         secret = RMin (\<lambda>c. \<not> py_space c \<and> \<not> is_quote c) 8 in
     [(False, RSeqs [RLit ''-----BEGIN '',
         ROpt (RSeqs [RPlus upper_or_digit,
                      RRep (RSeq (RLit '' '') (RPlus upper_or_digit)) 0 None, RLit '' '']),
         RLit ''PRIVATE KEY-----'']),
      (False, aws_key_shape),
      (False, RSeqs [RBound, RAlts [RLit ''ghp'', RLit ''github_pat'', RSeq (RLit ''sk-'') (RTimes token_char 8)],
         RMin token_char 12, RBound]),
      (True, RSeqs [RBound, RAlts [RSeqs [RLit ''api'', sep, RLit ''key''],
         RSeqs [RLit ''client'', sep, RLit ''secret''], RLit ''password'', RLit ''token''], RBound,
         quote, RStar py_space, RSet (in_chars '':=''), RStar py_space, quote, secret]),
      (True, RSeqs [RBound, RAlts [RSeqs [RLit ''api'', sep, RAlts [RLit ''key'', RLit ''token'']],
         RSeqs [RLit ''client'', sep, RLit ''secret''], RLit ''password'', RLit ''token''], RBound,
         quote, RPlus py_space, RAlts [RLit ''is'', RLit ''was''], RPlus py_space, quote, secret]),
      (True, RSeqs [RBound, RLit ''authorization'', RStar py_space, RLit '':'', RStar py_space,
         RLit ''bearer'', RPlus py_space, RMin (\<lambda>c. alnum c \<or> in_chars ''._~+/=-'' c) 8]),
      (False, RSeqs [RBound, RLit ''AIza'', RMin token_char 30, RBound]),
      (False, RSeqs [RBound, RLit ''xox'', RSet (in_chars ''baprs''), RLit ''-'',
         RMin (\<lambda>c. alnum c \<or> c = CHR ''-'') 10, RBound]),
      (False, RSeqs [RBound, RLit ''eyJ'', RMin token_char 8, RLit ''.'', RMin token_char 8, RLit ''.'',
         RMin token_char 8, RBound]),
      (True, RSeqs [RBound, RAlts [RSeq (RLit ''postgres'') (ROpt (RLit ''ql'')), RLit ''mysql'',
         RSeq (RLit ''mongodb'') (ROpt (RLit ''+srv''))], RLit ''://'',
         RPlus (\<lambda>c. \<not> py_space c \<and> \<not> in_chars '':/'' c), RLit '':'',
         RPlus (\<lambda>c. \<not> py_space c \<and> \<not> in_chars ''/@'' c), RLit ''@'']),
      (True, RSeqs [RBound, RAlts [RLit ''accountkey'', RLit ''sharedaccesssignature'',
         RLit ''aws_secret_access_key''], RStar py_space, RLit ''='', RStar py_space,
         RMin (\<lambda>c. \<not> py_space c \<and> c \<noteq> CHR '';'') 8])])"

definition or_empty :: "string option \<Rightarrow> string" where
  "or_empty v = (case v of None \<Rightarrow> [] | Some s \<Rightarrow> s)"

text \<open>\<open>ft\<close> is the runtime's text of a float inside the metadata.\<close>

definition screened_parts :: "(rat \<Rightarrow> string) \<Rightarrow> write_request \<Rightarrow> string list \<Rightarrow> string list" where
  "screened_parts ft r extra =
     [rq_content r, or_empty (rq_observation r), or_empty (rq_excerpt r), or_empty (rq_source_uri r),
      or_empty (rq_asserted_by r), rq_category r, rq_tags r, json_text ft (rq_metadata r)] @ extra"

definition screened_text :: "(rat \<Rightarrow> string) \<Rightarrow> write_request \<Rightarrow> string list \<Rightarrow> string" where
  "screened_text ft r extra = join [CHR 0x0A] (filter (\<lambda>p. p \<noteq> []) (screened_parts ft r extra))"

definition credential_shaped :: "string \<Rightarrow> bool" where
  "credential_shaped t \<longleftrightarrow> list_ex (\<lambda>(ic, r). search r (if ic then lower t else t)) CREDENTIAL_SHAPES"

definition default_credential_screen ::
    "(rat \<Rightarrow> string) \<Rightarrow> write_request \<Rightarrow> string list \<Rightarrow> decision option" where
  "default_credential_screen ft r extra =
     (if credential_shaped (screened_text ft r extra) then Some (rejected ''credential-shaped content'')
      else None)"

definition extracted_proposal_credential_decision ::
    "(rat \<Rightarrow> string) \<Rightarrow> string \<Rightarrow> string option \<Rightarrow> decision option res" where
  "extracted_proposal_credential_decision ft content excerpt =
     bindE (make_request
       \<lparr>rq_key = ''extraction-proposal-screen'',
        rq_content = (if strip content = [] then ''invalid proposal'' else strip content),
        rq_source_type = ''automatic_extraction'', rq_category = ''general'', rq_tags = [],
        rq_trust = 1/2, rq_authority = 1/2, rq_source_uri = None, rq_observation = None,
        rq_asserted_by = None, rq_performed_by = None, rq_observed_at = None,
        rq_scope = ''private'', rq_sensitivity = ''normal'', rq_correction = None,
        rq_excerpt = excerpt, rq_relation = ''supports'', rq_metadata = JObj [],
        rq_supersede = None, rq_operation = ''add_fact''\<rparr> (Some (JObj []))) (\<lambda>r.
     Inr (default_credential_screen ft r []))"

section \<open>The policy\<close>

record policy =
  po_grants :: "(string \<times> string list) list"
  po_screens :: "(write_request \<Rightarrow> decision option) list"
  po_correctors :: "string list"
  po_resolvers :: "string list"
  po_float_text :: "rat \<Rightarrow> string"

text \<open>The constructor's loop over the configured grants; a later entry for the same key wins.\<close>

fun normalize_grants :: "(string \<times> string list) list \<Rightarrow> (string \<times> string list) list
    \<Rightarrow> (string \<times> string list) list res" where
  "normalize_grants acc [] = Inr acc"
| "normalize_grants acc ((client_id, scopes) # rest) =
     (let key = strip client_id in
      if key = [] then Inl (ValueError ''client grant id must not be empty'')
      else bindE (mapE validate_scope scopes) (\<lambda>vs.
        let validated = dedup_first vs in
        if validated = [] then Inl (ValueError ''client scope grant must not be empty'')
        else normalize_grants ((key, validated) # acc) rest))"

definition make_policy :: "(string \<times> string list) list \<Rightarrow> (write_request \<Rightarrow> decision option) list
    \<Rightarrow> string list \<Rightarrow> string list \<Rightarrow> (rat \<Rightarrow> string) \<Rightarrow> policy res" where
  "make_policy client_scope_grants screens correctors resolvers ft =
     bindE (normalize_grants [] client_scope_grants) (\<lambda>grants.
     Inr \<lparr>po_grants = grants, po_screens = screens, po_correctors = correctors,
          po_resolvers = resolvers, po_float_text = ft\<rparr>)"

definition grants_of :: "policy \<Rightarrow> string \<Rightarrow> string list option" where
  "grants_of p client = map_of (po_grants p) client"

text \<open>\<open>legacy\<close> is the value of the context variable a legacy extraction batch sets.\<close>

definition authorize_context :: "policy \<Rightarrow> bool \<Rightarrow> conn_context \<Rightarrow> conn_context res" where
  "authorize_context p legacy ctx =
     (let grants = (case grants_of p (cx_client ctx) of
            Some g \<Rightarrow> Some g
          | None \<Rightarrow> if cx_client ctx = LEGACY_EXTRACTION_CLIENT_ID \<and> legacy then Some [''private''] else None) in
      case grants of
        None \<Rightarrow> Inl (UnknownMemoryClient ''memory client has no server-side scope grant'')
      | Some g \<Rightarrow>
          bindE (mapE validate_scope (cx_scopes ctx)) (\<lambda>requested.
          let effective = filter (\<lambda>sc. sc \<in> set g) requested in
          if effective = [] then Inl (PermissionError ''requested scopes do not intersect server-side grants'')
          else make_context (ctx\<lparr>cx_scopes := effective\<rparr>)))"

definition can_assert_correction :: "policy \<Rightarrow> string \<Rightarrow> bool" where
  "can_assert_correction p client \<longleftrightarrow> client \<in> set (po_correctors p)"

definition can_resolve_conflicts :: "policy \<Rightarrow> string \<Rightarrow> bool" where
  "can_resolve_conflicts p client \<longleftrightarrow> client \<in> set (po_resolvers p)"

text \<open>A request that presents itself as a human correction.\<close>

definition claims_correction :: "write_request \<Rightarrow> bool" where
  "claims_correction r \<longleftrightarrow> rq_source_type r = ''human_correction'' \<or> rq_relation r = ''corrects''
     \<or> rq_correction r \<in> {Some ''human_corrected'', Some ''human_confirmed''}"

fun first_decision :: "(write_request \<Rightarrow> decision option) list \<Rightarrow> write_request \<Rightarrow> decision option" where
  "first_decision [] r = None"
| "first_decision (screen # screens) r =
     (case screen r of Some dec \<Rightarrow> Some dec | None \<Rightarrow> first_decision screens r)"

definition evaluate_write ::
    "policy \<Rightarrow> write_request \<Rightarrow> string option \<Rightarrow> string list \<Rightarrow> decision option res" where
  "evaluate_write p r client sensitive_fields =
     bindE (validate_scope (rq_scope r)) (\<lambda>_.
     bindE (validate_sensitivity (rq_sensitivity r)) (\<lambda>_.
     bindE (validate_relation (rq_relation r)) (\<lambda>_.
     bindE (validate_correction_status (rq_correction r)) (\<lambda>_.
     Inr (if rq_scope r = ''secret'' \<or> rq_sensitivity r = ''secret''
          then Some (rejected ''secret durable writes are disabled'')
          else if rq_sensitivity r = ''sensitive''
              \<and> (case client of None \<Rightarrow> True
                 | Some cl \<Rightarrow> (case grants_of p cl of None \<Rightarrow> True | Some g \<Rightarrow> ''sensitive'' \<notin> set g))
          then Some (rejected ''sensitive durable write is not authorized'')
          else if claims_correction r
              \<and> (case client of None \<Rightarrow> True | Some cl \<Rightarrow> \<not> can_assert_correction p cl)
          then Some (needs_review ''client is not authorized to assert human correction'')
          else (case default_credential_screen (po_float_text p) r sensitive_fields of
                  Some dec \<Rightarrow> Some dec
                | None \<Rightarrow> first_decision (po_screens p) r))))))"

section \<open>Scopes\<close>

lemma alnum_no_space: "alnum c \<Longrightarrow> \<not> py_space c"
  by (auto simp: alnum_def is_digit_def is_upper_def is_lower_def py_space_def Let_def)

lemma scope_token_no_space:
  assumes "scope_token t" "c \<in> set t"
  shows "\<not> py_space c"
proof -
  have "\<forall>x \<in> set ''._-''. \<not> py_space x" by code_simp
  moreover have "alnum c \<or> c \<in> set ''._-''"
    using assms by (cases t) (auto simp: scope_token_def list_all_iff)
  ultimately show ?thesis using alnum_no_space by blast
qed

lemma base_scopes_stripped: "\<forall>v \<in> set BASE_SCOPES. strip v = v \<and> v \<noteq> []"
  by code_simp

lemma prefixed_scope_stripped:
  assumes "prefix q v" "\<forall>c \<in> set q. \<not> py_space c" "scope_token (drop (length q) v)"
  shows "strip v = v"
proof -
  obtain t where "v = q @ t" using assms(1) by (auto simp: prefix_def)
  with assms(2,3) show ?thesis
    unfolding strip_def by (intro strip_by_all) (auto dest: scope_token_no_space)
qed

lemma validate_scope_Inr: "validate_scope v = Inr w \<Longrightarrow> w = v \<and> strip v = v \<and> v \<noteq> []"
proof -
  assume "validate_scope v = Inr w"
  then have w: "w = v" and "v \<in> set BASE_SCOPES \<or> is_project_scope v \<or> is_run_scope v"
    by (auto simp: validate_scope_def split: if_splits)
  moreover have "strip v = v \<and> v \<noteq> []" if "is_project_scope v"
  proof -
    have "\<forall>c \<in> set ''project:''. \<not> py_space c" by code_simp
    with that show ?thesis using prefixed_scope_stripped [of "''project:''" v]
      by (auto simp: is_project_scope_def eval_nat_numeral)
  qed
  moreover have "strip v = v \<and> v \<noteq> []" if "is_run_scope v"
  proof -
    have "\<forall>c \<in> set ''run:''. \<not> py_space c" by code_simp
    with that show ?thesis using prefixed_scope_stripped [of "''run:''" v]
      by (auto simp: is_run_scope_def eval_nat_numeral)
  qed
  ultimately show ?thesis using base_scopes_stripped by blast
qed

lemma validate_scopes_Inr: "mapE validate_scope xs = Inr ys \<Longrightarrow> ys = xs \<and> (\<forall>x \<in> set xs. strip x = x \<and> x \<noteq> [])"
  by (induction xs arbitrary: ys) (auto simp: bindE_Inr_iff dest!: validate_scope_Inr)

definition effective_grant :: "policy \<Rightarrow> bool \<Rightarrow> string \<Rightarrow> string list option" where
  "effective_grant p legacy client = (case grants_of p client of
     Some g \<Rightarrow> Some g
   | None \<Rightarrow> if client = LEGACY_EXTRACTION_CLIENT_ID \<and> legacy then Some [''private''] else None)"

lemma make_context_Inr:
  "make_context c = Inr c' \<Longrightarrow> set (cx_scopes c') = strip ` set (cx_scopes c) \<and> cx_client c' = strip (cx_client c)
     \<and> cx_session c' = strip (cx_session c) \<and> cx_scopes c' \<noteq> []"
proof -
  assume *: "make_context c = Inr c'"
  have "set ys = strip ` set xs" if "mapE (\<lambda>v. required v n) xs = Inr ys" for n xs ys
    using that by (induction xs arbitrary: ys) (auto simp: bindE_Inr_iff required_ok)
  with * show ?thesis
    by (auto simp: make_context_def bindE_Inr_iff required_ok sorted_set_def
        simp flip: set_empty)
qed


section \<open>The write policy\<close>

text \<open>C12: the policy lets a write through exactly when its labels are in the vocabulary, it is not
  secret, a sensitive one comes from a client granted \<open>sensitive\<close>, a claimed human correction
  comes from a correction authority, no screened text has the shape of a credential, and no
  configured screen objects.
\<close>

theorem evaluate_write_allows:
  "evaluate_write p r client extra = Inr None \<longleftrightarrow>
     is_ok (validate_scope (rq_scope r)) \<and> rq_sensitivity r \<in> {''normal'', ''sensitive''}
     \<and> rq_relation r \<in> set PROVENANCE_RELATIONS \<and> rq_correction r \<in> insert None (Some ` set CORRECTION_STATUSES)
     \<and> rq_scope r \<noteq> ''secret''
     \<and> (rq_sensitivity r = ''sensitive'' \<longrightarrow>
          (\<exists>cl g. client = Some cl \<and> grants_of p cl = Some g \<and> ''sensitive'' \<in> set g))
     \<and> (claims_correction r \<longrightarrow> (\<exists>cl. client = Some cl \<and> can_assert_correction p cl))
     \<and> \<not> credential_shaped (screened_text (po_float_text p) r extra)
     \<and> (\<forall>screen \<in> set (po_screens p). screen r = None)"
proof -
  have first: "first_decision ss r = None \<longleftrightarrow> (\<forall>s \<in> set ss. s r = None)" for ss
    by (induction ss) (auto split: option.splits)
  have sens: "validate_sensitivity v = Inr u \<longleftrightarrow> u = v \<and> v \<in> {''normal'', ''sensitive'', ''secret''}" for v u
    by (auto simp: validate_sensitivity_def SENSITIVITIES_def)
  have rel: "validate_relation v = Inr u \<longleftrightarrow> u = v \<and> v \<in> set PROVENANCE_RELATIONS" for v u
    by (auto simp: validate_relation_def)
  have corr: "validate_correction_status v = Inr u \<longleftrightarrow> u = v \<and> v \<in> insert None (Some ` set CORRECTION_STATUSES)" for v u
    by (auto simp: validate_correction_status_def split: option.splits)
  show ?thesis
    unfolding evaluate_write_def bindE_Inr_iff is_ok_iff default_credential_screen_def
    by (auto simp: sens rel corr first split: option.splits)
qed

lemma join_part:
  assumes "w \<in> set ps"
  shows "\<exists>a b. join [c] ps = a @ w @ b \<and> (a = [] \<or> last a = c) \<and> (b = [] \<or> hd b = c)"
  using assms
proof (induction "[c]" ps rule: join.induct)
  case (3 x y ys)
  show ?case
  proof (cases "w = x")
    case True
    then have "join [c] (x # y # ys) = [] @ w @ (c # join [c] (y # ys))" by simp
    then show ?thesis by fastforce
  next
    case False
    with 3 obtain a b where ab: "join [c] (y # ys) = a @ w @ b" "a = [] \<or> last a = c" "b = [] \<or> hd b = c"
      by auto
    then have "join [c] (x # y # ys) = (x @ c # a) @ w @ b" by simp
    moreover have "last (x @ c # a) = c" using ab by auto
    ultimately show ?thesis using ab by blast
  qed
qed (auto intro: exI [of _ "[]"])

lemma upper_or_digit_word: "upper_or_digit c \<Longrightarrow> word_char c"
  by (auto simp: upper_or_digit_def word_char_def)

lemma aws_key_found:
  assumes "length key = 16" "\<forall>c \<in> set key. upper_or_digit c"
    and pre: "pre = [] \<or> \<not> word_char (last pre)" and post: "post = [] \<or> \<not> word_char (hd post)"
  shows "search aws_key_shape (pre @ ''AKIA'' @ key @ post)"
proof (rule searchI)
  let ?s = "pre @ ''AKIA'' @ key @ post"
  let ?i = "length pre"
  have nth: "?s ! (?i + 4 + k) = key ! k" if "k < 16" for k
    using that assms(1) by (simp add: nth_append)
  have "at_boundary ?s ?i"
  proof -
    have "word_char CHR ''A''" by code_simp
    then have "?i < length ?s \<and> word_char (?s ! ?i)" by simp
    moreover have "\<not> (0 < ?i \<and> ?i \<le> length ?s \<and> word_char (?s ! (?i - 1)))"
      using pre by (auto simp: nth_append last_conv_nth)
    ultimately show ?thesis unfolding at_boundary_def by blast
  qed
  then have a: "?i \<in> set (ends RBound ?s ?i)" by simp
  have b: "?i + 4 \<in> set (ends (RLit ''AKIA'') ?s ?i)"
    using ends_Lit [of "''AKIA''" ?i ?s] by (simp add: eval_nat_numeral)
  have c: "(?i + 4) + 16 \<in> set (ends (RTimes upper_or_digit 16) ?s (?i + 4))"
    by (rule ends_Times) (use nth assms in auto)
  have "at_boundary ?s (?i + 4 + 16)"
  proof -
    have "?s ! (?i + 4 + 16 - 1) = key ! 15" using nth [of 15] by (simp add: numeral_eq_Suc)
    then have "0 < ?i + 4 + 16 \<and> ?i + 4 + 16 \<le> length ?s \<and> word_char (?s ! (?i + 4 + 16 - 1))"
      using assms(1,2) by (auto intro: upper_or_digit_word)
    moreover have "\<not> (?i + 4 + 16 < length ?s \<and> word_char (?s ! (?i + 4 + 16)))"
      using post assms(1) by (cases post) (auto simp: nth_append)
    ultimately show ?thesis unfolding at_boundary_def by blast
  qed
  then have e: "?i + 4 + 16 \<in> set (ends RBound ?s (?i + 4 + 16))" by simp
  show "?i + 4 + 16 \<in> set (ends aws_key_shape ?s ?i)"
    unfolding aws_key_shape_def ends_Seqs_Cons ends_Seqs_Nil using a b c e by blast
qed simp

text \<open>No durable write carries an AWS access key id: when any screened field (content,
  observation, excerpt, source, author, category, tags, metadata, or a typed state field)
  contains \<open>AKIA\<close> and sixteen capitals or digits as a word of its own, the policy answers
  with a refusal or an error, whoever writes and whatever else the request says.
\<close>

theorem aws_key_never_allowed:
  assumes "w \<in> set (screened_parts (po_float_text p) r extra)"
    and "w = pre @ ''AKIA'' @ key @ post"
    and "length key = 16" "\<forall>c \<in> set key. upper_or_digit c"
    and "pre = [] \<or> \<not> word_char (last pre)" "post = [] \<or> \<not> word_char (hd post)"
  shows "evaluate_write p r client extra \<noteq> Inr None"
proof -
  let ?t = "screened_text (po_float_text p) r extra"
  have nl: "\<not> word_char CHR 0x0A" by code_simp
  have "w \<in> set (filter (\<lambda>p. p \<noteq> []) (screened_parts (po_float_text p) r extra))"
    using assms(1,2) by simp
  then obtain a b where t: "?t = a @ w @ b" and ab: "a = [] \<or> last a = CHR 0x0A" "b = [] \<or> hd b = CHR 0x0A"
    unfolding screened_text_def using join_part by metis
  have "a @ pre = [] \<or> \<not> word_char (last (a @ pre))"
    using ab(1) nl assms(5) by (cases "pre = []") auto
  moreover have "post @ b = [] \<or> \<not> word_char (hd (post @ b))"
    using ab(2) nl assms(6) by (cases "post = []") auto
  ultimately have "search aws_key_shape ((a @ pre) @ ''AKIA'' @ key @ (post @ b))"
    by (intro aws_key_found assms(3,4))
  then have "search aws_key_shape ?t" using t assms(2) by simp
  moreover have "(False, aws_key_shape) \<in> set CREDENTIAL_SHAPES"
    by (simp add: CREDENTIAL_SHAPES_def Let_def)
  ultimately have "credential_shaped ?t"
    unfolding credential_shaped_def list_ex_iff by force
  moreover have "evaluate_write p r client extra \<noteq> Inr None" if "credential_shaped ?t"
    using that unfolding evaluate_write_def bindE_Inr_iff default_credential_screen_def
    by (auto split: if_splits)
  ultimately show ?thesis by blast
qed

section \<open>Concrete instances\<close>

definition demo_policy :: policy where
  "demo_policy = \<lparr>po_grants = [(''codex'', [''private'', ''sensitive'']), (''cursor'', [''public''])],
     po_screens = [], po_correctors = [''codex''], po_resolvers = [''codex''],
     po_float_text = (\<lambda>q. ''0.0'')\<rparr>"

definition demo_context :: conn_context where
  "demo_context = \<lparr>cx_client = ''codex'', cx_surface = ''cli'', cx_agent = ''main'', cx_session = ''s1'',
     cx_display = None, cx_parent = None, cx_root = None, cx_repo = None, cx_branch = None,
     cx_commit = None, cx_capabilities = [], cx_scopes = [''private'', ''work''], cx_started_at = None\<rparr>"

definition demo_request :: "string \<Rightarrow> string \<Rightarrow> write_request" where
  "demo_request key content =
     \<lparr>rq_key = key, rq_content = content, rq_source_type = ''conversation'', rq_category = ''general'',
      rq_tags = [], rq_trust = 1/2, rq_authority = 1/2, rq_source_uri = None, rq_observation = None,
      rq_asserted_by = None, rq_performed_by = None, rq_observed_at = None, rq_scope = ''private'',
      rq_sensitivity = ''normal'', rq_correction = None, rq_excerpt = None, rq_relation = ''supports'',
      rq_metadata = JObj [], rq_supersede = None, rq_operation = ''add_fact''\<rparr>"

lemma demo_context_authorized:
  "authorize_context demo_policy False demo_context = Inr (demo_context\<lparr>cx_scopes := [''private'']\<rparr>)"
  by code_simp


lemma demo_text: "screened_text (po_float_text demo_policy) (demo_request key ''x'') []
    = ''x'' @ [CHR 0x0A] @ ''general'' @ [CHR 0x0A] @ ''{}''"
  by (simp add: screened_text_def screened_parts_def demo_request_def or_empty_def)

lemma demo_text_harmless: "\<not> credential_shaped (''x'' @ [CHR 0x0A] @ ''general'' @ [CHR 0x0A] @ ''{}'')"
  by code_simp

theorem evaluate_write_allows_witness:
  "evaluate_write demo_policy (demo_request ''k'' ''x'') (Some ''cursor'') [] = Inr None
   \<and> evaluate_write demo_policy ((demo_request ''k'' ''x'')\<lparr>rq_sensitivity := ''sensitive''\<rparr>) (Some ''cursor'') [] \<noteq> Inr None"
proof -
  have scope: "is_ok (validate_scope ''private'')" by code_simp
  have rel: "''supports'' \<in> set PROVENANCE_RELATIONS" by code_simp
  have none: "\<not> claims_correction (demo_request ''k'' ''x'')" by code_simp
  show ?thesis
    using scope rel none demo_text_harmless
    unfolding evaluate_write_allows demo_text
    by (auto simp: demo_request_def grants_of_def demo_policy_def)
qed

theorem aws_key_never_allowed_witness:
  "evaluate_write demo_policy (demo_request ''k'' ''use AKIAABCDEFGHIJKLMN01.'') (Some ''codex'') [] \<noteq> Inr None"
proof (rule aws_key_never_allowed)
  show "rq_content (demo_request ''k'' ''use AKIAABCDEFGHIJKLMN01.'')
      \<in> set (screened_parts (po_float_text demo_policy) (demo_request ''k'' ''use AKIAABCDEFGHIJKLMN01.'') [])"
    by (simp add: screened_parts_def)
  show "rq_content (demo_request ''k'' ''use AKIAABCDEFGHIJKLMN01.'') = ''use '' @ ''AKIA'' @ ''ABCDEFGHIJKLMN01'' @ ''.''"
    by (simp add: demo_request_def)
qed code_simp+

end
