(* ===== verification/SlotKeys.thy ===== *)
theory SlotKeys
  imports StoreInv PyRegex "HOL-Library.List_Lexorder" "HOL-Library.Char_ord"
begin

text \<open>
  The key half of \<^verbatim>\<open>enfold/state_slots.py\<close>: the canonical form of subject and predicate
  keys, the canonical vocabulary, and the resolution of an extractor's near misses.
\<close>

section \<open>Canonical keys\<close>

definition one_of :: "string \<Rightarrow> char \<Rightarrow> bool" where
  "one_of cs c \<longleftrightarrow> c \<in> set cs"

text \<open>\<open>[a-z0-9]\<close> followed by at most \<open>n\<close> characters of \<open>[a-z0-9]\<close> and \<open>extra\<close>.\<close>

definition key_shape :: "string \<Rightarrow> nat \<Rightarrow> string \<Rightarrow> bool" where
  "key_shape extra n s \<longleftrightarrow> s \<noteq> [] \<and> is_key_char (hd s)
     \<and> list_all (\<lambda>c. is_key_char c \<or> one_of extra c) (tl s) \<and> length (tl s) \<le> n"

definition normalize_subject_key :: "string \<Rightarrow> string res" where
  "normalize_subject_key value =
     (let normalized = sub_runs py_space CHR ''_'' False (casefold (strip value)) in
      if \<not> key_shape ''._:/-'' 127 normalized then Inl (ValueError ''subject_key is not a canonical slot key'')
      else Inr normalized)"

definition normalize_predicate_key :: "string \<Rightarrow> string res" where
  "normalize_predicate_key value =
     (let normalized = sub_runs (\<lambda>c. py_space c \<or> c = CHR ''-'') CHR ''_'' False (casefold (strip value)) in
      if \<not> key_shape ''._-'' 63 normalized then Inl (ValueError ''predicate_key is not a canonical slot key'')
      else Inr normalized)"

section \<open>The vocabulary\<close>

definition CANONICAL_SUBJECT_KINDS :: "(string \<times> string) list" where
  "CANONICAL_SUBJECT_KINDS =
    [(''agent'', ''software agent as agent:<stable-name>''),
     (''bot'', ''named bot as bot:<stable-name>''),
     (''course'', ''catalog course as course:<letters><digits>; omit section suffixes''),
     (''course_section'', ''specific course section as course_section:<stable-name>''),
     (''cron'', ''scheduled job as cron:<stable-name>''),
     (''environment'', ''runtime environment as environment:<stable-name>''),
     (''person'', ''named person as person:<stable-name>''),
     (''project'', ''named project as project:<stable-name>''),
     (''service'', ''software service as service:<stable-name>''),
     (''trip'', ''specific trip as trip:<stable-name>'')]"

definition CANONICAL_PREDICATES :: "(string \<times> string) list" where
  "CANONICAL_PREDICATES =
    [(''clothing_store'', ''preferred store for clothing''),
     (''data_analysis_course'', ''preferred course for a data analysis requirement''),
     (''decision_council'', ''preferred council or panel for decisions''),
     (''employer'', ''current employer''),
     (''cru_schedule_mode'', ''preferred CRU schedule delivery mode''),
     (''job_status'', ''current job status''),
     (''keyboard'', ''preferred keyboard type''),
     (''live_version'', ''currently deployed or live version''),
     (''location'', ''current location''),
     (''model'', ''current or preferred model''),
     (''model_routing'', ''preferred routing of work among models''),
     (''port'', ''network port''),
     (''quiz_time_accommodation'', ''quiz time accommodation or multiplier''),
     (''response_style'', ''preferred response, answer, or reply style''),
     (''result_format'', ''preferred format for final results''),
     (''typography'', ''typography style''),
     (''threadwell_use'', ''constraint on when to use or buy from Threadwell'')]"

definition subject_kinds :: "string list" where
  "subject_kinds = map fst CANONICAL_SUBJECT_KINDS"

definition canonical_predicates :: "string list" where
  "canonical_predicates = map fst CANONICAL_PREDICATES"

text \<open>\<open>dict.setdefault\<close> on an association list kept in insertion order.\<close>

definition setdefault :: "string \<Rightarrow> string \<Rightarrow> (string \<times> string) list \<Rightarrow> (string \<times> string) list" where
  "setdefault k v kvs = (if k \<in> set (map fst kvs) then kvs else kvs @ [(k, v)])"

definition store_predicates :: "string \<Rightarrow> db \<Rightarrow> string list" where
  "store_predicates sc d =
     sort (remdups (map (\<lambda>f. the (f_predicate f))
       (filter (\<lambda>f. f_scope f = sc \<and> f_predicate f \<noteq> None \<and> active f) (facts d))))"

definition canonical_slot_registry ::
    "db option \<Rightarrow> string option \<Rightarrow> ((string \<times> string) list \<times> (string \<times> string) list) res" where
  "canonical_slot_registry conn sc = (case conn of
     None \<Rightarrow> Inr (CANONICAL_SUBJECT_KINDS, CANONICAL_PREDICATES)
   | Some d \<Rightarrow> (case sc of
       None \<Rightarrow> Inl (ValueError ''scope is required for a store-backed slot registry'')
     | Some s \<Rightarrow>
         if strip s = [] then Inl (ValueError ''scope is required for a store-backed slot registry'')
         else Inr (CANONICAL_SUBJECT_KINDS,
           foldl (\<lambda>ps p. case normalize_predicate_key p of
                Inl _ \<Rightarrow> ps
              | Inr k \<Rightarrow> setdefault k ''existing canonical store predicate'' ps)
             CANONICAL_PREDICATES (store_predicates (strip s) d))))"

section \<open>Near misses\<close>

definition plural_key :: "string \<Rightarrow> string" where
  "plural_key value =
     (let (pre, found, final) = rpartition CHR ''_'' value;
          plural =
            (if list_ex (\<lambda>x. suffix x final) [''s'', ''x'', ''z'', ''ch'', ''sh''] then final @ ''es''
             else if 1 < length final \<and> suffix ''y'' final
                 \<and> \<not> one_of ''aeiou'' (final ! (length final - 2))
             then butlast final @ ''ies''
             else final @ ''s'') in
      if found then pre @ ''_'' @ plural else plural)"

text \<open>\<open>re.sub(r"\s*:\s*", ":", value)\<close>: the flag says a colon was just written, the accumulator
  holds the pending white space reversed.\<close>

fun tighten_colons :: "bool \<Rightarrow> string \<Rightarrow> string \<Rightarrow> string" where
  "tighten_colons after pend [] = rev pend"
| "tighten_colons after pend (c # cs) =
     (if c = CHR '':'' then CHR '':'' # tighten_colons True [] cs
      else if py_space c then tighten_colons after (if after then [] else c # pend) cs
      else rev pend @ c # tighten_colons False [] cs)"

definition dash :: "char \<Rightarrow> bool" where
  "dash c \<longleftrightarrow> c = CHR ''_'' \<or> c = CHR ''-''"

text \<open>
  \<open>([a-z]{2,4})[_-]*(\d{4})(?:[_-]*[a-z][a-z0-9]{1,7})?\<close>, whole text: the two groups joined.
  The keys it is applied to have only ASCII digits.
\<close>

definition course_code :: "string \<Rightarrow> string option" where
  "course_code s =
     (let letters = takeWhile is_lower s;
          rest = dropWhile dash (dropWhile is_lower s);
          digits = take 4 rest;
          after = drop 4 rest;
          section = dropWhile dash after in
      if 2 \<le> length letters \<and> length letters \<le> 4 \<and> length digits = 4 \<and> list_all is_digit digits
         \<and> (after = [] \<or> (section \<noteq> [] \<and> is_lower (hd section) \<and> list_all is_key_char (tl section)
              \<and> 1 \<le> length (tl section) \<and> length (tl section) \<le> 7))
      then Some (letters @ digits) else None)"

definition singular_kind :: "string \<Rightarrow> string" where
  "singular_kind kind =
     (let kind_matches = filter (\<lambda>k. plural_key k = kind) subject_kinds in
      if kind \<notin> set subject_kinds \<and> length kind_matches = 1 then hd kind_matches else kind)"

definition normal_payload :: "string \<Rightarrow> string \<Rightarrow> string" where
  "normal_payload kind payload =
     (let payload = strip_by dash payload in
      if kind = ''course'' then (case course_code payload of None \<Rightarrow> payload | Some p \<Rightarrow> p) else payload)"

definition resolve_extracted_subject_key :: "string \<Rightarrow> string res" where
  "resolve_extracted_subject_key value =
     bindE (normalize_subject_key (tighten_colons False [] value)) (\<lambda>normalized.
     if CHR '':'' \<notin> set normalized then Inr normalized
     else
       (let (kind, payload) = split_first CHR '':'' normalized;
            kind = singular_kind kind in
        normalize_subject_key (kind @ '':'' @ normal_payload kind payload)))"

definition resolve_extracted_predicate_key :: "string \<Rightarrow> string list \<Rightarrow> string res" where
  "resolve_extracted_predicate_key value known_predicates =
     bindE (normalize_predicate_key value) (\<lambda>normalized.
     bindE (mapE normalize_predicate_key (canonical_predicates @ known_predicates)) (\<lambda>ks.
     let known = remdups ks in
     if normalized \<in> set known then Inr normalized
     else (let matches = filter (\<lambda>k. plural_key k = normalized) known in
           Inr (if length matches = 1 then hd matches else normalized))))"

section \<open>Canonical keys are fixed points\<close>

lemma key_shape_chars: "key_shape extra n s \<Longrightarrow> c \<in> set s \<Longrightarrow> is_key_char c \<or> c \<in> set extra"
  by (cases s) (auto simp: key_shape_def list_all_iff one_of_def)

lemma key_char_plain: "is_key_char c \<Longrightarrow> casefold_char c = [c] \<and> \<not> py_space c \<and> \<not> dash c \<and> c \<noteq> CHR '':''"
proof -
  assume k: "is_key_char c"
  then have n: "(97 \<le> code c \<and> code c \<le> 122) \<or> (48 \<le> code c \<and> code c \<le> 57)"
    by (auto simp: is_key_char_def is_lower_def is_digit_def)
  have "casefold_char c = [c]"
    using n by (auto simp: casefold_char_def lower_char_key [OF k])
  moreover have "\<not> py_space c" using n by (auto simp: py_space_def Let_def)
  moreover have "\<not> is_key_char CHR ''_''" "\<not> is_key_char CHR ''-''" "\<not> is_key_char CHR '':''" by code_simp+
  then have "\<not> dash c \<and> c \<noteq> CHR '':''" using k by (auto simp: dash_def)
  ultimately show ?thesis by blast
qed

definition key_text :: "char \<Rightarrow> bool" where
  "key_text c \<longleftrightarrow> is_key_char c \<or> c \<in> set ''._:/-''"

lemma key_text_plain: "key_text c \<Longrightarrow> casefold_char c = [c] \<and> \<not> py_space c"
proof -
  have "\<forall>c \<in> set ''._:/-''. casefold_char c = [c] \<and> \<not> py_space c" by code_simp
  then show "key_text c \<Longrightarrow> casefold_char c = [c] \<and> \<not> py_space c"
    using key_char_plain by (auto simp only: key_text_def)
qed

lemma key_text_id:
  assumes "\<forall>c \<in> set s. key_text c"
  shows "strip s = s" "casefold s = s" "sub_runs py_space r b s = s" "tighten_colons False [] s = s"
proof -
  have plain: "\<forall>c \<in> set s. casefold_char c = [c] \<and> \<not> py_space c"
    using assms key_text_plain by blast
  then show "strip s = s" unfolding strip_def by (intro strip_by_all) blast
  show "casefold s = s" using plain by (intro casefold_id) blast
  show "sub_runs py_space r b s = s" using plain by (intro sub_runs_id) blast
  have "\<forall>c \<in> set s. \<not> py_space c \<Longrightarrow> tighten_colons b [] s = s" for b
    by (induction s arbitrary: b) auto
  then show "tighten_colons False [] s = s" using plain by blast
qed

lemma normalize_subject_key_text:
  "\<forall>c \<in> set s. key_text c \<Longrightarrow> normalize_subject_key s = Inr k \<longleftrightarrow> key_shape ''._:/-'' 127 s \<and> k = s"
  by (auto simp: normalize_subject_key_def Let_def key_text_id)

lemma normalize_subject_key_Inr:
  assumes "normalize_subject_key v = Inr k"
  shows "(\<forall>c \<in> set k. key_text c) \<and> key_shape ''._:/-'' 127 k \<and> normalize_subject_key k = Inr k"
proof -
  from assms have shape: "key_shape ''._:/-'' 127 k"
    by (auto simp: normalize_subject_key_def Let_def split: if_splits)
  then have "\<forall>c \<in> set k. key_text c" unfolding key_text_def by (blast dest: key_shape_chars)
  with shape show ?thesis by (simp add: normalize_subject_key_text)
qed

lemma normalize_predicate_key_Inr:
  assumes "normalize_predicate_key v = Inr k"
  shows "(\<forall>c \<in> set k. key_text c) \<and> key_shape ''._-'' 63 k \<and> CHR ''-'' \<notin> set k
    \<and> normalize_predicate_key k = Inr k"
proof -
  let ?p = "\<lambda>c. py_space c \<or> c = CHR ''-''"
  from assms have shape: "key_shape ''._-'' 63 k" and k: "k = sub_runs ?p CHR ''_'' False (casefold (strip v))"
    by (auto simp: normalize_predicate_key_def Let_def split: if_splits)
  have "set ''._-'' \<subseteq> set ''._:/-''" by code_simp
  then have chars: "\<forall>c \<in> set k. key_text c"
    unfolding key_text_def using key_shape_chars [OF shape] by blast
  have nodash: "CHR ''-'' \<notin> set k"
    using sub_runs_set [of ?p "CHR ''_''" False "casefold (strip v)"] unfolding k by auto
  then have "\<forall>c \<in> set k. \<not> ?p c" using chars key_text_plain by blast
  then have "sub_runs ?p CHR ''_'' False k = k" by (rule sub_runs_id)
  then have "normalize_predicate_key k = Inr k"
    using shape by (simp add: normalize_predicate_key_def Let_def key_text_id [OF chars])
  with chars shape nodash show ?thesis by blast
qed

text \<open>Key normalisation is a projection: an accepted subject or predicate key is one the
  normalisation leaves alone, starts with a lower-case letter or digit, has at most 128 (64)
  characters, and a predicate key holds no dash.
\<close>

theorem normalize_keys_idempotent:
  "(normalize_subject_key v = Inr k \<longrightarrow>
      normalize_subject_key k = Inr k \<and> is_key_char (hd k) \<and> k \<noteq> [] \<and> length k \<le> 128)
   \<and> (normalize_predicate_key v = Inr k \<longrightarrow>
      normalize_predicate_key k = Inr k \<and> is_key_char (hd k) \<and> k \<noteq> [] \<and> length k \<le> 64 \<and> CHR ''-'' \<notin> set k)"
  using normalize_subject_key_Inr [of v k] normalize_predicate_key_Inr [of v k]
  by (auto simp: key_shape_def)

theorem normalize_keys_idempotent_witness:
  "normalize_subject_key ''  Person:Jane  Doe'' = Inr ''person:jane_doe''
   \<and> normalize_subject_key ''person:jane_doe'' = Inr ''person:jane_doe''"
proof -
  have "normalize_subject_key ''  Person:Jane  Doe'' = Inr ''person:jane_doe''" by code_simp
  with normalize_keys_idempotent [of "''  Person:Jane  Doe''" "''person:jane_doe''"] show ?thesis by simp
qed

subsection \<open>Near misses are resolved once\<close>

lemma strip_by_subset: "set (strip_by p s) \<subseteq> set s"
  unfolding strip_by_def rstrip_by_def
  by (metis set_rev set_dropWhileD subsetI)

lemma course_code_subset: "course_code s = Some p \<Longrightarrow> set p \<subseteq> set s"
  by (auto simp: course_code_def Let_def split: if_splits
      dest!: in_set_takeD set_takeWhileD set_dropWhileD)

lemma is_lower_not_digit: "is_digit c \<Longrightarrow> \<not> is_lower c \<and> \<not> dash c"
proof -
  assume "is_digit c"
  then have "is_key_char c" "\<not> is_lower c" by (auto simp: is_key_char_def is_digit_def is_lower_def)
  with key_char_plain show ?thesis by blast
qed

lemma is_lower_not_dash: "is_lower c \<Longrightarrow> \<not> dash c"
  using key_char_plain [of c] by (simp add: is_key_char_def)

lemma course_code_fixed:
  assumes "course_code s = Some p"
  shows "course_code p = Some p \<and> strip_by dash p = p"
proof -
  let ?l = "takeWhile is_lower s" and ?d = "take 4 (dropWhile dash (dropWhile is_lower s))"
  from assms have p: "p = ?l @ ?d" and l: "2 \<le> length ?l" "length ?l \<le> 4" and d: "length ?d = 4" "list_all is_digit ?d"
    by (auto simp: course_code_def Let_def split: if_splits)
  from d obtain c cs where dc: "?d = c # cs" "is_digit c" by (cases ?d) auto
  have low: "\<forall>x \<in> set ?l. is_lower x" by (blast dest: set_takeWhileD)
  then have tw: "takeWhile is_lower p = ?l" "dropWhile is_lower p = ?d"
    using dc is_lower_not_digit unfolding p by (simp_all add: takeWhile_append2 dropWhile_append2)
  have dd: "dropWhile dash ?d = ?d" using dc is_lower_not_digit by simp
  have "take 4 ?d = ?d" "drop 4 ?d = []" using d(1) by simp_all
  then have "course_code p = Some p"
    unfolding course_code_def Let_def tw dd using l d by (simp only: p [symmetric] simp_thms if_True order.refl)
  moreover have "\<forall>x \<in> set p. \<not> dash x"
    using low d(2) is_lower_not_digit is_lower_not_dash
    unfolding p set_append list_all_iff by blast
  then have "strip_by dash p = p" by (rule strip_by_all)
  ultimately show ?thesis by blast
qed

lemma normal_payload_idem: "normal_payload kind (normal_payload kind payload) = normal_payload kind payload"
proof (cases "kind = ''course''")
  case True
  show ?thesis
  proof (cases "course_code (strip_by dash payload)")
    case None
    with True show ?thesis by (simp only: normal_payload_def Let_def if_True option.case strip_by_idem simp_thms)
  next
    case (Some p)
    with True course_code_fixed [OF Some] show ?thesis
      by (simp only: normal_payload_def Let_def if_True option.case strip_by_idem simp_thms)
  qed
next
  case False
  then show ?thesis by (simp only: normal_payload_def Let_def if_False strip_by_idem simp_thms)
qed

lemma normal_payload_subset: "set (normal_payload kind payload) \<subseteq> set payload"
  using strip_by_subset [of dash payload] course_code_subset [of "strip_by dash payload"]
  unfolding normal_payload_def Let_def by (auto split: option.splits)

lemma subject_kinds_text: "\<forall>k \<in> set subject_kinds. (\<forall>c \<in> set k. key_text c) \<and> CHR '':'' \<notin> set k"
  by code_simp

lemma singular_kind_cases: "singular_kind kind = kind \<or> singular_kind kind \<in> set subject_kinds"
proof -
  let ?m = "filter (\<lambda>k. plural_key k = kind) subject_kinds"
  have "hd ?m \<in> set subject_kinds" if "length ?m = 1"
  proof -
    have "?m \<noteq> []" using that by auto
    then have "hd ?m \<in> set ?m" by (rule hd_in_set)
    then show ?thesis by simp
  qed
  then show ?thesis by (auto simp: singular_kind_def Let_def)
qed

lemma singular_kind_idem: "singular_kind (singular_kind kind) = singular_kind kind"
  using singular_kind_cases [of kind] by (auto simp: singular_kind_def Let_def)

lemma split_first_join:
  "c \<notin> set k \<Longrightarrow> split_first c (k @ c # p) = (k, p)"
proof -
  assume c: "c \<notin> set k"
  then have "takeWhile (\<lambda>x. x \<noteq> c) (k @ c # p) = k @ takeWhile (\<lambda>x. x \<noteq> c) (c # p)"
    "dropWhile (\<lambda>x. x \<noteq> c) (k @ c # p) = dropWhile (\<lambda>x. x \<noteq> c) (c # p)"
    by (intro takeWhile_append2 dropWhile_append2; metis)+
  then show ?thesis by (simp add: split_first_def)
qed

lemma split_first_parts:
  "c \<in> set s \<Longrightarrow> split_first c s = (k, p) \<Longrightarrow> s = k @ c # p \<and> c \<notin> set k"
proof -
  assume c: "c \<in> set s" and sp: "split_first c s = (k, p)"
  from c have ne: "dropWhile (\<lambda>x. x \<noteq> c) s \<noteq> []" by (auto simp: dropWhile_eq_Nil_conv)
  then have "hd (dropWhile (\<lambda>x. x \<noteq> c) s) = c" using hd_dropWhile [OF ne] by simp
  with ne sp have "dropWhile (\<lambda>x. x \<noteq> c) s = c # p" by (cases "dropWhile (\<lambda>x. x \<noteq> c) s") (auto simp: split_first_def)
  moreover have "k = takeWhile (\<lambda>x. x \<noteq> c) s" using sp by (simp add: split_first_def)
  ultimately show ?thesis by (metis takeWhile_dropWhile_id set_takeWhileD)
qed

text \<open>Resolving an extractor's subject key twice changes nothing the second time: the result
  is canonical, its kind is no plural of a known kind, and a course payload is already bare.
\<close>

theorem resolve_extracted_subject_idempotent:
  assumes "resolve_extracted_subject_key v = Inr k"
  shows "resolve_extracted_subject_key k = Inr k \<and> normalize_subject_key k = Inr k"
proof -
  from assms obtain n where n: "normalize_subject_key (tighten_colons False [] v) = Inr n"
    by (auto simp: resolve_extracted_subject_key_def bindE_Inr_iff)
  note nt = normalize_subject_key_Inr [OF n]
  show ?thesis
  proof (cases "CHR '':'' \<in> set n")
    case False
    with assms n have "k = n" by (simp add: resolve_extracted_subject_key_def)
    with nt False show ?thesis
      by (simp add: resolve_extracted_subject_key_def key_text_id)
  next
    case True
    obtain kind payload where sp: "split_first CHR '':'' n = (kind, payload)" by fastforce
    let ?kind = "singular_kind kind" and ?payload = "normal_payload (singular_kind kind) payload"
    let ?r = "?kind @ '':'' @ ?payload"
    have run: "normalize_subject_key ?r = Inr k"
      using assms n True sp by (simp add: resolve_extracted_subject_key_def Let_def)
    have parts: "n = kind @ CHR '':'' # payload" "CHR '':'' \<notin> set kind"
      using split_first_parts [OF True sp] by blast+
    have kt: "\<forall>c \<in> set ?kind. key_text c" "CHR '':'' \<notin> set ?kind"
      using singular_kind_cases [of kind] subject_kinds_text nt parts by auto
    have "\<forall>c \<in> set ?r. key_text c"
      using nt parts kt normal_payload_subset [of ?kind payload] by auto
    with run have r: "k = ?r" "\<forall>c \<in> set k. key_text c" and norm: "normalize_subject_key k = Inr k"
      by (simp_all add: normalize_subject_key_text)
    have "split_first CHR '':'' k = (?kind, ?payload)"
      unfolding r(1) using split_first_join [OF kt(2), of ?payload] by simp
    moreover have "tighten_colons False [] k = k" by (rule key_text_id(4) [OF r(2)])
    moreover have "CHR '':'' \<in> set k" unfolding r(1) by simp
    ultimately have "resolve_extracted_subject_key k = normalize_subject_key k"
      using norm r(1)
      by (simp add: resolve_extracted_subject_key_def Let_def singular_kind_idem normal_payload_idem)
    with norm show ?thesis by simp
  qed
qed

theorem resolve_extracted_subject_witness:
  "resolve_extracted_subject_key ''Courses : CS-1234_lab'' = Inr ''course:cs1234''
   \<and> resolve_extracted_subject_key ''course:cs1234'' = Inr ''course:cs1234''"
proof -
  have "resolve_extracted_subject_key ''Courses : CS-1234_lab'' = Inr ''course:cs1234''" by code_simp
  with resolve_extracted_subject_idempotent [OF this] show ?thesis by simp
qed

end
