(* ===== verification/CoreStore.thy ===== *)
theory CoreStore
  imports StoreInv "HOL-Library.List_Lexorder" "HOL-Library.Char_ord" "HOL-Library.Product_Lexorder"
    "HOL-Library.Option_ord"
begin

text \<open>
  \<^verbatim>\<open>enfold/core_store.py\<close>: inserting facts and entities, the scope and sensitivity predicate
  every read goes through, and the reads themselves: current facts, one fact, the history of
  settled events, and facts by id.  A predicate that the source builds as SQL text is the
  function of a row the text denotes.
\<close>

section \<open>Writing\<close>

text \<open>The optional columns of \<open>insert_fact\<close> and their defaults.\<close>

record fact_fields =
  ff_category :: string
  ff_tags :: string
  ff_trust :: rat
  ff_kind :: "string option"
  ff_subject :: "string option"
  ff_predicate :: "string option"
  ff_object :: "string option"
  ff_confidence :: "rat option"
  ff_authority :: "rat option"
  ff_scope :: string
  ff_sensitivity :: string
  ff_valid_from :: "string option"

definition default_fields :: fact_fields where
  "default_fields = \<lparr>ff_category = ''general'', ff_tags = [], ff_trust = 1/2, ff_kind = None,
     ff_subject = None, ff_predicate = None, ff_object = None, ff_confidence = None,
     ff_authority = None, ff_scope = ''private'', ff_sensitivity = ''normal'', ff_valid_from = None\<rparr>"

definition unit_interval :: "rat option \<Rightarrow> bool" where
  "unit_interval v \<longleftrightarrow> (case v of None \<Rightarrow> True | Some x \<Rightarrow> 0 \<le> x \<and> x \<le> 1)"

definition new_fact :: "string \<Rightarrow> string \<Rightarrow> fact_fields \<Rightarrow> int \<Rightarrow> fact" where
  "new_fact created content a i =
     (default_fact i content (ff_scope a) created)
       \<lparr>f_category := ff_category a, f_tags := ff_tags a, f_trust := ff_trust a, f_kind := ff_kind a,
        f_subject := ff_subject a, f_predicate := ff_predicate a, f_object := ff_object a,
        f_confidence := ff_confidence a, f_authority := ff_authority a,
        f_sensitivity := ff_sensitivity a, f_valid_from := ff_valid_from a\<rparr>"

definition insert_fact :: "env \<Rightarrow> string \<Rightarrow> fact_fields \<Rightarrow> int dbtx" where
  "insert_fact env content a =
     andThen (liftE (required content ''content'')) (\<lambda>content.
     andThen (liftE (required (ff_category a) ''category'')) (\<lambda>category.
     andThen (liftE (required (ff_scope a) ''scope'')) (\<lambda>scope.
     andThen (liftE (required (ff_sensitivity a) ''sensitivity'')) (\<lambda>sensitivity.
     andThen (require (0 \<le> ff_trust a \<and> ff_trust a \<le> 1)
       (ValueError ''trust_score must be between 0 and 1'')) (\<lambda>_.
     andThen (require (unit_interval (ff_confidence a))
       (ValueError ''confidence must be between 0 and 1'')) (\<lambda>_.
     andThen (require (unit_interval (ff_authority a))
       (ValueError ''source_authority must be between 0 and 1'')) (\<lambda>_.
     insert_row (new_fact (later env) content
       (a\<lparr>ff_category := category, ff_scope := scope, ff_sensitivity := sensitivity\<rparr>)))))))))"

text \<open>\<open>COLLATE NOCASE\<close> compares after folding the ASCII capitals.\<close>

definition nocase :: "string \<Rightarrow> string" where
  "nocase s = map (\<lambda>c. if is_upper c then lower_char c else c) s"

definition resolve_entity :: "string \<Rightarrow> string \<Rightarrow> string \<Rightarrow> int dbtx" where
  "resolve_entity name entity_type aliases =
     andThen (liftE (required name ''name'')) (\<lambda>name.
     andThen (gets (\<lambda>d. first_where (\<lambda>e. nocase (en_name e) = nocase name)
       (sort_key en_id (entities d)))) (\<lambda>row.
     case row of
       Some e \<Rightarrow> ret (en_id e)
     | None \<Rightarrow>
         andThen (gets next_entity) (\<lambda>i.
         andThen (modify (\<lambda>d. d\<lparr>entities := entities d @
           [\<lparr>en_id = i, en_name = name, en_type = entity_type, en_aliases = aliases\<rparr>], next_entity := i + 1\<rparr>)) (\<lambda>_.
         ret i))))"

text \<open>\<open>INSERT OR IGNORE\<close> of each pair.\<close>

definition link_fact_entities :: "int \<Rightarrow> int list \<Rightarrow> db \<Rightarrow> db" where
  "link_fact_entities fact_id entity_ids d =
     d\<lparr>fact_entities := foldl (\<lambda>ps e. if (fact_id, e) \<in> set ps then ps else ps @ [(fact_id, e)])
        (fact_entities d) entity_ids\<rparr>"

section \<open>Visibility\<close>

definition clean_scopes :: "string list \<Rightarrow> string list res" where
  "clean_scopes allowed = bindE (mapE (\<lambda>v. required v ''scope'') allowed) (\<lambda>xs. Inr (dedup_first xs))"

definition build_scope_predicate :: "string list option \<Rightarrow> (fact \<Rightarrow> bool) res" where
  "build_scope_predicate allowed = (case allowed of
     None \<Rightarrow> Inr (\<lambda>f. True)
   | Some xs \<Rightarrow> bindE (clean_scopes xs) (\<lambda>scopes.
       if scopes = [] then Inr (\<lambda>f. False) else Inr (\<lambda>f. f_scope f \<in> set scopes)))"

definition build_visibility_predicate :: "string list option \<Rightarrow> (fact \<Rightarrow> bool) res" where
  "build_visibility_predicate allowed =
     bindE (build_scope_predicate allowed) (\<lambda>in_scope.
     case allowed of
       None \<Rightarrow> Inr in_scope
     | Some xs \<Rightarrow> bindE (clean_scopes xs) (\<lambda>scopes.
         Inr (\<lambda>f. in_scope f \<and> (f_sensitivity f = ''normal''
            \<or> (\<exists>s \<in> {''sensitive'', ''secret''}. s \<in> set scopes \<and> f_sensitivity f = s)))))"

section \<open>Reads\<close>

definition active_facts :: "string list option \<Rightarrow> string option \<Rightarrow> int \<Rightarrow> db \<Rightarrow> fact list res" where
  "active_facts allowed category limit d =
     (if limit < 1 then Inr []
      else bindE (build_visibility_predicate allowed) (\<lambda>visible.
        Inr (take (nat limit) (rev (by_id (filter (\<lambda>f. active f \<and> visible f
           \<and> (case category of None \<Rightarrow> True | Some c \<Rightarrow> f_category f = c)) (facts d)))))))"

definition get_active_fact :: "string list option \<Rightarrow> int \<Rightarrow> db \<Rightarrow> fact option res" where
  "get_active_fact allowed fact_id d =
     bindE (build_visibility_predicate allowed) (\<lambda>visible.
     Inr (first_where (\<lambda>f. f_id f = fact_id \<and> active f \<and> visible f) (facts d)))"

definition historical_facts_by_id :: "string list option \<Rightarrow> int list \<Rightarrow> db \<Rightarrow> fact list res" where
  "historical_facts_by_id allowed fact_ids d =
     (if fact_ids = [] then Inr []
      else bindE (build_visibility_predicate allowed) (\<lambda>visible.
        Inr (by_id (filter (\<lambda>f. f_id f \<in> set fact_ids \<and> visible f) (facts d)))))"

subsection \<open>Settled events\<close>

datatype event_kind = Created | Superseded | Resolved

text \<open>The rank of the \<open>CASE\<close> in the \<open>ORDER BY\<close>.\<close>

fun kind_rank :: "event_kind \<Rightarrow> nat" where
  "kind_rank Created = 0"
| "kind_rank Superseded = 1"
| "kind_rank Resolved = 2"

lemma kind_rank_inj: "kind_rank a = kind_rank b \<Longrightarrow> a = b"
  by (cases a; cases b) simp_all

instantiation event_kind :: linorder
begin

definition less_eq_event_kind :: "event_kind \<Rightarrow> event_kind \<Rightarrow> bool" where
  "less_eq_event_kind a b \<longleftrightarrow> kind_rank a \<le> kind_rank b"

definition less_event_kind :: "event_kind \<Rightarrow> event_kind \<Rightarrow> bool" where
  "less_event_kind a b \<longleftrightarrow> kind_rank a < kind_rank b"

instance
  by standard (auto simp: less_eq_event_kind_def less_event_kind_def dest: kind_rank_inj)

end

record event =
  ev_kind :: event_kind
  ev_changed_at :: string
  ev_fact :: fact

definition settled_events :: "(fact \<Rightarrow> bool) \<Rightarrow> db \<Rightarrow> event list" where
  "settled_events visible d =
     map (\<lambda>f. \<lparr>ev_kind = Created, ev_changed_at = f_created_at f, ev_fact = f\<rparr>)
       (filter (\<lambda>f. visible f \<and> f_conflict f = None) (facts d))
     @ map (\<lambda>f. \<lparr>ev_kind = Superseded, ev_changed_at = the (f_invalid_at f), ev_fact = f\<rparr>)
       (filter (\<lambda>f. visible f \<and> f_invalid_at f \<noteq> None \<and> f_superseded_by f \<noteq> None) (facts d))
     @ concat (map (\<lambda>c. map (\<lambda>f. \<lparr>ev_kind = Resolved, ev_changed_at = the (cf_resolved_at c), ev_fact = f\<rparr>)
         (filter (\<lambda>f. cf_resolution c = Some (f_id f) \<and> visible f \<and> cf_resolved_at c \<noteq> None) (facts d)))
       (conflicts d))"

text \<open>\<open>jd\<close> is SQLite's \<open>julianday\<close>; a comparison with its \<open>NULL\<close> is not true.\<close>

definition in_window :: "(string \<Rightarrow> rat option) \<Rightarrow> string \<Rightarrow> string \<Rightarrow> string \<Rightarrow> bool" where
  "in_window jd since until t = (case (jd t, jd since, jd until) of
     (Some x, Some a, Some b) \<Rightarrow> a \<le> x \<and> x < b | _ \<Rightarrow> False)"

definition event_key :: "(string \<Rightarrow> rat option) \<Rightarrow> event \<Rightarrow> rat option \<times> string \<times> event_kind \<times> int" where
  "event_key jd e = (jd (ev_changed_at e), ev_changed_at e, ev_kind e, f_id (ev_fact e))"

definition settled_fact_events :: "(string \<Rightarrow> rat option) \<Rightarrow> string list option
    \<Rightarrow> string option \<Rightarrow> string option \<Rightarrow> db \<Rightarrow> event list res" where
  "settled_fact_events jd allowed since until d =
     bindE (checkE ((since = None) = (until = None))
       (ValueError ''since and until must be supplied together'')) (\<lambda>_.
     bindE (build_visibility_predicate allowed) (\<lambda>visible.
     Inr (sort_key (event_key jd) (filter (\<lambda>e. case (since, until) of
          (Some a, Some b) \<Rightarrow> in_window jd a b (ev_changed_at e) | _ \<Rightarrow> True)
        (settled_events visible d)))))"

section \<open>Inserting\<close>

lemma insert_fact_Inr:
  "insert_fact env content a d = Inr (i, t) \<longleftrightarrow>
     strip content \<noteq> [] \<and> strip (ff_category a) \<noteq> [] \<and> strip (ff_scope a) \<noteq> [] \<and> strip (ff_sensitivity a) \<noteq> []
     \<and> 0 \<le> ff_trust a \<and> ff_trust a \<le> 1 \<and> unit_interval (ff_confidence a) \<and> unit_interval (ff_authority a)
     \<and> insert_row (new_fact (later env) (strip content)
          (a\<lparr>ff_category := strip (ff_category a), ff_scope := strip (ff_scope a),
             ff_sensitivity := strip (ff_sensitivity a)\<rparr>)) d = Inr (i, t)"
  by (auto simp: insert_fact_def andThen_Inr_iff required_ok)

lemma new_fact_simps [simp]:
  "f_id (new_fact c t a i) = i" "f_content (new_fact c t a i) = t" "f_scope (new_fact c t a i) = ff_scope a"
  "f_category (new_fact c t a i) = ff_category a" "f_kind (new_fact c t a i) = ff_kind a"
  "f_conflict (new_fact c t a i) = None" "f_superseded_by (new_fact c t a i) = None"
  "f_invalid_at (new_fact c t a i) = None" "f_sensitivity (new_fact c t a i) = ff_sensitivity a"
  "f_authority (new_fact c t a i) = ff_authority a" "f_correction (new_fact c t a i) = None"
  "f_valid_to (new_fact c t a i) = None" "f_valid_from (new_fact c t a i) = ff_valid_from a"
  "f_subject (new_fact c t a i) = ff_subject a" "f_predicate (new_fact c t a i) = ff_predicate a"
  "f_object (new_fact c t a i) = ff_object a" "f_expired_at (new_fact c t a i) = None"
  "f_trust (new_fact c t a i) = ff_trust a" "f_created_at (new_fact c t a i) = c" "f_tags (new_fact c t a i) = ff_tags a"
  by (simp_all add: new_fact_def default_fact_def)

lemma resolve_entity_existing:
  assumes "resolve_entity name ty al d = Inr (i, t)"
  shows "\<exists>j. resolve_entity name ty' al' t = Inr (j, t)"
proof -
  let ?q = "\<lambda>e. nocase (en_name e) = nocase (strip name)"
  have name: "strip name \<noteq> []" using assms by (auto simp: resolve_entity_def andThen_Inr_iff required_ok)
  have "\<exists>e \<in> set (entities t). ?q e"
  proof (cases "first_where ?q (sort_key en_id (entities d))")
    case None
    with assms show ?thesis by (auto simp: resolve_entity_def andThen_Inr_iff required_ok)
  next
    case (Some e)
    with first_where_Some [OF Some] assms show ?thesis
      by (auto simp: resolve_entity_def andThen_Inr_iff required_ok)
  qed
  then have "first_where ?q (sort_key en_id (entities t)) \<noteq> None"
    by (auto simp: first_where_None)
  then obtain e where "first_where ?q (sort_key en_id (entities t)) = Some e" by blast
  with name show ?thesis by (auto simp: resolve_entity_def andThen_def liftE_def required_ok
      required_def Let_def)
qed

section \<open>Who may read what\<close>

text \<open>The contract of the visibility predicate, in terms of the scopes a caller holds.\<close>

definition may_read :: "string list option \<Rightarrow> fact \<Rightarrow> bool" where
  "may_read allowed f \<longleftrightarrow> (case allowed of
     None \<Rightarrow> True
   | Some xs \<Rightarrow> f_scope f \<in> strip ` set xs
       \<and> (f_sensitivity f = ''normal''
          \<or> f_sensitivity f \<in> {''sensitive'', ''secret''} \<and> f_sensitivity f \<in> strip ` set xs))"

lemma clean_scopes_Inr: "clean_scopes xs = Inr ys \<Longrightarrow> set ys = strip ` set xs"
proof -
  have "mapE (\<lambda>v. required v n) xs = Inr zs \<Longrightarrow> set zs = strip ` set xs" for n zs
    by (induction xs arbitrary: zs) (auto simp: bindE_Inr_iff required_ok)
  then show "clean_scopes xs = Inr ys \<Longrightarrow> set ys = strip ` set xs"
    by (auto simp: clean_scopes_def bindE_Inr_iff)
qed

lemma visibility_may_read:
  assumes p: "build_visibility_predicate allowed = Inr p"
  shows "p = may_read allowed"
proof (cases allowed)
  case None
  with p show ?thesis
    by (auto simp: build_visibility_predicate_def build_scope_predicate_def may_read_def)
next
  case (Some xs)
  with p obtain ys where ys: "clean_scopes xs = Inr ys"
    by (auto simp: build_visibility_predicate_def build_scope_predicate_def bindE_Inr_iff)
  have mem: "s \<in> set ys \<longleftrightarrow> s \<in> strip ` set xs" for s
    using clean_scopes_Inr [OF ys] by simp
  have e: "p = (\<lambda>f. f_scope f \<in> set ys \<and> (f_sensitivity f = ''normal''
      \<or> (\<exists>s \<in> {''sensitive'', ''secret''}. s \<in> set ys \<and> f_sensitivity f = s)))"
  proof (cases "ys = []")
    case True
    with p Some ys show ?thesis
      by (simp add: build_visibility_predicate_def build_scope_predicate_def)
  next
    case False
    with p Some ys show ?thesis
      by (simp add: build_visibility_predicate_def build_scope_predicate_def)
  qed
  have pick: "(\<exists>s \<in> A. s \<in> B \<and> t = s) \<longleftrightarrow> t \<in> A \<and> t \<in> B" for A B and t :: string by blast
  show ?thesis unfolding e mem may_read_def Some option.case pick by (rule refl)
qed

lemma sorted_rev_by_id:
  assumes "ids_ok d"
  shows "sorted_wrt (>) (map f_id (rev (by_id (filter p (facts d)))))"
proof -
  have "distinct (map f_id (filter p (facts d)))"
    using assms by (auto simp: ids_ok_def distinct_map inj_on_def)
  then have "distinct (map f_id (by_id (filter p (facts d))))"
    by (auto simp: by_id_def distinct_map inj_on_def)
  moreover have "sorted (map f_id (by_id (filter p (facts d))))" by (simp add: by_id_def)
  ultimately have "sorted_wrt (<) (map f_id (by_id (filter p (facts d))))"
    by (simp add: strict_sorted_iff)
  then show ?thesis by (simp add: sorted_wrt_rev rev_map [symmetric])
qed

text \<open>C17: what the default read returns is current, outside every open conflict, in a scope the
  caller holds, no more sensitive than the caller's capabilities, newest first, and at most
  the requested number.
\<close>

theorem active_facts_authorized:
  assumes "ids_ok d" and "active_facts allowed category limit d = Inr fs"
  shows "(\<forall>f \<in> set fs. f \<in> set (facts d) \<and> active f \<and> may_read allowed f)
    \<and> sorted_wrt (>) (map f_id fs) \<and> int (length fs) \<le> max 0 limit"
proof (cases "limit < 1")
  case False
  with assms(2) obtain v where v: "build_visibility_predicate allowed = Inr v"
    and run: "fs = take (nat limit) (rev (by_id (filter (\<lambda>f. active f \<and> v f
           \<and> (case category of None \<Rightarrow> True | Some c \<Rightarrow> f_category f = c)) (facts d))))"
    by (auto simp: active_facts_def bindE_Inr_iff)
  let ?q = "\<lambda>f. active f \<and> may_read allowed f
           \<and> (case category of None \<Rightarrow> True | Some c \<Rightarrow> f_category f = c)"
  have fs: "fs = take (nat limit) (rev (by_id (filter ?q (facts d))))"
    using run visibility_may_read [OF v] by simp
  have "sorted_wrt (>) (map f_id fs)"
    unfolding fs take_map [symmetric] using sorted_rev_by_id [OF assms(1)] by (rule sorted_wrt_take)
  moreover have "f \<in> set (facts d) \<and> ?q f" if "f \<in> set fs" for f
    using in_set_takeD [OF that [unfolded fs]] by simp
  moreover have "int (length fs) \<le> max 0 limit"
    using False by (simp add: fs)
  ultimately show ?thesis by blast
qed (use assms(2) in \<open>simp add: active_facts_def\<close>)

text \<open>C18: no read depends on facts the caller may not see: two stores that agree on the readable
  facts answer the three fact reads alike.
\<close>

theorem reads_noninterference:
  assumes "filter (may_read allowed) (facts d) = filter (may_read allowed) (facts d')"
  shows "active_facts allowed category limit d = active_facts allowed category limit d'
    \<and> get_active_fact allowed i d = get_active_fact allowed i d'
    \<and> historical_facts_by_id allowed ids d = historical_facts_by_id allowed ids d'"
proof -
  have split: "filter (\<lambda>f. q f \<and> may_read allowed f) (facts d) = filter (\<lambda>f. q f \<and> may_read allowed f) (facts d')" for q
    using arg_cong [OF assms, of "filter q"] by (simp add: conj_commute)
  have a: "filter (\<lambda>f. active f \<and> may_read allowed f \<and> r f) (facts d)
      = filter (\<lambda>f. active f \<and> may_read allowed f \<and> r f) (facts d')" for r
    using split [of "\<lambda>f. active f \<and> r f"] by (simp add: conj_ac)
  have "find (\<lambda>f. f_id f = i \<and> active f \<and> may_read allowed f) fs
      = (case filter (\<lambda>f. (f_id f = i \<and> active f) \<and> may_read allowed f) fs of [] \<Rightarrow> None | f # _ \<Rightarrow> Some f)" for fs
    by (induction fs) auto
  with split [of "\<lambda>f. f_id f = i \<and> active f"]
  have g: "first_where (\<lambda>f. f_id f = i \<and> active f \<and> may_read allowed f) (facts d)
      = first_where (\<lambda>f. f_id f = i \<and> active f \<and> may_read allowed f) (facts d')"
    by (simp add: first_where_def)
  have pred: "bindE (build_visibility_predicate allowed) k = bindE (build_visibility_predicate allowed) k'"
    if "k (may_read allowed) = k' (may_read allowed)"
    for k k' :: "(fact \<Rightarrow> bool) \<Rightarrow> 'a res"
    using that by (cases "build_visibility_predicate allowed") (auto dest: visibility_may_read)
  show ?thesis
    unfolding active_facts_def get_active_fact_def historical_facts_by_id_def
    by (intro conjI if_cong refl pred) (simp_all only: a g split)
qed

lemma settled_events_elem:
  assumes "e \<in> set (settled_events v d)"
  shows "ev_fact e \<in> set (facts d) \<and> v (ev_fact e)
     \<and> (ev_kind e = Created \<longrightarrow> f_conflict (ev_fact e) = None)
     \<and> (ev_kind e = Superseded \<longrightarrow> f_superseded_by (ev_fact e) \<noteq> None)
     \<and> (ev_kind e = Resolved \<longrightarrow> (\<exists>c \<in> set (conflicts d). cf_resolved_at c \<noteq> None
           \<and> cf_resolution c = Some (f_id (ev_fact e))))"
  using assms unfolding settled_events_def set_append set_concat set_map set_filter
  by (elim UnE imageE UN_E) auto

text \<open>The event log shows a reader settled history only: every event is about a fact it may
  read, no creation of a member of an unresolved conflict appears, a supersession is shown
  only for a fact that has been superseded, events come in the order of their key, and a
  window shows nothing outside its half-open bounds.
\<close>

theorem settled_events_sound:
  assumes "settled_fact_events jd allowed since until d = Inr es"
  shows "sorted (map (event_key jd) es)
    \<and> (\<forall>e \<in> set es. ev_fact e \<in> set (facts d) \<and> may_read allowed (ev_fact e)
        \<and> (ev_kind e = Created \<longrightarrow> f_conflict (ev_fact e) = None)
        \<and> (ev_kind e = Superseded \<longrightarrow> f_superseded_by (ev_fact e) \<noteq> None)
        \<and> (ev_kind e = Resolved \<longrightarrow> (\<exists>c \<in> set (conflicts d). cf_resolved_at c \<noteq> None
              \<and> cf_resolution c = Some (f_id (ev_fact e))))
        \<and> (\<forall>a b. since = Some a \<and> until = Some b \<longrightarrow> in_window jd a b (ev_changed_at e)))"
proof -
  from assms obtain v where v: "build_visibility_predicate allowed = Inr v"
    and es: "es = sort_key (event_key jd) (filter (\<lambda>e. case (since, until) of
          (Some a, Some b) \<Rightarrow> in_window jd a b (ev_changed_at e) | _ \<Rightarrow> True) (settled_events v d))"
    by (auto simp: settled_fact_events_def bindE_Inr_iff)
  have "v = may_read allowed" by (rule visibility_may_read [OF v])
  moreover have "e \<in> set (settled_events v d) \<and> (\<forall>a b. since = Some a \<and> until = Some b \<longrightarrow>
      in_window jd a b (ev_changed_at e))" if "e \<in> set es" for e
    using that unfolding es by auto
  moreover have "sorted (map (event_key jd) es)" unfolding es by simp
  ultimately show ?thesis using settled_events_elem by blast
qed

end
