(* ===== verification/StateSlots.thy ===== *)
theory StateSlots
  imports CoreStore SlotKeys Provenance
begin

text \<open>
  \<^verbatim>\<open>enfold/state_slots.py\<close>: the candidate for a typed state slot, the exact-slot decision, and
  the durable conflict records with their resolution.  The module never commits: its mutations
  are transaction steps on the store.
\<close>

section \<open>Timestamps and intervals\<close>

definition parse_timestamp :: "string option \<Rightarrow> instant option res" where
  "parse_timestamp value = (case value of
     None \<Rightarrow> Inr None
   | Some v \<Rightarrow>
       let candidate = strip v in
       if candidate = [] then Inr None
       else (case fromisoformat (z_to_offset candidate) of
           None \<Rightarrow> Inl (ValueError ''invalid ISO timestamp'')
         | Some t \<Rightarrow> bindE (to_utc t) (\<lambda>u. Inr (Some u))))"

definition ends_before :: "instant option \<Rightarrow> instant option \<Rightarrow> bool" where
  "ends_before e s \<longleftrightarrow> (case (e, s) of (Some x, Some y) \<Rightarrow> x \<le> y | _ \<Rightarrow> False)"

definition intervals_overlap ::
    "string option \<Rightarrow> string option \<Rightarrow> string option \<Rightarrow> string option \<Rightarrow> bool res" where
  "intervals_overlap left_from left_to right_from right_to =
     bindE (parse_timestamp left_from) (\<lambda>left_start.
     bindE (parse_timestamp left_to) (\<lambda>left_end.
     bindE (parse_timestamp right_from) (\<lambda>right_start.
     bindE (parse_timestamp right_to) (\<lambda>right_end.
     if ends_before left_end right_start then Inr False
     else if ends_before right_end left_start then Inr False
     else Inr True))))"

section \<open>Value objects\<close>

record state_candidate =
  sc_content :: string
  sc_subject :: string
  sc_predicate :: string
  sc_object :: "string option"
  sc_authority :: rat
  sc_valid_from :: "string option"
  sc_kind :: string
  sc_scope :: string
  sc_valid_to :: "string option"

definition make_candidate :: "state_candidate \<Rightarrow> state_candidate res" where
  "make_candidate c =
     bindE (required (sc_content c) ''content'') (\<lambda>content.
     bindE (required (sc_scope c) ''scope'') (\<lambda>scope.
     bindE (required (sc_subject c) ''subject_key'') (\<lambda>subject.
     bindE (required (sc_predicate c) ''predicate_key'') (\<lambda>predicate.
     bindE (required (sc_kind c) ''memory_kind'') (\<lambda>kind.
     bindE (normalize_subject_key subject) (\<lambda>subject.
     bindE (normalize_predicate_key predicate) (\<lambda>predicate.
     bindE (checkE (0 \<le> sc_authority c \<and> sc_authority c \<le> 1)
       (ValueError ''source_authority must be between 0 and 1'')) (\<lambda>_.
     bindE (parse_timestamp (sc_valid_from c)) (\<lambda>start.
     bindE (parse_timestamp (sc_valid_to c)) (\<lambda>end0.
     bindE (checkE (\<not> ends_before end0 start) (ValueError ''valid_to must be after valid_from'')) (\<lambda>_.
     Inr (c\<lparr>sc_content := content, sc_scope := scope, sc_subject := subject, sc_predicate := predicate,
            sc_kind := kind\<rparr>))))))))))))"

record state_fact =
  cs_id :: int
  cs_content :: string
  cs_subject :: "string option"
  cs_predicate :: "string option"
  cs_scope :: string
  cs_object :: "string option"
  cs_authority :: rat
  cs_valid_from :: "string option"
  cs_conflict :: "string option"
  cs_valid_to :: "string option"

text \<open>The \<open>SELECT\<close> list of the two slot reads.\<close>

definition authority_of :: "fact \<Rightarrow> rat" where
  "authority_of f = (case f_authority f of None \<Rightarrow> 1/2 | Some a \<Rightarrow> a)"

definition state_row :: "fact \<Rightarrow> state_fact" where
  "state_row f = \<lparr>cs_id = f_id f, cs_content = f_content f, cs_subject = f_subject f,
     cs_predicate = f_predicate f, cs_scope = f_scope f, cs_object = f_object f,
     cs_authority = authority_of f, cs_valid_from = f_valid_from f, cs_conflict = f_conflict f,
     cs_valid_to = f_valid_to f\<rparr>"

datatype action = Add | Dedup | Supersede | Conflict

record slot_decision =
  sd_action :: action
  sd_scope :: string
  sd_subject :: string
  sd_predicate :: string
  sd_current :: "int list"
  sd_target :: "int option"
  sd_reason :: string

record conflict_record =
  kr_id :: string
  kr_scope :: string
  kr_subject :: string
  kr_predicate :: string
  kr_members :: "int list"
  kr_detected_at :: string
  kr_truncated :: bool

record conflict_resolution =
  kx_id :: string
  kx_fact :: int
  kx_superseded :: "int list"
  kx_resolved_by :: string
  kx_reason :: string
  kx_resolved_at :: string

record conflict_receipt =
  kt_id :: string
  kt_scope :: string
  kt_subject :: string
  kt_predicate :: string
  kt_members :: "int list"
  kt_summary :: string

definition format_conflict_receipt_summary :: "string \<Rightarrow> string \<Rightarrow> string \<Rightarrow> nat \<Rightarrow> string" where
  "format_conflict_receipt_summary conflict_id subject predicate member_count =
     ''[conflict:'' @ conflict_id @ '' slot:'' @ subject @ ''.'' @ predicate @ '' members:''
     @ show_nat member_count @ '' - do not treat either as current]''"

section \<open>Reading a slot\<close>

definition open_interval_fact :: "fact \<Rightarrow> bool" where
  "open_interval_fact f \<longleftrightarrow> current f \<and> f_valid_to f = None"

definition believed :: "fact \<Rightarrow> bool" where
  "believed f \<longleftrightarrow> f_expired_at f = None \<and> (f_invalid_at f = None \<or> f_valid_to f \<noteq> None)"

definition current_state_facts :: "string \<Rightarrow> string \<Rightarrow> string \<Rightarrow> db \<Rightarrow> state_fact list res" where
  "current_state_facts subject predicate scope d =
     bindE (required subject ''subject_key'') (\<lambda>subject.
     bindE (required predicate ''predicate_key'') (\<lambda>predicate.
     bindE (required scope ''scope'') (\<lambda>scope.
     Inr (map state_row (by_id (filter (\<lambda>f. in_slot scope subject predicate f \<and> open_interval_fact f)
       (facts d)))))))"

definition believed_state_facts :: "string \<Rightarrow> string \<Rightarrow> string \<Rightarrow> db \<Rightarrow> state_fact list" where
  "believed_state_facts subject predicate scope d =
     map state_row (by_id (filter (\<lambda>f. in_slot scope subject predicate f \<and> believed f) (facts d)))"

definition read_current_state :: "string \<Rightarrow> string \<Rightarrow> string \<Rightarrow> db \<Rightarrow> state_fact option res" where
  "read_current_state subject predicate scope d =
     bindE (current_state_facts subject predicate scope d) (\<lambda>fs.
     if fs = [] \<or> list_ex (\<lambda>f. truthy_text (cs_conflict f)) fs then Inr None
     else if length fs \<noteq> 1 then
       Inl (StateSlotInvariantError ''strict state slot has multiple non-conflicted current facts'')
     else Inr (Some (hd fs)))"

section \<open>The decision\<close>

fun filterE :: "('a \<Rightarrow> bool res) \<Rightarrow> 'a list \<Rightarrow> 'a list res" where
  "filterE p [] = Inr []"
| "filterE p (x # xs) = bindE (p x) (\<lambda>b. bindE (filterE p xs) (\<lambda>ys. Inr (if b then x # ys else ys)))"

definition decide_as :: "state_candidate \<Rightarrow> action \<Rightarrow> int list \<Rightarrow> int option \<Rightarrow> string \<Rightarrow> slot_decision" where
  "decide_as c act cur target reason =
     \<lparr>sd_action = act, sd_scope = sc_scope c, sd_subject = sc_subject c, sd_predicate = sc_predicate c,
      sd_current = cur, sd_target = target, sd_reason = reason\<rparr>"

definition same_value :: "state_candidate \<Rightarrow> state_fact \<Rightarrow> bool" where
  "same_value c f \<longleftrightarrow> cs_content f = sc_content c
     \<or> (sc_object c \<noteq> None \<and> cs_object f = sc_object c)"

text \<open>The two ways a dated candidate beats one member of an open conflict.\<close>

definition beats :: "state_candidate \<Rightarrow> instant \<Rightarrow> state_fact \<times> instant option \<Rightarrow> bool" where
  "beats c t ft = (case ft of (f, existing) \<Rightarrow>
     (cs_authority f < sc_authority c \<and> (case existing of None \<Rightarrow> True | Some e \<Rightarrow> e \<le> t))
     \<or> (sc_authority c = cs_authority f \<and> (case existing of None \<Rightarrow> True | Some e \<Rightarrow> e < t)))"

text \<open>The branch for a slot with an unresolved conflict.\<close>

definition decide_contested ::
    "state_candidate \<Rightarrow> state_fact list \<Rightarrow> state_fact option \<Rightarrow> slot_decision res" where
  "decide_contested c cur exact =
     bindE (parse_timestamp (sc_valid_from c)) (\<lambda>candidate_time.
     bindE (mapE (\<lambda>f. bindE (parse_timestamp (cs_valid_from f)) (\<lambda>t. Inr (f, t))) cur) (\<lambda>timed.
     let ids = map cs_id cur in
     if (case candidate_time of None \<Rightarrow> False | Some t \<Rightarrow> list_all (beats c t) timed)
     then Inr (decide_as c Supersede ids None ''dated claim supersedes every open conflict member'')
     else if Max (set (map cs_authority cur)) < sc_authority c
     then Inr (decide_as c Supersede ids None ''higher authority resolves open conflict'')
     else Inr (decide_as c Conflict ids (map_option cs_id exact) ''slot already has an unresolved conflict'')))"

text \<open>The branch for an uncontested slot with a different, overlapping value.\<close>

definition decide_against :: "state_candidate \<Rightarrow> state_fact \<Rightarrow> slot_decision res" where
  "decide_against c existing =
     bindE (parse_timestamp (sc_valid_from c)) (\<lambda>candidate_time.
     bindE (parse_timestamp (cs_valid_from existing)) (\<lambda>existing_time.
     let not_older = (existing_time = None
           \<or> (case (candidate_time, existing_time) of (Some t, Some e) \<Rightarrow> e \<le> t | _ \<Rightarrow> False));
         authority_higher = cs_authority existing < sc_authority c;
         authority_equal = (sc_authority c = cs_authority existing);
         freshness_higher = (case candidate_time of None \<Rightarrow> False
           | Some t \<Rightarrow> (case existing_time of None \<Rightarrow> True | Some e \<Rightarrow> e < t));
         i = cs_id existing in
     if authority_higher \<and> not_older
     then Inr (decide_as c Supersede [i] (Some i) ''higher authority and not older'')
     else if authority_equal \<and> freshness_higher
     then Inr (decide_as c Supersede [i] (Some i) ''same authority with newer validity time'')
     else Inr (decide_as c Conflict [i] None ''authority and freshness do not establish a clear winner'')))"

definition decide_state_write :: "state_candidate \<Rightarrow> db \<Rightarrow> slot_decision res" where
  "decide_state_write c d =
     (if sc_kind c \<noteq> ''state'' then Inr (decide_as c Add [] None ''non-state memories coexist'')
      else
       bindE (current_state_facts (sc_subject c) (sc_predicate c) (sc_scope c) d) (\<lambda>cur.
       bindE (filterE (\<lambda>f. intervals_overlap (cs_valid_from f) (cs_valid_to f)
                (sc_valid_from c) (sc_valid_to c))
              (believed_state_facts (sc_subject c) (sc_predicate c) (sc_scope c) d)) (\<lambda>overlapping.
       if cur = [] \<and> overlapping = []
       then Inr (decide_as c Add [] None ''slot has no current overlapping value'')
       else
         let peers = (if cur = [] then overlapping else cur);
             exact = find (same_value c) peers in
         if 1 < length cur \<or> list_ex (\<lambda>f. truthy_text (cs_conflict f)) cur
         then decide_contested c cur exact
         else (case exact of
             Some f \<Rightarrow> Inr (decide_as c Dedup (map cs_id peers) (Some (cs_id f))
               ''identical current content or structured value'')
           | None \<Rightarrow>
               if overlapping = []
               then Inr (decide_as c Add (map cs_id cur) None ''valid intervals do not overlap'')
               else decide_against c (hd overlapping)))))"

section \<open>Opening and extending conflicts\<close>

text \<open>\<open>value or _utc_now()\<close>.\<close>

definition text_or :: "string option \<Rightarrow> string \<Rightarrow> string" where
  "text_or v t = (case v of Some (c # cs) \<Rightarrow> c # cs | _ \<Rightarrow> t)"

definition state_member :: "string \<Rightarrow> string \<Rightarrow> string \<Rightarrow> fact \<Rightarrow> bool" where
  "state_member scope subject predicate f \<longleftrightarrow> in_slot scope subject predicate f \<and> active f"

definition untyped_member :: "string \<Rightarrow> fact \<Rightarrow> bool" where
  "untyped_member scope f \<longleftrightarrow> f_scope f = scope \<and> active f \<and> \<not> is_state f"

definition ids_where :: "(fact \<Rightarrow> bool) \<Rightarrow> int list \<Rightarrow> db \<Rightarrow> int set" where
  "ids_where p ids d = f_id ` set (filter (\<lambda>f. f_id f \<in> set ids \<and> p f) (facts d))"

definition new_conflict :: "string \<Rightarrow> string \<Rightarrow> string \<Rightarrow> string \<Rightarrow> string \<Rightarrow> json \<Rightarrow> conflict" where
  "new_conflict cid scope subject predicate detected det =
     \<lparr>cf_id = cid, cf_scope = scope, cf_subject = subject, cf_predicate = predicate,
      cf_detected_at = detected, cf_resolved_at = None, cf_resolution = None, cf_resolved_by = None,
      cf_reason = None, cf_detail = det\<rparr>"

definition open_state_conflict :: "((fact \<Rightarrow> bool) \<Rightarrow> (fact \<Rightarrow> fact) \<Rightarrow> nat dbtx) \<Rightarrow> env
    \<Rightarrow> string \<Rightarrow> string \<Rightarrow> int list \<Rightarrow> string \<Rightarrow> string option \<Rightarrow> json option \<Rightarrow> conflict_record dbtx" where
  "open_state_conflict update env subject predicate ids scope detected_at det =
     andThen (liftE (required subject ''subject_key'')) (\<lambda>subject.
     andThen (liftE (required predicate ''predicate_key'')) (\<lambda>predicate.
     andThen (liftE (required scope ''scope'')) (\<lambda>scope.
     andThen (require (ids \<noteq> []) (ValueError ''a conflict requires at least one existing fact'')) (\<lambda>_.
     andThen (require (distinct ids) (ValueError ''conflict member ids must be unique'')) (\<lambda>_.
     andThen (liftE (canonical_json_object det ''detail_json'')) (\<lambda>det.
     let detected = text_or detected_at (later env) in
     andThen (liftE (parse_timestamp (Some detected))) (\<lambda>_.
     andThen (gets (ids_where (state_member scope subject predicate) ids)) (\<lambda>found.
     andThen (require (found = set ids)
       (StateSlotInvariantError ''every conflict member must be an active state fact in the exact slot'')) (\<lambda>_.
     andThen (uuid4 env) (\<lambda>cid.
     andThen (insert_conflict (new_conflict cid scope subject predicate detected det)) (\<lambda>_.
     andThen (update (\<lambda>f. f_id f \<in> set ids) (\<lambda>f. f\<lparr>f_conflict := Some cid\<rparr>)) (\<lambda>_.
     andThen (foldTx (\<lambda>_ i. insert_member cid i) () ids) (\<lambda>_.
     ret \<lparr>kr_id = cid, kr_scope = scope, kr_subject = subject, kr_predicate = predicate,
          kr_members = ids, kr_detected_at = detected, kr_truncated = False\<rparr>)))))))))))))"

definition open_untyped_conflict :: "env \<Rightarrow> int list \<Rightarrow> string \<Rightarrow> string \<Rightarrow> string
    \<Rightarrow> string option \<Rightarrow> json option \<Rightarrow> conflict_record dbtx" where
  "open_untyped_conflict env ids scope subject predicate detected_at det =
     andThen (liftE (bindE (required subject ''subject_key'') normalize_subject_key)) (\<lambda>subject.
     andThen (liftE (bindE (required predicate ''predicate_key'') normalize_predicate_key)) (\<lambda>predicate.
     andThen (liftE (required scope ''scope'')) (\<lambda>scope.
     andThen (require (ids \<noteq> []) (ValueError ''a conflict requires at least one existing fact'')) (\<lambda>_.
     andThen (require (distinct ids) (ValueError ''conflict member ids must be unique'')) (\<lambda>_.
     andThen (liftE (canonical_json_object det ''detail_json'')) (\<lambda>det.
     let detected = text_or detected_at (later env) in
     andThen (liftE (parse_timestamp (Some detected))) (\<lambda>_.
     andThen (gets (ids_where (untyped_member scope) ids)) (\<lambda>found.
     andThen (require (found = set ids)
       (StateSlotInvariantError ''every untyped conflict member must be an active non-state fact in scope'')) (\<lambda>_.
     andThen (uuid4 env) (\<lambda>cid.
     andThen (insert_conflict (new_conflict cid scope subject predicate detected det)) (\<lambda>_.
     andThen (update_facts (\<lambda>f. f_id f \<in> set ids)
       (\<lambda>f. f\<lparr>f_conflict := Some cid, f_subject := coalesce (f_subject f) (Some subject),
              f_predicate := coalesce (f_predicate f) (Some predicate)\<rparr>)) (\<lambda>_.
     andThen (foldTx (\<lambda>_ i. insert_member cid i) () ids) (\<lambda>_.
     ret \<lparr>kr_id = cid, kr_scope = scope, kr_subject = subject, kr_predicate = predicate,
          kr_members = ids, kr_detected_at = detected, kr_truncated = False\<rparr>)))))))))))))"

definition open_conflict_row :: "string \<Rightarrow> db \<Rightarrow> conflict option" where
  "open_conflict_row cid d = first_where (\<lambda>c. cf_id c = cid \<and> cf_resolved_at c = None) (conflicts d)"

definition add_untyped_conflict_member :: "string \<Rightarrow> int \<Rightarrow> unit dbtx" where
  "add_untyped_conflict_member cid fact_id =
     andThen (gets (open_conflict_row cid)) (\<lambda>row. case row of
       None \<Rightarrow> raise (ValueError ''conflict does not exist or is already resolved'')
     | Some c \<Rightarrow>
         andThen (gets (find_fact fact_id)) (\<lambda>fact.
         andThen (require (case fact of None \<Rightarrow> False
             | Some f \<Rightarrow> f_scope f = cf_scope c \<and> f_conflict f = Some cid)
           (StateSlotInvariantError ''new untyped conflict member must be current in the same scope and group'')) (\<lambda>_.
         andThen (require (case fact of None \<Rightarrow> False | Some f \<Rightarrow> \<not> is_state f)
           (StateSlotInvariantError ''typed state must use the state conflict path'')) (\<lambda>_.
         andThen (require (case fact of None \<Rightarrow> False | Some f \<Rightarrow> current f)
           (StateSlotInvariantError ''new conflict member must be current'')) (\<lambda>_.
         insert_member cid fact_id)))))"

definition add_conflict_member :: "string \<Rightarrow> int \<Rightarrow> unit dbtx" where
  "add_conflict_member cid fact_id =
     andThen (gets (open_conflict_row cid)) (\<lambda>row. case row of
       None \<Rightarrow> raise (ValueError ''conflict does not exist or is already resolved'')
     | Some c \<Rightarrow>
         andThen (gets (find_fact fact_id)) (\<lambda>fact.
         andThen (require (case fact of None \<Rightarrow> False
             | Some f \<Rightarrow> in_slot (cf_scope c) (cf_subject c) (cf_predicate c) f \<and> f_conflict f = Some cid)
           (StateSlotInvariantError ''new conflict member must be a state fact in the exact slot and group'')) (\<lambda>_.
         andThen (require (case fact of None \<Rightarrow> False | Some f \<Rightarrow> current f)
           (StateSlotInvariantError ''new conflict member must be current'')) (\<lambda>_.
         insert_member cid fact_id))))"

section \<open>Resolving a conflict\<close>

text \<open>The audit row references a conflict (once), and a registered session.\<close>

definition insert_resolution :: "resolution \<Rightarrow> unit dbtx" where
  "insert_resolution r = (\<lambda>d.
     if \<exists>x \<in> set (resolutions d). rs_conflict x = rs_conflict r
     then Inl (IntegrityError ''UNIQUE constraint failed: fact_conflict_resolutions.conflict_id'')
     else if \<forall>s \<in> set (sessions d). \<not> (se_client s = rs_client r \<and> se_id s = rs_session r)
     then Inl (IntegrityError ''FOREIGN KEY constraint failed'')
     else Inr ((), d\<lparr>resolutions := resolutions d @ [r]\<rparr>))"

definition record_resolver :: "string \<Rightarrow> int \<Rightarrow> string \<Rightarrow> string
    \<Rightarrow> string option \<Rightarrow> string option \<Rightarrow> string option \<Rightarrow> unit dbtx" where
  "record_resolver cid winner reason resolved_at client sess agent =
     (if client = None \<and> sess = None \<and> agent = None then ret ()
      else
       andThen (liftE (required (case client of None \<Rightarrow> [] | Some s \<Rightarrow> s) ''resolver_client_id'')) (\<lambda>client.
       andThen (liftE (required (case sess of None \<Rightarrow> [] | Some s \<Rightarrow> s) ''resolver_session_id'')) (\<lambda>sess.
       andThen (liftE (required (case agent of None \<Rightarrow> [] | Some s \<Rightarrow> s) ''resolver_agent_id'')) (\<lambda>agent.
       insert_resolution \<lparr>rs_conflict = cid, rs_fact = winner, rs_client = client, rs_session = sess,
         rs_agent = agent, rs_reason = reason, rs_at = resolved_at\<rparr>))))"

definition member_ids :: "string \<Rightarrow> db \<Rightarrow> int list" where
  "member_ids cid d = sort (map snd (filter (\<lambda>m. fst m = cid) (members d)))"

definition resolve_state_conflict :: "env \<Rightarrow> string \<Rightarrow> int \<Rightarrow> string \<Rightarrow> string \<Rightarrow> string option
    \<Rightarrow> string option \<Rightarrow> string option \<Rightarrow> string option \<Rightarrow> conflict_resolution dbtx" where
  "resolve_state_conflict env cid winner resolved_by reason resolved_at client sess agent =
     andThen (liftE (required resolved_by ''resolved_by'')) (\<lambda>resolved_by.
     andThen (liftE (required reason ''reason'')) (\<lambda>reason.
     let resolved = text_or resolved_at (later env) in
     andThen (liftE (parse_timestamp (Some resolved))) (\<lambda>_.
     andThen (gets (\<lambda>d. first_where (\<lambda>c. cf_id c = cid) (conflicts d))) (\<lambda>row.
     andThen (require (row \<noteq> None) (ValueError ''conflict does not exist'')) (\<lambda>_.
     andThen (require (Option.bind row cf_resolved_at = None) (ValueError ''conflict is already resolved'')) (\<lambda>_.
     andThen (gets (member_ids cid)) (\<lambda>ms.
     andThen (require (winner \<in> set ms) (ValueError ''resolution fact must be a conflict member'')) (\<lambda>_.
     let losers = filter (\<lambda>i. i \<noteq> winner) ms in
     andThen (gets (\<lambda>d. Option.bind (find_fact winner d) f_valid_from)) (\<lambda>winner_from.
     andThen (if losers = [] then ret 0 else
       update_facts (\<lambda>f. f_id f \<in> set losers \<and> f_conflict f = Some cid \<and> f_invalid_at f = None)
         (\<lambda>f. f\<lparr>f_invalid_at := Some resolved, f_expired_at := Some resolved,
                f_superseded_by := Some winner, f_valid_to := winner_from\<rparr>)) (\<lambda>n.
     andThen (require (n = length losers)
       (StateSlotInvariantError ''not all losing conflict members are current'')) (\<lambda>_.
     andThen (update_facts (\<lambda>f. f_id f = winner \<and> (f_conflict f = Some cid \<and> current f))
       (\<lambda>f. f\<lparr>f_conflict := None\<rparr>)) (\<lambda>n.
     andThen (require (n = 1) (StateSlotInvariantError ''resolution fact is not a current member'')) (\<lambda>_.
     andThen (modify (\<lambda>d. d\<lparr>conflicts := update_where (\<lambda>c. cf_id c = cid \<and> cf_resolved_at c = None)
       (\<lambda>c. c\<lparr>cf_resolved_at := Some resolved, cf_resolution := Some winner,
              cf_resolved_by := Some resolved_by, cf_reason := Some reason\<rparr>) (conflicts d)\<rparr>)) (\<lambda>_.
     andThen (record_resolver cid winner reason resolved client sess agent) (\<lambda>_.
     ret \<lparr>kx_id = cid, kx_fact = winner, kx_superseded = losers, kx_resolved_by = resolved_by,
          kx_reason = reason, kx_resolved_at = resolved\<rparr>)))))))))))))))"

section \<open>Listing conflicts and reviews\<close>

definition MAX_CONFLICT_LIMIT :: int where
  "MAX_CONFLICT_LIMIT = 200"

definition page :: "int \<Rightarrow> int \<Rightarrow> 'a list \<Rightarrow> 'a list" where
  "page limit offset xs = take (nat limit) (drop (nat offset) xs)"

definition check_page :: "int \<Rightarrow> int \<Rightarrow> unit res" where
  "check_page limit offset =
     bindE (checkE (1 \<le> limit \<and> limit \<le> MAX_CONFLICT_LIMIT) (ValueError ''limit must be between 1 and 200'')) (\<lambda>_.
     checkE (0 \<le> offset) (ValueError ''offset must be a non-negative integer''))"

text \<open>The visible members of a conflict, in the order of their ids.\<close>

definition visible_members :: "(fact \<Rightarrow> bool) \<Rightarrow> string \<Rightarrow> db \<Rightarrow> int list" where
  "visible_members visible cid d =
     filter (\<lambda>i. \<exists>f \<in> set (facts d). f_id f = i \<and> visible f) (member_ids cid d)"

definition list_state_conflicts :: "string \<Rightarrow> bool \<Rightarrow> int \<Rightarrow> int \<Rightarrow> int option
    \<Rightarrow> string list option \<Rightarrow> db \<Rightarrow> conflict_record list res" where
  "list_state_conflicts scope unresolved_only limit offset member_limit visibility_scopes d =
     bindE (required scope ''scope'') (\<lambda>scope.
     bindE (check_page limit offset) (\<lambda>_.
     bindE (checkE (case member_limit of None \<Rightarrow> True | Some n \<Rightarrow> 1 \<le> n)
       (ValueError ''member_limit must be a positive integer or None'')) (\<lambda>_.
     bindE (build_visibility_predicate visibility_scopes) (\<lambda>visible.
     Inr (map (\<lambda>c. let ms = visible_members visible (cf_id c) d in
         \<lparr>kr_id = cf_id c, kr_scope = cf_scope c, kr_subject = cf_subject c, kr_predicate = cf_predicate c,
          kr_members = (case member_limit of None \<Rightarrow> ms | Some n \<Rightarrow> take (nat n) ms),
          kr_detected_at = cf_detected_at c,
          kr_truncated = (case member_limit of None \<Rightarrow> False | Some n \<Rightarrow> n < int (length ms))\<rparr>)
       (page limit offset (sort_key (\<lambda>c. (cf_detected_at c, cf_id c))
         (filter (\<lambda>c. cf_scope c = scope \<and> (unresolved_only \<longrightarrow> cf_resolved_at c = None)
            \<and> visible_members visible (cf_id c) d \<noteq> []) (conflicts d)))))))))"

definition list_conflict_receipts ::
    "string \<Rightarrow> int \<Rightarrow> int \<Rightarrow> string list option \<Rightarrow> db \<Rightarrow> conflict_receipt list res" where
  "list_conflict_receipts scope limit offset visibility_scopes d =
     bindE (list_state_conflicts scope True limit offset None visibility_scopes d) (\<lambda>rs.
     Inr (map (\<lambda>r. \<lparr>kt_id = kr_id r, kt_scope = kr_scope r, kt_subject = kr_subject r,
       kt_predicate = kr_predicate r, kt_members = kr_members r,
       kt_summary = format_conflict_receipt_summary (kr_id r) (kr_subject r) (kr_predicate r)
         (length (kr_members r))\<rparr>) rs))"

definition normalize_opt :: "(string \<Rightarrow> string res) \<Rightarrow> string option \<Rightarrow> string option res" where
  "normalize_opt nf v = (case v of None \<Rightarrow> Inr None | Some s \<Rightarrow> bindE (nf s) (\<lambda>k. Inr (Some k)))"

definition record_needs_review :: "env \<Rightarrow> string \<Rightarrow> string \<Rightarrow> string option \<Rightarrow> string option
    \<Rightarrow> string option \<Rightarrow> json option \<Rightarrow> string option \<Rightarrow> review dbtx" where
  "record_needs_review env reason scope content subject predicate det recorded_at =
     andThen (liftE (required scope ''scope'')) (\<lambda>scope.
     andThen (liftE (required reason ''reason'')) (\<lambda>reason.
     andThen (liftE (canonical_json_object det ''detail_json'')) (\<lambda>det.
     let recorded = text_or recorded_at (later env) in
     andThen (liftE (parse_timestamp (Some recorded))) (\<lambda>_.
     andThen (liftE (normalize_opt normalize_subject_key subject)) (\<lambda>subject.
     andThen (liftE (normalize_opt normalize_predicate_key predicate)) (\<lambda>predicate.
     andThen (uuid4 env) (\<lambda>rid.
     let r = \<lparr>rv_id = rid, rv_scope = scope, rv_reason = reason, rv_content = content,
              rv_subject = subject, rv_predicate = predicate, rv_detail = det,
              rv_recorded_at = recorded, rv_resolved_at = None\<rparr> in
     andThen (gets (\<lambda>d. rid \<in> rv_id ` set (reviews d))) (\<lambda>taken.
     andThen (require (\<not> taken) (IntegrityError ''UNIQUE constraint failed: memory_review_queue.review_id'')) (\<lambda>_.
     andThen (modify (\<lambda>d. d\<lparr>reviews := reviews d @ [r]\<rparr>)) (\<lambda>_.
     ret r))))))))))"

definition list_needs_review :: "string \<Rightarrow> bool \<Rightarrow> int \<Rightarrow> int \<Rightarrow> db \<Rightarrow> review list res" where
  "list_needs_review scope unresolved_only limit offset d =
     bindE (required scope ''scope'') (\<lambda>scope.
     bindE (check_page limit offset) (\<lambda>_.
     Inr (page limit offset (sort_key (\<lambda>r. (rv_recorded_at r, rv_id r))
       (filter (\<lambda>r. rv_scope r = scope \<and> (unresolved_only \<longrightarrow> rv_resolved_at r = None)) (reviews d))))))"

end
