(* ===== verification/ConflictFacts.thy ===== *)
theory ConflictFacts
  imports StateSlots
begin

text \<open>
  What the slot decision and the conflict operations of \<open>StateSlots\<close> guarantee: the decision
  never lets a weaker claim displace a stronger one; opening, extending and resolving a
  conflict keep the store well formed, hide the members from every default read, and bring
  back exactly the member chosen.
\<close>

section \<open>Intervals and candidates\<close>

text \<open>Two claims overlap in time independently of which is asked first.\<close>

theorem intervals_overlap_symmetric:
  "intervals_overlap a b c e = Inr r \<longleftrightarrow> intervals_overlap c e a b = Inr r"
  by (auto simp: intervals_overlap_def bindE_Inr_iff split: if_splits)

lemma make_candidate_Inr:
  assumes "make_candidate c0 = Inr c"
  shows "strip (sc_content c) = sc_content c" "strip (sc_scope c) = sc_scope c" "sc_scope c \<noteq> []"
    "strip (sc_subject c) = sc_subject c" "sc_subject c \<noteq> []" "sc_content c \<noteq> []"
    "strip (sc_predicate c) = sc_predicate c" "sc_predicate c \<noteq> []"
    "0 \<le> sc_authority c" "sc_authority c \<le> 1"
    "normalize_subject_key (sc_subject c) = Inr (sc_subject c)"
    "normalize_predicate_key (sc_predicate c) = Inr (sc_predicate c)"
    "is_ok (parse_timestamp (sc_valid_from c))" "is_ok (parse_timestamp (sc_valid_to c))"
proof -
  from assms obtain s0 p0 where *: "normalize_subject_key s0 = Inr (sc_subject c)"
    "normalize_predicate_key p0 = Inr (sc_predicate c)"
    "strip (sc_content c) = sc_content c" "sc_content c \<noteq> []" "strip (sc_scope c) = sc_scope c" "sc_scope c \<noteq> []"
    "0 \<le> sc_authority c" "sc_authority c \<le> 1"
    "is_ok (parse_timestamp (sc_valid_from c))" "is_ok (parse_timestamp (sc_valid_to c))"
    by (auto simp: make_candidate_def bindE_Inr_iff required_ok)
  note s = normalize_subject_key_Inr [OF *(1)] and p = normalize_predicate_key_Inr [OF *(2)]
  show "strip (sc_subject c) = sc_subject c" "strip (sc_predicate c) = sc_predicate c"
    using s p by (simp_all add: key_text_id)
  show "normalize_subject_key (sc_subject c) = Inr (sc_subject c)"
    "normalize_predicate_key (sc_predicate c) = Inr (sc_predicate c)" using s p by blast+
  show "sc_subject c \<noteq> []" "sc_predicate c \<noteq> []" using s p by (auto simp: key_shape_def)
qed (use assms in \<open>auto simp: make_candidate_def bindE_Inr_iff required_ok is_ok_iff\<close>)

section \<open>Slot reads\<close>

lemma current_state_facts_eq:
  assumes "strip s = s" "strip p = p" "strip sc = sc" "s \<noteq> []" "p \<noteq> []" "sc \<noteq> []"
  shows "current_state_facts s p sc d =
    Inr (map state_row (by_id (filter (\<lambda>f. in_slot sc s p f \<and> open_interval_fact f) (facts d))))"
  using assms by (simp add: current_state_facts_def required_def)

lemma current_state_facts_Inr:
  "current_state_facts s p sc d = Inr fs \<Longrightarrow>
    fs = map state_row (by_id (filter (\<lambda>f. in_slot (strip sc) (strip s) (strip p) f \<and> open_interval_fact f) (facts d)))"
  by (auto simp: current_state_facts_def bindE_Inr_iff required_ok)

lemma state_row_simps [simp]:
  "cs_id (state_row f) = f_id f" "cs_content (state_row f) = f_content f" "cs_scope (state_row f) = f_scope f"
  "cs_object (state_row f) = f_object f" "cs_authority (state_row f) = authority_of f"
  "cs_valid_from (state_row f) = f_valid_from f" "cs_valid_to (state_row f) = f_valid_to f"
  "cs_conflict (state_row f) = f_conflict f"
  by (simp_all add: state_row_def)

lemma slot_index_filter:
  assumes "in_slot sc s p f" "active f"
  shows "in_slot_index f \<and> slot_key f = (sc, Some s, Some p)"
  using assms by (auto simp: in_slot_def in_slot_index_def slot_key_def is_state_def)

lemma at_most_one_active:
  assumes "slots_unique fs"
  shows "length (filter (\<lambda>f. in_slot sc s p f \<and> active f) fs) \<le> 1"
  using assms
proof (induction fs)
  case (Cons f fs)
  let ?q = "\<lambda>f. in_slot sc s p f \<and> active f"
  from Cons.prems have u: "slots_unique fs" by (auto simp: slots_unique_def split: if_splits)
  show ?case
  proof (cases "?q f")
    case True
    then have k: "in_slot_index f" "slot_key f = (sc, Some s, Some p)" by (auto dest: slot_index_filter)
    have "\<not> ?q g" if "g \<in> set fs" for g
    proof
      assume "?q g"
      then have "in_slot_index g" "slot_key g = slot_key f" using slot_index_filter k by auto
      moreover have "slot_key f \<notin> slot_key ` set (filter in_slot_index fs)"
        using Cons.prems k by (simp add: slots_unique_def)
      ultimately show False using that by (metis (mono_tags, lifting) filter_set image_eqI mem_Collect_eq set_filter)
    qed
    then have "filter ?q fs = []" by (simp add: filter_empty_conv)
    then show ?thesis using True by simp
  next
    case False
    then have "filter ?q (f # fs) = filter ?q fs" by (simp only: filter.simps if_False)
    with Cons.IH [OF u] show ?thesis by (simp only:)
  qed
qed simp

lemma read_current_state_abstains:
  assumes wf: "wf_db d" and named: "\<forall>f \<in> set (facts d). f_conflict f \<noteq> Some []"
    and keys: "strip s \<noteq> []" "strip p \<noteq> []" "strip sc \<noteq> []"
    and ex: "\<exists>f \<in> set (filter (\<lambda>f. in_slot (strip sc) (strip s) (strip p) f \<and> open_interval_fact f) (facts d)).
      f_conflict f \<noteq> None"
  shows "read_current_state s p sc d = Inr None"
proof -
  let ?cur = "filter (\<lambda>f. in_slot (strip sc) (strip s) (strip p) f \<and> open_interval_fact f) (facts d)"
  have cs: "current_state_facts s p sc d = Inr (map state_row (by_id ?cur))"
    using keys by (simp add: current_state_facts_def required_def Let_def)
  from ex obtain f where f: "f \<in> set ?cur" "f_conflict f \<noteq> None" by blast
  with named have "truthy_text (f_conflict f)" by (auto simp: truthy_text_def split: option.splits)
  with f(1) have "list_ex (\<lambda>f. truthy_text (cs_conflict f)) (map state_row (by_id ?cur))"
    by (auto simp: list_ex_iff)
  then show ?thesis by (simp add: read_current_state_def cs)
qed

text \<open>C11: reading the current value of a slot never trips over the store's own invariant: on a
  well-formed store in which conflict groups have names the read returns a value or abstains,
  it abstains when any current value of the slot is in an open conflict, and a value it
  returns is the only current fact of the slot.
\<close>

theorem read_current_state_total:
  assumes wf: "wf_db d" and named: "\<forall>f \<in> set (facts d). f_conflict f \<noteq> Some []"
    and keys: "strip s \<noteq> []" "strip p \<noteq> []" "strip sc \<noteq> []"
  defines "cur \<equiv> filter (\<lambda>f. in_slot (strip sc) (strip s) (strip p) f \<and> open_interval_fact f) (facts d)"
  shows "read_current_state s p sc d = Inr (case cur of [f] \<Rightarrow> if active f then Some (state_row f) else None | _ \<Rightarrow> None)
    \<and> ((\<exists>f \<in> set cur. f_conflict f \<noteq> None) \<longrightarrow> read_current_state s p sc d = Inr None)"
proof -
  have cs: "current_state_facts s p sc d = Inr (map state_row (by_id cur))"
    unfolding cur_def using keys by (simp add: current_state_facts_def required_def Let_def)
  note names = named
  have named: "truthy_text (f_conflict f) \<longleftrightarrow> f_conflict f \<noteq> None" if "f \<in> set cur" for f
    using named that by (auto simp: cur_def truthy_text_def split: option.splits)
  have cur: "current f" if "f \<in> set cur" for f using that by (simp add: cur_def open_interval_fact_def)
  have len: "length (by_id cur) = length cur" by (simp add: by_id_def)
  have contested: "read_current_state s p sc d = Inr None" if "\<exists>f \<in> set cur. f_conflict f \<noteq> None"
    using read_current_state_abstains [OF wf names keys] that by (simp add: cur_def)
  have single: "length cur \<le> 1" if "\<forall>f \<in> set cur. f_conflict f = None"
  proof -
    let ?a = "filter (\<lambda>f. in_slot (strip sc) (strip s) (strip p) f \<and> active f) (facts d)"
    have "cur = filter (\<lambda>f. f_valid_to f = None) ?a"
      unfolding cur_def filter_filter
      by (rule filter_cong) (use that in \<open>auto simp: cur_def open_interval_fact_def active_def\<close>)
    then have "length cur \<le> length ?a" by (metis length_filter_le)
    also have "\<dots> \<le> 1" using wf by (intro at_most_one_active) (simp add: wf_db_def)
    finally show ?thesis .
  qed
  show ?thesis
  proof (cases "\<exists>f \<in> set cur. f_conflict f \<noteq> None")
    case True
    then have "(case cur of [f] \<Rightarrow> if active f then Some (state_row f) else None | _ \<Rightarrow> None) = None"
      by (auto simp: active_def split: list.splits)
    with contested [OF True] show ?thesis by simp
  next
    case False
    then have none: "\<forall>f \<in> set cur. f_conflict f = None" by blast
    show ?thesis
    proof (cases cur)
      case Nil
      then show ?thesis by (simp add: read_current_state_def cs by_id_def)
    next
      case (Cons f fs)
      with single [OF none] have one: "cur = [f]" by simp
      with none cur [of f] have "active f" "\<not> truthy_text (f_conflict f)"
        by (auto simp: active_def truthy_text_def)
      with one False show ?thesis by (simp add: read_current_state_def cs by_id_def)
    qed
  qed
qed

section \<open>The decision\<close>

lemma filterE_Inr: "filterE p xs = Inr ys \<Longrightarrow> ys = filter (\<lambda>x. p x = Inr True) xs \<and> (\<forall>x \<in> set xs. is_ok (p x))"
  by (induction xs arbitrary: ys) (auto simp: bindE_Inr_iff)

lemma in_slot_strip: "in_slot (strip sc) (strip s) (strip p) f = in_slot sc s p f"
  if "strip sc = sc" "strip s = s" "strip p = p"
  using that by simp

definition stronger_claim :: "state_candidate \<Rightarrow> fact \<Rightarrow> bool" where
  "stronger_claim c f \<longleftrightarrow> authority_of f < sc_authority c
     \<or> (authority_of f = sc_authority c
        \<and> (\<exists>t. parse_timestamp (sc_valid_from c) = Inr (Some t)
             \<and> (\<forall>e. parse_timestamp (f_valid_from f) = Inr (Some e) \<longrightarrow> e < t)))"

lemma decide_contested_supersede:
  assumes "decide_contested c (map state_row fs) ex = Inr dec" "sd_action dec = Supersede" "fs \<noteq> []"
  shows "sd_target dec = None \<and> sd_current dec = map f_id fs \<and> (\<forall>f \<in> set fs. stronger_claim c f)"
proof -
  let ?timed = "map (\<lambda>f. (state_row f, projr (parse_timestamp (f_valid_from f)))) fs"
  from assms(1) obtain t0 timed where t0: "parse_timestamp (sc_valid_from c) = Inr t0"
    and m: "mapE (\<lambda>f. bindE (parse_timestamp (cs_valid_from f)) (\<lambda>t. Inr (f, t))) (map state_row fs) = Inr timed"
    by (auto simp: decide_contested_def bindE_Inr_iff)
  have "timed = ?timed \<and> (\<forall>f \<in> set fs. is_ok (parse_timestamp (f_valid_from f)))"
    using m by (induction fs arbitrary: timed) (auto simp: bindE_Inr_iff)
  then have timed: "timed = ?timed" and ok: "\<forall>f \<in> set fs. is_ok (parse_timestamp (f_valid_from f))" by auto
  from assms t0 m timed have dec: "sd_target dec = None" "sd_current dec = map f_id fs"
    and why: "(\<exists>t. t0 = Some t \<and> list_all (beats c t) ?timed) \<or> Max (authority_of ` set fs) < sc_authority c"
    by (auto simp: decide_contested_def decide_as_def Let_def image_image comp_def split: if_splits option.splits)
  have "stronger_claim c f" if f: "f \<in> set fs" for f
    using why
  proof
    assume "\<exists>t. t0 = Some t \<and> list_all (beats c t) ?timed"
    then obtain t where t: "t0 = Some t" "beats c t (state_row f, projr (parse_timestamp (f_valid_from f)))"
      using f by (auto simp: list_all_iff)
    from ok f obtain e where "parse_timestamp (f_valid_from f) = Inr e" by (auto simp: is_ok_iff)
    with t t0 show ?thesis by (auto simp: beats_def stronger_claim_def split: option.splits)
  next
    assume "Max (authority_of ` set fs) < sc_authority c"
    moreover have "authority_of f \<le> Max (authority_of ` set fs)" using f by simp
    ultimately show ?thesis by (simp add: stronger_claim_def)
  qed
  with dec show ?thesis by blast
qed

lemma decide_against_supersede:
  assumes "decide_against c (state_row f) = Inr dec" "sd_action dec = Supersede"
  shows "sd_target dec = Some (f_id f) \<and> sd_current dec = [f_id f] \<and> stronger_claim c f
     \<and> (\<forall>t e. parse_timestamp (sc_valid_from c) = Inr t \<longrightarrow> parse_timestamp (f_valid_from f) = Inr (Some e)
           \<longrightarrow> (\<exists>u. t = Some u \<and> e \<le> u))"
  using assms
  by (auto simp: decide_against_def decide_as_def bindE_Inr_iff Let_def stronger_claim_def
      split: if_splits option.splits)

lemma decide_cases:
  assumes dec: "decide_state_write c d = Inr dec" and kind: "sc_kind c = ''state''"
    and cur: "current_state_facts (sc_subject c) (sc_predicate c) (sc_scope c) d = Inr cur"
  obtains ov where "set ov \<subseteq> set (believed_state_facts (sc_subject c) (sc_predicate c) (sc_scope c) d)"
    and "(cur = [] \<and> ov = [] \<and> dec = decide_as c Add [] None ''slot has no current overlapping value'')
      \<or> (cur \<noteq> [] \<and> (1 < length cur \<or> list_ex (\<lambda>f. truthy_text (cs_conflict f)) cur)
          \<and> decide_contested c cur (find (same_value c) cur) = Inr dec)
      \<or> (\<exists>f peers. peers \<in> {ov, cur} \<and> find (same_value c) peers = Some f
          \<and> dec = decide_as c Dedup (map cs_id peers) (Some (cs_id f)) ''identical current content or structured value'')
      \<or> (ov = [] \<and> cur \<noteq> [] \<and> dec = decide_as c Add (map cs_id cur) None ''valid intervals do not overlap'')
      \<or> (ov \<noteq> [] \<and> find (same_value c) (if cur = [] then ov else cur) = None
          \<and> decide_against c (hd ov) = Inr dec)"
proof -
  let ?bel = "believed_state_facts (sc_subject c) (sc_predicate c) (sc_scope c) d"
  let ?contested = "1 < length cur \<or> list_ex (\<lambda>f. truthy_text (cs_conflict f)) cur"
  from dec kind cur obtain ov where f: "filterE (\<lambda>f. intervals_overlap (cs_valid_from f) (cs_valid_to f)
                (sc_valid_from c) (sc_valid_to c)) ?bel = Inr ov"
    and run: "(if cur = [] \<and> ov = [] then Inr (decide_as c Add [] None ''slot has no current overlapping value'')
       else if ?contested then decide_contested c cur (find (same_value c) (if cur = [] then ov else cur))
         else (case find (same_value c) (if cur = [] then ov else cur) of
             Some f \<Rightarrow> Inr (decide_as c Dedup (map cs_id (if cur = [] then ov else cur)) (Some (cs_id f))
               ''identical current content or structured value'')
           | None \<Rightarrow> if ov = [] then Inr (decide_as c Add (map cs_id cur) None ''valid intervals do not overlap'')
               else decide_against c (hd ov))) = Inr dec"
    unfolding decide_state_write_def Let_def by (auto simp: bindE_Inr_iff)
  have sub: "set ov \<subseteq> set ?bel" using filterE_Inr [OF f] by auto
  show thesis
  proof (rule that [OF sub])
    show "(cur = [] \<and> ov = [] \<and> dec = decide_as c Add [] None ''slot has no current overlapping value'')
      \<or> (cur \<noteq> [] \<and> ?contested \<and> decide_contested c cur (find (same_value c) cur) = Inr dec)
      \<or> (\<exists>f peers. peers \<in> {ov, cur} \<and> find (same_value c) peers = Some f
          \<and> dec = decide_as c Dedup (map cs_id peers) (Some (cs_id f)) ''identical current content or structured value'')
      \<or> (ov = [] \<and> cur \<noteq> [] \<and> dec = decide_as c Add (map cs_id cur) None ''valid intervals do not overlap'')
      \<or> (ov \<noteq> [] \<and> find (same_value c) (if cur = [] then ov else cur) = None
          \<and> decide_against c (hd ov) = Inr dec)"
    proof (cases "cur = []")
      case True
      with run show ?thesis by (auto split: if_splits option.splits)
    next
      case False
      with run show ?thesis by (auto split: if_splits option.splits)
    qed
  qed
qed

lemma decide_as_simps [simp]:
  "sd_action (decide_as c a l t r) = a" "sd_current (decide_as c a l t r) = l"
  "sd_target (decide_as c a l t r) = t" "sd_scope (decide_as c a l t r) = sc_scope c"
  "sd_subject (decide_as c a l t r) = sc_subject c" "sd_predicate (decide_as c a l t r) = sc_predicate c"
  by (simp_all add: decide_as_def)

text \<open>C8: a claim displaces another only when it is entitled to: every fact that a \<open>supersede\<close>
  decision names is a state fact of exactly that slot, and the candidate has a higher
  authority, or the same authority and a strictly later time; an uncontested fact is moreover
  never displaced by a claim about an earlier time.
\<close>

theorem supersede_needs_stronger_claim:
  assumes c: "make_candidate c0 = Inr c" and dec: "decide_state_write c d = Inr dec" "sd_action dec = Supersede"
    and i: "i \<in> set (sd_current dec)"
  shows "\<exists>f \<in> set (facts d). f_id f = i \<and> in_slot (sc_scope c) (sc_subject c) (sc_predicate c) f
    \<and> stronger_claim c f
    \<and> (sd_target dec = Some i \<longrightarrow> (\<forall>t e. parse_timestamp (sc_valid_from c) = Inr t
         \<longrightarrow> parse_timestamp (f_valid_from f) = Inr (Some e) \<longrightarrow> (\<exists>u. t = Some u \<and> e \<le> u)))"
proof -
  let ?slot = "in_slot (sc_scope c) (sc_subject c) (sc_predicate c)"
  let ?cur = "by_id (filter (\<lambda>f. ?slot f \<and> open_interval_fact f) (facts d))"
  let ?bel = "by_id (filter (\<lambda>f. ?slot f \<and> believed f) (facts d))"
  have cur: "current_state_facts (sc_subject c) (sc_predicate c) (sc_scope c) d = Inr (map state_row ?cur)"
    using make_candidate_Inr [OF c] by (intro current_state_facts_eq)
  have kind: "sc_kind c = ''state''"
    using dec by (auto simp: decide_state_write_def split: if_splits)
  obtain ov where ov: "set ov \<subseteq> set (map state_row ?bel)"
    and cases: "(?cur \<noteq> [] \<and> (\<exists>ex. decide_contested c (map state_row ?cur) ex = Inr dec))
      \<or> (ov \<noteq> [] \<and> decide_against c (hd ov) = Inr dec)"
    by (rule decide_cases [OF dec(1) kind cur]) (use dec(2) in \<open>force simp: believed_state_facts_def\<close>)
  from cases show ?thesis
  proof
    assume "?cur \<noteq> [] \<and> (\<exists>ex. decide_contested c (map state_row ?cur) ex = Inr dec)"
    with dec(2) decide_contested_supersede have "sd_target dec = None" "sd_current dec = map f_id ?cur"
      "\<forall>f \<in> set ?cur. stronger_claim c f" by blast+
    with i show ?thesis by auto
  next
    assume a: "ov \<noteq> [] \<and> decide_against c (hd ov) = Inr dec"
    then have "hd ov \<in> set (map state_row ?bel)" using ov hd_in_set by blast
    then obtain f where f: "hd ov = state_row f" "f \<in> set (facts d)" "?slot f" by auto
    with a dec(2) i decide_against_supersede [of c f dec] show ?thesis by auto
  qed
qed

section \<open>Conflict records and the store invariant\<close>

lemma ids_ok_cong: "facts d' = facts d \<Longrightarrow> next_fact d' = next_fact d \<Longrightarrow> ids_ok d' = ids_ok d"
  by (simp add: ids_ok_def)

lemma lineage_ok_cong: "facts d' = facts d \<Longrightarrow> lineage_ok d' = lineage_ok d"
  by (simp add: lineage_ok_def)

lemma groups_ok_cong:
  "facts d' = facts d \<Longrightarrow> conflicts d' = conflicts d \<Longrightarrow> members d' = members d \<Longrightarrow> groups_ok X d' = groups_ok X d"
  by (simp add: groups_ok_def open_group_def)

text \<open>The invariant with the facts \<open>X\<close> still to be attached to their group.\<close>

definition wf_upto :: "int set \<Rightarrow> db \<Rightarrow> bool" where
  "wf_upto X d \<longleftrightarrow> ids_ok d \<and> slots_unique (facts d) \<and> lineage_ok d \<and> groups_ok X d"

lemma wf_upto_empty [simp]: "wf_upto {} d = wf_db d"
  by (simp add: wf_upto_def wf_db_def)

lemma wf_upto_weaken: "wf_upto X d \<Longrightarrow> X \<subseteq> Y \<Longrightarrow> wf_upto Y d"
  by (auto simp: wf_upto_def intro: groups_ok_weaken)

lemma wf_upto_cong:
  "facts d' = facts d \<Longrightarrow> next_fact d' = next_fact d \<Longrightarrow> conflicts d' = conflicts d \<Longrightarrow> members d' = members d
    \<Longrightarrow> wf_upto X d' = wf_upto X d"
  unfolding wf_upto_def using ids_ok_cong lineage_ok_cong groups_ok_cong by metis

lemma insert_members:
  "foldTx (\<lambda>_ i. insert_member cid i) u ids d = Inr (v, t) \<Longrightarrow>
     t = d\<lparr>members := members d @ map (Pair cid) ids\<rparr>"
proof (induction ids arbitrary: d u)
  case (Cons i ids)
  then obtain w d1 where "insert_member cid i d = Inr (w, d1)"
    "foldTx (\<lambda>_ i. insert_member cid i) w ids d1 = Inr (v, t)"
    by (auto simp: andThen_Inr_iff)
  with Cons.IH [of w d1] show ?case by (auto simp: insert_member_Inr)
qed simp

text \<open>Attaching facts to a freshly opened conflict.\<close>

lemma groups_open:
  assumes ok: "groups_ok X d" and ids: "ids_ok d"
    and fresh: "\<forall>x \<in> set (conflicts d). cf_id x \<noteq> cf_id k" and op: "cf_resolved_at k = None"
    and g: "\<And>f. f_id (g f) = f_id f \<and> f_kind (g f) = f_kind f \<and> f_scope (g f) = f_scope f
        \<and> current (g f) = current f \<and> f_conflict (g f) = Some (cf_id k)"
    and slot: "\<And>f. f \<in> set (facts d) \<Longrightarrow> f_id f \<in> set ms \<Longrightarrow> cf_scope k = f_scope f
        \<and> (is_state f \<longrightarrow> f_subject (g f) = Some (cf_subject k) \<and> f_predicate (g f) = Some (cf_predicate k))"
  shows "groups_ok X (d\<lparr>facts := update_where (\<lambda>f. f_id f \<in> set ms) g (facts d),
      conflicts := conflicts d @ [k], members := members d @ map (Pair (cf_id k)) ms\<rparr>)"
proof -
  let ?d = "d\<lparr>facts := update_where (\<lambda>f. f_id f \<in> set ms) g (facts d),
      conflicts := conflicts d @ [k], members := members d @ map (Pair (cf_id k)) ms\<rparr>"
  have "open_group ?d f c \<and> (f_id f \<notin> X \<longrightarrow> (c, f_id f) \<in> set (members ?d))"
    if f: "f \<in> set (facts ?d)" "current f" "f_conflict f = Some c" for f c
  proof -
    from f(1) obtain f0 where f0: "f0 \<in> set (facts d)" "f = (if f_id f0 \<in> set ms then g f0 else f0)"
      by (auto simp: set_update_where)
    show ?thesis
    proof (cases "f_id f0 \<in> set ms")
      case True
      with f0 g have c: "c = cf_id k" "f = g f0" "f_id f = f_id f0" "is_state f = is_state f0" "f_scope f = f_scope f0"
        using f(3) by (auto simp: is_state_def)
      with slot [OF f0(1) True] op have "open_group ?d f c"
        by (auto simp: open_group_def)
      with True c show ?thesis by simp
    next
      case False
      with f0 have "f = f0" by simp
      with f0(1) f(2,3) ok have "open_group d f c \<and> (f_id f \<notin> X \<longrightarrow> (c, f_id f) \<in> set (members d))"
        by (auto simp: groups_ok_def)
      then show ?thesis by (auto simp: open_group_def)
    qed
  qed
  moreover have "distinct (map cf_id (conflicts ?d))"
    using ok fresh by (auto simp: groups_ok_def)
  ultimately show ?thesis by (auto simp: groups_ok_def)
qed

lemma lineage_relabel:
  assumes "lineage_ok d" "\<And>f. f_id (g f) = f_id f \<and> f_superseded_by (g f) = f_superseded_by f \<and> f_invalid_at (g f) = f_invalid_at f"
  shows "lineage_ok (d\<lparr>facts := update_where p g (facts d)\<rparr>)"
  using assms by (intro lineage_same) auto

lemma found_members:
  assumes "ids_ok d" "ids_where q ms d = set ms" "f \<in> set (facts d)" "f_id f \<in> set ms"
  shows "q f"
proof -
  from assms(2,4) have "f_id f \<in> ids_where q ms d" by simp
  then obtain h where "h \<in> set (facts d)" "q h" "f_id h = f_id f"
    unfolding ids_where_def by fastforce
  with assms same_id_same_fact [of d h f] show ?thesis by auto
qed

lemma open_state_conflict_Inr:
  assumes "open_state_conflict update_facts env s p ms sc dt det d = Inr (r, t)"
  obtains k where "cf_id k = kr_id r" "kr_id r = uuid env (uuid_ctr d)" "cf_resolved_at k = None"
    "cf_scope k = strip sc" "cf_subject k = strip s" "cf_predicate k = strip p"
    "\<forall>x \<in> set (conflicts d). cf_id x \<noteq> kr_id r" "ms \<noteq> []" "kr_members r = ms"
    "ids_where (state_member (strip sc) (strip s) (strip p)) ms d = set ms"
    "slots_unique (update_where (\<lambda>f. f_id f \<in> set ms) (\<lambda>f. f\<lparr>f_conflict := Some (kr_id r)\<rparr>) (facts d))"
    "t = d\<lparr>facts := update_where (\<lambda>f. f_id f \<in> set ms) (\<lambda>f. f\<lparr>f_conflict := Some (kr_id r)\<rparr>) (facts d),
           conflicts := conflicts d @ [k], members := members d @ map (Pair (kr_id r)) ms,
           uuid_ctr := Suc (uuid_ctr d)\<rparr>"
proof -
  from assms obtain det' v t2 where x: "canonical_json_object det ''detail_json'' = Inr det'" "ms \<noteq> []"
      "ids_where (state_member (strip sc) (strip s) (strip p)) ms d = set ms"
    and y: "foldTx (\<lambda>_ i. insert_member (uuid env (uuid_ctr d)) i) () ms t2 = Inr (v, t)"
      "kr_id r = uuid env (uuid_ctr d)" "kr_members r = ms"
    and fresh: "\<forall>x \<in> set (conflicts d). cf_id x \<noteq> uuid env (uuid_ctr d)"
    and u: "slots_unique (update_where (\<lambda>f. f_id f \<in> set ms) (\<lambda>f. f\<lparr>f_conflict := Some (uuid env (uuid_ctr d))\<rparr>) (facts d))"
    and t2: "t2 = d\<lparr>uuid_ctr := Suc (uuid_ctr d), conflicts := conflicts d @
        [new_conflict (uuid env (uuid_ctr d)) (strip sc) (strip s) (strip p) (text_or dt (later env)) det'],
        facts := update_where (\<lambda>f. f_id f \<in> set ms) (\<lambda>f. f\<lparr>f_conflict := Some (uuid env (uuid_ctr d))\<rparr>) (facts d)\<rparr>"
    by (auto simp: open_state_conflict_def andThen_Inr_iff Let_def uuid4_def required_ok insert_conflict_Inr
        update_facts_Inr new_conflict_def)
  let ?k = "new_conflict (uuid env (uuid_ctr d)) (strip sc) (strip s) (strip p) (text_or dt (later env)) det'"
  show thesis
    by (rule that [of ?k]) (use x y(2,3) fresh u insert_members [OF y(1)] t2 in \<open>auto simp: new_conflict_def\<close>)
qed

lemma open_state_conflict_wf:
  assumes wf: "wf_upto X d" and run: "open_state_conflict update_facts env s p ms sc dt det d = Inr (r, t)"
  shows "wf_upto X t"
  using run
proof (rule open_state_conflict_Inr)
  fix k
  let ?g = "\<lambda>f. f\<lparr>f_conflict := Some (kr_id r)\<rparr>"
  let ?d = "d\<lparr>facts := update_where (\<lambda>f. f_id f \<in> set ms) ?g (facts d),
      conflicts := conflicts d @ [k], members := members d @ map (Pair (kr_id r)) ms\<rparr>"
  assume k: "cf_id k = kr_id r" "cf_resolved_at k = None" "cf_scope k = strip sc" "cf_subject k = strip s"
      "cf_predicate k = strip p" "\<forall>x \<in> set (conflicts d). cf_id x \<noteq> kr_id r"
    and found: "ids_where (state_member (strip sc) (strip s) (strip p)) ms d = set ms"
    and u: "slots_unique (update_where (\<lambda>f. f_id f \<in> set ms) ?g (facts d))"
    and t: "t = ?d\<lparr>uuid_ctr := Suc (uuid_ctr d)\<rparr>"
  have ids: "ids_ok d" using wf by (simp add: wf_upto_def)
  have "groups_ok X ?d"
    unfolding k(1) [symmetric]
  proof (rule groups_open)
    fix f assume "f \<in> set (facts d)" "f_id f \<in> set ms"
    then have "state_member (strip sc) (strip s) (strip p) f" by (rule found_members [OF ids found])
    then show "cf_scope k = f_scope f \<and> (is_state f \<longrightarrow> f_subject (f\<lparr>f_conflict := Some (cf_id k)\<rparr>) = Some (cf_subject k)
        \<and> f_predicate (f\<lparr>f_conflict := Some (cf_id k)\<rparr>) = Some (cf_predicate k))"
      using k by (simp add: state_member_def in_slot_def)
  qed (use wf ids k in \<open>auto simp: wf_upto_def current_def\<close>)
  moreover have "ids_ok ?d"
    using ids_ok_update [OF ids, of "\<lambda>f. f_id f \<in> set ms" ?g] by (simp add: ids_ok_def)
  moreover have "lineage_ok ?d"
    using lineage_relabel [of d ?g "\<lambda>f. f_id f \<in> set ms"] wf by (simp add: wf_upto_def lineage_ok_def)
  ultimately have "wf_upto X ?d" using u by (simp add: wf_upto_def)
  then show ?thesis unfolding t by (subst wf_upto_cong) simp_all
qed

lemma open_untyped_conflict_Inr:
  assumes "open_untyped_conflict env ms sc s p dt det d = Inr (r, t)"
  obtains k s' p' where "cf_id k = kr_id r" "kr_id r = uuid env (uuid_ctr d)" "cf_resolved_at k = None"
    "cf_scope k = strip sc" "cf_subject k = s'" "cf_predicate k = p'" "kr_members r = ms"
    "\<forall>x \<in> set (conflicts d). cf_id x \<noteq> kr_id r" "ms \<noteq> []"
    "ids_where (untyped_member (strip sc)) ms d = set ms"
    "slots_unique (update_where (\<lambda>f. f_id f \<in> set ms) (\<lambda>f. f\<lparr>f_conflict := Some (kr_id r),
        f_subject := coalesce (f_subject f) (Some s'), f_predicate := coalesce (f_predicate f) (Some p')\<rparr>) (facts d))"
    "t = d\<lparr>facts := update_where (\<lambda>f. f_id f \<in> set ms) (\<lambda>f. f\<lparr>f_conflict := Some (kr_id r),
        f_subject := coalesce (f_subject f) (Some s'), f_predicate := coalesce (f_predicate f) (Some p')\<rparr>) (facts d),
           conflicts := conflicts d @ [k], members := members d @ map (Pair (kr_id r)) ms,
           uuid_ctr := Suc (uuid_ctr d)\<rparr>"
proof -
  let ?id = "uuid env (uuid_ctr d)"
  from assms obtain det' v t2 s' p' where x: "ms \<noteq> []"
      "ids_where (untyped_member (strip sc)) ms d = set ms"
    and y: "foldTx (\<lambda>_ i. insert_member ?id i) () ms t2 = Inr (v, t)"
      "kr_id r = ?id" "kr_members r = ms"
    and fresh: "\<forall>x \<in> set (conflicts d). cf_id x \<noteq> ?id"
    and u: "slots_unique (update_where (\<lambda>f. f_id f \<in> set ms) (\<lambda>f. f\<lparr>f_conflict := Some ?id,
        f_subject := coalesce (f_subject f) (Some s'), f_predicate := coalesce (f_predicate f) (Some p')\<rparr>) (facts d))"
    and t2: "t2 = d\<lparr>uuid_ctr := Suc (uuid_ctr d), conflicts := conflicts d @
        [new_conflict ?id (strip sc) s' p' (text_or dt (later env)) det'],
        facts := update_where (\<lambda>f. f_id f \<in> set ms) (\<lambda>f. f\<lparr>f_conflict := Some ?id,
        f_subject := coalesce (f_subject f) (Some s'), f_predicate := coalesce (f_predicate f) (Some p')\<rparr>) (facts d)\<rparr>"
    by (auto simp: open_untyped_conflict_def andThen_Inr_iff Let_def uuid4_def required_ok insert_conflict_Inr
        update_facts_Inr new_conflict_def)
  let ?k = "new_conflict ?id (strip sc) s' p' (text_or dt (later env)) det'"
  show thesis
    by (rule that [of ?k s' p']) (use x y(2,3) fresh u insert_members [OF y(1)] t2 in \<open>auto simp: new_conflict_def\<close>)
qed

lemma open_untyped_conflict_wf:
  assumes wf: "wf_upto X d" and run: "open_untyped_conflict env ms sc s p dt det d = Inr (r, t)"
  shows "wf_upto X t"
  using run
proof (rule open_untyped_conflict_Inr)
  fix k s' p'
  let ?g = "\<lambda>f. f\<lparr>f_conflict := Some (kr_id r), f_subject := coalesce (f_subject f) (Some s'),
      f_predicate := coalesce (f_predicate f) (Some p')\<rparr>"
  let ?d = "d\<lparr>facts := update_where (\<lambda>f. f_id f \<in> set ms) ?g (facts d),
      conflicts := conflicts d @ [k], members := members d @ map (Pair (kr_id r)) ms\<rparr>"
  assume k: "cf_id k = kr_id r" "cf_resolved_at k = None" "cf_scope k = strip sc"
      "\<forall>x \<in> set (conflicts d). cf_id x \<noteq> kr_id r"
    and found: "ids_where (untyped_member (strip sc)) ms d = set ms"
    and u: "slots_unique (update_where (\<lambda>f. f_id f \<in> set ms) ?g (facts d))"
    and t: "t = ?d\<lparr>uuid_ctr := Suc (uuid_ctr d)\<rparr>"
  have ids: "ids_ok d" using wf by (simp add: wf_upto_def)
  have "groups_ok X (d\<lparr>facts := update_where (\<lambda>f. f_id f \<in> set ms) ?g (facts d),
      conflicts := conflicts d @ [k], members := members d @ map (Pair (cf_id k)) ms\<rparr>)"
  proof (rule groups_open)
    fix f assume "f \<in> set (facts d)" "f_id f \<in> set ms"
    then have "untyped_member (strip sc) f" by (rule found_members [OF ids found])
    then show "cf_scope k = f_scope f \<and> (is_state f \<longrightarrow> f_subject (?g f) = Some (cf_subject k)
        \<and> f_predicate (?g f) = Some (cf_predicate k))"
      using k by (simp add: untyped_member_def)
  qed (use wf ids k in \<open>auto simp: wf_upto_def current_def\<close>)
  moreover have "ids_ok ?d"
    using ids_ok_update [OF ids, of "\<lambda>f. f_id f \<in> set ms" ?g] by (simp add: ids_ok_def)
  moreover have "lineage_ok ?d"
    using lineage_relabel [of d ?g "\<lambda>f. f_id f \<in> set ms"] wf by (simp add: wf_upto_def lineage_ok_def)
  ultimately have "wf_upto X ?d" using u k(1) by (simp add: wf_upto_def)
  then show ?thesis unfolding t by (subst wf_upto_cong) simp_all
qed

text \<open>A fact attached to its group no longer needs the exception.\<close>

lemma groups_ok_attach:
  "groups_ok (insert i X) d \<Longrightarrow> (\<And>f c. f \<in> set (facts d) \<Longrightarrow> f_id f = i \<Longrightarrow> f_conflict f = Some c \<Longrightarrow> c = cid)
    \<Longrightarrow> groups_ok X (d\<lparr>members := members d @ [(cid, i)]\<rparr>)"
  unfolding groups_ok_def open_group_def by auto

lemma open_conflict_row_Some:
  "open_conflict_row cid d = Some c \<Longrightarrow> c \<in> set (conflicts d) \<and> cf_id c = cid \<and> cf_resolved_at c = None"
  by (auto simp: open_conflict_row_def dest: first_where_Some)

lemma add_member_wf:
  assumes wf: "wf_upto (insert i X) d"
    and run: "add_conflict_member cid i d = Inr (u, t) \<or> add_untyped_conflict_member cid i d = Inr (u, t)"
  shows "wf_upto X t \<and> t = d\<lparr>members := members d @ [(cid, i)]\<rparr>
    \<and> (\<exists>f. find_fact i d = Some f \<and> current f \<and> f_conflict f = Some cid)"
proof -
  from run obtain f where f: "find_fact i d = Some f" "current f" "f_conflict f = Some cid"
    and t: "t = d\<lparr>members := members d @ [(cid, i)]\<rparr>"
    by (auto simp: add_conflict_member_def add_untyped_conflict_member_def andThen_Inr_iff insert_member_Inr
        split: option.splits)
  have "h = f" if "h \<in> set (facts d)" "f_id h = i" for h
    using wf f(1) that by (auto simp: wf_upto_def dest: find_fact_Some same_id_same_fact)
  with f wf have "groups_ok X t"
    unfolding t by (intro groups_ok_attach) (auto simp: wf_upto_def)
  moreover have "ids_ok t" "slots_unique (facts t)" "lineage_ok t"
    using wf unfolding t by (auto simp: wf_upto_def ids_ok_def lineage_ok_def)
  ultimately show ?thesis using f t by (simp add: wf_upto_def)
qed

text \<open>C10: opening a conflict takes every member out of the default reads and makes the slot
  abstain, loses no fact and no content, and records the members under the new conflict.
\<close>

theorem open_conflict_hides_members:
  assumes wf: "wf_db d" and run: "open_state_conflict update_facts env s p ms sc dt det d = Inr (r, t)"
    and named: "\<forall>n. uuid env n \<noteq> []" "\<forall>f \<in> set (facts d). f_conflict f \<noteq> Some []"
    and current: "\<exists>f \<in> set (facts d). f_id f \<in> set ms \<and> f_valid_to f = None"
  shows "wf_db t \<and> map f_content (facts t) = map f_content (facts d)
    \<and> (\<forall>i \<in> set ms. (kr_id r, i) \<in> set (members t) \<and> get_active_fact None i t = Inr None)
    \<and> read_current_state s p sc t = Inr None"
  using run
proof (rule open_state_conflict_Inr)
  fix k
  let ?g = "\<lambda>f. f\<lparr>f_conflict := Some (kr_id r)\<rparr>"
  let ?slot = "in_slot (strip sc) (strip s) (strip p)"
  assume found: "ids_where (state_member (strip sc) (strip s) (strip p)) ms d = set ms"
    and rid: "kr_id r = uuid env (uuid_ctr d)" and ne: "ms \<noteq> []"
    and t: "t = d\<lparr>facts := update_where (\<lambda>f. f_id f \<in> set ms) ?g (facts d),
           conflicts := conflicts d @ [k], members := members d @ map (Pair (kr_id r)) ms,
           uuid_ctr := Suc (uuid_ctr d)\<rparr>"
  have wft: "wf_db t" using open_state_conflict_wf [of "{}" d env s p ms sc dt det r t] wf run by simp
  have keys: "strip s \<noteq> []" "strip p \<noteq> []" "strip sc \<noteq> []"
    using run by (auto simp: open_state_conflict_def andThen_Inr_iff Let_def required_ok)
  have ft: "facts t = update_where (\<lambda>f. f_id f \<in> set ms) ?g (facts d)" by (simp add: t)
  have gone: "\<not> active f" if "f \<in> set (facts t)" "f_id f \<in> set ms" for f
    using that by (auto simp: ft set_update_where active_def)
  then have "first_where (\<lambda>f. f_id f = i \<and> active f) (facts t) = None" if "i \<in> set ms" for i
    using that by (auto simp: first_where_None)
  then have hidden: "\<forall>i \<in> set ms. get_active_fact None i t = Inr None"
    by (auto simp: get_active_fact_def build_visibility_predicate_def build_scope_predicate_def)
  from current obtain f where f: "f \<in> set (facts d)" "f_id f \<in> set ms" "f_valid_to f = None" by blast
  have ids: "ids_ok d" using wf by (simp add: wf_db_def)
  have "state_member (strip sc) (strip s) (strip p) f" by (rule found_members [OF ids found f(1,2)])
  then have "?slot f" "active f" by (simp_all add: state_member_def)
  then have "?g f \<in> set (filter (\<lambda>f. ?slot f \<and> open_interval_fact f) (facts t))"
    using f by (auto simp: ft set_update_where in_slot_def is_state_def open_interval_fact_def current_def active_def)
  then have "\<exists>h \<in> set (filter (\<lambda>f. ?slot f \<and> open_interval_fact f) (facts t)). f_conflict h \<noteq> None"
    by (rule rev_bexI) simp
  moreover have "\<forall>f \<in> set (facts t). f_conflict f \<noteq> Some []"
    using named rid by (auto simp: ft set_update_where)
  ultimately have "read_current_state s p sc t = Inr None"
    using read_current_state_abstains [OF wft _ keys] by blast
  moreover have "map f_content (facts t) = map f_content (facts d)"
    unfolding ft by (rule map_update_where) simp
  ultimately show ?thesis using wft hidden by (simp add: t)
qed

section \<open>Resolving\<close>

lemma record_resolver_Inr:
  "record_resolver cid w reason dt cl se ag d = Inr (u, t) \<Longrightarrow> \<exists>rs. t = d\<lparr>resolutions := rs\<rparr>"
  by (auto simp: record_resolver_def insert_resolution_def andThen_Inr_iff split: if_splits)
    (metis db.surjective db.update_convs(6))

lemma resolve_state_conflict_Inr:
  assumes "resolve_state_conflict env cid w by why dt cl se ag d = Inr (r, t)"
  obtains losers resolved from_w reason who rs d1 where
    "losers = filter (\<lambda>i. i \<noteq> w) (member_ids cid d)" "w \<in> set (member_ids cid d)"
    "kx_superseded r = losers" "kx_resolved_at r = resolved" "kx_fact r = w"
    "\<exists>c. c \<in> set (conflicts d) \<and> cf_id c = cid"
    "d1 = d\<lparr>facts := update_where (\<lambda>f. f_id f \<in> set losers \<and> f_conflict f = Some cid \<and> f_invalid_at f = None)
         (\<lambda>f. f\<lparr>f_invalid_at := Some resolved, f_expired_at := Some resolved,
                f_superseded_by := Some w, f_valid_to := from_w\<rparr>) (facts d)\<rparr>"
    "count_where (\<lambda>f. f_id f \<in> set losers \<and> f_conflict f = Some cid \<and> f_invalid_at f = None) (facts d) = length losers"
    "count_where (\<lambda>f. f_id f = w \<and> (f_conflict f = Some cid \<and> current f)) (facts d1) = 1"
    "slots_unique (facts d) \<Longrightarrow> slots_unique (facts d1)"
    "slots_unique (update_where (\<lambda>f. f_id f = w \<and> (f_conflict f = Some cid \<and> current f)) (\<lambda>f. f\<lparr>f_conflict := None\<rparr>) (facts d1))"
    "t = d1\<lparr>facts := update_where (\<lambda>f. f_id f = w \<and> (f_conflict f = Some cid \<and> current f)) (\<lambda>f. f\<lparr>f_conflict := None\<rparr>) (facts d1),
       conflicts := update_where (\<lambda>c. cf_id c = cid \<and> cf_resolved_at c = None)
       (\<lambda>c. c\<lparr>cf_resolved_at := Some resolved, cf_resolution := Some w,
              cf_resolved_by := Some who, cf_reason := Some reason\<rparr>) (conflicts d), resolutions := rs\<rparr>"
proof -
  let ?losers = "filter (\<lambda>i. i \<noteq> w) (member_ids cid d)"
  let ?res = "text_or dt (later env)"
  let ?p = "\<lambda>f. f_id f \<in> set ?losers \<and> f_conflict f = Some cid \<and> f_invalid_at f = None"
  let ?g = "\<lambda>f. f\<lparr>f_invalid_at := Some ?res, f_expired_at := Some ?res,
                f_superseded_by := Some w, f_valid_to := Option.bind (find_fact w d) f_valid_from\<rparr>"
  let ?q = "\<lambda>f. f_id f = w \<and> (f_conflict f = Some cid \<and> current f)"
  from assms obtain n d1 d2 u who reason where
    first: "(if ?losers = [] then ret 0 else update_facts ?p ?g) d = Inr (n, d1)" "n = length ?losers"
    and w: "w \<in> set (member_ids cid d)" "first_where (\<lambda>c. cf_id c = cid) (conflicts d) \<noteq> None"
    and second: "update_facts ?q (\<lambda>f. f\<lparr>f_conflict := None\<rparr>) d1 = Inr (1, d2)"
    and last: "record_resolver cid w reason ?res cl se ag
        (d2\<lparr>conflicts := update_where (\<lambda>c. cf_id c = cid \<and> cf_resolved_at c = None)
       (\<lambda>c. c\<lparr>cf_resolved_at := Some ?res, cf_resolution := Some w,
              cf_resolved_by := Some who, cf_reason := Some reason\<rparr>) (conflicts d2)\<rparr>) = Inr (u, t)"
    and r: "kx_superseded r = ?losers" "kx_resolved_at r = ?res" "kx_fact r = w"
    unfolding resolve_state_conflict_def Let_def
    by (auto simp: andThen_Inr_iff required_ok)
  have d1: "d1 = d\<lparr>facts := update_where ?p ?g (facts d)\<rparr>" "count_where ?p (facts d) = length ?losers"
    "slots_unique (facts d) \<longrightarrow> slots_unique (facts d1)"
  proof (atomize (full), cases "?losers = []")
    case True
    then have "update_where ?p ?g (facts d) = facts d" by (simp add: update_where_none)
    then show "d1 = d\<lparr>facts := update_where ?p ?g (facts d)\<rparr> \<and> count_where ?p (facts d) = length ?losers
      \<and> (slots_unique (facts d) \<longrightarrow> slots_unique (facts d1))"
      using first True by (simp add: count_where_def)
  next
    case False
    then show "d1 = d\<lparr>facts := update_where ?p ?g (facts d)\<rparr> \<and> count_where ?p (facts d) = length ?losers
      \<and> (slots_unique (facts d) \<longrightarrow> slots_unique (facts d1))"
      using first by (simp add: update_facts_Inr)
  qed
  from second have d2: "d2 = d1\<lparr>facts := update_where ?q (\<lambda>f. f\<lparr>f_conflict := None\<rparr>) (facts d1)\<rparr>"
    "count_where ?q (facts d1) = 1"
    "slots_unique (update_where ?q (\<lambda>f. f\<lparr>f_conflict := None\<rparr>) (facts d1))"
    by (auto simp: update_facts_Inr)
  obtain c where "c \<in> set (conflicts d)" "cf_id c = cid"
    using w(2) by (auto dest: first_where_Some)
  moreover obtain rs where "t = d2\<lparr>conflicts := update_where (\<lambda>c. cf_id c = cid \<and> cf_resolved_at c = None)
       (\<lambda>c. c\<lparr>cf_resolved_at := Some ?res, cf_resolution := Some w,
              cf_resolved_by := Some who, cf_reason := Some reason\<rparr>) (conflicts d2), resolutions := rs\<rparr>"
    using record_resolver_Inr [OF last] by blast
  ultimately show thesis
    by (intro that [of ?losers ?res d1 "Option.bind (find_fact w d) f_valid_from" rs reason who])
      (use d1 d2 w r in auto)
qed

lemma all_hit:
  assumes "ids_ok d" and p: "\<And>f. p f \<Longrightarrow> f_id f \<in> set is" and n: "count_where p (facts d) = length is"
    and i: "i \<in> set is"
  shows "\<exists>f \<in> set (facts d). f_id f = i \<and> p f"
proof -
  let ?fs = "filter p (facts d)"
  have "inj_on f_id (set ?fs)" "distinct ?fs"
    using assms(1) by (auto simp: ids_ok_def distinct_map inj_on_def)
  then have "card (f_id ` set ?fs) = length ?fs" by (metis card_image distinct_card)
  moreover have "f_id ` set ?fs \<subseteq> set is" using p by auto
  moreover have "card (set is) \<le> length is" by (rule card_length)
  ultimately have "f_id ` set ?fs = set is"
    using n by (intro card_seteq) (auto simp: count_where_def)
  with i have "i \<in> f_id ` set ?fs" by simp
  then show ?thesis by auto
qed

lemma untouched_current:
  assumes "x \<in> set (update_where p g fs)" "current x" "\<And>f. \<not> current (g f)"
  shows "x \<in> set fs \<and> \<not> p x"
  using assms by (fastforce simp: set_update_where)

lemma resolve_state_conflict_wf:
  assumes wf: "wf_db d" and run: "resolve_state_conflict env cid w by why dt cl se ag d = Inr (r, t)"
  shows "wf_db t"
  using run
proof (rule resolve_state_conflict_Inr)
  fix losers resolved from_w reason who rs d1
  let ?p = "\<lambda>f. f_id f \<in> set losers \<and> f_conflict f = Some cid \<and> f_invalid_at f = None"
  let ?g = "\<lambda>f. f\<lparr>f_invalid_at := Some resolved, f_expired_at := Some resolved,
                f_superseded_by := Some w, f_valid_to := from_w\<rparr>"
  let ?q = "\<lambda>f. f_id f = w \<and> (f_conflict f = Some cid \<and> current f)"
  let ?h = "\<lambda>f. f\<lparr>f_conflict := None\<rparr>"
  let ?cs = "update_where (\<lambda>c. cf_id c = cid \<and> cf_resolved_at c = None)
       (\<lambda>c. c\<lparr>cf_resolved_at := Some resolved, cf_resolution := Some w,
              cf_resolved_by := Some who, cf_reason := Some reason\<rparr>) (conflicts d)"
  assume losers: "losers = filter (\<lambda>i. i \<noteq> w) (member_ids cid d)"
    and d1: "d1 = d\<lparr>facts := update_where ?p ?g (facts d)\<rparr>"
    and n: "count_where ?p (facts d) = length losers" "count_where ?q (facts d1) = 1"
    and u: "slots_unique (update_where ?q ?h (facts d1))"
    and t: "t = d1\<lparr>facts := update_where ?q ?h (facts d1), conflicts := ?cs, resolutions := rs\<rparr>"
  have ids: "ids_ok d" using wf by (simp add: wf_db_def)
  obtain x where x: "x \<in> set (facts d1)" "?q x" using n(2) count_where_one [of ?q "facts d1"] by auto
  have xd: "x \<in> set (facts d)" "\<not> ?p x"
    using x untouched_current [of x ?p ?g "facts d"] by (auto simp: d1 current_def)
  have wf1: "wf_db d1"
    unfolding d1
  proof (rule wf_retire [OF wf])
    show "slot_frame ?p ?g" by (auto simp: slot_frame_def current_def)
    show "x \<in> set (facts d)" "f_id x = w" "f_superseded_by x = None" "\<not> ?p x"
      using x xd by (auto simp: current_def)
  qed simp
  have retired: "f_id f = w" if f: "f \<in> set (facts d1)" "current f" "f_conflict f = Some cid" for f
  proof (rule ccontr)
    assume "f_id f \<noteq> w"
    from f wf1 have "(cid, f_id f) \<in> set (members d1)" by (auto simp: wf_db_def groups_ok_def)
    with \<open>f_id f \<noteq> w\<close> have i: "f_id f \<in> set losers" by (force simp: losers member_ids_def d1)
    obtain y where y: "y \<in> set (facts d)" "f_id y = f_id f" "?p y"
      using all_hit [OF ids _ n(1) i] by blast
    then have "?g y \<in> set (facts d1)" by (auto simp: d1 set_update_where)
    with y(2) f(1) wf1 have "f = ?g y" by (intro same_id_same_fact [of d1]) (auto simp: wf_db_def)
    with f(2) show False by (simp add: current_def)
  qed
  have ft1: "facts t = update_where ?q ?h (facts d1)" by (simp add: t)
  have "open_group t f c \<and> (c, f_id f) \<in> set (members t)"
    if f: "f \<in> set (facts t)" "current f" "f_conflict f = Some c" for f c
  proof -
    obtain f1 where f1: "f1 \<in> set (facts d1)" "f = (if ?q f1 then ?h f1 else f1)"
      using in_update_where [OF f(1) [unfolded ft1]] by blast
    have "\<not> ?q f1"
    proof
      assume "?q f1"
      then have "f_conflict f = None" using f1(2) by simp
      with f(3) show False by simp
    qed
    with f1(2) have same: "f = f1" by (simp only: if_False)
    with \<open>\<not> ?q f1\<close> f1(1) f have "c \<noteq> cid" using retired [of f1] by blast
    from same f1(1) f wf1 have "open_group d1 f c" "(c, f_id f) \<in> set (members d1)"
      by (auto simp: wf_db_def groups_ok_def)
    moreover have "open_group t f c" if og: "open_group d1 f c"
    proof -
      from og obtain cf where cf: "cf \<in> set (conflicts d)" "cf_id cf = c" "cf_resolved_at cf = None"
        "cf_scope cf = f_scope f"
        "is_state f \<longrightarrow> f_subject f = Some (cf_subject cf) \<and> f_predicate f = Some (cf_predicate cf)"
        unfolding open_group_def d1 by auto
      with \<open>c \<noteq> cid\<close> have "cf \<in> set (conflicts t)"
        by (simp add: t set_update_where rev_image_eqI)
      with cf show ?thesis unfolding open_group_def by blast
    qed
    ultimately show ?thesis by (simp add: t)
  qed
  moreover have "map cf_id (conflicts t) = map cf_id (conflicts d)"
    by (simp add: t map_update_where)
  then have "distinct (map cf_id (conflicts t))"
    using wf by (simp add: wf_db_def groups_ok_def)
  ultimately have "groups_ok {} t" by (simp add: groups_ok_def)
  moreover have "ids_ok (d1\<lparr>facts := update_where ?q ?h (facts d1)\<rparr>)"
    using wf1 by (intro ids_ok_update) (simp_all add: wf_db_def)
  then have "ids_ok t" by (rule ids_ok_cong [THEN iffD1, rotated 2]) (simp_all add: t)
  moreover have "lineage_ok (d1\<lparr>facts := update_where ?q ?h (facts d1)\<rparr>)"
    using wf1 by (intro lineage_relabel) (simp_all add: wf_db_def)
  then have "lineage_ok t" by (rule lineage_ok_cong [THEN iffD1, rotated 1]) (simp add: t)
  ultimately show ?thesis using u ft1 by (simp add: wf_db_def)
qed

text \<open>C9: resolving a conflict keeps every fact and its content, makes the chosen member the only
  survivor (current and out of the conflict), retires each other member as superseded by it at
  the time of the resolution, marks the conflict resolved, touches no fact outside the
  conflict, and leaves a well-formed store.
\<close>

theorem resolve_conflict_effect:
  assumes wf: "wf_db d" and run: "resolve_state_conflict env cid w by why dt cl se ag d = Inr (r, t)"
  shows "wf_db t \<and> map f_content (facts t) = map f_content (facts d)
    \<and> (\<exists>f. find_fact w t = Some f \<and> active f)
    \<and> (\<forall>i \<in> set (member_ids cid d). i \<noteq> w \<longrightarrow> (\<exists>f. find_fact i t = Some f
         \<and> f_superseded_by f = Some w \<and> f_invalid_at f = Some (kx_resolved_at r)))
    \<and> (\<forall>i. i \<notin> set (member_ids cid d) \<longrightarrow> find_fact i t = find_fact i d)
    \<and> open_conflict_row cid t = None"
  using run
proof (rule resolve_state_conflict_Inr)
  fix losers resolved from_w reason who rs d1
  let ?p = "\<lambda>f. f_id f \<in> set losers \<and> f_conflict f = Some cid \<and> f_invalid_at f = None"
  let ?g = "\<lambda>f. f\<lparr>f_invalid_at := Some resolved, f_expired_at := Some resolved,
                f_superseded_by := Some w, f_valid_to := from_w\<rparr>"
  let ?q = "\<lambda>f. f_id f = w \<and> (f_conflict f = Some cid \<and> current f)"
  let ?h = "\<lambda>f. f\<lparr>f_conflict := None\<rparr>"
  let ?cs = "update_where (\<lambda>c. cf_id c = cid \<and> cf_resolved_at c = None)
       (\<lambda>c. c\<lparr>cf_resolved_at := Some resolved, cf_resolution := Some w,
              cf_resolved_by := Some who, cf_reason := Some reason\<rparr>) (conflicts d)"
  assume losers: "losers = filter (\<lambda>i. i \<noteq> w) (member_ids cid d)" and w: "w \<in> set (member_ids cid d)"
    and res: "kx_resolved_at r = resolved"
    and d1: "d1 = d\<lparr>facts := update_where ?p ?g (facts d)\<rparr>"
    and n: "count_where ?p (facts d) = length losers" "count_where ?q (facts d1) = 1"
    and t: "t = d1\<lparr>facts := update_where ?q ?h (facts d1), conflicts := ?cs, resolutions := rs\<rparr>"
  have ids: "ids_ok d" using wf by (simp add: wf_db_def)
  have ft: "facts t = update_where ?q ?h (update_where ?p ?g (facts d))" by (simp add: t d1)
  have find1: "find_fact i d1 = map_option (\<lambda>f. if ?p f then ?g f else f) (find_fact i d)" for i
    unfolding d1 by (rule find_fact_update) simp
  have "find_fact i t = find_fact i (d1\<lparr>facts := update_where ?q ?h (facts d1)\<rparr>)" for i
    by (simp add: find_fact_def t)
  also have "\<dots> i = map_option (\<lambda>f. if ?q f then ?h f else f) (find_fact i d1)" for i
    by (rule find_fact_update) simp
  finally have find: "find_fact i t = map_option (\<lambda>f. if ?q f then ?h f else f)
      (map_option (\<lambda>f. if ?p f then ?g f else f) (find_fact i d))" for i
    unfolding find1 .
  have "map f_content (facts t) = map f_content (facts d)"
    unfolding ft by (simp add: map_update_where)
  moreover have "\<exists>f. find_fact w t = Some f \<and> active f"
  proof -
    obtain x where x: "x \<in> set (facts d1)" "?q x" using n(2) count_where_one [of ?q "facts d1"] by auto
    then have "x \<in> set (facts d)" "\<not> ?p x"
      using untouched_current [of x ?p ?g "facts d"] by (auto simp: d1 current_def)
    then have "find_fact w d = Some x" using x find_fact_in [OF ids] by blast
    with x \<open>\<not> ?p x\<close> show ?thesis by (auto simp: find active_def current_def)
  qed
  moreover have "\<exists>f. find_fact i t = Some f \<and> f_superseded_by f = Some w \<and> f_invalid_at f = Some resolved"
    if "i \<in> set (member_ids cid d)" "i \<noteq> w" for i
  proof -
    have "i \<in> set losers" using that by (simp add: losers)
    then obtain y where "y \<in> set (facts d)" "f_id y = i" "?p y"
      using all_hit [OF ids _ n(1)] by blast
    then have "find_fact i d = Some y" "?p y" using find_fact_in [OF ids] by blast+
    with that(2) show ?thesis by (auto simp: find current_def)
  qed
  moreover have "find_fact i t = find_fact i d" if "i \<notin> set (member_ids cid d)" for i
  proof (cases "find_fact i d")
    case (Some f)
    have "f_id f = i" using find_fact_Some [OF Some] by simp
    with that w have "\<not> ?p f" "\<not> ?q f" by (auto simp: losers)
    with Some show ?thesis by (simp only: find option.map if_False)
  qed (simp add: find)
  moreover have "conflicts t = ?cs" by (simp add: t)
  then have "open_conflict_row cid t = None"
    unfolding open_conflict_row_def first_where_None by (auto dest!: in_update_where split: if_splits)
  ultimately show ?thesis using resolve_state_conflict_wf [OF wf run] res by blast
qed

text \<open>Paging through the open conflicts loses none and repeats none.\<close>

theorem conflict_pages_cover:
  assumes "list_state_conflicts sc un n o1 ml vis d = Inr xs" "list_state_conflicts sc un m (o1 + n) ml vis d = Inr ys"
    and "n + m \<le> MAX_CONFLICT_LIMIT"
  shows "list_state_conflicts sc un (n + m) o1 ml vis d = Inr (xs @ ys)"
proof -
  have nm: "1 \<le> n" "1 \<le> m" "0 \<le> o1"
    using assms by (auto simp: list_state_conflicts_def check_page_def bindE_Inr_iff)
  have cat: "page n o1 zs @ page m (o1 + n) zs = page (n + m) o1 zs" for zs :: "conflict list"
  proof -
    have "nat (n + m) = nat n + nat m" "nat (o1 + n) = nat n + nat o1" using nm by (auto simp: nat_add_distrib)
    then show ?thesis by (simp add: page_def take_add drop_drop [symmetric] del: drop_drop)
  qed
  from assms nm show ?thesis
    by (auto simp: list_state_conflicts_def check_page_def bindE_Inr_iff simp flip: cat)
qed

end
