(* ===== verification/Contradiction.thy ===== *)
theory Contradiction
  imports SlotKeys Temporal
begin

text \<open>
  The text half of \<^verbatim>\<open>enfold/write_service.py\<close>: when two untyped claims contradict each other,
  and the slot label such a dispute gets.
\<close>

section \<open>Labels\<close>

fun first_stem :: "(string \<Rightarrow> bool) \<Rightarrow> string \<Rightarrow> string list \<Rightarrow> string option" where
  "first_stem p token [] = None"
| "first_stem p token (x # xs) =
     (let stem = take (length token - length x) token in
      if suffix x token \<and> length x + 2 < length token \<and> p stem then Some stem
      else first_stem p token xs)"

definition canonical_shared_token :: "string \<Rightarrow> string set \<Rightarrow> string option" where
  "canonical_shared_token token subjectish =
     (if token \<in> subjectish then Some token else first_stem (\<lambda>s. s \<in> subjectish) token SUFFIXES)"

fun shared_tokens :: "string set \<Rightarrow> string list \<Rightarrow> string list \<Rightarrow> string list" where
  "shared_tokens right shared [] = shared"
| "shared_tokens right shared (token # tokens) =
     (case canonical_shared_token token right of
        None \<Rightarrow> shared_tokens right shared tokens
      | Some c \<Rightarrow> shared_tokens right (if c \<in> set shared then shared else shared @ [c]) tokens)"

definition guess_untyped_conflict_slot :: "string \<Rightarrow> string \<Rightarrow> (string \<times> string) res" where
  "guess_untyped_conflict_slot left right =
     (let shared = shared_tokens (subjectish_tokens right) [] (norm_token_sequence left);
          (subject, predicate) =
            (if 2 \<le> length shared then (join ''.'' (butlast shared), last shared)
             else if shared \<noteq> [] then (hd shared, ''claim'')
             else (''untyped'', ''claim''));
          subject = (if 128 < length subject then take 128 subject else subject);
          predicate = (if 64 < length predicate then take 64 predicate else predicate) in
      bindE (normalize_subject_key subject) (\<lambda>s.
      bindE (normalize_predicate_key predicate) (\<lambda>p. Inr (s, p))))"

section \<open>Contradiction\<close>

definition STATE_FRAME_WORDS :: "string list" where
  "STATE_FRAME_WORDS = [''is'', ''are'', ''was'', ''were'', ''uses'', ''use'', ''used'', ''using'',
     ''prefers'', ''prefer'', ''preferred'', ''runs'', ''run'', ''running'']"

definition COPULAS :: "string list" where
  "COPULAS = [''is'', ''are'', ''was'', ''were'']"

definition RESIDUE_NEGATION :: "string list" where
  "RESIDUE_NEGATION = [''never'', ''without'']"

fun common_prefix :: "string list \<Rightarrow> string list \<Rightarrow> nat" where
  "common_prefix (x # xs) (y # ys) = (if x = y then Suc (common_prefix xs ys) else 0)"
| "common_prefix _ _ = 0"

definition is_suffix_value_substitution :: "string \<Rightarrow> string \<Rightarrow> bool" where
  "is_suffix_value_substitution left right =
     (if \<not> has_subjectish_overlap left right then False
      else
       let left_seq = norm_token_sequence left; right_seq = norm_token_sequence right;
           pre = common_prefix left_seq right_seq;
           left_tail = drop pre left_seq; right_tail = drop pre right_seq in
       if pre < 2 then False
       else if left_tail = [] \<or> right_tail = [] then False
       else if set left_tail \<inter> set right_tail \<noteq> {} then False
       else if set left_tail \<inter> set STATE_FRAME_WORDS \<noteq> {} \<or> set right_tail \<inter> set STATE_FRAME_WORDS \<noteq> {} then False
       else
         let left_values = list_all (list_ex is_digit) left_tail;
             right_values = list_all (list_ex is_digit) right_tail;
             shared_noncopular_frame = (set (take pre left_seq) \<inter> set STATE_FRAME_WORDS) - set COPULAS in
         3 \<le> pre \<or> shared_noncopular_frame \<noteq> {} \<or> (left_values \<and> right_values))"

definition has_state_frame :: "string \<Rightarrow> bool" where
  "has_state_frame text \<longleftrightarrow> norm_tokens text \<inter> set STATE_FRAME_WORDS \<noteq> {}"

definition untyped_claim_residue :: "string \<Rightarrow> string set" where
  "untyped_claim_residue text =
     (let pool = subjectish_tokens text - set RESIDUE_NEGATION in
      (\<lambda>token. case first_stem (\<lambda>s. s \<in> pool) token SUFFIXES of None \<Rightarrow> token | Some s \<Rightarrow> s) ` pool)"

definition untyped_contents_contradict :: "string \<Rightarrow> string \<Rightarrow> bool" where
  "untyped_contents_contradict left right =
     (if has_opposing_state_words True left right \<or> has_negation_mismatch True left right
      then untyped_claim_residue left \<noteq> {} \<and> untyped_claim_residue left = untyped_claim_residue right
      else if \<not> (has_state_frame left \<and> has_state_frame right) then False
      else is_value_update left right \<or> is_suffix_value_substitution left right)"

section \<open>Contradiction is symmetric\<close>

lemma common_prefix_sym: "common_prefix xs ys = common_prefix ys xs"
  by (induction xs ys rule: common_prefix.induct) auto

lemma take_common_prefix: "take (common_prefix xs ys) xs = take (common_prefix xs ys) ys"
  by (induction xs ys rule: common_prefix.induct) auto

lemma is_suffix_value_substitution_sym:
  "is_suffix_value_substitution a b = is_suffix_value_substitution b a"
  unfolding is_suffix_value_substitution_def Let_def has_subjectish_overlap_sym [of a b]
    common_prefix_sym [of "norm_token_sequence a"]
    take_common_prefix [of "norm_token_sequence b" "norm_token_sequence a", symmetric]
  by (auto simp: Int_commute)

lemma is_value_update_sym: "is_value_update a b = is_value_update b a"
  unfolding is_value_update_def Let_def
    has_opposing_state_words_sym [of True a b] has_negation_mismatch_sym [of True a b]
  by auto

lemma common_prefix_self: "common_prefix xs xs = length xs"
  by (induction xs) simp_all

lemma no_self_contradiction: "\<not> untyped_contents_contradict a a"
proof -
  have "\<not> is_suffix_value_substitution a a"
    by (simp add: is_suffix_value_substitution_def Let_def common_prefix_self)
  moreover have "\<not> is_value_update a a"
    unfolding is_value_update_def Let_def by (auto simp: not_own_opposite)
  ultimately show ?thesis by (simp add: untyped_contents_contradict_def not_own_opposite)
qed

text \<open>Whether two untyped claims contradict each other does not depend on which of them was
  stored first, and no claim contradicts itself.
\<close>

theorem contradiction_symmetric:
  "untyped_contents_contradict a b = untyped_contents_contradict b a \<and> \<not> untyped_contents_contradict a a"
  unfolding untyped_contents_contradict_def
    has_opposing_state_words_sym [of True a b] has_negation_mismatch_sym [of True a b]
    is_value_update_sym [of a b] is_suffix_value_substitution_sym [of a b]
  using no_self_contradiction [of a] by (auto simp: untyped_contents_contradict_def)

section \<open>The guessed label is always a legal slot\<close>

lemma first_stem_in: "first_stem p token xs = Some s \<Longrightarrow> p s"
  by (induction xs) (auto simp: Let_def split: if_splits)

lemma shared_tokens_in:
  "x \<in> set (shared_tokens R sh ts) \<Longrightarrow> x \<in> set sh \<or> x \<in> R"
proof (induction ts arbitrary: sh)
  case (Cons t ts)
  have "c \<in> R" if "canonical_shared_token t R = Some c" for c
    using that by (auto simp: canonical_shared_token_def dest: first_stem_in split: if_splits)
  with Cons.prems Cons.IH show ?case
    by (cases "canonical_shared_token t R") (auto split: if_splits, fastforce)
qed simp

lemma norm_token_key: "t \<in> set (norm_token_sequence text) \<Longrightarrow> t \<noteq> [] \<and> (\<forall>c \<in> set t. is_key_char c)"
  unfolding norm_token_sequence_def by (drule find_runs_elem) auto

lemma subjectish_key:
  assumes "t \<in> subjectish_tokens text"
  shows "t \<noteq> [] \<and> (\<forall>c \<in> set t. is_key_char c)"
proof -
  have n: "t \<noteq> [] \<and> (\<forall>c \<in> set t. is_key_char c)" if "t \<in> norm_tokens text" for t
    using that norm_token_key by (auto simp: norm_tokens_def)
  from assms obtain u where u: "u \<in> norm_tokens text" "t = u \<or> t \<in> set (stems u)"
    by (auto simp: subjectish_tokens_def content_tokens_def Let_def)
  have "t \<noteq> [] \<and> set t \<subseteq> set u" if "t \<in> set (stems u)"
    using that by (auto simp: stems_def dest: in_set_takeD)
  with u n [of u] show ?thesis by auto
qed

text \<open>A text of key characters and dots that starts with a key character is a subject key.\<close>

lemma dotted_key:
  assumes "s \<noteq> []" "is_key_char (hd s)" "\<forall>c \<in> set s. is_key_char c \<or> c = CHR ''.''" "length s \<le> 128"
  shows "normalize_subject_key s = Inr s"
proof -
  have dot: "CHR ''.'' \<in> set ''._:/-''" by code_simp
  then have "\<forall>c \<in> set s. key_text c" using assms(3) by (auto simp: key_text_def)
  moreover have "key_shape ''._:/-'' 127 s"
    using assms dot by (cases s) (auto simp: key_shape_def list_all_iff one_of_def)
  ultimately show ?thesis by (simp add: normalize_subject_key_text)
qed

lemma plain_key:
  assumes "s \<noteq> []" "\<forall>c \<in> set s. is_key_char c" "length s \<le> 64"
  shows "normalize_predicate_key s = Inr s"
proof -
  have "\<forall>c \<in> set s. key_text c" using assms(2) by (simp add: key_text_def)
  moreover have "\<forall>c \<in> set s. \<not> (py_space c \<or> c = CHR ''-'')"
    using assms(2) key_char_plain by (auto simp: dash_def)
  then have "sub_runs (\<lambda>c. py_space c \<or> c = CHR ''-'') CHR ''_'' False s = s" by (rule sub_runs_id)
  moreover have "key_shape ''._-'' 63 s"
    using assms by (cases s) (auto simp: key_shape_def list_all_iff)
  ultimately show ?thesis by (simp add: normalize_predicate_key_def key_text_id)
qed

lemma join_dots:
  assumes "xs \<noteq> []" "\<forall>x \<in> set xs. x \<noteq> [] \<and> (\<forall>c \<in> set x. is_key_char c)"
  shows "join ''.'' xs \<noteq> [] \<and> is_key_char (hd (join ''.'' xs))
    \<and> (\<forall>c \<in> set (join ''.'' xs). is_key_char c \<or> c = CHR ''.'')"
  using assms by (induction "''.''" xs rule: join.induct) (auto simp: hd_append)

text \<open>The label of a dispute between two untyped claims is always a legal slot: guessing it
  never raises, whatever the two texts say, so a detected contradiction is never dropped for
  want of a label.
\<close>

theorem guessed_slot_always_legal:
  "\<exists>s p. guess_untyped_conflict_slot left right = Inr (s, p)
     \<and> normalize_subject_key s = Inr s \<and> normalize_predicate_key p = Inr p"
proof -
  let ?sh = "shared_tokens (subjectish_tokens right) [] (norm_token_sequence left)"
  have el: "\<forall>x \<in> set ?sh. x \<noteq> [] \<and> (\<forall>c \<in> set x. is_key_char c)"
    using shared_tokens_in subjectish_key by fastforce
  have cut: "normalize_subject_key (if 128 < length s then take 128 s else s) = Inr (if 128 < length s then take 128 s else s)"
    if "s \<noteq> [] \<and> is_key_char (hd s) \<and> (\<forall>c \<in> set s. is_key_char c \<or> c = CHR ''.'')" for s
    using that by (intro dotted_key) (auto dest: in_set_takeD)
  have cutp: "normalize_predicate_key (if 64 < length s then take 64 s else s) = Inr (if 64 < length s then take 64 s else s)"
    if "s \<noteq> [] \<and> (\<forall>c \<in> set s. is_key_char c)" for s
    using that by (intro plain_key) (auto dest: in_set_takeD)
  have fixed: "''claim'' \<noteq> [] \<and> (\<forall>c \<in> set ''claim''. is_key_char c)"
    "''untyped'' \<noteq> [] \<and> is_key_char (hd ''untyped'') \<and> (\<forall>c \<in> set ''untyped''. is_key_char c \<or> c = CHR ''.'')"
    by code_simp+
  have go: "\<exists>s p. bindE (normalize_subject_key (if 128 < length a then take 128 a else a)) (\<lambda>s.
      bindE (normalize_predicate_key (if 64 < length b then take 64 b else b)) (\<lambda>p. Inr (s, p))) = Inr (s, p)
     \<and> normalize_subject_key s = Inr s \<and> normalize_predicate_key p = Inr p"
    if "a \<noteq> [] \<and> is_key_char (hd a) \<and> (\<forall>c \<in> set a. is_key_char c \<or> c = CHR ''.'')"
      "b \<noteq> [] \<and> (\<forall>c \<in> set b. is_key_char c)" for a b
    using cut [OF that(1)] cutp [OF that(2)] by (auto simp only: bindE_simps)
  show ?thesis
  proof (cases "2 \<le> length ?sh")
    case True
    then have ne: "butlast ?sh \<noteq> []" "?sh \<noteq> []" by (cases ?sh rule: rev_cases, auto)+
    have "\<forall>x \<in> set (butlast ?sh). x \<noteq> [] \<and> (\<forall>c \<in> set x. is_key_char c)"
      using el by (blast dest: in_set_butlastD)
    note j = join_dots [OF ne(1) this]
    have l: "last ?sh \<noteq> [] \<and> (\<forall>c \<in> set (last ?sh). is_key_char c)" using el ne(2) last_in_set by blast
    from go [OF j l] True show ?thesis
      unfolding guess_untyped_conflict_slot_def Let_def by (simp only: if_True prod.case)
  next
    case False
    show ?thesis
    proof (cases "?sh = []")
      case True
      with go [OF fixed(2,1)] show ?thesis
        unfolding guess_untyped_conflict_slot_def Let_def True by (simp only: list.size prod.case) simp
    next
      case ne: False
      then have h: "hd ?sh \<noteq> [] \<and> (\<forall>c \<in> set (hd ?sh). is_key_char c)" using el hd_in_set by blast
      then have "hd ?sh \<noteq> [] \<and> is_key_char (hd (hd ?sh)) \<and> (\<forall>c \<in> set (hd ?sh). is_key_char c \<or> c = CHR ''.'')"
        using hd_in_set by blast
      from go [OF this fixed(1)] False ne show ?thesis
        unfolding guess_untyped_conflict_slot_def Let_def by (simp only: if_False simp_thms if_True prod.case)
    qed
  qed
qed

end
