(* ===== verification/NearDup.thy ===== *)
theory NearDup
  imports Temporal
begin

text \<open>
  The write-time half of \<^verbatim>\<open>enfold/cluster_merge.py\<close>: the textual guard that keeps a changed
  value from being merged with an old one, and the bounded candidate search.  Full-text
  ranking (SQLite FTS5) and vector similarity (NumPy) are parameters.
\<close>

definition DATE_WORDS :: "string list" where
  "DATE_WORDS = [''january'', ''february'', ''march'', ''april'', ''may'', ''june'', ''july'', ''august'',
     ''september'', ''october'', ''november'', ''december'', ''monday'', ''tuesday'', ''wednesday'',
     ''thursday'', ''friday'', ''saturday'', ''sunday'', ''today'', ''tomorrow'', ''yesterday'']"

definition LIFECYCLE_GROUPS :: "string list list" where
  "LIFECYCLE_GROUPS = [[''enabled'', ''disabled''], [''active'', ''inactive'', ''archived''], [''on'', ''off''],
     [''open'', ''closed''], [''paused'', ''resumed''], [''up'', ''down''], [''alive'', ''dead''],
     [''started'', ''stopped''], [''pending'', ''running'', ''completed'', ''failed'', ''succeeded''],
     [''deployed'', ''undeployed'', ''installed'', ''uninstalled''], [''available'', ''unavailable''],
     [''approved'', ''rejected'', ''accepted'', ''denied'']]"

definition LIFECYCLE_WORDS :: "string list" where
  "LIFECYCLE_WORDS = concat LIFECYCLE_GROUPS"

definition merge_value_tokens :: "string \<Rightarrow> string list" where
  "merge_value_tokens content =
     filter (\<lambda>t. list_ex is_digit t \<or> t \<in> set DATE_WORDS) (norm_token_sequence content)"

text \<open>
  \<open>on\<close> and \<open>off\<close> count as states only right after a verb that makes them one; a single
  prepositional use discards the word.
\<close>

definition state_tokens :: "string \<Rightarrow> string set" where
  "state_tokens content =
     (let tokens = norm_token_sequence content in
      (set tokens \<inter> set LIFECYCLE_WORDS)
      - {t \<in> {''on'', ''off''}. \<exists>i \<in> {0..<length tokens}. tokens ! i = t
           \<and> (i = 0 \<or> tokens ! (i - 1) \<notin> {''is'', ''was'', ''turned'', ''set''})})"

definition safe_to_merge_near_duplicate :: "string \<Rightarrow> string \<Rightarrow> bool" where
  "safe_to_merge_near_duplicate content other \<longleftrightarrow>
     (if merge_value_tokens content \<noteq> merge_value_tokens other then False
      else if (norm_tokens content \<inter> set NEGATION_WORDS \<noteq> {}) \<noteq> (norm_tokens other \<inter> set NEGATION_WORDS \<noteq> {}) then False
      else state_tokens content = state_tokens other)"

record near_candidate =
  nd_fact :: int
  nd_trust :: rat
  nd_created_at :: string
  nd_cosine :: rat

text \<open>
  \<open>ix_match\<close>: the ids matching any of the terms in the index's rank order; \<open>ix_usable\<close>: the
  query vector is finite and non-empty; \<open>ix_cosine\<close>: the cosine of the query and a stored
  vector, when neither is zero and the stored one has the query's dimension.
\<close>

record search_index =
  ix_match :: "string list \<Rightarrow> db \<Rightarrow> int list"
  ix_usable :: "string \<Rightarrow> bool"
  ix_cosine :: "string \<Rightarrow> embedding \<Rightarrow> rat option"

definition candidate_rows ::
    "search_index \<Rightarrow> string list \<Rightarrow> string \<Rightarrow> string option \<Rightarrow> db \<Rightarrow> (fact \<times> embedding) list" where
  "candidate_rows ix terms scope identity d =
     concat (map (\<lambda>i. concat (map (\<lambda>f. map (\<lambda>e. (f, e))
         (filter (\<lambda>e. em_fact e = f_id f \<and> (case identity of None \<Rightarrow> True | Some n \<Rightarrow> em_identity e = n)) (embeddings d)))
       (filter (\<lambda>f. f_id f = i \<and> f_scope f = scope \<and> active f) (facts d))))
     (ix_match ix terms d))"

definition find_write_near_duplicates :: "search_index \<Rightarrow> string \<Rightarrow> string \<Rightarrow> string \<Rightarrow> rat \<Rightarrow> int
    \<Rightarrow> string option \<Rightarrow> db \<Rightarrow> near_candidate list res" where
  "find_write_near_duplicates ix content scope query threshold limit identity d =
     (let terms = dedup_first (norm_token_sequence content) in
      if terms = [] \<or> \<not> ix_usable ix query then Inr []
      else if limit \<le> 0 \<or> \<not> (0 \<le> threshold \<and> threshold \<le> 1)
        then Inl (ValueError ''near-duplicate search configuration is invalid'')
      else Inr (concat (map (\<lambda>(f, e).
          if \<not> safe_to_merge_near_duplicate content (f_content f) then []
          else (case ix_cosine ix query e of
              None \<Rightarrow> []
            | Some c \<Rightarrow> if threshold \<le> c
                then [\<lparr>nd_fact = f_id f, nd_trust = f_trust f, nd_created_at = f_created_at f, nd_cosine = c\<rparr>]
                else []))
        (take (nat limit) (candidate_rows ix terms scope identity d)))))"

lemma near_candidate_active:
  assumes "find_write_near_duplicates ix content scope query threshold limit identity d = Inr cs" "c \<in> set cs"
  shows "\<exists>f \<in> set (facts d). f_id f = nd_fact c \<and> active f \<and> f_scope f = scope
    \<and> safe_to_merge_near_duplicate content (f_content f) \<and> threshold \<le> nd_cosine c"
proof -
  let ?rows = "candidate_rows ix (dedup_first (norm_token_sequence content)) scope identity d"
  from assms obtain f e where fe: "(f, e) \<in> set (take (nat limit) ?rows)"
    "safe_to_merge_near_duplicate content (f_content f)" "nd_fact c = f_id f" "threshold \<le> nd_cosine c"
    by (auto simp: find_write_near_duplicates_def Let_def split: if_splits option.splits)
  from in_set_takeD [OF fe(1)] have "f \<in> set (facts d) \<and> active f \<and> f_scope f = scope"
    by (auto simp: candidate_rows_def)
  with fe show ?thesis by auto
qed

text \<open>No near-duplicate merge crosses a change of value: two texts that pass the guard have
  the same numbers and dates in the same order, agree on carrying a negation, and assert the
  same lifecycle states; the guard does not depend on which text came first.
\<close>

theorem merge_guard_blocks_changes:
  "(safe_to_merge_near_duplicate a b \<longleftrightarrow> safe_to_merge_near_duplicate b a)
   \<and> (safe_to_merge_near_duplicate a b \<longrightarrow> value_tokens a = value_tokens b
        \<and> \<not> has_negation_mismatch False a b \<and> state_tokens a = state_tokens b)"
proof -
  have "value_tokens a = value_tokens b" if "merge_value_tokens a = merge_value_tokens b"
  proof -
    have "value_tokens t = filter (list_ex is_digit) (merge_value_tokens t)" for t
      by (simp add: value_tokens_def merge_value_tokens_def) (rule filter_cong, auto)
    with that show ?thesis by simp
  qed
  then show ?thesis
    by (auto simp: safe_to_merge_near_duplicate_def has_negation_mismatch_def negation_words_def split: if_splits)
qed

end
