(* ===== verification/WriteService.thy ===== *)
theory WriteService
  imports StateSlots Policy Contradiction NearDup
begin

text \<open>
  \<^verbatim>\<open>enfold/write_service.py\<close>: the transactional write envelope.  The body of one write is cut
  at the points where the source's blocks end: registration and replay, the policy and slot
  decision, the choice of target, the mutation, and the log row.  All of it runs inside one
  transaction, whose rollback on an exception is the absence of a store in the result.
\<close>

section \<open>Values\<close>

record write_result =
  fr_fact :: int
  fr_outcome :: string
  fr_existing :: "int option"
  fr_detail :: json

definition make_result :: "write_result \<Rightarrow> write_result res" where
  "make_result r =
     bindE (checkE (0 < fr_fact r) (ValueError ''fact_id must be positive'')) (\<lambda>_.
     bindE (checkE (positive_opt (fr_existing r)) (ValueError ''existing_fact_id must be positive'')) (\<lambda>_.
     bindE (json_object ''detail_json'' (Some (fr_detail r))) (\<lambda>det.
     Inr (r\<lparr>fr_detail := canon det\<rparr>))))"

record near_config =
  nc_enabled :: bool
  nc_threshold :: rat
  nc_limit :: int
  nc_identity :: "string option"

definition make_near_config :: "near_config \<Rightarrow> near_config res" where
  "make_near_config c =
     bindE (checkE (0 \<le> nc_threshold c \<and> nc_threshold c \<le> 1)
       (ValueError ''near dedup cosine threshold must be between 0 and 1'')) (\<lambda>_.
     bindE (checkE (0 < nc_limit c) (ValueError ''near dedup candidate limit must be positive'')) (\<lambda>_.
     bindE (checkE (case nc_identity c of None \<Rightarrow> True | Some n \<Rightarrow> strip n \<noteq> [])
       (ValueError ''near dedup embedding identity must be non-empty'')) (\<lambda>_. Inr c)))"

text \<open>
  The service: its policy and context flag, the fact writer, the outbox's enqueue, and the
  near-duplicate search (\<open>None\<close> as an embedding is a query embedder that raised).
\<close>

record service =
  sv_policy :: policy
  sv_legacy :: bool
  sv_writer :: "env \<Rightarrow> write_request \<Rightarrow> int \<Rightarrow> write_result dbtx"
  sv_enqueue :: "(env \<Rightarrow> int \<Rightarrow> int dbtx) option"
  sv_near :: near_config
  sv_embedder :: "(string \<Rightarrow> string option) option"
  sv_index :: search_index

record contradiction =
  ct_fact :: int
  ct_content :: string
  ct_subject :: string
  ct_predicate :: string

record typed_fields =
  tf_kind :: string
  tf_subject :: string
  tf_predicate :: string
  tf_object :: "string option"
  tf_valid_from :: "string option"
  tf_confidence :: rat

definition action_name :: "action \<Rightarrow> string" where
  "action_name a = (case a of Add \<Rightarrow> ''add'' | Dedup \<Rightarrow> ''dedup'' | Supersede \<Rightarrow> ''supersede'' | Conflict \<Rightarrow> ''conflict'')"

definition jset :: "string \<Rightarrow> json \<Rightarrow> json \<Rightarrow> json" where
  "jset k v obj = (case obj of
     JObj kvs \<Rightarrow> JObj (if k \<in> set (map fst kvs) then map (\<lambda>(x, y). if x = k then (x, v) else (x, y)) kvs
                        else kvs @ [(k, v)])
   | _ \<Rightarrow> obj)"

section \<open>Hashes\<close>

definition request_json :: "write_request \<Rightarrow> json" where
  "request_json r = JObj
    [(''asserted_by'', jopt (rq_asserted_by r)), (''category'', JStr (rq_category r)),
     (''content'', JStr (rq_content r)), (''correction_status'', jopt (rq_correction r)),
     (''evidence_excerpt'', jopt (rq_excerpt r)), (''idempotency_key'', JStr (rq_key r)),
     (''metadata_json'', rq_metadata r), (''observation_content'', jopt (rq_observation r)),
     (''observed_at'', jopt (rq_observed_at r)), (''operation'', JStr (rq_operation r)),
     (''performed_by'', jopt (rq_performed_by r)), (''relation'', JStr (rq_relation r)),
     (''scope'', JStr (rq_scope r)), (''sensitivity'', JStr (rq_sensitivity r)),
     (''source_authority'', JFloat (rq_authority r)), (''source_type'', JStr (rq_source_type r)),
     (''source_uri'', jopt (rq_source_uri r)), (''supersede_fact_id'', jint_opt (rq_supersede r)),
     (''tags'', JStr (rq_tags r)), (''trust_score'', JFloat (rq_trust r))]"

definition candidate_json :: "state_candidate option \<Rightarrow> json" where
  "candidate_json c = (case c of None \<Rightarrow> JNull
   | Some c \<Rightarrow> JObj ([(''content'', JStr (sc_content c)), (''memory_kind'', JStr (sc_kind c)),
       (''object_value'', jopt (sc_object c)), (''predicate_key'', JStr (sc_predicate c)),
       (''scope'', JStr (sc_scope c)), (''source_authority'', JFloat (sc_authority c)),
       (''subject_key'', JStr (sc_subject c)), (''valid_from'', jopt (sc_valid_from c))]
     @ (case sc_valid_to c of None \<Rightarrow> [] | Some v \<Rightarrow> [(''valid_to'', JStr v)])))"

definition request_sha256 :: "env \<Rightarrow> conn_context \<Rightarrow> write_request \<Rightarrow> state_candidate option \<Rightarrow> string" where
  "request_sha256 env ctx r c = sha256_json env (JObj
     [(''client_id'', JStr (cx_client ctx)), (''request'', request_json r), (''state_candidate'', candidate_json c)])"

definition observation_text :: "write_request \<Rightarrow> string" where
  "observation_text r = text_or (rq_observation r) (rq_content r)"

definition observation_sha256 :: "env \<Rightarrow> conn_context \<Rightarrow> write_request \<Rightarrow> string" where
  "observation_sha256 env ctx r = sha256_json env (JObj
     [(''asserted_by'', jopt (rq_asserted_by r)), (''branch'', jopt (cx_branch ctx)),
      (''commit_sha'', jopt (cx_commit ctx)), (''content'', JStr (observation_text r)),
      (''metadata_json'', rq_metadata r), (''observed_at'', jopt (rq_observed_at r)),
      (''performed_by'', jopt (rq_performed_by r)), (''project_root'', jopt (cx_root ctx)),
      (''repository'', jopt (cx_repo ctx)), (''scope'', JStr (rq_scope r)),
      (''sensitivity'', JStr (rq_sensitivity r)), (''source_type'', JStr (rq_source_type r)),
      (''source_uri'', jopt (rq_source_uri r))])"

section \<open>Validation before the transaction\<close>

definition validate_state_candidate :: "write_request \<Rightarrow> state_candidate option \<Rightarrow> unit res" where
  "validate_state_candidate r cand = (case cand of None \<Rightarrow> Inr ()
   | Some c \<Rightarrow>
     bindE (checkE (sc_kind c = ''state'') (ValueError ''state_candidate must have memory_kind=state'')) (\<lambda>_.
     bindE (checkE (sc_content c = rq_content r) (ValueError ''state candidate content must match the write request'')) (\<lambda>_.
     bindE (checkE (sc_scope c = rq_scope r) (ValueError ''state candidate scope must match the write request'')) (\<lambda>_.
     bindE (checkE (sc_authority c = rq_authority r) (ValueError ''state candidate authority must match the write request'')) (\<lambda>_.
     checkE (rq_supersede r = None) (ValueError ''typed state writes derive supersession from the exact slot''))))))"

definition invalid_typed :: error where
  "invalid_typed = ValueError ''automatic extraction typed metadata is invalid''"

fun jnumber :: "json \<Rightarrow> rat option" where
  "jnumber (JInt i) = Some (of_int i)"
| "jnumber (JFloat q) = Some q"
| "jnumber _ = None"

text \<open>A JSON field that must be null or a text that is not blank.\<close>

fun jtext_opt :: "json \<Rightarrow> string option res" where
  "jtext_opt JNull = Inr None"
| "jtext_opt (JStr s) = (if strip s = [] then Inl invalid_typed else Inr (Some s))"
| "jtext_opt _ = Inl invalid_typed"

fun jhashable :: "json \<Rightarrow> bool" where
  "jhashable (JArr xs) = False"
| "jhashable (JObj kvs) = False"
| "jhashable _ = True"

definition typed_kinds :: "string list" where
  "typed_kinds = [''state'', ''preference'', ''commitment'', ''event'']"

text \<open>The checks of the typed payload, in the order of the source's condition.\<close>

definition typed_payload :: "json \<Rightarrow> (string \<times> rat \<times> string option \<times> string option) res" where
  "typed_payload value =
     (let field = (\<lambda>k. case jget k value of None \<Rightarrow> JNull | Some v \<Rightarrow> v) in
      bindE (checkE (jhashable (field ''kind'')) (TypeError ''unhashable type'')) (\<lambda>_.
      case field ''kind'' of
        JStr kind \<Rightarrow>
          bindE (checkE (kind \<in> set typed_kinds) invalid_typed) (\<lambda>_.
          case jnumber (field ''confidence'') of
            None \<Rightarrow> Inl invalid_typed
          | Some confidence \<Rightarrow>
              bindE (checkE (0 \<le> confidence \<and> confidence \<le> 1) invalid_typed) (\<lambda>_.
              bindE (checkE (case field ''negation'' of JBool b \<Rightarrow> True | _ \<Rightarrow> False) invalid_typed) (\<lambda>_.
              bindE (jtext_opt (field ''object_value'')) (\<lambda>object_value.
              bindE (jtext_opt (field ''valid_from'')) (\<lambda>valid_from.
              Inr (kind, confidence, object_value, valid_from))))))
      | _ \<Rightarrow> Inl invalid_typed))"

definition typed_keys :: "string set" where
  "typed_keys = {''confidence'', ''kind'', ''negation'', ''object_value'', ''predicate_key'', ''subject_key'', ''valid_from''}"

text \<open>\<open>value["subject_key"]\<close> reaches \<open>.strip()\<close>, which only text has.\<close>

fun jkey :: "json option \<Rightarrow> string res" where
  "jkey (Some (JStr s)) = Inr s"
| "jkey _ = Inl (AttributeError ''object has no attribute strip'')"

definition as_invalid_typed :: "'a res \<Rightarrow> 'a res" where
  "as_invalid_typed m = (case m of
     Inl (ValueError _) \<Rightarrow> Inl invalid_typed | Inl (TypeError _) \<Rightarrow> Inl invalid_typed | _ \<Rightarrow> m)"

definition extracted_typed_fields ::
    "write_request \<Rightarrow> state_candidate option \<Rightarrow> typed_fields option res" where
  "extracted_typed_fields r cand =
     (if rq_source_type r \<noteq> ''automatic_extraction'' then Inr None
      else case jget ''extraction_typed'' (rq_metadata r) of
        None \<Rightarrow> Inr None
      | Some JNull \<Rightarrow> Inr None
      | Some value \<Rightarrow>
        bindE (checkE (case value of JObj kvs \<Rightarrow> set (map fst kvs) = typed_keys | _ \<Rightarrow> False) invalid_typed) (\<lambda>_.
        bindE (typed_payload value) (\<lambda>(kind, confidence, object_value, valid_from).
        bindE (as_invalid_typed (
          bindE (required (rq_content r) ''content'') (\<lambda>_.
          bindE (required (rq_scope r) ''scope'') (\<lambda>_.
          bindE (jkey (jget ''subject_key'' value)) (\<lambda>subject.
          bindE (required subject ''subject_key'') (\<lambda>_.
          bindE (jkey (jget ''predicate_key'' value)) (\<lambda>predicate.
          make_candidate \<lparr>sc_content = rq_content r, sc_subject = subject, sc_predicate = predicate,
            sc_object = object_value, sc_authority = 1/2, sc_valid_from = valid_from,
            sc_kind = ''state'', sc_scope = rq_scope r, sc_valid_to = None\<rparr>))))))) (\<lambda>n.
        let fields = \<lparr>tf_kind = kind, tf_subject = sc_subject n, tf_predicate = sc_predicate n,
              tf_object = sc_object n, tf_valid_from = sc_valid_from n, tf_confidence = confidence\<rparr> in
        if kind = ''state'' then
          (case cand of
             Some c \<Rightarrow>
               if (sc_subject c, sc_predicate c, sc_object c) = (tf_subject fields, tf_predicate fields, tf_object fields)
               then Inr (Some fields)
               else Inl (ValueError ''automatic extracted state must use its exact state slot'')
           | None \<Rightarrow> Inl (ValueError ''automatic extracted state must use its exact state slot''))
        else if cand \<noteq> None then Inl (ValueError ''only extracted state may use state-slot semantics'')
        else Inr (Some fields)))))"

section \<open>Registration, replay and the log\<close>

definition register_client :: "conn_context \<Rightarrow> string \<Rightarrow> unit dbtx" where
  "register_client ctx at_time =
     andThen (modify (\<lambda>d. if \<exists>c \<in> set (clients d). cl_id c = cx_client ctx then d
       else d\<lparr>clients := clients d @ [\<lparr>cl_id = cx_client ctx, cl_surface = cx_surface ctx,
              cl_display = cx_display ctx, cl_created_at = at_time, cl_disabled_at = None\<rparr>]\<rparr>)) (\<lambda>_.
     andThen (gets (\<lambda>d. first_where (\<lambda>c. cl_id c = cx_client ctx) (clients d))) (\<lambda>row. case row of
       None \<Rightarrow> raise (RuntimeError ''failed to register memory client'')
     | Some c \<Rightarrow>
         andThen (require (cl_surface c = cx_surface ctx)
           (ClientIdentityConflict ''client_id is already registered to a different surface'')) (\<lambda>_.
         require (cl_disabled_at c = None) (PermissionError ''memory client is disabled''))))"

definition same_session :: "conn_context \<Rightarrow> session \<Rightarrow> bool" where
  "same_session ctx s \<longleftrightarrow> se_client s = cx_client ctx \<and> se_id s = cx_session ctx"

definition register_session :: "conn_context \<Rightarrow> string \<Rightarrow> unit dbtx" where
  "register_session ctx at_time =
     andThen (modify (\<lambda>d. if \<exists>s \<in> set (sessions d). same_session ctx s then d
       else d\<lparr>sessions := sessions d @ [\<lparr>se_id = cx_session ctx, se_client = cx_client ctx,
              se_agent = cx_agent ctx, se_parent = cx_parent ctx, se_root = cx_root ctx,
              se_repo = cx_repo ctx, se_branch = cx_branch ctx, se_commit = cx_commit ctx,
              se_capabilities = cx_capabilities ctx, se_scopes = cx_scopes ctx,
              se_started_at = text_or (cx_started_at ctx) at_time\<rparr>]\<rparr>)) (\<lambda>_.
     andThen (modify (\<lambda>d. d\<lparr>sessions := update_where (same_session ctx)
       (\<lambda>s. s\<lparr>se_branch := cx_branch ctx, se_commit := cx_commit ctx\<rparr>) (sessions d)\<rparr>)) (\<lambda>_.
     andThen (gets (\<lambda>d. first_where (same_session ctx) (sessions d))) (\<lambda>row.
     require (case row of None \<Rightarrow> False | Some s \<Rightarrow>
         se_agent s = cx_agent ctx \<and> se_parent s = cx_parent ctx \<and> se_root s = cx_root ctx
         \<and> se_repo s = cx_repo ctx \<and> se_capabilities s = cx_capabilities ctx \<and> se_scopes s = cx_scopes ctx)
       (SessionContextConflict ''client_id/session_id was reused with different connection context''))))"

definition load_prior :: "string \<Rightarrow> string \<Rightarrow> db \<Rightarrow> write_log option" where
  "load_prior client key d = first_where (\<lambda>l. lg_client l = client \<and> lg_key l = key) (logs d)"

definition outcome_from_row :: "write_log \<Rightarrow> bool \<Rightarrow> write_outcome res" where
  "outcome_from_row l replayed = make_outcome
     \<lparr>oc_write_id = lg_write_id l, oc_outcome = lg_outcome l, oc_fact = lg_fact l, oc_existing = lg_existing l,
      oc_observation = lg_observation l, oc_replayed = replayed, oc_detail = lg_detail l\<rparr>"

definition insert_log :: "write_log \<Rightarrow> unit dbtx" where
  "insert_log l = (\<lambda>d.
     if \<exists>x \<in> set (logs d). lg_write_id x = lg_write_id l \<or> (lg_client x = lg_client l \<and> lg_key x = lg_key l)
     then Inl (IntegrityError ''UNIQUE constraint failed: memory_write_log'')
     else Inr ((), d\<lparr>logs := logs d @ [l]\<rparr>))"

definition next_observation :: "db \<Rightarrow> int" where
  "next_observation d = (if observations d = [] then 1 else Max (set (map ob_id (observations d))) + 1)"

definition same_observation :: "conn_context \<Rightarrow> write_request \<Rightarrow> string \<Rightarrow> observation \<Rightarrow> bool" where
  "same_observation ctx r h o1 \<longleftrightarrow> ob_client o1 = cx_client ctx \<and> ob_sha256 o1 = h
     \<and> ob_session o1 = cx_session ctx \<and> ob_source_type o1 = rq_source_type r"

definition record_observation :: "env \<Rightarrow> conn_context \<Rightarrow> write_request \<Rightarrow> string \<Rightarrow> int dbtx" where
  "record_observation env ctx r at_time =
     (let h = observation_sha256 env ctx r in
      andThen (modify (\<lambda>d. if \<exists>x \<in> set (observations d). same_observation ctx r h x then d
        else d\<lparr>observations := observations d @ [\<lparr>ob_id = next_observation d, ob_client = cx_client ctx,
               ob_session = cx_session ctx, ob_source_type = rq_source_type r, ob_source_uri = rq_source_uri r,
               ob_root = cx_root ctx, ob_repo = cx_repo ctx, ob_branch = cx_branch ctx, ob_commit = cx_commit ctx,
               ob_content = observation_text r, ob_sha256 = h, ob_asserted_by = rq_asserted_by r,
               ob_performed_by = rq_performed_by r, ob_observed_at = rq_observed_at r, ob_recorded_at = at_time,
               ob_scope = rq_scope r, ob_sensitivity = rq_sensitivity r, ob_redacted_at = None,
               ob_metadata = rq_metadata r\<rparr>]\<rparr>)) (\<lambda>_.
      andThen (gets (\<lambda>d. first_where (same_observation ctx r h) (observations d))) (\<lambda>row. case row of
        None \<Rightarrow> raise (RuntimeError ''failed to record observation'')
      | Some x \<Rightarrow> ret (ob_id x))))"

definition attach_provenance :: "int \<Rightarrow> int \<Rightarrow> write_request \<Rightarrow> string \<Rightarrow> unit dbtx" where
  "attach_provenance fact_id observation_id r at_time = modify (\<lambda>d.
     if \<exists>p \<in> set (provenances d). pv_fact p = fact_id \<and> pv_observation p = observation_id \<and> pv_relation p = rq_relation r
     then d
     else d\<lparr>provenances := provenances d @ [\<lparr>pv_fact = fact_id, pv_observation = observation_id,
            pv_relation = rq_relation r, pv_excerpt = rq_excerpt r, pv_created_at = at_time\<rparr>]\<rparr>)"

section \<open>Policy decisions\<close>

definition ENVIRONMENTAL_REJECTION_REASONS :: "string list" where
  "ENVIRONMENTAL_REJECTION_REASONS = [''requested write scope is not server-authorized'',
     ''sensitive durable write is not authorized'']"

definition factless_decision_is_durable :: "decision \<Rightarrow> bool" where
  "factless_decision_is_durable dec \<longleftrightarrow>
     pd_outcome dec = ''rejected'' \<and> pd_reason dec \<notin> set ENVIRONMENTAL_REJECTION_REASONS"

definition policy_detail :: "decision \<Rightarrow> json" where
  "policy_detail dec = JObj [(''policy_reason'', JStr (pd_reason dec))]"

definition factless_outcome :: "string \<Rightarrow> decision \<Rightarrow> write_outcome res" where
  "factless_outcome write_id dec = make_outcome
     \<lparr>oc_write_id = write_id, oc_outcome = pd_outcome dec, oc_fact = None, oc_existing = None,
      oc_observation = None, oc_replayed = False, oc_detail = policy_detail dec\<rparr>"

definition ephemeral_factless_outcome :: "env \<Rightarrow> decision \<Rightarrow> write_outcome dbtx" where
  "ephemeral_factless_outcome env dec =
     andThen (uuid4 env) (\<lambda>wid. liftE (factless_outcome wid dec))"

definition record_factless_decision ::
    "env \<Rightarrow> conn_context \<Rightarrow> write_request \<Rightarrow> string \<Rightarrow> string \<Rightarrow> decision \<Rightarrow> write_outcome dbtx" where
  "record_factless_decision env ctx r request_hash at_time dec =
     andThen (uuid4 env) (\<lambda>wid.
     andThen (insert_log \<lparr>lg_write_id = wid, lg_key = rq_key r, lg_client = cx_client ctx,
       lg_session = cx_session ctx, lg_operation = rq_operation r, lg_outcome = pd_outcome dec,
       lg_fact = None, lg_existing = None, lg_observation = None, lg_recorded_at = at_time,
       lg_sha256 = request_hash, lg_detail = policy_detail dec\<rparr>) (\<lambda>_.
     liftE (factless_outcome wid dec)))"

text \<open>\<open>target_id or request.supersede_fact_id\<close>.\<close>

definition policy_target :: "write_request \<Rightarrow> int option \<Rightarrow> int option" where
  "policy_target r target = (if truthy_id target then target else rq_supersede r)"

definition human_protected :: "fact \<Rightarrow> bool" where
  "human_protected f \<longleftrightarrow> f_correction f \<in> {Some ''human_corrected'', Some ''human_confirmed''}"

definition supersession_policy ::
    "write_request \<Rightarrow> int option \<Rightarrow> rat option \<Rightarrow> db \<Rightarrow> decision option" where
  "supersession_policy r target candidate_authority d =
     (case policy_target r target of None \<Rightarrow> None
      | Some i \<Rightarrow>
        (case first_where (\<lambda>f. f_id f = i \<and> f_scope f = rq_scope r) (facts d) of
           None \<Rightarrow> Some (needs_review ''supersession target is unavailable'')
         | Some f \<Rightarrow>
             if rq_supersede r \<noteq> None \<and> is_state f
             then Some (needs_review ''typed state requires state-slot supersession'')
             else if rq_supersede r \<noteq> None \<and> f_conflict f \<noteq> None
             then Some (needs_review ''open-conflict members cannot be explicitly superseded'')
             else if human_protected f \<and> \<not> claims_correction r
             then Some (needs_review ''target is protected by human correction'')
             else if (case candidate_authority of None \<Rightarrow> rq_authority r | Some a \<Rightarrow> a) < authority_of f
             then Some (needs_review ''target has higher source authority'')
             else None))"

definition slot_fields :: "state_candidate option \<Rightarrow> string list" where
  "slot_fields cand = (case cand of None \<Rightarrow> []
   | Some c \<Rightarrow> filter (\<lambda>v. v \<noteq> []) [sc_subject c, sc_predicate c, or_empty (sc_object c)])"

definition write_policy :: "service \<Rightarrow> conn_context \<Rightarrow> write_request \<Rightarrow> state_candidate option
    \<Rightarrow> db \<Rightarrow> decision option res" where
  "write_policy sv ctx r cand d =
     bindE (evaluate_write (sv_policy sv) r (Some (cx_client ctx)) (slot_fields cand)) (\<lambda>dec.
     Inr (case dec of Some x \<Rightarrow> Some x
      | None \<Rightarrow>
        if \<not> scope_authorized (rq_scope r) (cx_scopes ctx)
        then Some (rejected ''requested write scope is not server-authorized'')
        else if rq_sensitivity r = ''sensitive'' \<and> ''sensitive'' \<notin> set (cx_scopes ctx)
        then Some (rejected ''sensitive durable write is not authorized'')
        else supersession_policy r None None d))"

definition effective_candidate :: "write_request \<Rightarrow> state_candidate option \<Rightarrow> state_candidate option res" where
  "effective_candidate r cand = (case cand of None \<Rightarrow> Inr None
   | Some c \<Rightarrow>
       if sc_valid_from c = None \<and> truthy_text (rq_observed_at r) \<and> rq_source_type r \<noteq> ''automatic_extraction''
       then bindE (make_candidate (c\<lparr>sc_valid_from := rq_observed_at r\<rparr>)) (\<lambda>c'. Inr (Some c'))
       else Inr (Some c))"

text \<open>\<open>SELECT conflict_group ... WHERE fact_id IN (...)\<close>, the nulls dropped, as a set.\<close>

definition groups_of :: "int list \<Rightarrow> db \<Rightarrow> string list" where
  "groups_of ids d = remdups (map (\<lambda>f. the (f_conflict f))
     (filter (\<lambda>f. f_id f \<in> set ids \<and> f_conflict f \<noteq> None) (facts d)))"

text \<open>Who may settle an open conflict by writing to it.\<close>

definition adjust_conflict_decision ::
    "service \<Rightarrow> conn_context \<Rightarrow> write_request \<Rightarrow> db \<Rightarrow> slot_decision \<Rightarrow> slot_decision" where
  "adjust_conflict_decision sv ctx r d sd =
     (let can = can_resolve_conflicts (sv_policy sv) (cx_client ctx);
          sd1 = (if sd_action sd = Conflict \<and> claims_correction r \<and> can \<and> length (groups_of (sd_current sd) d) = 1
                 then sd\<lparr>sd_action := Supersede, sd_target := None,
                         sd_reason := ''explicit human correction resolves open conflict''\<rparr>
                 else sd) in
      if sd_action sd1 = Supersede \<and> sd_target sd1 = None \<and> \<not> can
      then sd1\<lparr>sd_action := Conflict, sd_reason := ''client is not authorized to resolve open conflict''\<rparr>
      else sd1)"

text \<open>The first objection to displacing one of the members of a conflict.\<close>

fun first_objection :: "write_request \<Rightarrow> rat \<Rightarrow> db \<Rightarrow> int list \<Rightarrow> decision option" where
  "first_objection r a d [] = None"
| "first_objection r a d (i # is) =
     (case supersession_policy r (Some i) (Some a) d of Some dec \<Rightarrow> Some dec | None \<Rightarrow> first_objection r a d is)"

definition slot_policy :: "write_request \<Rightarrow> state_candidate \<Rightarrow> slot_decision \<Rightarrow> db \<Rightarrow> decision option" where
  "slot_policy r c sd d =
     (let dec = (if sd_action sd = Supersede \<and> sd_target sd = None \<and> \<not> claims_correction r
                 then first_objection r (sc_authority c) d (sd_current sd) else None) in
      if dec = None \<and> sd_action sd = Supersede
      then supersession_policy r (sd_target sd) (Some (sc_authority c)) d
      else dec)"

text \<open>Everything that is decided before the store changes: a factless decision, or the slot action.\<close>

definition decide_write :: "service \<Rightarrow> conn_context \<Rightarrow> write_request \<Rightarrow> state_candidate option
    \<Rightarrow> (decision option \<times> slot_decision option \<times> state_candidate option) dbtx" where
  "decide_write sv ctx r cand = (\<lambda>d.
     bindE (write_policy sv ctx r cand d) (\<lambda>dec.
     bindE (effective_candidate r cand) (\<lambda>eff.
     case (dec, eff) of
       (None, Some c) \<Rightarrow>
         bindE (decide_state_write c d) (\<lambda>sd0.
         let sd = adjust_conflict_decision sv ctx r d sd0 in
         Inr ((slot_policy r c sd d, Some sd, Some c), d))
     | _ \<Rightarrow> Inr ((dec, None, eff), d))))"

section \<open>Untyped targets\<close>

definition find_untyped_exact_duplicate :: "write_request \<Rightarrow> db \<Rightarrow> int option" where
  "find_untyped_exact_duplicate r d = map_option f_id
     (first_where (\<lambda>f. f_scope f = rq_scope r \<and> f_content f = rq_content r \<and> active f) (by_id (facts d)))"

definition load_untyped_current_facts :: "string \<Rightarrow> db \<Rightarrow> fact list" where
  "load_untyped_current_facts scope d = by_id (filter (untyped_member scope) (facts d))"

definition contradiction_with :: "write_request \<Rightarrow> int \<Rightarrow> string \<Rightarrow> contradiction option" where
  "contradiction_with r i content =
     (if \<not> untyped_contents_contradict (rq_content r) content then None
      else case guess_untyped_conflict_slot (rq_content r) content of
          Inl _ \<Rightarrow> None
        | Inr (s, p) \<Rightarrow> Some \<lparr>ct_fact = i, ct_content = content, ct_subject = s, ct_predicate = p\<rparr>)"

text \<open>\<open>max(matches, key=...)\<close>: the first match with the greatest key.\<close>

fun max_first :: "('a \<Rightarrow> 'b :: linorder) \<Rightarrow> 'a \<Rightarrow> 'a list \<Rightarrow> 'a" where
  "max_first k x [] = x"
| "max_first k x (y # ys) = max_first k (if k x < k y then y else x) ys"

definition shared_content :: "write_request \<Rightarrow> contradiction \<Rightarrow> nat \<times> int" where
  "shared_content r m = (card (content_tokens (rq_content r) \<inter> content_tokens (ct_content m)), - ct_fact m)"

definition find_untyped_contradiction :: "write_request \<Rightarrow> db \<Rightarrow> contradiction option" where
  "find_untyped_contradiction r d =
     (case List.map_filter (\<lambda>f. if f_content f = rq_content r then None
                              else contradiction_with r (f_id f) (f_content f))
            (load_untyped_current_facts (rq_scope r) d) of
        [] \<Rightarrow> None
      | m # ms \<Rightarrow> Some (max_first (shared_content r) m ms))"

definition contradiction_from_near_duplicate ::
    "write_request \<Rightarrow> near_candidate \<Rightarrow> db \<Rightarrow> contradiction option" where
  "contradiction_from_near_duplicate r c d = (case find_fact (nd_fact c) d of
     None \<Rightarrow> None | Some f \<Rightarrow> contradiction_with r (nd_fact c) (f_content f))"

definition find_untyped_near_duplicate ::
    "service \<Rightarrow> write_request \<Rightarrow> string option \<Rightarrow> db \<Rightarrow> near_candidate option" where
  "find_untyped_near_duplicate sv r query d =
     (case query of None \<Rightarrow> None
      | Some q \<Rightarrow>
        if \<not> nc_enabled (sv_near sv) \<or> sv_embedder sv = None \<or> nc_identity (sv_near sv) = None then None
        else (case find_write_near_duplicates (sv_index sv) (rq_content r) (rq_scope r) q
                  (nc_threshold (sv_near sv)) (nc_limit (sv_near sv)) (nc_identity (sv_near sv)) d of
            Inl _ \<Rightarrow> None
          | Inr [] \<Rightarrow> None
          | Inr (c # cs) \<Rightarrow> Some (max_first (\<lambda>c. (nd_trust c, nd_created_at c, nd_fact c)) c cs)))"

definition prepare_near_dedup_query ::
    "service \<Rightarrow> conn_context \<Rightarrow> write_request \<Rightarrow> state_candidate option \<Rightarrow> db \<Rightarrow> string option res" where
  "prepare_near_dedup_query sv ctx r cand d =
     bindE (evaluate_write (sv_policy sv) r (Some (cx_client ctx)) []) (\<lambda>dec.
     if cand \<noteq> None \<or> rq_supersede r \<noteq> None \<or> dec \<noteq> None
        \<or> \<not> scope_authorized (rq_scope r) (cx_scopes ctx)
        \<or> (rq_sensitivity r = ''sensitive'' \<and> ''sensitive'' \<notin> set (cx_scopes ctx))
        \<or> supersession_policy r None None d \<noteq> None
        \<or> \<not> nc_enabled (sv_near sv) \<or> sv_embedder sv = None \<or> nc_identity (sv_near sv) = None
        \<or> load_prior (cx_client ctx) (rq_key r) d \<noteq> None
        \<or> find_untyped_exact_duplicate r d \<noteq> None
        \<or> rq_correction r = Some ''unreviewed''
     then Inr None
     else Inr (Option.bind (sv_embedder sv) (\<lambda>embed. embed (rq_content r))))"

section \<open>Mutation\<close>

definition prepare_state_mutation :: "env \<Rightarrow> slot_decision \<Rightarrow> string \<Rightarrow> string option \<Rightarrow> string option dbtx" where
  "prepare_state_mutation env sd at_time close_valid_to =
     (if sd_action sd = Supersede then
        (case sd_target sd of
           None \<Rightarrow>
             andThen (gets (groups_of (sd_current sd))) (\<lambda>groups.
             andThen (require (length groups = 1)
               (RuntimeError ''conflict resolution must target one unresolved conflict'')) (\<lambda>_.
             ret (Some (hd groups))))
         | Some target \<Rightarrow>
             andThen (update_facts (\<lambda>f. f_id f = target \<and> (f_scope f = sd_scope sd \<and> active f))
               (\<lambda>f. f\<lparr>f_invalid_at := Some at_time, f_expired_at := Some at_time,
                      f_valid_to := (case close_valid_to of None \<Rightarrow> f_valid_to f
                                     | Some v \<Rightarrow> coalesce (f_valid_to f) (Some v))\<rparr>)) (\<lambda>n.
             andThen (require (n = 1) (RuntimeError ''state supersession target is no longer current'')) (\<lambda>_.
             ret None)))
      else if sd_action sd \<noteq> Conflict then ret None
      else
        andThen (gets (groups_of (sd_current sd))) (\<lambda>groups.
        if groups \<noteq> [] then
          andThen (require (length groups = 1)
            (RuntimeError ''state slot spans multiple unresolved conflicts'')) (\<lambda>_.
          ret (Some (hd groups)))
        else
          andThen (open_state_conflict update_facts env (sd_subject sd) (sd_predicate sd) (sd_current sd)
            (sd_scope sd) (Some at_time) (Some (JObj [(''reason'', JStr (sd_reason sd))]))) (\<lambda>k.
          ret (Some (kr_id k)))))"

definition freshly_inserted :: "write_result \<Rightarrow> bool" where
  "freshly_inserted res \<longleftrightarrow> fr_existing res = None \<and> fr_outcome res \<in> {''inserted'', ''add''}"

definition persist_state_candidate ::
    "env \<Rightarrow> write_result \<Rightarrow> state_candidate \<Rightarrow> string option \<Rightarrow> rat option \<Rightarrow> unit dbtx" where
  "persist_state_candidate env res c conflict_id confidence =
     andThen (require (freshly_inserted res)
       (RuntimeError ''typed state creation requires the fact writer to insert a new fact'')) (\<lambda>_.
     andThen (update_facts (\<lambda>f. f_id f = fr_fact res \<and> current f)
       (\<lambda>f. f\<lparr>f_kind := Some ''state'', f_subject := Some (sc_subject c), f_predicate := Some (sc_predicate c),
              f_object := sc_object c, f_authority := Some (sc_authority c), f_valid_from := sc_valid_from c,
              f_scope := sc_scope c, f_conflict := conflict_id, f_confidence := confidence,
              f_valid_to := sc_valid_to c,
              f_invalid_at := (if sc_valid_to c = None then f_invalid_at f else Some (latest env))\<rparr>)) (\<lambda>n.
     require (n = 1) (RuntimeError ''fact writer returned an unusable state fact'')))"

definition persist_nonstate_extracted_typed_fields :: "write_result \<Rightarrow> typed_fields \<Rightarrow> unit dbtx" where
  "persist_nonstate_extracted_typed_fields res t =
     andThen (require (tf_kind t \<noteq> ''state'')
       (RuntimeError ''state extraction must use state-slot persistence'')) (\<lambda>_.
     andThen (require (freshly_inserted res)
       (RuntimeError ''typed extraction persistence requires a newly inserted fact'')) (\<lambda>_.
     andThen (update_facts (\<lambda>f. f_id f = fr_fact res \<and> current f)
       (\<lambda>f. f\<lparr>f_kind := Some (tf_kind t), f_subject := Some (tf_subject t), f_predicate := Some (tf_predicate t),
              f_object := tf_object t, f_confidence := Some (tf_confidence t), f_valid_from := tf_valid_from t\<rparr>)) (\<lambda>n.
     require (n = 1) (RuntimeError ''fact writer returned an unusable typed fact''))))"

definition finish_state_supersession :: "int option \<Rightarrow> int \<Rightarrow> unit dbtx" where
  "finish_state_supersession old new = (case old of
     None \<Rightarrow> raise (RuntimeError ''supersession decision has no target'')
   | Some i \<Rightarrow>
       andThen (update_facts (\<lambda>f. f_id f = i \<and> (f_invalid_at f \<noteq> None \<and> f_superseded_by f = None))
         (\<lambda>f. f\<lparr>f_superseded_by := Some new\<rparr>)) (\<lambda>n.
       require (n = 1) (RuntimeError ''could not finalize state supersession'')))"

definition open_untyped_write_conflict ::
    "env \<Rightarrow> contradiction \<Rightarrow> int \<Rightarrow> write_request \<Rightarrow> string \<Rightarrow> string dbtx" where
  "open_untyped_write_conflict env m new_id r at_time =
     andThen (open_untyped_conflict env [ct_fact m] (rq_scope r) (ct_subject m) (ct_predicate m)
       (Some at_time) (Some (JObj [(''reason'', JStr ''untyped contradiction'')]))) (\<lambda>k.
     andThen (update_facts (\<lambda>f. f_id f = new_id \<and> (f_scope f = rq_scope r \<and> active f))
       (\<lambda>f. f\<lparr>f_conflict := Some (kr_id k), f_subject := coalesce (f_subject f) (Some (ct_subject m)),
              f_predicate := coalesce (f_predicate f) (Some (ct_predicate m))\<rparr>)) (\<lambda>n.
     andThen (require (n = 1) (RuntimeError ''untyped conflict member is no longer current'')) (\<lambda>_.
     andThen (add_untyped_conflict_member (kr_id k) new_id) (\<lambda>_.
     ret (kr_id k)))))"

definition near_duplicate_candidate_is_protected :: "int \<Rightarrow> write_request \<Rightarrow> bool dbtx" where
  "near_duplicate_candidate_is_protected i r =
     andThen (gets (\<lambda>d. first_where (\<lambda>f. f_id f = i \<and> current f) (facts d))) (\<lambda>row. case row of
       None \<Rightarrow> raise (RuntimeError ''near-duplicate candidate is no longer active'')
     | Some f \<Rightarrow> ret (is_state f \<or> human_protected f
         \<or> rq_authority r < (case f_authority f of None \<Rightarrow> 0 | Some a \<Rightarrow> a)))"

definition supersede_near_duplicate :: "int \<Rightarrow> int \<Rightarrow> string \<Rightarrow> unit dbtx" where
  "supersede_near_duplicate loser survivor at_time =
     andThen (update_facts (\<lambda>f. f_id f = loser \<and> current f)
       (\<lambda>f. f\<lparr>f_invalid_at := Some at_time, f_expired_at := Some at_time, f_superseded_by := Some survivor\<rparr>)) (\<lambda>n.
     require (n = 1) (RuntimeError ''near-duplicate candidate is no longer active''))"

definition merge_near_duplicate ::
    "write_result \<Rightarrow> near_candidate \<Rightarrow> write_request \<Rightarrow> string \<Rightarrow> (write_result \<times> int option) dbtx" where
  "merge_near_duplicate inserted c r at_time =
     andThen (near_duplicate_candidate_is_protected (nd_fact c) r) (\<lambda>protected.
     if \<not> protected \<and> (nd_trust c, nd_created_at c) < (rq_trust r, at_time) then
       andThen (supersede_near_duplicate (nd_fact c) (fr_fact inserted) at_time) (\<lambda>_.
       andThen (liftE (make_result \<lparr>fr_fact = fr_fact inserted, fr_outcome = ''near_dedup'',
         fr_existing = Some (nd_fact c), fr_detail = fr_detail inserted\<rparr>)) (\<lambda>res.
       ret (res, Some (fr_fact inserted))))
     else
       andThen (supersede_near_duplicate (fr_fact inserted) (nd_fact c) at_time) (\<lambda>_.
       andThen (liftE (make_result \<lparr>fr_fact = nd_fact c, fr_outcome = ''near_dedup'',
         fr_existing = Some (nd_fact c), fr_detail = fr_detail inserted\<rparr>)) (\<lambda>res.
       ret (res, None))))"

definition supersede_if_requested :: "int option \<Rightarrow> int \<Rightarrow> string \<Rightarrow> bool dbtx" where
  "supersede_if_requested old new_id at_time = (case old of None \<Rightarrow> ret False
   | Some i \<Rightarrow>
     andThen (require (i \<noteq> new_id) (ValueError ''a fact cannot supersede itself'')) (\<lambda>_.
     andThen (gets (find_fact new_id)) (\<lambda>replacement. case replacement of
       None \<Rightarrow> raise (RuntimeError ''replacement fact is unavailable'')
     | Some h \<Rightarrow>
       andThen (gets (\<lambda>d. first_where (\<lambda>f. f_id f = i \<and> f_scope f = f_scope h) (facts d))) (\<lambda>target. case target of
         None \<Rightarrow> raise (ValueError ''superseded fact is unavailable or no longer current'')
       | Some f \<Rightarrow>
         andThen (require (\<not> (is_state f \<or> f_conflict f \<noteq> None))
           (ValueError ''typed or conflicted facts require their dedicated resolution path'')) (\<lambda>_.
         andThen (update_facts (\<lambda>f. f_id f = i \<and> (f_scope f = f_scope h \<and> current f))
           (\<lambda>f. f\<lparr>f_invalid_at := Some at_time, f_expired_at := Some at_time, f_superseded_by := Some new_id\<rparr>)) (\<lambda>n.
         andThen (require (n = 1) (ValueError ''superseded fact is unavailable or no longer current'')) (\<lambda>_.
         ret True)))))))"

definition authorize_fact_scope :: "int \<Rightarrow> string \<Rightarrow> unit dbtx" where
  "authorize_fact_scope i scope =
     andThen (gets (find_fact i)) (\<lambda>row. case row of
       None \<Rightarrow> raise (RuntimeError ''fact writer returned a missing fact'')
     | Some f \<Rightarrow> require (f_scope f = scope) (PermissionError ''fact writer persisted a different memory scope''))"

section \<open>The write\<close>

text \<open>The targets of an untyped write: exact duplicate, contradiction, near duplicate.\<close>

definition untyped_targets :: "service \<Rightarrow> write_request \<Rightarrow> state_candidate option \<Rightarrow> typed_fields option
    \<Rightarrow> string option \<Rightarrow> db \<Rightarrow> int option \<times> contradiction option \<times> near_candidate option" where
  "untyped_targets sv r cand typed query d =
     (let dup = (if cand = None then find_untyped_exact_duplicate r d else None);
          open_to = (cand = None \<and> typed = None \<and> rq_supersede r = None \<and> dup = None);
          con = (if open_to then find_untyped_contradiction r d else None);
          near = (if open_to \<and> con = None then find_untyped_near_duplicate sv r query d else None) in
      case near of
        None \<Rightarrow> (dup, con, None)
      | Some c \<Rightarrow> (case contradiction_from_near_duplicate r c d of
            None \<Rightarrow> (dup, con, Some c)
          | Some m \<Rightarrow> (dup, Some m, None)))"

text \<open>Attaching a new state fact to its slot: persist, then finish the action decided.\<close>

definition settle_state_fact :: "env \<Rightarrow> conn_context \<Rightarrow> write_request \<Rightarrow> string \<Rightarrow> state_candidate
    \<Rightarrow> slot_decision \<Rightarrow> typed_fields option \<Rightarrow> string option \<Rightarrow> write_result \<Rightarrow> write_result dbtx" where
  "settle_state_fact env ctx r at_time c sd typed conflict_id res =
     andThen (persist_state_candidate env res c conflict_id (map_option tf_confidence typed)) (\<lambda>_.
     andThen (if sd_action sd = Supersede then
         (case conflict_id of
            None \<Rightarrow> finish_state_supersession (sd_target sd) (fr_fact res)
          | Some cid \<Rightarrow>
              andThen (add_conflict_member cid (fr_fact res)) (\<lambda>_.
              andThen (resolve_state_conflict env cid (fr_fact res)
                (text_or (rq_asserted_by r) (text_or (rq_performed_by r) (cx_agent ctx))) (sd_reason sd)
                (Some at_time) (Some (cx_client ctx)) (Some (cx_session ctx)) (Some (cx_agent ctx))) (\<lambda>_. ret ())))
       else if sd_action sd = Conflict then
         (case conflict_id of
            None \<Rightarrow> raise (RuntimeError ''state conflict group was not established'')
          | Some cid \<Rightarrow> add_conflict_member cid (fr_fact res))
       else ret ()) (\<lambda>_.
     liftE (make_result \<lparr>fr_fact = fr_fact res, fr_outcome = action_name (sd_action sd),
       fr_existing = fr_existing res, fr_detail = fr_detail res\<rparr>)))"

text \<open>Inserting a new fact: the result, the conflict it joined, and the fact to embed.\<close>

definition insert_new_fact :: "service \<Rightarrow> env \<Rightarrow> conn_context \<Rightarrow> write_request \<Rightarrow> string
    \<Rightarrow> state_candidate option \<Rightarrow> slot_decision option \<Rightarrow> typed_fields option
    \<Rightarrow> contradiction option \<Rightarrow> near_candidate option \<Rightarrow> int
    \<Rightarrow> (write_result \<times> string option \<times> int option) dbtx" where
  "insert_new_fact sv env ctx r at_time eff sd typed con near obs =
     andThen (case sd of None \<Rightarrow> ret None
        | Some s \<Rightarrow> prepare_state_mutation env s at_time (Option.bind eff sc_valid_from)) (\<lambda>conflict0.
     andThen (sv_writer sv env r obs) (\<lambda>inserted.
     andThen (case near of
         Some c \<Rightarrow> merge_near_duplicate inserted c r at_time
       | None \<Rightarrow> ret (inserted, Some (fr_fact inserted))) (\<lambda>(res0, enqueue).
     andThen (case con of None \<Rightarrow> ret (res0, conflict0)
       | Some m \<Rightarrow>
           andThen (open_untyped_write_conflict env m (fr_fact res0) r at_time) (\<lambda>cid.
           andThen (liftE (make_result \<lparr>fr_fact = fr_fact res0, fr_outcome = ''conflict'',
             fr_existing = Some (ct_fact m), fr_detail = fr_detail res0\<rparr>)) (\<lambda>res.
           ret (res, Some cid)))) (\<lambda>(res1, conflict1).
     andThen (case (eff, sd) of
         (Some c, Some s) \<Rightarrow> settle_state_fact env ctx r at_time c s typed conflict1 res1
       | _ \<Rightarrow> (case typed of
             None \<Rightarrow> ret res1
           | Some t \<Rightarrow> andThen (persist_nonstate_extracted_typed_fields res1 t) (\<lambda>_. ret res1))) (\<lambda>res2.
     ret (res2, conflict1, enqueue))))))"

text \<open>The fact of this write: an existing one to add evidence to, or a new one.\<close>

definition apply_fact :: "service \<Rightarrow> env \<Rightarrow> conn_context \<Rightarrow> write_request \<Rightarrow> string
    \<Rightarrow> state_candidate option \<Rightarrow> slot_decision option \<Rightarrow> typed_fields option
    \<Rightarrow> int option \<times> contradiction option \<times> near_candidate option \<Rightarrow> int
    \<Rightarrow> (write_result \<times> string option \<times> int option) dbtx" where
  "apply_fact sv env ctx r at_time eff sd typed targets obs =
     (case targets of (dup, con, near) \<Rightarrow>
      (case (case sd of None \<Rightarrow> None
             | Some s \<Rightarrow> if sd_action s \<in> {Dedup, Conflict} then map_option (\<lambda>t. (s, t)) (sd_target s) else None) of
         Some (s, t) \<Rightarrow>
           andThen (gets (\<lambda>d. if sd_action s = Conflict then Option.bind (find_fact t d) f_conflict else None)) (\<lambda>group.
           andThen (liftE (make_result \<lparr>fr_fact = t, fr_outcome = action_name (sd_action s),
             fr_existing = Some t, fr_detail = JObj []\<rparr>)) (\<lambda>res.
           ret (res, if truthy_text group then group else None, None)))
       | None \<Rightarrow>
         (case dup of
            Some i \<Rightarrow>
              andThen (liftE (make_result \<lparr>fr_fact = i, fr_outcome = ''dedup'', fr_existing = Some i,
                fr_detail = JObj []\<rparr>)) (\<lambda>res. ret (res, None, None))
          | None \<Rightarrow> insert_new_fact sv env ctx r at_time eff sd typed con near obs)))"

definition round6 :: "rat \<Rightarrow> rat" where
  "round6 q = of_int (round (q * 1000000)) / 1000000"

text \<open>The detail of the log row, built up key by key.\<close>

definition write_detail :: "write_request \<Rightarrow> write_result \<Rightarrow> string option \<Rightarrow> bool
    \<Rightarrow> slot_decision option \<Rightarrow> contradiction option \<Rightarrow> near_candidate option \<Rightarrow> json" where
  "write_detail r res conflict_id superseded sd con near =
     (let d0 = fr_detail res;
          d1 = (case near of None \<Rightarrow> d0 | Some c \<Rightarrow> jset ''near_duplicate''
                  (JObj [(''candidate_fact_id'', JInt (nd_fact c)), (''cosine'', JFloat (round6 (nd_cosine c))),
                         (''survivor_fact_id'', JInt (fr_fact res))]) d0);
          d2 = (if superseded then jset ''superseded_fact_id'' (jint_opt (rq_supersede r)) d1 else d1) in
      canon (case sd of
        Some s \<Rightarrow>
          (let d3 = jset ''state_slot'' (JObj [(''scope'', JStr (sd_scope s)), (''subject_key'', JStr (sd_subject s)),
                      (''predicate_key'', JStr (sd_predicate s))])
                    (jset ''state_action'' (JStr (action_name (sd_action s))) d2);
               d4 = (if sd_action s = Supersede then jset ''superseded_fact_id'' (jint_opt (sd_target s)) d3 else d3) in
           case conflict_id of None \<Rightarrow> d4 | Some cid \<Rightarrow> jset ''conflict_id'' (JStr cid) d4)
      | None \<Rightarrow>
          (case (con, conflict_id) of
             (Some m, Some cid) \<Rightarrow>
               jset ''conflict_slot'' (JObj [(''scope'', JStr (rq_scope r)), (''subject_key'', JStr (ct_subject m)),
                 (''predicate_key'', JStr (ct_predicate m))])
               (jset ''member_fact_ids'' (JArr (map JInt (sort (remdups [ct_fact m, fr_fact res]))))
               (jset ''conflict_id'' (JStr cid) d2))
           | _ \<Rightarrow> d2)))"

text \<open>The admitted write: observation, fact, embedding job, provenance, log row.\<close>

definition admitted_write :: "service \<Rightarrow> env \<Rightarrow> conn_context \<Rightarrow> write_request \<Rightarrow> string
    \<Rightarrow> state_candidate option \<Rightarrow> state_candidate option \<Rightarrow> slot_decision option \<Rightarrow> typed_fields option
    \<Rightarrow> string option \<Rightarrow> write_outcome dbtx" where
  "admitted_write sv env ctx r request_hash cand eff sd typed query =
     (let at_time = now env in
      andThen (record_observation env ctx r at_time) (\<lambda>obs.
      andThen (gets (untyped_targets sv r cand typed query)) (\<lambda>targets.
      andThen (apply_fact sv env ctx r at_time eff sd typed targets obs) (\<lambda>(res, conflict_id, enqueue).
      andThen (case (enqueue, sv_enqueue sv) of
          (Some i, Some enq) \<Rightarrow> andThen (enq env i) (\<lambda>_. ret ()) | _ \<Rightarrow> ret ()) (\<lambda>_.
      andThen (authorize_fact_scope (fr_fact res) (rq_scope r)) (\<lambda>_.
      andThen (attach_provenance (fr_fact res) obs r at_time) (\<lambda>_.
      andThen (if cand = None then supersede_if_requested (rq_supersede r) (fr_fact res) at_time else ret False) (\<lambda>superseded.
      let det = write_detail r res conflict_id superseded sd (fst (snd targets)) (snd (snd targets)) in
      andThen (uuid4 env) (\<lambda>wid.
      andThen (insert_log \<lparr>lg_write_id = wid, lg_key = rq_key r, lg_client = cx_client ctx,
        lg_session = cx_session ctx, lg_operation = rq_operation r, lg_outcome = fr_outcome res,
        lg_fact = Some (fr_fact res), lg_existing = fr_existing res, lg_observation = Some obs,
        lg_recorded_at = at_time, lg_sha256 = request_hash, lg_detail = det\<rparr>) (\<lambda>_.
      liftE (make_outcome \<lparr>oc_write_id = wid, oc_outcome = fr_outcome res, oc_fact = Some (fr_fact res),
        oc_existing = fr_existing res, oc_observation = Some obs, oc_replayed = False, oc_detail = det\<rparr>)))))))))))"

text \<open>The transaction body of \<open>write\<close>, with the context already authorised.\<close>

definition write_in_transaction :: "service \<Rightarrow> env \<Rightarrow> conn_context \<Rightarrow> write_request
    \<Rightarrow> state_candidate option \<Rightarrow> typed_fields option \<Rightarrow> string option \<Rightarrow> write_outcome dbtx" where
  "write_in_transaction sv env ctx r cand typed query =
     (let request_hash = request_sha256 env ctx r cand in
      andThen (register_client ctx (now env)) (\<lambda>_.
      andThen (register_session ctx (now env)) (\<lambda>_.
      andThen (gets (load_prior (cx_client ctx) (rq_key r))) (\<lambda>prior. case prior of
        Some l \<Rightarrow>
          andThen (require (lg_sha256 l = request_hash)
            (IdempotencyConflict ''idempotency key was already used for a different request'')) (\<lambda>_.
          liftE (outcome_from_row l True))
      | None \<Rightarrow>
          andThen (decide_write sv ctx r cand) (\<lambda>(dec, sd, eff). case dec of
            Some x \<Rightarrow>
              if factless_decision_is_durable x
              then record_factless_decision env ctx r request_hash (now env) x
              else ephemeral_factless_outcome env x
          | None \<Rightarrow> admitted_write sv env ctx r request_hash cand eff sd typed query)))))"

definition write_memory :: "service \<Rightarrow> env \<Rightarrow> conn_context \<Rightarrow> write_request \<Rightarrow> state_candidate option
    \<Rightarrow> write_outcome dbtx" where
  "write_memory sv env ctx r cand =
     andThen (liftE (authorize_context (sv_policy sv) (sv_legacy sv) ctx)) (\<lambda>ctx.
     andThen (liftE (validate_state_candidate r cand)) (\<lambda>_.
     andThen (liftE (extracted_typed_fields r cand)) (\<lambda>typed.
     andThen (gets (prepare_near_dedup_query sv ctx r cand)) (\<lambda>q.
     andThen (liftE q) (\<lambda>query.
     write_in_transaction sv env ctx r cand typed query)))))"

subsection \<open>Batches\<close>

record batch_outcome =
  bo_outcomes :: "write_outcome list"
  bo_committed :: bool

text \<open>
  The loop of \<open>write_batch\<close>: the outcomes so far, and whether the batch was abandoned.  Each
  write authorises the context again; its environment is the one of its own call.
\<close>

fun batch_loop :: "service \<Rightarrow> (nat \<Rightarrow> env) \<Rightarrow> conn_context \<Rightarrow> (write_outcome \<Rightarrow> bool) \<Rightarrow> nat
    \<Rightarrow> write_outcome list \<Rightarrow> (write_request \<times> state_candidate option \<times> string option) list
    \<Rightarrow> (write_outcome list \<times> bool) dbtx" where
  "batch_loop sv envs ctx rollback_if n acc [] = ret (acc, False)"
| "batch_loop sv envs ctx rollback_if n acc ((r, cand, query) # rest) =
     andThen (liftE (authorize_context (sv_policy sv) (sv_legacy sv) ctx)) (\<lambda>ctx'.
     andThen (liftE (validate_state_candidate r cand)) (\<lambda>_.
     andThen (liftE (extracted_typed_fields r cand)) (\<lambda>typed.
     andThen (write_in_transaction sv (envs n) ctx' r cand typed query) (\<lambda>out.
     if rollback_if out then ret (acc @ [out], True)
     else batch_loop sv envs ctx rollback_if (Suc n) (acc @ [out]) rest))))"

text \<open>An abandoned batch returns its outcomes with the store it started from.\<close>

definition write_batch :: "service \<Rightarrow> (nat \<Rightarrow> env) \<Rightarrow> conn_context
    \<Rightarrow> (write_request \<times> state_candidate option) list \<Rightarrow> (write_outcome \<Rightarrow> bool) \<Rightarrow> unit dbtx \<Rightarrow> batch_outcome dbtx" where
  "write_batch sv envs ctx writes rollback_if before_commit = (\<lambda>d.
     bindE (checkE (writes \<noteq> []) (ValueError ''writes must not be empty'')) (\<lambda>_.
     bindE (authorize_context (sv_policy sv) (sv_legacy sv) ctx) (\<lambda>ctx.
     bindE (mapE (\<lambda>(r, cand). bindE (prepare_near_dedup_query sv ctx r cand d) (\<lambda>q. Inr (r, cand, q))) writes) (\<lambda>items.
     case batch_loop sv envs ctx rollback_if 0 [] items d of
       Inl e \<Rightarrow> Inl e
     | Inr ((outs, abandoned), d') \<Rightarrow>
         if abandoned then Inr (\<lparr>bo_outcomes = outs, bo_committed = False\<rparr>, d)
         else andThen before_commit (\<lambda>_. ret \<lparr>bo_outcomes = outs, bo_committed = True\<rparr>) d'))))"

section \<open>The service's fact writer\<close>

text \<open>\<^verbatim>\<open>enfold/service.py\<close>, \<open>_fact_writer\<close>.\<close>

definition fact_writer :: "env \<Rightarrow> write_request \<Rightarrow> int \<Rightarrow> write_result dbtx" where
  "fact_writer env r observation_id =
     andThen (insert_fact env (rq_content r) (default_fields\<lparr>ff_category := rq_category r, ff_tags := rq_tags r,
       ff_trust := rq_trust r, ff_authority := Some (rq_authority r), ff_scope := rq_scope r,
       ff_sensitivity := rq_sensitivity r\<rparr>)) (\<lambda>i.
     andThen (if rq_correction r = None then ret 0
       else update_facts (\<lambda>f. f_id f = i) (\<lambda>f. f\<lparr>f_correction := rq_correction r\<rparr>)) (\<lambda>_.
     liftE (make_result \<lparr>fr_fact = i, fr_outcome = ''inserted'', fr_existing = None, fr_detail = JObj []\<rparr>)))"

end
