(* ===== verification/EmbeddingJobs.thy ===== *)
theory EmbeddingJobs
  imports StoreInv
begin

text \<open>
  \<^verbatim>\<open>enfold/embedding_jobs.py\<close>: the durable outbox of embedding jobs and its leased processor.
  The stamps of the job table have one fixed-width UTC format and are compared as text, which
  is the order of the instants they denote: they are instants here.  Status values are the
  strings the table's \<open>CHECK\<close> admits.
\<close>

section \<open>The specification of an embedding\<close>

record embedding_spec =
  es_identity :: string
  es_version :: string
  es_dimensions :: int
  es_fingerprint :: string
  es_policy :: string
  es_query_prefix :: string
  es_document_prefix :: string

text \<open>\<open>str.count\<close>: occurrences that do not overlap, from the left.\<close>

function count_sub :: "string \<Rightarrow> string \<Rightarrow> nat" where
  "count_sub w [] = 0"
| "count_sub w (c # cs) =
     (if w \<noteq> [] \<and> prefix w (c # cs) then Suc (count_sub w (drop (length w) (c # cs))) else count_sub w cs)"
  by pat_completeness auto
termination by (relation "measure (\<lambda>(w, s). length s)") auto

definition make_spec :: "env \<Rightarrow> embedding_spec \<Rightarrow> embedding_spec res" where
  "make_spec env s =
     bindE (checkE (count_sub '':document:'' (es_identity s) = 1)
       (ValueError ''document identity must contain one document role'')) (\<lambda>_.
     bindE (checkE (strip (es_version s) \<noteq> [] \<and> suffix ('':'' @ es_version s) (es_identity s))
       (ValueError ''embedding version must be the final identity component'')) (\<lambda>_.
     bindE (checkE (1 \<le> es_dimensions s) (ValueError ''embedding dimensions must be positive'')) (\<lambda>_.
     bindE (checkE (es_fingerprint s = es_version s)
       (ValueError ''model fingerprint must equal the identity version component'')) (\<lambda>_.
     bindE (if es_policy s = ''none'' then
              checkE (es_query_prefix s = [] \<and> es_document_prefix s = [])
                (ValueError ''none prefix policy requires empty query/document prefixes'')
            else if prefix ''sha256-'' (es_policy s) then
              checkE (es_policy s = ''sha256-'' @ sha256 env (es_query_prefix s @ [CHR 0x00] @ es_document_prefix s))
                (ValueError ''document prefix does not match its fingerprint policy'')
            else Inl (ValueError ''prefix policy must be none or sha256-<full digest>'')) (\<lambda>_.
     bindE (checkE (0 < count_sub ('':document:'' @ es_policy s @ '':'' @ es_version s) (es_identity s))
       (ValueError ''document identity is not bound to prefix policy/version'')) (\<lambda>_. Inr s))))))"

record claimed_job =
  cj_job :: int
  cj_fact :: int
  cj_sha256 :: string
  cj_attempts :: int
  cj_token :: string

section \<open>The outbox\<close>

definition next_job :: "db \<Rightarrow> int" where
  "next_job d = (if jobs d = [] then 1 else Max (set (map ej_id (jobs d))) + 1)"

definition has_embedding :: "embedding_spec \<Rightarrow> int \<Rightarrow> db \<Rightarrow> bool" where
  "has_embedding s i d \<longleftrightarrow> (\<exists>e \<in> set (embeddings d).
     em_fact e = i \<and> em_identity e = es_identity s \<and> em_dim e = es_dimensions s)"

definition job_of :: "embedding_spec \<Rightarrow> int \<Rightarrow> embedding_job \<Rightarrow> bool" where
  "job_of s i j \<longleftrightarrow> ej_fact j = i \<and> ej_identity j = es_identity s"

definition fresh_job :: "embedding_spec \<Rightarrow> int \<Rightarrow> int \<Rightarrow> string \<Rightarrow> int \<Rightarrow> embedding_job" where
  "fresh_job s t i digest job_id =
     \<lparr>ej_id = job_id, ej_fact = i, ej_identity = es_identity s, ej_version = es_version s,
      ej_dimensions = es_dimensions s, ej_sha256 = digest, ej_status = ''pending'', ej_attempts = 0,
      ej_available_at = t, ej_token = None, ej_owner = None, ej_expires_at = None, ej_error = None,
      ej_created_at = t, ej_updated_at = t, ej_completed_at = None\<rparr>"

definition reset_job :: "embedding_spec \<Rightarrow> int \<Rightarrow> string \<Rightarrow> embedding_job \<Rightarrow> embedding_job" where
  "reset_job s t digest j = j\<lparr>ej_sha256 := digest, ej_version := es_version s, ej_dimensions := es_dimensions s,
     ej_status := ''pending'', ej_attempts := 0, ej_available_at := t, ej_token := None, ej_owner := None,
     ej_expires_at := None, ej_error := None, ej_completed_at := None, ej_updated_at := t\<rparr>"

text \<open>\<open>INSERT ... ON CONFLICT(fact_id, document_identity) DO UPDATE ... WHERE\<close>.\<close>

definition upsert_job :: "embedding_spec \<Rightarrow> int \<Rightarrow> int \<Rightarrow> string \<Rightarrow> (embedding_job \<Rightarrow> bool) \<Rightarrow> db \<Rightarrow> db" where
  "upsert_job s t i digest renew d =
     (if \<exists>j \<in> set (jobs d). job_of s i j
      then d\<lparr>jobs := update_where (\<lambda>j. job_of s i j \<and> renew j) (reset_job s t digest) (jobs d)\<rparr>
      else d\<lparr>jobs := jobs d @ [fresh_job s t i digest (next_job d)]\<rparr>)"

definition enqueue_in_transaction :: "embedding_spec \<Rightarrow> env \<Rightarrow> int \<Rightarrow> int dbtx" where
  "enqueue_in_transaction s env i =
     andThen (gets (find_fact i)) (\<lambda>row. case row of
       None \<Rightarrow> raise (RuntimeError ''cannot enqueue an embedding for a missing fact'')
     | Some f \<Rightarrow>
         andThen (modify (\<lambda>d. upsert_job s (tick env) i (sha256 env (f_content f))
           (\<lambda>j. ej_status j = ''completed'' \<and> \<not> has_embedding s i d) d)) (\<lambda>_.
         andThen (gets (\<lambda>d. first_where (job_of s i) (jobs d))) (\<lambda>job. case job of
           None \<Rightarrow> raise (TypeError ''NoneType object is not subscriptable'')
         | Some j \<Rightarrow> ret (ej_id j))))"

text \<open>One row of the backfill: whether it changed anything.\<close>

definition backfill_fact :: "embedding_spec \<Rightarrow> env \<Rightarrow> nat \<Rightarrow> fact \<Rightarrow> nat dbtx" where
  "backfill_fact s env n f = (\<lambda>d.
     let i = f_id f;
         changed = (\<forall>j \<in> set (jobs d). \<not> job_of s i j) \<or> (\<exists>j \<in> set (jobs d). job_of s i j \<and> ej_status j = ''completed'') in
     Inr (if changed then Suc n else n,
       upsert_job s (tick env) i (sha256 env (f_content f)) (\<lambda>j. ej_status j = ''completed'') d))"

definition enqueue_backfill :: "embedding_spec \<Rightarrow> env \<Rightarrow> nat dbtx" where
  "enqueue_backfill s env =
     andThen (gets (\<lambda>d. by_id (filter (\<lambda>f. active f \<and> \<not> has_embedding s (f_id f) d) (facts d)))) (\<lambda>rows.
     foldTx (backfill_fact s env) 0 rows)"

record outbox_health =
  oh_pending :: nat
  oh_processing :: nat
  oh_completed :: nat
  oh_dead_letter :: nat
  oh_uncovered :: nat
  oh_activation_safe :: bool
  oh_oldest_age :: "int option"

definition status_count :: "embedding_spec \<Rightarrow> string \<Rightarrow> db \<Rightarrow> nat" where
  "status_count s st d = count_where (\<lambda>j. ej_identity j = es_identity s \<and> ej_status j = st) (jobs d)"

definition open_job :: "embedding_job \<Rightarrow> bool" where
  "open_job j \<longleftrightarrow> ej_status j \<in> {''pending'', ''processing''}"

definition covered :: "embedding_spec \<Rightarrow> db \<Rightarrow> fact \<Rightarrow> bool" where
  "covered s d f \<longleftrightarrow> has_embedding s (f_id f) d
     \<or> (\<exists>j \<in> set (jobs d). job_of s (f_id f) j \<and> ej_version j = es_version s
          \<and> ej_dimensions j = es_dimensions s \<and> open_job j)"

definition health :: "embedding_spec \<Rightarrow> int \<Rightarrow> db \<Rightarrow> outbox_health" where
  "health s t d =
     (let uncovered = count_where (\<lambda>f. active f \<and> \<not> covered s d f) (facts d);
          created = map ej_created_at (filter (\<lambda>j. ej_identity j = es_identity s \<and> open_job j) (jobs d)) in
      \<lparr>oh_pending = status_count s ''pending'' d, oh_processing = status_count s ''processing'' d,
       oh_completed = status_count s ''completed'' d, oh_dead_letter = status_count s ''dead_letter'' d,
       oh_uncovered = uncovered, oh_activation_safe = (uncovered = 0 \<and> status_count s ''dead_letter'' d = 0),
       oh_oldest_age = (if created = [] then None else Some (max 0 (t - Min (set created))))\<rparr>)"

section \<open>The processor\<close>

record processor =
  pr_spec :: embedding_spec
  pr_worker :: string
  pr_lease :: int
  pr_max_attempts :: int

definition make_processor :: "processor \<Rightarrow> processor res" where
  "make_processor p =
     bindE (checkE (strip (pr_worker p) \<noteq> [] \<and> 1 \<le> pr_lease p \<and> 1 \<le> pr_max_attempts p)
       (ValueError ''worker id, lease, and max attempts must be valid'')) (\<lambda>_. Inr p)"

text \<open>Seconds in the unit of the stamps.\<close>

definition seconds :: "int \<Rightarrow> int" where
  "seconds n = n * 1000000"

definition in_spec :: "embedding_spec \<Rightarrow> embedding_job \<Rightarrow> bool" where
  "in_spec s j \<longleftrightarrow> ej_identity j = es_identity s \<and> ej_version j = es_version s \<and> ej_dimensions j = es_dimensions s"

definition expired :: "int \<Rightarrow> embedding_job \<Rightarrow> bool" where
  "expired t j \<longleftrightarrow> (case ej_expires_at j of None \<Rightarrow> False | Some e \<Rightarrow> e \<le> t)"

definition exhausted :: "processor \<Rightarrow> int \<Rightarrow> embedding_job \<Rightarrow> bool" where
  "exhausted p t j \<longleftrightarrow> in_spec (pr_spec p) j \<and> pr_max_attempts p \<le> ej_attempts j
     \<and> (ej_status j = ''pending''
        \<or> (ej_status j = ''processing'' \<and> (ej_expires_at j = None \<or> expired t j)))"

definition bury :: "int \<Rightarrow> embedding_job \<Rightarrow> embedding_job" where
  "bury t j = j\<lparr>ej_status := ''dead_letter'', ej_token := None, ej_owner := None, ej_expires_at := None,
     ej_error := Some ''attempts_exhausted'', ej_updated_at := t\<rparr>"

definition due :: "processor \<Rightarrow> int \<Rightarrow> embedding_job \<Rightarrow> bool" where
  "due p t j \<longleftrightarrow> in_spec (pr_spec p) j \<and> ej_attempts j < pr_max_attempts p
     \<and> ((ej_status j = ''pending'' \<and> ej_available_at j \<le> t) \<or> (ej_status j = ''processing'' \<and> expired t j))"

definition claim :: "processor \<Rightarrow> env \<Rightarrow> int \<Rightarrow> claimed_job option dbtx" where
  "claim p env t =
     andThen (uuid4 env) (\<lambda>token.
     andThen (modify (\<lambda>d. d\<lparr>jobs := update_where (exhausted p t) (bury t) (jobs d)\<rparr>)) (\<lambda>_.
     andThen (gets (\<lambda>d. first_where (due p t) (sort_key ej_id (jobs d)))) (\<lambda>row. case row of
       None \<Rightarrow> ret None
     | Some j \<Rightarrow>
         andThen (modify (\<lambda>d. d\<lparr>jobs := update_where (\<lambda>x. ej_id x = ej_id j)
           (\<lambda>x. x\<lparr>ej_status := ''processing'', ej_attempts := ej_attempts j + 1, ej_token := Some token,
                  ej_owner := Some (pr_worker p), ej_expires_at := Some (t + seconds (pr_lease p)),
                  ej_updated_at := t\<rparr>) (jobs d)\<rparr>)) (\<lambda>_.
         ret (Some \<lparr>cj_job = ej_id j, cj_fact = ej_fact j, cj_sha256 = ej_sha256 j,
                   cj_attempts = ej_attempts j + 1, cj_token = token\<rparr>)))))"

definition holds_lease :: "claimed_job \<Rightarrow> embedding_job \<Rightarrow> bool" where
  "holds_lease c j \<longleftrightarrow> ej_id j = cj_job c \<and> (ej_status j = ''processing'' \<and> ej_token j = Some (cj_token c))"

text \<open>\<open>UPDATE embedding_jobs ... WHERE job_id = ? AND status = 'processing' AND lease_token = ?\<close>.\<close>

definition update_leased :: "claimed_job \<Rightarrow> (embedding_job \<Rightarrow> embedding_job) \<Rightarrow> string \<Rightarrow> unit dbtx" where
  "update_leased c g why =
     andThen (gets (\<lambda>d. count_where (holds_lease c) (jobs d))) (\<lambda>n.
     andThen (modify (\<lambda>d. d\<lparr>jobs := update_where (holds_lease c) g (jobs d)\<rparr>)) (\<lambda>_.
     require (n = 1) (RuntimeError why)))"

definition release :: "string \<Rightarrow> int \<Rightarrow> embedding_job \<Rightarrow> embedding_job" where
  "release st t j = j\<lparr>ej_status := st, ej_token := None, ej_owner := None, ej_expires_at := None, ej_updated_at := t\<rparr>"

definition requeue_job :: "string \<Rightarrow> int \<Rightarrow> embedding_job \<Rightarrow> embedding_job" where
  "requeue_job digest t j = (release ''pending'' t j)\<lparr>ej_sha256 := digest, ej_available_at := t\<rparr>"

definition finish_job :: "string option \<Rightarrow> int \<Rightarrow> embedding_job \<Rightarrow> embedding_job" where
  "finish_job err t j = (release ''completed'' t j)\<lparr>ej_error := err, ej_completed_at := Some t\<rparr>"

definition settle_inactive :: "claimed_job \<Rightarrow> env \<Rightarrow> string dbtx" where
  "settle_inactive c env =
     andThen (gets (find_fact (cj_fact c))) (\<lambda>row. case row of
       Some f \<Rightarrow>
         if active f then
           andThen (update_leased c (requeue_job (sha256 env (f_content f)) (tick env))
             ''embedding job lease was lost while settling'') (\<lambda>_. ret ''requeued_active'')
         else
           andThen (update_leased c (finish_job (Some ''skipped_inactive'') (tick env))
             ''embedding job lease was lost while settling'') (\<lambda>_. ret ''skipped_inactive'')
     | None \<Rightarrow>
         andThen (update_leased c (finish_job (Some ''skipped_inactive'') (tick env))
           ''embedding job lease was lost while settling'') (\<lambda>_. ret ''skipped_inactive''))"

definition upsert_embedding :: "embedding_spec \<Rightarrow> int \<Rightarrow> string \<Rightarrow> db \<Rightarrow> db" where
  "upsert_embedding s i vector d =
     (if \<exists>e \<in> set (embeddings d). em_fact e = i \<and> em_identity e = es_identity s
      then d\<lparr>embeddings := update_where (\<lambda>e. em_fact e = i \<and> em_identity e = es_identity s)
             (\<lambda>e. e\<lparr>em_vector := vector, em_dim := es_dimensions s\<rparr>) (embeddings d)\<rparr>
      else d\<lparr>embeddings := embeddings d @ [\<lparr>em_fact = i, em_identity = es_identity s,
             em_dim = es_dimensions s, em_vector = vector\<rparr>]\<rparr>)"

definition by_job :: "claimed_job \<Rightarrow> embedding_job \<Rightarrow> bool" where
  "by_job c j \<longleftrightarrow> ej_id j = cj_job c"

definition commit_prepared :: "processor \<Rightarrow> claimed_job \<Rightarrow> env \<Rightarrow> string \<Rightarrow> string \<Rightarrow> string dbtx" where
  "commit_prepared p c env expected_hash vector =
     andThen (gets (\<lambda>d. list_ex (\<lambda>j. holds_lease c j \<and> in_spec (pr_spec p) j) (jobs d))) (\<lambda>leased.
     andThen (require leased (RuntimeError ''embedding job lease was lost after model call'')) (\<lambda>_.
     andThen (gets (find_fact (cj_fact c))) (\<lambda>row.
     case (case row of None \<Rightarrow> None | Some f \<Rightarrow> if active f then Some f else None) of
       None \<Rightarrow>
         andThen (modify (\<lambda>d. d\<lparr>jobs := update_where (by_job c) (finish_job (Some ''skipped_stale'') (tick env)) (jobs d)\<rparr>)) (\<lambda>_.
         ret ''skipped_stale'')
     | Some f \<Rightarrow>
         let actual = sha256 env (f_content f) in
         if actual \<noteq> expected_hash then
           andThen (modify (\<lambda>d. d\<lparr>jobs := update_where (by_job c) (requeue_job actual (tick env)) (jobs d)\<rparr>)) (\<lambda>_.
           ret ''requeued_changed'')
         else
           andThen (modify (upsert_embedding (pr_spec p) (cj_fact c) vector)) (\<lambda>_.
           andThen (modify (\<lambda>d. d\<lparr>jobs := update_where (by_job c)
             (\<lambda>j. (finish_job None (tick env) j)\<lparr>ej_sha256 := actual\<rparr>) (jobs d)\<rparr>)) (\<lambda>_.
           ret ''embedded'')))))"

definition fail_job :: "processor \<Rightarrow> claimed_job \<Rightarrow> string \<Rightarrow> int \<Rightarrow> string dbtx" where
  "fail_job p c error_type t =
     (let st = (if pr_max_attempts p \<le> cj_attempts c then ''dead_letter'' else ''pending'');
          delay = min 300 (2 ^ nat (cj_attempts c)) in
      andThen (update_leased c (\<lambda>j. (release st t j)\<lparr>ej_available_at := t + seconds delay, ej_error := Some error_type\<rparr>)
        ''embedding job lease was lost before failure handling'') (\<lambda>_. ret st))"

text \<open>
  One job from claim to outcome on one thread.  The embedder is the model call: a vector, or the
  name of the exception it raised.
\<close>

definition process_one :: "processor \<Rightarrow> env \<Rightarrow> int \<Rightarrow> (string \<Rightarrow> string + string) \<Rightarrow> (int \<times> int \<times> string) option dbtx" where
  "process_one p env t model =
     andThen (claim p env t) (\<lambda>job. case job of None \<Rightarrow> ret None
     | Some c \<Rightarrow>
         andThen (gets (find_fact (cj_fact c))) (\<lambda>row.
         andThen (case row of
             None \<Rightarrow> settle_inactive c env
           | Some f \<Rightarrow>
               if \<not> active f then settle_inactive c env
               else (case model (es_document_prefix (pr_spec p) @ f_content f) of
                   Inl exc \<Rightarrow> fail_job p c exc t
                 | Inr vector \<Rightarrow> commit_prepared p c env (sha256 env (f_content f)) vector)) (\<lambda>out.
         ret (Some (cj_job c, cj_fact c, out)))))"

end
