(* ===== verification/Lease.thy ===== *)
theory Lease
  imports Main
begin

text \<open>
  The contract shared by the program's two durable queues: work is claimed under a lease,
  the claim returns a handle, and only the holder of a live handle may settle the work.
\<close>

section \<open>Fenced leases\<close>

text \<open>
  \<open>step\<close> is anything that may happen to the store, \<open>issued\<close> says a handle has been given out,
  \<open>holds\<close> that it is the live one, and \<open>settles\<close> that its holder finished, failed or returned
  the work.
\<close>

locale fenced_leases =
  fixes step :: "'s \<Rightarrow> 's \<Rightarrow> bool"
    and issued :: "'c \<Rightarrow> 's \<Rightarrow> bool"
    and holds :: "'c \<Rightarrow> 's \<Rightarrow> bool"
    and settles :: "'c \<Rightarrow> 's \<Rightarrow> 's \<Rightarrow> bool"
  assumes issued_stable: "issued c s \<Longrightarrow> step s s' \<Longrightarrow> issued c s'"
    and no_regain: "issued c s \<Longrightarrow> \<not> holds c s \<Longrightarrow> step s s' \<Longrightarrow> \<not> holds c s'"
    and settles_step: "settles c s s' \<Longrightarrow> step s s'"
    and settles_holds: "settles c s s' \<Longrightarrow> holds c s"
    and settles_drops: "settles c s s' \<Longrightarrow> \<not> holds c s'"
begin

lemma issued_forever: "step\<^sup>*\<^sup>* s s' \<Longrightarrow> issued c s \<Longrightarrow> issued c s'"
  by (induction rule: rtranclp_induct) (auto intro: issued_stable)

lemma lost_forever: "step\<^sup>*\<^sup>* s s' \<Longrightarrow> issued c s \<Longrightarrow> \<not> holds c s \<Longrightarrow> \<not> holds c s'"
proof (induction rule: rtranclp_induct)
  case (step s1 s2)
  then show ?case using issued_forever no_regain by blast
qed

lemma settled_once:
  assumes "issued c s" "settles c s s1" "step\<^sup>*\<^sup>* s1 s2"
  shows "\<not> settles c s2 s3"
proof -
  have "issued c s1" using assms(1,2) settles_step issued_stable by blast
  moreover have "\<not> holds c s1" using assms(2) by (rule settles_drops)
  ultimately have "\<not> holds c s2" using lost_forever assms(3) by blast
  then show ?thesis using settles_holds by blast
qed

lemma superseded_never_settles:
  assumes "issued c s" "\<not> holds c s" "step\<^sup>*\<^sup>* s s1"
  shows "\<not> settles c s1 s2"
  using lost_forever [OF assms(3,1,2)] settles_holds by blast

end

end
