(* ===== verification/EmbeddingFacts.thy ===== *)
theory EmbeddingFacts
  imports EmbeddingJobs Lease
begin

text \<open>
  The outbox as a state machine: every operation of \<open>EmbeddingJobs\<close>, and anything else the
  program does to the rest of the store, is a step.  The invariant of the job table, the fence
  around a lease, the freshness of what is stored, and the fate of a job that keeps failing.
\<close>

section \<open>Steps\<close>

inductive job_step :: "processor \<Rightarrow> (nat \<Rightarrow> string) \<Rightarrow> db \<Rightarrow> db \<Rightarrow> bool" for p u where
  enqueue: "uuid env = u \<Longrightarrow> enqueue_in_transaction (pr_spec p) env i d = Inr (r, d') \<Longrightarrow> job_step p u d d'"
| backfill: "uuid env = u \<Longrightarrow> enqueue_backfill (pr_spec p) env d = Inr (n, d') \<Longrightarrow> job_step p u d d'"
| claimed: "uuid env = u \<Longrightarrow> claim (p\<lparr>pr_worker := w\<rparr>) env t d = Inr (job, d') \<Longrightarrow> job_step p u d d'"
| settled: "uuid env = u \<Longrightarrow> settle_inactive c env d = Inr (out, d') \<Longrightarrow> job_step p u d d'"
| committed: "uuid env = u \<Longrightarrow> commit_prepared p c env h v d = Inr (out, d') \<Longrightarrow> job_step p u d d'"
| failed: "fail_job p c e t d = Inr (out, d') \<Longrightarrow> job_step p u d d'"
| elsewhere: "jobs d' = jobs d \<Longrightarrow> uuid_ctr d \<le> uuid_ctr d' \<Longrightarrow> job_step p u d d'"

text \<open>What any of them does to the job table.\<close>

inductive jobs_change :: "processor \<Rightarrow> (nat \<Rightarrow> string) \<Rightarrow> db \<Rightarrow> db \<Rightarrow> bool" for p u where
  same: "jobs d' = jobs d \<Longrightarrow> uuid_ctr d \<le> uuid_ctr d' \<Longrightarrow> jobs_change p u d d'"
| fresh: "jobs d' = jobs d @ [fresh_job s t i h (next_job d)] \<Longrightarrow> \<forall>j \<in> set (jobs d). \<not> job_of s i j
    \<Longrightarrow> uuid_ctr d \<le> uuid_ctr d' \<Longrightarrow> jobs_change p u d d'"
| release: "jobs d' = update_where q g (jobs d) \<Longrightarrow> uuid_ctr d \<le> uuid_ctr d'
    \<Longrightarrow> (\<And>j. ej_id (g j) = ej_id j \<and> ej_fact (g j) = ej_fact j \<and> ej_identity (g j) = ej_identity j
          \<and> ej_status (g j) \<noteq> ''processing'' \<and> ej_token (g j) = None
          \<and> ej_attempts (g j) \<in> {0, ej_attempts j})
    \<Longrightarrow> jobs_change p u d d'"
| lease: "jobs d' = update_where (\<lambda>x. ej_id x = ej_id j) g (jobs d) \<Longrightarrow> uuid_ctr d < uuid_ctr d'
    \<Longrightarrow> j \<in> set (jobs d) \<Longrightarrow> ej_attempts j < pr_max_attempts p
    \<Longrightarrow> (\<And>x. ej_id (g x) = ej_id x \<and> ej_fact (g x) = ej_fact x \<and> ej_identity (g x) = ej_identity x
          \<and> ej_status (g x) = ''processing'' \<and> ej_token (g x) = Some (u (uuid_ctr d))
          \<and> ej_attempts (g x) = ej_attempts j + 1)
    \<Longrightarrow> jobs_change p u d d'"

lemma update_leased_Inr:
  "update_leased c g why d = Inr (r, d') \<longleftrightarrow>
     d' = d\<lparr>jobs := update_where (holds_lease c) g (jobs d)\<rparr> \<and> count_where (holds_lease c) (jobs d) = 1"
  by (auto simp: update_leased_def andThen_Inr_iff)

lemma released_fields [simp]:
  "ej_id (release st t j) = ej_id j" "ej_fact (release st t j) = ej_fact j"
  "ej_identity (release st t j) = ej_identity j" "ej_status (release st t j) = st"
  "ej_token (release st t j) = None" "ej_attempts (release st t j) = ej_attempts j"
  by (simp_all add: release_def)

lemma upsert_job_change: "jobs_change p u d (upsert_job s t i h renew d)"
proof (cases "\<exists>j \<in> set (jobs d). job_of s i j")
  case True
  then show ?thesis
    by (intro jobs_change.release [where q = "\<lambda>j. job_of s i j \<and> renew j" and g = "reset_job s t h"])
      (simp_all add: upsert_job_def reset_job_def)
next
  case False
  then show ?thesis by (intro jobs_change.fresh) (auto simp: upsert_job_def)
qed

lemma backfill_steps:
  "foldTx (backfill_fact s env) n fs d = Inr (r, d') \<Longrightarrow> (jobs_change p u)\<^sup>*\<^sup>* d d'"
proof (induction fs arbitrary: n d)
  case (Cons f fs)
  let ?d = "upsert_job s (tick env) (f_id f) (sha256 env (f_content f)) (\<lambda>j. ej_status j = ''completed'') d"
  from Cons.prems obtain n' d1 where run: "backfill_fact s env n f d = Inr (n', d1)"
      "foldTx (backfill_fact s env) n' fs d1 = Inr (r, d')"
    by (auto simp only: andThen_Inr_iff foldTx.simps)
  from run(1) have "d1 = ?d" by (simp add: backfill_fact_def Let_def)
  with run(2) have "foldTx (backfill_fact s env) n' fs ?d = Inr (r, d')" by simp
  then have "(jobs_change p u)\<^sup>*\<^sup>* ?d d'" by (rule Cons.IH)
  with upsert_job_change show ?case by (metis converse_rtranclp_into_rtranclp)
qed simp

lemma claim_Inr:
  assumes "claim p env t d = Inr (job, d')"
  obtains "job = None" "d' = d\<lparr>uuid_ctr := Suc (uuid_ctr d), jobs := update_where (exhausted p t) (bury t) (jobs d)\<rparr>"
      "\<forall>j \<in> set (jobs d'). \<not> due p t j"
  | j where "first_where (due p t) (sort_key ej_id (update_where (exhausted p t) (bury t) (jobs d))) = Some j"
      "job = Some \<lparr>cj_job = ej_id j, cj_fact = ej_fact j, cj_sha256 = ej_sha256 j,
                   cj_attempts = ej_attempts j + 1, cj_token = uuid env (uuid_ctr d)\<rparr>"
      "d' = d\<lparr>uuid_ctr := Suc (uuid_ctr d), jobs := update_where (\<lambda>x. ej_id x = ej_id j)
           (\<lambda>x. x\<lparr>ej_status := ''processing'', ej_attempts := ej_attempts j + 1,
                  ej_token := Some (uuid env (uuid_ctr d)),
                  ej_owner := Some (pr_worker p), ej_expires_at := Some (t + seconds (pr_lease p)),
                  ej_updated_at := t\<rparr>) (update_where (exhausted p t) (bury t) (jobs d))\<rparr>"
proof (cases "first_where (due p t) (sort_key ej_id (update_where (exhausted p t) (bury t) (jobs d)))")
  case None
  with assms show thesis
    by (intro that(1)) (auto simp: claim_def andThen_Inr_iff uuid4_def first_where_None)
next
  case (Some j)
  with assms show thesis
    by (intro that(2) [of j]) (auto simp: claim_def andThen_Inr_iff uuid4_def)
qed

lemma claim_steps:
  assumes "claim (p\<lparr>pr_worker := w\<rparr>) env t d = Inr (job, d')" "uuid env = u"
  shows "(jobs_change p u)\<^sup>*\<^sup>* d d'"
proof -
  let ?p = "p\<lparr>pr_worker := w\<rparr>"
  let ?b = "d\<lparr>jobs := update_where (exhausted ?p t) (bury t) (jobs d)\<rparr>"
  have b: "jobs_change p u d ?b"
    by (intro jobs_change.release [where q = "exhausted ?p t" and g = "bury t"]) (simp_all add: bury_def)
  show ?thesis
    using assms(1)
  proof (cases rule: claim_Inr)
    case 1
    then have "jobs_change p u ?b d'" by (intro jobs_change.same) simp_all
    with b show ?thesis by auto
  next
    case (2 j)
    then have j: "j \<in> set (jobs ?b)" "due ?p t j" by (auto dest: first_where_Some)
    have "jobs_change p u ?b d'"
      by (rule jobs_change.lease [where j = j and g = "\<lambda>x. x\<lparr>ej_status := ''processing'', ej_attempts := ej_attempts j + 1,
                  ej_token := Some (uuid env (uuid_ctr d)),
                  ej_owner := Some (pr_worker ?p), ej_expires_at := Some (t + seconds (pr_lease ?p)),
                  ej_updated_at := t\<rparr>"]) (use 2 j assms(2) in \<open>auto simp: due_def\<close>)
    with b show ?thesis by auto
  qed
qed

lemma commit_prepared_Inr:
  assumes "commit_prepared p c env h v d = Inr (out, d')"
  shows "(\<exists>j \<in> set (jobs d). holds_lease c j)
    \<and> (\<exists>g. jobs d' = update_where (by_job c) g (jobs d) \<and> uuid_ctr d' = uuid_ctr d
        \<and> (\<forall>j. ej_id (g j) = ej_id j \<and> ej_fact (g j) = ej_fact j \<and> ej_identity (g j) = ej_identity j
          \<and> ej_status (g j) \<noteq> ''processing'' \<and> ej_token (g j) = None \<and> ej_attempts (g j) = ej_attempts j))"
proof -
  let ?g1 = "finish_job (Some ''skipped_stale'') (tick env)"
  have l: "\<exists>j \<in> set (jobs d). holds_lease c j"
    using assms by (auto simp: commit_prepared_def andThen_Inr_iff list_ex_iff)
  have u: "jobs (upsert_embedding s i x d0) = jobs d0 \<and> uuid_ctr (upsert_embedding s i x d0) = uuid_ctr d0" for s i x d0
    by (simp add: upsert_embedding_def)
  show ?thesis
  proof (cases "case find_fact (cj_fact c) d of None \<Rightarrow> None | Some f \<Rightarrow> if active f then Some f else None")
    case None
    with assms have "d' = d\<lparr>jobs := update_where (by_job c) ?g1 (jobs d)\<rparr>"
      by (auto simp: commit_prepared_def andThen_Inr_iff)
    with l show ?thesis by (intro conjI exI [of _ ?g1]) (simp_all add: finish_job_def)
  next
    case (Some f)
    let ?a = "sha256 env (f_content f)"
    let ?g2 = "requeue_job ?a (tick env)" and ?g3 = "\<lambda>j. (finish_job None (tick env) j)\<lparr>ej_sha256 := ?a\<rparr>"
    show ?thesis
    proof (cases "?a = h")
      case True
      with assms Some have "jobs d' = update_where (by_job c) ?g3 (jobs d)" "uuid_ctr d' = uuid_ctr d"
        by (auto simp: commit_prepared_def andThen_Inr_iff Let_def u)
      with l show ?thesis by (intro conjI exI [of _ ?g3]) (simp_all add: finish_job_def)
    next
      case False
      with assms Some have "d' = d\<lparr>jobs := update_where (by_job c) ?g2 (jobs d)\<rparr>"
        by (auto simp: commit_prepared_def andThen_Inr_iff Let_def)
      with l show ?thesis by (intro conjI exI [of _ ?g2]) (simp_all add: requeue_job_def)
    qed
  qed
qed

lemma settle_inactive_Inr:
  assumes "settle_inactive c env d = Inr (out, d')"
  shows "(\<exists>j \<in> set (jobs d). holds_lease c j)
    \<and> (\<exists>g. jobs d' = update_where (holds_lease c) g (jobs d) \<and> uuid_ctr d' = uuid_ctr d
        \<and> (\<forall>j. ej_id (g j) = ej_id j \<and> ej_fact (g j) = ej_fact j \<and> ej_identity (g j) = ej_identity j
          \<and> ej_status (g j) \<noteq> ''processing'' \<and> ej_token (g j) = None \<and> ej_attempts (g j) = ej_attempts j))"
proof -
  from assms obtain g why r where "update_leased c g why d = Inr (r, d')"
    and g: "\<forall>j. ej_id (g j) = ej_id j \<and> ej_fact (g j) = ej_fact j \<and> ej_identity (g j) = ej_identity j
          \<and> ej_status (g j) \<noteq> ''processing'' \<and> ej_token (g j) = None \<and> ej_attempts (g j) = ej_attempts j"
    by (auto simp: settle_inactive_def andThen_Inr_iff requeue_job_def finish_job_def split: option.splits if_splits)
  then show ?thesis using count_where_one [of "holds_lease c" "jobs d"] by (auto simp: update_leased_Inr)
qed

lemma fail_job_Inr:
  assumes "fail_job p c e t d = Inr (out, d')"
  shows "(\<exists>j \<in> set (jobs d). holds_lease c j)
    \<and> (\<exists>g. jobs d' = update_where (holds_lease c) g (jobs d) \<and> uuid_ctr d' = uuid_ctr d
        \<and> (\<forall>j. ej_id (g j) = ej_id j \<and> ej_fact (g j) = ej_fact j \<and> ej_identity (g j) = ej_identity j
          \<and> ej_status (g j) \<noteq> ''processing'' \<and> ej_token (g j) = None \<and> ej_attempts (g j) = ej_attempts j))"
proof -
  from assms obtain g why r where "update_leased c g why d = Inr (r, d')"
    and g: "\<forall>j. ej_id (g j) = ej_id j \<and> ej_fact (g j) = ej_fact j \<and> ej_identity (g j) = ej_identity j
          \<and> ej_status (g j) \<noteq> ''processing'' \<and> ej_token (g j) = None \<and> ej_attempts (g j) = ej_attempts j"
    by (auto simp: fail_job_def andThen_Inr_iff Let_def split: if_splits)
  then show ?thesis using count_where_one [of "holds_lease c" "jobs d"] by (auto simp: update_leased_Inr)
qed

text \<open>Every step is a sequence of changes of the four shapes.\<close>

lemma job_step_changes: "job_step p u d d' \<Longrightarrow> (jobs_change p u)\<^sup>*\<^sup>* d d'"
proof (induction rule: job_step.induct)
  case (enqueue env i d r d')
  then obtain h renew where "d' = upsert_job (pr_spec p) (tick env) i h renew d"
    by (auto simp: enqueue_in_transaction_def andThen_Inr_iff split: option.splits)
  then show ?case using upsert_job_change by auto
next
  case (backfill env d n d')
  then show ?case by (auto simp: enqueue_backfill_def andThen_Inr_iff intro: backfill_steps)
next
  case (claimed env w t d job d')
  then show ?case using claim_steps by blast
next
  case (settled env c d out d')
  from settle_inactive_Inr [OF settled(2)] have "jobs_change p u d d'"
    by (auto intro!: jobs_change.release)
  then show ?case by blast
next
  case (committed env c h v d out d')
  from commit_prepared_Inr [OF committed(2)] have "jobs_change p u d d'"
    by (auto intro!: jobs_change.release)
  then show ?case by blast
next
  case (failed c e t d out d')
  from fail_job_Inr [OF failed(1)] have "jobs_change p u d d'"
    by (auto intro!: jobs_change.release)
  then show ?case by blast
next
  case (elsewhere d' d)
  then show ?case by (auto intro: jobs_change.same)
qed

section \<open>The invariant of the job table\<close>

definition job_key :: "embedding_job \<Rightarrow> int \<times> string" where
  "job_key j = (ej_fact j, ej_identity j)"

definition job_ok :: "int \<Rightarrow> (nat \<Rightarrow> string) \<Rightarrow> nat \<Rightarrow> embedding_job \<Rightarrow> bool" where
  "job_ok most u n j \<longleftrightarrow> 0 \<le> ej_attempts j \<and> ej_attempts j \<le> most
     \<and> (ej_status j = ''processing'' \<longleftrightarrow> ej_token j \<noteq> None)
     \<and> (case ej_token j of None \<Rightarrow> True | Some t \<Rightarrow> t \<in> u ` {..<n})"

definition jobs_ok :: "processor \<Rightarrow> (nat \<Rightarrow> string) \<Rightarrow> db \<Rightarrow> bool" where
  "jobs_ok p u d \<longleftrightarrow> distinct (map ej_id (jobs d)) \<and> distinct (map job_key (jobs d))
     \<and> (\<forall>j \<in> set (jobs d). job_ok (pr_max_attempts p) u (uuid_ctr d) j)"

lemma job_ok_later: "job_ok most u n j \<Longrightarrow> n \<le> m \<Longrightarrow> job_ok most u m j"
  by (auto simp: job_ok_def split: option.splits)

lemma next_job_fresh: "j \<in> set (jobs d) \<Longrightarrow> ej_id j < next_job d"
proof -
  assume j: "j \<in> set (jobs d)"
  then have "ej_id j \<le> Max (set (map ej_id (jobs d)))" by (intro Max_ge) auto
  with j show ?thesis by (auto simp: next_job_def)
qed

lemma jobs_ok_update:
  assumes "jobs_ok p u d" "jobs d' = update_where q g (jobs d)" "uuid_ctr d \<le> uuid_ctr d'"
    and "\<And>j. ej_id (g j) = ej_id j \<and> ej_fact (g j) = ej_fact j \<and> ej_identity (g j) = ej_identity j"
    and "\<And>j. j \<in> set (jobs d) \<Longrightarrow> q j \<Longrightarrow> job_ok (pr_max_attempts p) u (uuid_ctr d') (g j)"
  shows "jobs_ok p u d'"
proof -
  have "map ej_id (jobs d') = map ej_id (jobs d)" "map job_key (jobs d') = map job_key (jobs d)"
    using assms(4) by (simp_all add: assms(2) map_update_where job_key_def)
  moreover have "job_ok (pr_max_attempts p) u (uuid_ctr d') j" if "j \<in> set (jobs d')" for j
  proof -
    from that obtain j0 where "j0 \<in> set (jobs d)" "j = (if q j0 then g j0 else j0)"
      unfolding assms(2) by (blast dest: in_update_where)
    then show ?thesis using assms(1,3) assms(5) [of j0] by (auto simp: jobs_ok_def intro: job_ok_later)
  qed
  ultimately show ?thesis using assms(1) by (simp add: jobs_ok_def)
qed

lemma jobs_change_ok:
  assumes "jobs_change p u d d'" "jobs_ok p u d" "0 \<le> pr_max_attempts p"
  shows "jobs_ok p u d'"
  using assms(1)
proof cases
  case same
  with assms(2) show ?thesis by (auto simp: jobs_ok_def intro: job_ok_later)
next
  case (fresh s t i h)
  let ?n = "fresh_job s t i h (next_job d)"
  have ids: "ej_id ?n \<notin> set (map ej_id (jobs d))"
    using next_job_fresh by (fastforce simp: fresh_job_def)
  have keys: "job_key ?n \<notin> set (map job_key (jobs d))"
    using fresh(2) by (auto simp: fresh_job_def job_key_def job_of_def)
  have n: "job_ok (pr_max_attempts p) u (uuid_ctr d') ?n" using assms(3) by (simp add: job_ok_def fresh_job_def)
  have old: "\<forall>j \<in> set (jobs d). job_ok (pr_max_attempts p) u (uuid_ctr d') j"
    using assms(2) fresh(3) by (auto simp: jobs_ok_def intro: job_ok_later)
  from ids keys n old assms(2) show ?thesis by (simp add: jobs_ok_def fresh(1))
next
  case (release q g)
  have ok: "job_ok (pr_max_attempts p) u n (g j)" if "j \<in> set (jobs d)" for j n
  proof -
    have "ej_attempts (g j) \<in> {0, ej_attempts j}" "ej_status (g j) \<noteq> ''processing''" "ej_token (g j) = None"
      using release(3) by blast+
    moreover have "0 \<le> ej_attempts j" "ej_attempts j \<le> pr_max_attempts p"
      using that assms(2) by (auto simp: jobs_ok_def job_ok_def)
    ultimately show ?thesis using assms(3) by (auto simp: job_ok_def)
  qed
  show ?thesis by (rule jobs_ok_update [OF assms(2) release(1,2)]) (use release(3) ok in blast)+
next
  case (lease j g)
  have a: "0 \<le> ej_attempts j" using lease(3) assms(2) by (simp add: jobs_ok_def job_ok_def)
  show ?thesis
    by (rule jobs_ok_update [OF assms(2) lease(1)]) (use lease(2,4,5) a in \<open>auto simp: job_ok_def\<close>)
qed

lemma jobs_changes_ok:
  "(jobs_change p u)\<^sup>*\<^sup>* d d' \<Longrightarrow> jobs_ok p u d \<Longrightarrow> 0 \<le> pr_max_attempts p \<Longrightarrow> jobs_ok p u d'"
  by (induction rule: rtranclp_induct) (auto intro: jobs_change_ok)

lemma job_step_ok: "job_step p u d d' \<Longrightarrow> jobs_ok p u d \<Longrightarrow> 0 \<le> pr_max_attempts p \<Longrightarrow> jobs_ok p u d'"
  using job_step_changes jobs_changes_ok by blast

section \<open>Leases\<close>

definition holds_job :: "claimed_job \<Rightarrow> db \<Rightarrow> bool" where
  "holds_job c d \<longleftrightarrow> (\<exists>j \<in> set (jobs d). holds_lease c j)"

definition issued_job :: "(nat \<Rightarrow> string) \<Rightarrow> claimed_job \<Rightarrow> db \<Rightarrow> bool" where
  "issued_job u c d \<longleftrightarrow> (\<exists>k < uuid_ctr d. cj_token c = u k)"

text \<open>Steps of a process whose \<open>uuid4\<close> draws never repeat, and the ones that end a claim.\<close>

definition fenced_step :: "processor \<Rightarrow> (nat \<Rightarrow> string) \<Rightarrow> db \<Rightarrow> db \<Rightarrow> bool" where
  "fenced_step p u d d' \<longleftrightarrow> inj u \<and> job_step p u d d'"

definition settles_job :: "processor \<Rightarrow> (nat \<Rightarrow> string) \<Rightarrow> claimed_job \<Rightarrow> db \<Rightarrow> db \<Rightarrow> bool" where
  "settles_job p u c d d' \<longleftrightarrow> inj u \<and> (\<exists>out.
     (\<exists>env. uuid env = u \<and> (settle_inactive c env d = Inr (out, d') \<or> (\<exists>h v. commit_prepared p c env h v d = Inr (out, d'))))
     \<or> (\<exists>e t. fail_job p c e t d = Inr (out, d')))"

lemma jobs_change_counter: "jobs_change p u d d' \<Longrightarrow> uuid_ctr d \<le> uuid_ctr d'"
  by (induction rule: jobs_change.induct) auto

lemma jobs_changes_issued: "(jobs_change p u)\<^sup>*\<^sup>* d d' \<Longrightarrow> issued_job u c d \<Longrightarrow> issued_job u c d'"
proof (induction rule: rtranclp_induct)
  case (step d1 d2)
  then show ?case using jobs_change_counter [OF step.hyps(2)]
    unfolding issued_job_def by (meson order_less_le_trans)
qed

lemma jobs_change_no_regain:
  assumes "jobs_change p u d d'" "inj u" "issued_job u c d" "\<not> holds_job c d"
  shows "\<not> holds_job c d'"
  using assms(1)
proof cases
  case same
  with assms(4) show ?thesis by (simp add: holds_job_def)
next
  case (fresh s t i h)
  with assms(4) show ?thesis by (auto simp: holds_job_def holds_lease_def fresh_job_def)
next
  case (release q g)
  have "\<not> holds_lease c x" if "x \<in> set (jobs d')" for x
  proof -
    from that obtain x0 where "x0 \<in> set (jobs d)" "x = (if q x0 then g x0 else x0)"
      unfolding release(1) by (blast dest: in_update_where)
    with release(3) [of x0] assms(4) show ?thesis by (auto simp: holds_job_def holds_lease_def)
  qed
  then show ?thesis by (simp add: holds_job_def)
next
  case (lease j g)
  from assms(2,3) have new: "u (uuid_ctr d) \<noteq> cj_token c" by (auto simp: issued_job_def inj_eq)
  have "\<not> holds_lease c x" if "x \<in> set (jobs d')" for x
  proof -
    from that obtain x0 where "x0 \<in> set (jobs d)" "x = (if ej_id x0 = ej_id j then g x0 else x0)"
      unfolding lease(1) by (blast dest: in_update_where)
    with lease(5) [of x0] assms(4) new show ?thesis by (auto simp: holds_job_def holds_lease_def)
  qed
  then show ?thesis by (simp add: holds_job_def)
qed

lemma jobs_changes_no_regain:
  "(jobs_change p u)\<^sup>*\<^sup>* d d' \<Longrightarrow> inj u \<Longrightarrow> issued_job u c d \<Longrightarrow> \<not> holds_job c d \<Longrightarrow> \<not> holds_job c d'"
proof (induction rule: rtranclp_induct)
  case (step d1 d2)
  then show ?case using jobs_changes_issued jobs_change_no_regain by blast
qed

lemma released_drops:
  assumes "jobs d' = update_where q g (jobs d)" "\<And>j. holds_lease c j \<Longrightarrow> q j" "\<And>j. ej_token (g j) = None"
  shows "\<not> holds_job c d'"
proof -
  have "\<not> holds_lease c x" if x: "x \<in> set (jobs d')" for x
  proof -
    from x obtain x0 where "x = (if q x0 then g x0 else x0)"
      unfolding assms(1) by (blast dest: in_update_where)
    with assms(2) [of x0] assms(3) [of x0] show ?thesis by (auto simp: holds_lease_def)
  qed
  then show ?thesis by (simp add: holds_job_def)
qed

lemma settled_effect:
  assumes "settle_inactive c env d = Inr (out, d') \<or> (\<exists>h v. commit_prepared p c env h v d = Inr (out, d'))
      \<or> (\<exists>e. fail_job p c e t d = Inr (out, d'))"
  shows "holds_job c d \<and> \<not> holds_job c d'"
proof -
  from assms obtain q g where "\<exists>j \<in> set (jobs d). holds_lease c j" "jobs d' = update_where q g (jobs d)"
      "q = holds_lease c \<or> q = by_job c" "\<forall>j. ej_token (g j) = None"
    by (elim disjE exE) (blast dest: settle_inactive_Inr commit_prepared_Inr fail_job_Inr)+
  then show ?thesis
    using released_drops [of d' q g d c] by (auto simp: holds_job_def by_job_def holds_lease_def)
qed

lemmas settled_drops = settled_effect [THEN conjunct2]

lemma settles_job_effect: "settles_job p u c d d' \<Longrightarrow> holds_job c d \<and> \<not> holds_job c d'"
  unfolding settles_job_def using settled_effect by blast

interpretation outbox: fenced_leases "fenced_step p u" "issued_job u" "holds_job" "settles_job p u" for p u
proof unfold_locales
  fix c d d' assume "issued_job u c d" "fenced_step p u d d'"
  then show "issued_job u c d'"
    unfolding fenced_step_def by (blast intro: jobs_changes_issued dest: job_step_changes)
next
  fix c d d' assume "issued_job u c d" "\<not> holds_job c d" "fenced_step p u d d'"
  then show "\<not> holds_job c d'"
    unfolding fenced_step_def by (blast dest: job_step_changes jobs_changes_no_regain)
next
  fix c d d' assume "settles_job p u c d d'"
  then show "fenced_step p u d d'"
    by (auto simp: settles_job_def fenced_step_def intro: job_step.intros)
qed (auto dest: settles_job_effect)

section \<open>What the outbox promises\<close>

lemma claim_issues:
  assumes "claim p env t d = Inr (Some c, d')"
  shows "issued_job (uuid env) c d' \<and> holds_job c d' \<and> cj_token c = uuid env (uuid_ctr d)
    \<and> (\<forall>j \<in> set (jobs d'). ej_id j = cj_job c \<longrightarrow> ej_token j = Some (cj_token c))"
  using assms
proof (cases rule: claim_Inr)
  case (2 j)
  let ?b = "update_where (exhausted p t) (bury t) (jobs d)"
  let ?g = "\<lambda>x. x\<lparr>ej_status := ''processing'', ej_attempts := ej_attempts j + 1,
                  ej_token := Some (uuid env (uuid_ctr d)),
                  ej_owner := Some (pr_worker p), ej_expires_at := Some (t + seconds (pr_lease p)),
                  ej_updated_at := t\<rparr>"
  have j: "j \<in> set ?b" using 2(1) by (auto dest: first_where_Some)
  have js: "jobs d' = update_where (\<lambda>x. ej_id x = ej_id j) ?g ?b" by (simp add: 2(3))
  have "?g j \<in> set (jobs d')" unfolding js by (rule update_where_hit [OF j refl])
  moreover have "holds_lease c (?g j)" using 2(2) by (simp add: holds_lease_def)
  moreover have "ej_token x = Some (cj_token c)" if "x \<in> set (jobs d')" "ej_id x = cj_job c" for x
  proof -
    from that(1) obtain x0 where "x = (if ej_id x0 = ej_id j then ?g x0 else x0)"
      unfolding js by (blast dest: in_update_where)
    with that(2) 2(2) show ?thesis by (simp split: if_splits)
  qed
  moreover have "cj_token c = uuid env (uuid_ctr d)" "uuid_ctr d' = Suc (uuid_ctr d)" using 2(2,3) by simp_all
  ultimately show ?thesis by (auto simp: issued_job_def holds_job_def)
qed simp

lemma claim_fenced_step:
  "inj u \<Longrightarrow> uuid env = u \<Longrightarrow> claim (p\<lparr>pr_worker := w\<rparr>) env t d = Inr (r, d') \<Longrightarrow> fenced_step p u d d'"
  by (auto simp: fenced_step_def intro: job_step.claimed)

text \<open>C16: however the operations of several workers interleave, the job table keeps its invariant:
  one job for a fact and identity, no more attempts than allowed, a lease token exactly while processing,
  drawn from the process's tokens.\<close>

theorem outbox_invariant:
  assumes "(job_step p u)\<^sup>*\<^sup>* d d'" "jobs_ok p u d" "0 \<le> pr_max_attempts p"
  shows "jobs_ok p u d'"
  using assms by (induction rule: rtranclp_induct) (auto intro: job_step_ok)

text \<open>A claim is settled at most once, whatever happens between: after its holder has committed,
  failed or returned the job, no later attempt with the same claim succeeds.\<close>

theorem claim_settled_once:
  assumes "inj u" "uuid env = u" "claim (p\<lparr>pr_worker := w\<rparr>) env t d0 = Inr (Some c, d1)"
    and "(fenced_step p u)\<^sup>*\<^sup>* d1 d2" "settles_job p u c d2 d3" "(fenced_step p u)\<^sup>*\<^sup>* d3 d4"
  shows "\<not> settles_job p u c d4 d5"
proof -
  have "issued_job u c d1" using claim_issues [OF assms(3)] assms(2) by simp
  then have "issued_job u c d2" using outbox.issued_forever assms(4) by blast
  then show ?thesis using outbox.settled_once assms(5,6) by blast
qed

text \<open>C14: a worker whose lease ran out is fenced off: once the job has been claimed again, nothing the
  first claimant does can settle it, now or later.\<close>

theorem expired_claim_is_fenced:
  assumes "inj u" "uuid env = u" "claim (p\<lparr>pr_worker := w\<rparr>) env t d0 = Inr (Some c, d1)"
    and "(fenced_step p u)\<^sup>*\<^sup>* d1 d2"
    and "uuid env2 = u" "claim (p\<lparr>pr_worker := w2\<rparr>) env2 t2 d2 = Inr (Some c2, d3)" "cj_job c2 = cj_job c"
    and "(fenced_step p u)\<^sup>*\<^sup>* d3 d4"
  shows "cj_token c2 \<noteq> cj_token c \<and> \<not> settles_job p u c d4 d5"
proof -
  have "issued_job u c d1" using claim_issues [OF assms(3)] assms(2) by simp
  then have i2: "issued_job u c d2" using outbox.issued_forever assms(4) by blast
  with claim_issues [OF assms(6)] assms(1,5) have new: "cj_token c2 \<noteq> cj_token c"
    by (auto simp: issued_job_def inj_eq)
  have i3: "issued_job u c d3"
    using outbox.issued_stable [OF i2 claim_fenced_step] assms(1,5,6) by blast
  have "\<not> holds_job c d3"
    using claim_issues [OF assms(6)] assms(7) new by (auto simp: holds_job_def holds_lease_def)
  then show ?thesis using new outbox.superseded_never_settles i3 assms(8) by blast
qed

section \<open>Claiming\<close>

lemma find_sorted_least:
  "sorted (map k xs) \<Longrightarrow> find q xs = Some x \<Longrightarrow> y \<in> set xs \<Longrightarrow> q y \<Longrightarrow> k x \<le> k y"
  by (induction xs) (auto split: if_splits dest!: find_Some_iff [THEN iffD1])

lemma first_where_least:
  "first_where q (sort_key k xs) = Some x \<Longrightarrow> x \<in> set xs \<and> q x \<and> (\<forall>y \<in> set xs. q y \<longrightarrow> k x \<le> k y)"
  using find_sorted_least [of k "sort_key k xs" q x] first_where_Some [of q "sort_key k xs" x]
  by (auto simp: first_where_def)

lemma bury_keeps_due: "due p t (if exhausted p t j then bury t j else j) \<longleftrightarrow> due p t j"
  by (auto simp: due_def exhausted_def bury_def)

lemma due_not_exhausted: "due p t j \<Longrightarrow> \<not> exhausted p t j"
  by (auto simp: due_def exhausted_def)

lemma due_after_burying:
  "(\<exists>x \<in> set (update_where (exhausted p t) (bury t) js). due p t x \<and> r x)
    \<longleftrightarrow> (\<exists>x \<in> set js. due p t x \<and> r x)"
proof -
  have "due p t (if exhausted p t j then bury t j else j) \<and> r (if exhausted p t j then bury t j else j)
      \<longleftrightarrow> due p t j \<and> r j" for j
    using due_not_exhausted [of p t j] bury_keeps_due [of p t j] by (cases "exhausted p t j") auto
  then show ?thesis unfolding set_update_where bex_simps by simp
qed

definition live_lease :: "int \<Rightarrow> embedding_job \<Rightarrow> bool" where
  "live_lease t j \<longleftrightarrow> ej_status j = ''processing'' \<and> ej_expires_at j \<noteq> None \<and> \<not> expired t j"

text \<open>A claim takes the first due job in id order and nothing else: it returns nothing exactly when
  no job is due, the job it returns was due (waiting and available, or with an expired lease), and a
  job under a live lease stays as it is.
\<close>

theorem claim_takes_first_due:
  assumes run: "claim p env t d = Inr (r, d')" and ids: "distinct (map ej_id (jobs d))"
  shows "(r = None \<longleftrightarrow> (\<forall>j \<in> set (jobs d). \<not> due p t j))
    \<and> (\<forall>c. r = Some c \<longrightarrow> (\<exists>j \<in> set (jobs d). due p t j \<and> ej_id j = cj_job c \<and> ej_fact j = cj_fact c
          \<and> cj_attempts c = ej_attempts j + 1 \<and> (\<forall>k \<in> set (jobs d). due p t k \<longrightarrow> ej_id j \<le> ej_id k)))
    \<and> (\<forall>j \<in> set (jobs d). live_lease t j \<longrightarrow> j \<in> set (jobs d'))"
proof -
  let ?b = "update_where (exhausted p t) (bury t) (jobs d)"
  have live: "\<not> exhausted p t j \<and> \<not> due p t j" if "live_lease t j" for j
    using that by (auto simp: live_lease_def exhausted_def due_def)
  show ?thesis
    using run
  proof (cases rule: claim_Inr)
    case 1
    have js: "jobs d' = ?b" by (simp add: 1(2))
    with 1(3) due_after_burying [of p t "jobs d" "\<lambda>_. True"] have "\<forall>j \<in> set (jobs d). \<not> due p t j" by auto
    with 1(1) live show ?thesis unfolding js by (auto intro: update_where_miss)
  next
    case (2 j)
    from first_where_least [OF 2(1)] have j: "j \<in> set ?b" "due p t j"
      "\<And>y. y \<in> set ?b \<Longrightarrow> due p t y \<Longrightarrow> ej_id j \<le> ej_id y" by auto
    from j(1,2) due_after_burying [of p t "jobs d" "\<lambda>x. x = j"] have in_d: "j \<in> set (jobs d)" by auto
    have least: "ej_id j \<le> ej_id k" if "k \<in> set (jobs d)" "due p t k" for k
      using j(3) [of k] that due_after_burying [of p t "jobs d" "\<lambda>x. x = k"] by auto
    have keep: "k \<in> set (jobs d')" if k: "k \<in> set (jobs d)" "live_lease t k" for k
    proof -
      have "ej_id k \<noteq> ej_id j"
        using ids in_d j(2) k live by (auto simp: distinct_map inj_on_def)
      moreover have "k \<in> set ?b" using live [OF k(2)] k(1) by (intro update_where_miss) auto
      ultimately show ?thesis by (simp add: 2(3) update_where_miss)
    qed
    from 2(2) in_d j(2) least keep show ?thesis by auto
  qed
qed

section \<open>Settling\<close>

lemma upsert_embedding_stores:
  "has_embedding s i (upsert_embedding s i v d)
    \<and> (\<forall>e \<in> set (embeddings (upsert_embedding s i v d)). em_fact e = i \<and> em_identity e = es_identity s \<longrightarrow> em_vector e = v)"
proof (cases "\<exists>e \<in> set (embeddings d). em_fact e = i \<and> em_identity e = es_identity s")
  case True
  let ?q = "\<lambda>e. em_fact e = i \<and> em_identity e = es_identity s"
  let ?g = "\<lambda>e. e\<lparr>em_vector := v, em_dim := es_dimensions s\<rparr>"
  from True obtain e where e: "e \<in> set (embeddings d)" "?q e" by blast
  have es: "embeddings (upsert_embedding s i v d) = update_where ?q ?g (embeddings d)"
    using True by (simp add: upsert_embedding_def)
  have "?g e \<in> set (update_where ?q ?g (embeddings d))"
    by (rule update_where_hit [of e "embeddings d" ?q ?g, OF e])
  with e(2) have "has_embedding s i (upsert_embedding s i v d)"
    unfolding has_embedding_def es by (intro bexI [of _ "?g e"]) simp_all
  moreover have "em_vector x = v" if x: "x \<in> set (update_where ?q ?g (embeddings d))" "?q x" for x
  proof -
    from in_update_where [OF x(1)] obtain y where "x = (if ?q y then ?g y else y)" by blast
    with x(2) show ?thesis by (cases "?q y") simp_all
  qed
  ultimately show ?thesis unfolding es by blast
qed (auto simp: upsert_embedding_def has_embedding_def)

text \<open>A vector is stored only for the text it was computed from: a commit answers \<open>embedded\<close> exactly
  when the fact is still active and its content still has the hash the vector was prepared for; then
  the vector is the stored one of that fact and identity, and otherwise no embedding changes.
\<close>

theorem commit_stores_fresh_vector:
  assumes "commit_prepared p c env h v d = Inr (out, d')"
  shows "(out = ''embedded'' \<longleftrightarrow> (\<exists>f. find_fact (cj_fact c) d = Some f \<and> active f \<and> sha256 env (f_content f) = h))
    \<and> (out = ''embedded'' \<longrightarrow> has_embedding (pr_spec p) (cj_fact c) d'
         \<and> (\<forall>e \<in> set (embeddings d'). em_fact e = cj_fact c \<and> em_identity e = es_identity (pr_spec p) \<longrightarrow> em_vector e = v))
    \<and> (out \<noteq> ''embedded'' \<longrightarrow> embeddings d' = embeddings d) \<and> facts d' = facts d"
proof (cases "case find_fact (cj_fact c) d of None \<Rightarrow> None | Some f \<Rightarrow> if active f then Some f else None")
  case None
  with assms have "out = ''skipped_stale''" "embeddings d' = embeddings d" "facts d' = facts d"
    by (auto simp: commit_prepared_def andThen_Inr_iff)
  with None show ?thesis by (auto split: option.splits if_splits)
next
  case (Some f)
  then have f: "find_fact (cj_fact c) d = Some f" "active f" by (auto split: option.splits if_splits)
  show ?thesis
  proof (cases "sha256 env (f_content f) = h")
    case True
    let ?u = "upsert_embedding (pr_spec p) (cj_fact c) v"
    from True assms Some have out: "out = ''embedded''" "embeddings d' = embeddings (?u d)" "facts d' = facts d"
      by (auto simp: commit_prepared_def andThen_Inr_iff Let_def upsert_embedding_def)
    have "has_embedding (pr_spec p) (cj_fact c) d' \<and> (\<forall>e \<in> set (embeddings d').
        em_fact e = cj_fact c \<and> em_identity e = es_identity (pr_spec p) \<longrightarrow> em_vector e = v)"
      using upsert_embedding_stores [of "pr_spec p" "cj_fact c" v d] unfolding has_embedding_def out(2) by simp
    with out f True show ?thesis by auto
  next
    case False
    with assms Some have "out = ''requeued_changed''" "embeddings d' = embeddings d" "facts d' = facts d"
      by (auto simp: commit_prepared_def andThen_Inr_iff Let_def)
    with f False show ?thesis by auto
  qed
qed

text \<open>A job that fails waits at least a second and at most five minutes before it is due again, and
  is given up exactly when the attempts allowed are used; its attempt count is not reset.
\<close>

theorem failure_backs_off:
  assumes "fail_job p c e t d = Inr (out, d')" "0 \<le> cj_attempts c"
  shows "(out = ''dead_letter'' \<longleftrightarrow> pr_max_attempts p \<le> cj_attempts c)
    \<and> (\<exists>j \<in> set (jobs d). holds_lease c j \<and> (\<exists>j' \<in> set (jobs d'). ej_id j' = cj_job c \<and> ej_status j' = out
         \<and> ej_attempts j' = ej_attempts j \<and> ej_error j' = Some e
         \<and> t + seconds 1 \<le> ej_available_at j' \<and> ej_available_at j' \<le> t + seconds 300))"
proof -
  let ?delay = "min 300 (2 ^ nat (cj_attempts c)) :: int"
  let ?g = "\<lambda>j. (release out t j)\<lparr>ej_available_at := t + seconds ?delay, ej_error := Some e\<rparr>"
  from assms(1) have out: "out = (if pr_max_attempts p \<le> cj_attempts c then ''dead_letter'' else ''pending'')"
    by (auto simp: fail_job_def andThen_Inr_iff Let_def)
  with assms(1) obtain r why where "update_leased c ?g why d = Inr (r, d')"
    by (auto simp: fail_job_def andThen_Inr_iff Let_def)
  then have js: "jobs d' = update_where (holds_lease c) ?g (jobs d)" and n: "count_where (holds_lease c) (jobs d) = 1"
    by (auto simp: update_leased_Inr)
  from count_where_one [of "holds_lease c" "jobs d"] n obtain j where j: "j \<in> set (jobs d)" "holds_lease c j" by auto
  have "?g j \<in> set (jobs d')" unfolding js by (rule update_where_hit [of j "jobs d" "holds_lease c" ?g, OF j])
  moreover have "1 \<le> ?delay \<and> ?delay \<le> 300" by simp
  ultimately show ?thesis using out j by (intro conjI bexI [of _ j] bexI [of _ "?g j"]) (auto simp: holds_lease_def seconds_def)
qed

section \<open>Draining\<close>

lemma claim_leaves_one:
  assumes "claim p env t d = Inr (Some c, d')" "distinct (map ej_id (jobs d))"
  shows "count_where (holds_lease c) (jobs d') = 1 \<and> list_ex (\<lambda>j. holds_lease c j \<and> in_spec (pr_spec p) j) (jobs d')
    \<and> distinct (map ej_id (jobs d')) \<and> facts d' = facts d"
  using assms(1)
proof (cases rule: claim_Inr)
  case (2 j)
  let ?b = "update_where (exhausted p t) (bury t) (jobs d)"
  let ?g = "\<lambda>x. x\<lparr>ej_status := ''processing'', ej_attempts := ej_attempts j + 1,
                  ej_token := Some (uuid env (uuid_ctr d)),
                  ej_owner := Some (pr_worker p), ej_expires_at := Some (t + seconds (pr_lease p)),
                  ej_updated_at := t\<rparr>"
  have js: "jobs d' = update_where (\<lambda>x. ej_id x = ej_id j) ?g ?b" by (simp add: 2(3))
  have "map ej_id (jobs d') = map ej_id (jobs d)" unfolding js by (simp add: map_update_where bury_def)
  with assms(2) have ids: "distinct (map ej_id (jobs d'))" by simp
  from 2(1) have j: "j \<in> set ?b" "due p t j" by (auto dest: first_where_Some)
  have in_d': "?g j \<in> set (jobs d')" unfolding js by (rule update_where_hit [of j ?b _ ?g, OF j(1)]) simp
  have h: "holds_lease c (?g j)" using 2(2) by (simp add: holds_lease_def)
  have "in_spec (pr_spec p) (?g j)" using j(2) by (simp add: due_def in_spec_def)
  with in_d' h have "list_ex (\<lambda>j. holds_lease c j \<and> in_spec (pr_spec p) j) (jobs d')" by (auto simp: list_ex_iff)
  moreover have "count_where (holds_lease c) (jobs d') = 1"
  proof -
    have "\<exists>x \<in> set (jobs d'). ej_id x = cj_job c \<and> (ej_status x = ''processing'' \<and> ej_token x = Some (cj_token c))"
      using in_d' h unfolding holds_lease_def by (rule bexI [rotated])
    then show ?thesis
      using count_where_key [OF ids, of "cj_job c" "\<lambda>x. ej_status x = ''processing'' \<and> ej_token x = Some (cj_token c)"]
      unfolding holds_lease_def [abs_def] by presburger
  qed
  ultimately show ?thesis using ids by (simp add: 2(3))
qed simp

lemma claim_runs: "\<exists>r d'. claim p env t d = Inr (r, d')"
  by (cases "first_where (due p t) (sort_key ej_id (update_where (exhausted p t) (bury t) (jobs d)))")
    (simp_all add: claim_def andThen_def uuid4_def)

lemma update_leased_runs: "count_where (holds_lease c) (jobs d) = 1
    \<Longrightarrow> update_leased c g why d = Inr ((), d\<lparr>jobs := update_where (holds_lease c) g (jobs d)\<rparr>)"
  by (simp add: update_leased_def andThen_def)

lemma settle_inactive_runs:
  "count_where (holds_lease c) (jobs d) = 1 \<Longrightarrow> \<exists>out d'. settle_inactive c env d = Inr (out, d')"
  by (simp add: settle_inactive_def andThen_def update_leased_runs split: option.splits)

lemma fail_job_runs:
  "count_where (holds_lease c) (jobs d) = 1 \<Longrightarrow> \<exists>out d'. fail_job p c e t d = Inr (out, d')"
  by (simp add: fail_job_def andThen_def update_leased_runs Let_def)

lemma commit_prepared_runs:
  "list_ex (\<lambda>j. holds_lease c j \<and> in_spec (pr_spec p) j) (jobs d) \<Longrightarrow> \<exists>out d'. commit_prepared p c env h v d = Inr (out, d')"
  by (simp add: commit_prepared_def andThen_def Let_def split: option.splits)


section \<open>Backfilling\<close>

definition unfinished :: "embedding_spec \<Rightarrow> int \<Rightarrow> db \<Rightarrow> bool" where
  "unfinished s i d \<longleftrightarrow> (\<exists>j \<in> set (jobs d). job_of s i j \<and> ej_status j \<noteq> ''completed'')"

lemma upsert_completed:
  defines "renew \<equiv> \<lambda>j. ej_status j = ''completed''"
  shows "unfinished s i (upsert_job s t i h renew d)"
    and "j \<in> set (jobs d) \<Longrightarrow> ej_status j \<noteq> ''completed'' \<Longrightarrow> j \<in> set (jobs (upsert_job s t i h renew d))"
    and "facts (upsert_job s t i h renew d) = facts d" "embeddings (upsert_job s t i h renew d) = embeddings d"
proof -
  let ?q = "\<lambda>j. job_of s i j \<and> renew j" and ?g = "reset_job s t h"
  show "unfinished s i (upsert_job s t i h renew d)"
  proof (cases "\<exists>j \<in> set (jobs d). job_of s i j")
    case True
    then obtain j where j: "j \<in> set (jobs d)" "job_of s i j" by blast
    have js: "jobs (upsert_job s t i h renew d) = update_where ?q ?g (jobs d)"
      using True by (simp add: upsert_job_def)
    show ?thesis
    proof (cases "renew j")
      case True
      have "?g j \<in> set (update_where ?q ?g (jobs d))"
        by (rule update_where_hit [of j "jobs d" ?q ?g, OF j(1)]) (use j True in simp)
      with j show ?thesis unfolding unfinished_def js by (intro bexI [of _ "?g j"]) (simp_all add: reset_job_def job_of_def)
    next
      case False
      then have "j \<in> set (update_where ?q ?g (jobs d))" using j(1) by (intro update_where_miss) simp_all
      with j False show ?thesis unfolding unfinished_def js by (auto simp: renew_def)
    qed
  qed (auto simp: upsert_job_def unfinished_def fresh_job_def job_of_def)
  show "j \<in> set (jobs d) \<Longrightarrow> ej_status j \<noteq> ''completed'' \<Longrightarrow> j \<in> set (jobs (upsert_job s t i h renew d))"
    by (auto simp: upsert_job_def renew_def intro: update_where_miss)
qed (auto simp: upsert_job_def)

lemma unfinished_stays:
  "unfinished s i d \<Longrightarrow> (\<And>j. j \<in> set (jobs d) \<Longrightarrow> ej_status j \<noteq> ''completed'' \<Longrightarrow> j \<in> set (jobs d')) \<Longrightarrow> unfinished s i d'"
  unfolding unfinished_def by blast

lemma backfill_loop:
  "\<exists>n' d'. foldTx (backfill_fact s env) n fs d = Inr (n', d') \<and> facts d' = facts d \<and> embeddings d' = embeddings d
    \<and> (\<forall>j \<in> set (jobs d). ej_status j \<noteq> ''completed'' \<longrightarrow> j \<in> set (jobs d'))
    \<and> (\<forall>f \<in> set fs. unfinished s (f_id f) d')"
proof (induction fs arbitrary: n d)
  case (Cons f fs)
  let ?d = "upsert_job s (tick env) (f_id f) (sha256 env (f_content f)) (\<lambda>j. ej_status j = ''completed'') d"
  obtain n1 where step: "backfill_fact s env n f d = Inr (n1, ?d)" by (simp add: backfill_fact_def Let_def)
  from Cons.IH [of n1 ?d] obtain n' d' where rest: "foldTx (backfill_fact s env) n1 fs ?d = Inr (n', d')"
    "facts d' = facts ?d" "embeddings d' = embeddings ?d"
    "\<forall>j \<in> set (jobs ?d). ej_status j \<noteq> ''completed'' \<longrightarrow> j \<in> set (jobs d')"
    "\<forall>f \<in> set fs. unfinished s (f_id f) d'" by blast
  have run: "foldTx (backfill_fact s env) n (f # fs) d = Inr (n', d')"
    using rest(1) step by (simp add: andThen_eval)
  have "unfinished s (f_id f) d'"
    by (rule unfinished_stays [OF upsert_completed(1)]) (use rest(4) in blast)
  with rest run upsert_completed(2,3,4) [where s = s and t = "tick env" and i = "f_id f" and h = "sha256 env (f_content f)" and d = d]
  show ?case by (intro exI [of _ n'] exI [of _ d']) simp
qed simp

text \<open>The backfill leaves no active fact without a vector behind: it always succeeds, afterwards every
  active fact has its vector or a job that is not finished, and it leaves alone every job that was
  waiting, leased or given up.
\<close>

theorem backfill_leaves_no_gap:
  "\<exists>n d'. enqueue_backfill s env d = Inr (n, d')
    \<and> (\<forall>f \<in> set (facts d'). active f \<longrightarrow> has_embedding s (f_id f) d' \<or> unfinished s (f_id f) d')
    \<and> (\<forall>j \<in> set (jobs d). ej_status j \<noteq> ''completed'' \<longrightarrow> j \<in> set (jobs d'))"
proof -
  let ?rows = "by_id (filter (\<lambda>f. active f \<and> \<not> has_embedding s (f_id f) d) (facts d))"
  obtain n d' where run: "foldTx (backfill_fact s env) 0 ?rows d = Inr (n, d')"
    and d': "facts d' = facts d" "embeddings d' = embeddings d"
    "\<forall>j \<in> set (jobs d). ej_status j \<noteq> ''completed'' \<longrightarrow> j \<in> set (jobs d')"
    "\<forall>f \<in> set ?rows. unfinished s (f_id f) d'" using backfill_loop by blast
  have "enqueue_backfill s env d = Inr (n, d')" using run by (simp add: enqueue_backfill_def andThen_def)
  moreover have "has_embedding s i d' = has_embedding s i d" for i by (simp add: has_embedding_def d'(2))
  ultimately show ?thesis using d' by (intro exI [of _ n] exI [of _ d']) auto
qed

end
