(* ===== verification/Evolution.thy ===== *)
theory Evolution
  imports StoreInv
begin

text \<open>
  How the facts table may change over the life of a store: rows are only ever appended, what a row
  claims never changes, and the end of its life, once recorded, stays as recorded.
\<close>

section \<open>Ageing\<close>

text \<open>A fact without the columns that its life in the store may change.\<close>

definition claim_of :: "fact \<Rightarrow> fact" where
  "claim_of f = f\<lparr>f_invalid_at := None, f_expired_at := None, f_superseded_by := None, f_valid_to := None,
     f_conflict := None, f_subject := None, f_predicate := None\<rparr>"

definition aged :: "fact \<Rightarrow> fact \<Rightarrow> bool" where
  "aged f g \<longleftrightarrow> claim_of g = claim_of f \<and> (f_invalid_at f \<noteq> None \<longrightarrow> f_invalid_at g = f_invalid_at f)
     \<and> (f_superseded_by f \<noteq> None \<longrightarrow> f_superseded_by g = f_superseded_by f)"

lemma aged_refl [simp]: "aged f f"
  by (simp add: aged_def)

lemma aged_trans: "aged f g \<Longrightarrow> aged g h \<Longrightarrow> aged f h"
  by (auto simp: aged_def)

lemma transp_all_aged: "transp (list_all2 aged)"
  by (rule list.rel_transp) (auto intro: transpI aged_trans)

lemma claim_of_fields:
  assumes "claim_of g = claim_of f"
  shows "f_id g = f_id f" "f_content g = f_content f" "f_category g = f_category f" "f_tags g = f_tags f"
    "f_trust g = f_trust f" "f_created_at g = f_created_at f" "f_kind g = f_kind f" "f_object g = f_object f"
    "f_authority g = f_authority f" "f_scope g = f_scope f" "f_sensitivity g = f_sensitivity f"
    "f_correction g = f_correction f" "f_valid_from g = f_valid_from f" "f_confidence g = f_confidence f"
proof -
  have same: "k g = k f" if "\<And>h. k (claim_of h) = k h" for k :: "fact \<Rightarrow> 'a"
    using assms that [of g] that [of f] by simp
  show "f_id g = f_id f" "f_content g = f_content f" "f_category g = f_category f" "f_tags g = f_tags f"
    "f_trust g = f_trust f" "f_created_at g = f_created_at f" "f_kind g = f_kind f" "f_object g = f_object f"
    "f_authority g = f_authority f" "f_scope g = f_scope f" "f_sensitivity g = f_sensitivity f"
    "f_correction g = f_correction f" "f_valid_from g = f_valid_from f" "f_confidence g = f_confidence f"
    by (rule same, simp add: claim_of_def)+
qed

lemmas aged_id = claim_of_fields(1)

definition evolves :: "nat \<Rightarrow> db \<Rightarrow> db \<Rightarrow> bool" where
  "evolves n d t \<longleftrightarrow> list_all2 aged (facts d) (take (length (facts d)) (facts t))
     \<and> length (facts t) = length (facts d) + n \<and> next_fact t = next_fact d + int n"

lemma evolves_refl: "facts t = facts d \<Longrightarrow> next_fact t = next_fact d \<Longrightarrow> evolves 0 d t"
  by (simp add: evolves_def list_all2_refl)

lemma evolves_cong:
  "evolves n d s \<Longrightarrow> facts t = facts s \<Longrightarrow> next_fact t = next_fact s \<Longrightarrow> evolves n d t"
  by (simp add: evolves_def)

lemma evolves_trans:
  assumes "evolves n d s" "evolves m s t"
  shows "evolves (n + m) d t"
proof -
  let ?k = "length (facts d)"
  have "list_all2 aged (take ?k (facts s)) (take ?k (take (length (facts s)) (facts t)))"
    using assms(2) by (intro list_all2_takeI) (simp add: evolves_def)
  moreover have "min ?k (length (facts s)) = ?k" using assms(1) by (simp add: evolves_def)
  ultimately have "list_all2 aged (take ?k (facts s)) (take ?k (facts t))" by simp
  moreover have "list_all2 aged (facts d) (take ?k (facts s))" using assms(1) by (simp add: evolves_def)
  ultimately have "list_all2 aged (facts d) (take ?k (facts t))"
    using transpD [OF transp_all_aged] by blast
  with assms show ?thesis by (simp add: evolves_def)
qed

lemma evolves_append:
  "evolves n d s \<Longrightarrow> facts t = facts s @ [f] \<Longrightarrow> next_fact t = next_fact s + 1 \<Longrightarrow> evolves (Suc n) d t"
  by (simp add: evolves_def)

lemma take_update_where: "take n (update_where p g fs) = update_where p g (take n fs)"
  by (simp add: update_where_def take_map)

text \<open>An update that ages the rows that were there from the start.\<close>

lemma evolves_update:
  assumes ev: "evolves n d s" and ids: "ids_ok d"
    and g: "\<And>f. f \<in> set (facts s) \<Longrightarrow> p f \<Longrightarrow> f_id f < next_fact d \<Longrightarrow> aged f (g f)"
    and t: "facts t = update_where p g (facts s)" "next_fact t = next_fact s"
  shows "evolves n d t"
proof -
  let ?k = "length (facts d)"
  have rel: "list_all2 aged (facts d) (take ?k (facts s))" using ev by (simp add: evolves_def)
  have "list_all2 aged (facts d) (update_where p g (take ?k (facts s)))"
    unfolding update_where_def list_all2_map2 using rel
  proof (rule list.rel_mono_strong)
    fix f h assume f: "f \<in> set (facts d)" and h: "h \<in> set (take ?k (facts s))" and fh: "aged f h"
    have "f_id h < next_fact d" using fh f ids by (auto simp: aged_def ids_ok_def dest: aged_id)
    with g [of h] in_set_takeD [OF h] fh show "aged f (if p h then g h else h)"
      by (auto intro: aged_trans)
  qed
  with ev t show ?thesis by (simp add: evolves_def take_update_where)
qed

text \<open>What it means for one fact: it is still there, and says the same.\<close>

lemma evolves_fact:
  assumes "evolves n d t" "f \<in> set (facts d)"
  shows "\<exists>g \<in> set (facts t). aged f g"
proof -
  from assms obtain i where i: "i < length (facts d)" "facts d ! i = f" by (auto simp: in_set_conv_nth)
  with assms(1) have "aged f (take (length (facts d)) (facts t) ! i)"
    by (auto simp: evolves_def dest: list_all2_nthD)
  with i assms(1) show ?thesis by (auto simp: evolves_def intro!: bexI [of _ "facts t ! i"])
qed

section \<open>The invariant while a fact is being attached\<close>

text \<open>The store is well formed but for the group of the fact \<open>i\<close>.\<close>

definition groups_but :: "int \<Rightarrow> db \<Rightarrow> bool" where
  "groups_but i d \<longleftrightarrow> distinct (map cf_id (conflicts d)) \<and>
     (\<forall>f \<in> set (facts d). f_id f \<noteq> i \<longrightarrow> (\<forall>c. current f \<and> f_conflict f = Some c \<longrightarrow>
        open_group d f c \<and> (c, f_id f) \<in> set (members d)))"

definition wf_but :: "int \<Rightarrow> db \<Rightarrow> bool" where
  "wf_but i d \<longleftrightarrow> ids_ok d \<and> slots_unique (facts d) \<and> lineage_ok d \<and> groups_but i d"

lemma wf_but_weaken: "wf_db d \<Longrightarrow> wf_but i d"
  by (simp add: wf_db_def wf_but_def groups_ok_def groups_but_def)

lemma wf_but_free:
  assumes "wf_but i d" "\<And>f. f \<in> set (facts d) \<Longrightarrow> f_id f = i \<Longrightarrow> \<not> current f \<or> f_conflict f = None"
  shows "wf_db d"
  using assms by (auto simp: wf_db_def wf_but_def groups_ok_def groups_but_def)

lemma wf_but_update:
  assumes wf: "wf_but i d" and u: "slots_unique (update_where p g (facts d))"
    and g: "\<And>f. p f \<Longrightarrow> f_id f = i \<and> f_id (g f) = i \<and> f_superseded_by (g f) = f_superseded_by f
        \<and> (f_invalid_at f \<noteq> None \<longrightarrow> f_invalid_at (g f) \<noteq> None)"
  shows "wf_but i (d\<lparr>facts := update_where p g (facts d)\<rparr>)"
proof -
  have "groups_but i (d\<lparr>facts := update_where p g (facts d)\<rparr>)"
    unfolding groups_but_def
  proof (intro conjI ballI impI allI)
    fix f c assume f: "f \<in> set (facts (d\<lparr>facts := update_where p g (facts d)\<rparr>))" "f_id f \<noteq> i"
      and c: "current f \<and> f_conflict f = Some c"
    from f(1) obtain f0 where f0: "f0 \<in> set (facts d)" "f = (if p f0 then g f0 else f0)"
      by (auto dest: in_update_where)
    with f(2) g [of f0] have "f = f0" by (auto split: if_splits)
    with f0(1) f(2) c wf show "open_group (d\<lparr>facts := update_where p g (facts d)\<rparr>) f c"
      "(c, f_id f) \<in> set (members (d\<lparr>facts := update_where p g (facts d)\<rparr>))"
      by (auto simp: wf_but_def groups_but_def open_group_def)
  qed (use wf in \<open>simp add: wf_but_def groups_but_def\<close>)
  moreover have "ids_ok (d\<lparr>facts := update_where p g (facts d)\<rparr>)"
    using wf g by (intro ids_ok_update) (auto simp: wf_but_def)
  moreover have "lineage_ok (d\<lparr>facts := update_where p g (facts d)\<rparr>)"
    using wf g by (intro lineage_same) (auto simp: wf_but_def)
  ultimately show ?thesis using u by (simp add: wf_but_def)
qed

lemma wf_append:
  assumes "wf_db d" "slots_unique (facts d @ [f])" "f_id f = next_fact d" "f_superseded_by f = None" "f_conflict f = None"
  shows "wf_db (d\<lparr>facts := facts d @ [f], next_fact := next_fact d + 1\<rparr>)"
proof -
  have "ids_ok (d\<lparr>facts := facts d @ [f], next_fact := next_fact d + 1\<rparr>)"
    using assms(1,3) by (auto simp: wf_db_def ids_ok_def)
  moreover have "groups_ok {} (d\<lparr>facts := facts d @ [f], next_fact := next_fact d + 1\<rparr>)"
    using assms(1,5) by (auto simp: wf_db_def groups_ok_def open_group_def)
  ultimately show ?thesis using assms by (simp add: wf_db_def lineage_append)
qed

end
