(* ===== verification/WriteFacts.thy ===== *)
theory WriteFacts
  imports WriteService ConflictFacts Evolution EmbeddingJobs
begin

text \<open>
  Correctness of the write envelope.  The interface to the fact store (the fact writer, the outbox's
  enqueue) is a locale whose laws the service's own writer and outbox discharge; on top of it, every
  write keeps the store well formed, only appends and ages facts, is audited, and can be replayed.
\<close>

section \<open>The mutations one by one\<close>

text \<open>Ids from before a write are below those of after.\<close>

lemma old_id: "ids_ok d \<Longrightarrow> f \<in> set (facts d) \<Longrightarrow> f_id f < next_fact d"
  by (simp add: ids_ok_def)

lemma evolves_same_rows:
  assumes "ids_ok d" "\<And>f. p f \<Longrightarrow> aged f (g f)" "facts t = update_where p g (facts d)" "next_fact t = next_fact d"
  shows "evolves 0 d t"
  using evolves_update [OF evolves_refl [of d d], of p g t] assms by simp

lemma open_state_conflict_evolves:
  assumes "ids_ok d" "open_state_conflict update_facts env s p ms sc dt det d = Inr (r, t)"
  shows "evolves 0 d t"
  using assms(2)
proof (rule open_state_conflict_Inr)
  fix k
  let ?g = "\<lambda>f. f\<lparr>f_conflict := Some (kr_id r)\<rparr>"
  assume t: "t = d\<lparr>facts := update_where (\<lambda>f. f_id f \<in> set ms) ?g (facts d),
           conflicts := conflicts d @ [k], members := members d @ map (Pair (kr_id r)) ms,
           uuid_ctr := Suc (uuid_ctr d)\<rparr>"
  show ?thesis
    by (rule evolves_same_rows [OF assms(1), of "\<lambda>f. f_id f \<in> set ms" ?g]) (simp_all add: aged_def claim_of_def t)
qed

lemma open_untyped_conflict_evolves:
  assumes "ids_ok d" "open_untyped_conflict env ms sc s p dt det d = Inr (r, t)"
  shows "evolves 0 d t"
  using assms(2)
proof (rule open_untyped_conflict_Inr)
  fix k s' p'
  let ?g = "\<lambda>f. f\<lparr>f_conflict := Some (kr_id r), f_subject := coalesce (f_subject f) (Some s'),
      f_predicate := coalesce (f_predicate f) (Some p')\<rparr>"
  assume t: "t = d\<lparr>facts := update_where (\<lambda>f. f_id f \<in> set ms) ?g (facts d),
           conflicts := conflicts d @ [k], members := members d @ map (Pair (kr_id r)) ms,
           uuid_ctr := Suc (uuid_ctr d)\<rparr>"
  show ?thesis
    by (rule evolves_same_rows [OF assms(1), of "\<lambda>f. f_id f \<in> set ms" ?g]) (simp_all add: aged_def claim_of_def t)
qed

lemma valid_not_superseded: "wf_db d \<Longrightarrow> f \<in> set (facts d) \<Longrightarrow> f_invalid_at f = None \<Longrightarrow> f_superseded_by f = None"
  by (auto simp: wf_db_def lineage_ok_def)

lemma resolve_state_conflict_evolves:
  assumes wf: "wf_db d" and run: "resolve_state_conflict env cid w by why dt cl se ag d = Inr (r, t)"
  shows "evolves 0 d t"
  using run
proof (rule resolve_state_conflict_Inr)
  fix losers resolved from_w reason who rs d1
  let ?p = "\<lambda>f. f_id f \<in> set losers \<and> f_conflict f = Some cid \<and> f_invalid_at f = None"
  let ?g = "\<lambda>f. f\<lparr>f_invalid_at := Some resolved, f_expired_at := Some resolved,
                f_superseded_by := Some w, f_valid_to := from_w\<rparr>"
  let ?q = "\<lambda>f. f_id f = w \<and> (f_conflict f = Some cid \<and> current f)"
  assume d1: "d1 = d\<lparr>facts := update_where ?p ?g (facts d)\<rparr>"
    and t: "t = d1\<lparr>facts := update_where ?q (\<lambda>f. f\<lparr>f_conflict := None\<rparr>) (facts d1),
       conflicts := update_where (\<lambda>c. cf_id c = cid \<and> cf_resolved_at c = None)
       (\<lambda>c. c\<lparr>cf_resolved_at := Some resolved, cf_resolution := Some w,
              cf_resolved_by := Some who, cf_reason := Some reason\<rparr>) (conflicts d), resolutions := rs\<rparr>"
  have ids: "ids_ok d" using wf by (simp add: wf_db_def)
  have "evolves 0 d d1"
    by (rule evolves_update [OF evolves_refl [OF refl refl] ids, of ?p ?g])
      (use valid_not_superseded [OF wf] in \<open>auto simp: aged_def claim_of_def d1\<close>)
  then show ?thesis
    by (rule evolves_update [OF _ ids, of _ _ ?q "\<lambda>f. f\<lparr>f_conflict := None\<rparr>"]) (simp_all add: aged_def claim_of_def t)
qed

text \<open>The new member's own row is checked when it joins, so the store is well formed after that.\<close>

lemma join_conflict_wf:
  assumes wf: "wf_but i d"
    and run: "add_conflict_member cid i d = Inr (u, t) \<or> add_untyped_conflict_member cid i d = Inr (u, t)"
  shows "wf_db t \<and> facts t = facts d \<and> next_fact t = next_fact d \<and> conflicts t = conflicts d
    \<and> members t = members d @ [(cid, i)] \<and> uuid_ctr t = uuid_ctr d
    \<and> (\<exists>f. find_fact i d = Some f \<and> current f \<and> f_conflict f = Some cid)"
proof -
  from run obtain f k where f: "find_fact i d = Some f" "current f" "f_conflict f = Some cid"
    and k: "open_conflict_row cid d = Some k" "f_scope f = cf_scope k"
      "is_state f \<longrightarrow> f_subject f = Some (cf_subject k) \<and> f_predicate f = Some (cf_predicate k)"
    and t: "t = d\<lparr>members := members d @ [(cid, i)]\<rparr>"
    by (auto simp: add_conflict_member_def add_untyped_conflict_member_def andThen_Inr_iff insert_member_Inr in_slot_def
        split: option.splits)
  have grp: "open_group t f cid"
    using open_conflict_row_Some [OF k(1)] k(2,3) unfolding open_group_def t by (intro bexI [of _ k]) auto
  have "open_group t h c \<and> (c, f_id h) \<in> set (members t)"
    if h: "h \<in> set (facts t)" and c: "current h" "f_conflict h = Some c" for h c
  proof (cases "f_id h = i")
    case True
    with h f(1) wf have "h = f" by (auto simp: t wf_but_def dest: find_fact_Some same_id_same_fact)
    with grp f(3) c True show ?thesis by (auto simp: t)
  next
    case False
    with h c wf show ?thesis by (auto simp: t wf_but_def groups_but_def open_group_def)
  qed
  moreover have "distinct (map cf_id (conflicts t))" using wf by (simp add: t wf_but_def groups_but_def)
  ultimately have "groups_ok {} t" by (auto simp: groups_ok_def)
  moreover have "ids_ok t" "slots_unique (facts t)" "lineage_ok t"
    using wf unfolding t by (auto simp: wf_but_def ids_ok_def lineage_ok_def)
  ultimately show ?thesis using f t by (simp add: wf_db_def)
qed

lemma prepare_state_mutation_wf:
  assumes wf: "wf_db d" and run: "prepare_state_mutation env sd t0 close d = Inr (cid, d1)"
  shows "wf_db d1 \<and> evolves 0 d d1 \<and> (sd_action sd \<notin> {Supersede, Conflict} \<longrightarrow> cid = None)
    \<and> (sd_action sd = Supersede \<and> cid = None \<longrightarrow> (\<exists>i. sd_target sd = Some i \<and> i < next_fact d))"
proof -
  have ids: "ids_ok d" using wf by (simp add: wf_db_def)
  consider (same) "d1 = d" "sd_action sd \<notin> {Supersede, Conflict} \<longrightarrow> cid = None" "sd_action sd = Supersede \<longrightarrow> cid \<noteq> None"
    | (target) i where "sd_action sd = Supersede" "sd_target sd = Some i"
        "update_facts (\<lambda>f. f_id f = i \<and> (f_scope f = sd_scope sd \<and> active f))
          (\<lambda>f. f\<lparr>f_invalid_at := Some t0, f_expired_at := Some t0,
                 f_valid_to := (case close of None \<Rightarrow> f_valid_to f | Some v \<Rightarrow> coalesce (f_valid_to f) (Some v))\<rparr>) d = Inr (1, d1)"
    | (opened) k where "sd_action sd = Conflict" "cid = Some (kr_id k)"
        "open_state_conflict update_facts env (sd_subject sd) (sd_predicate sd) (sd_current sd)
            (sd_scope sd) (Some t0) (Some (JObj [(''reason'', JStr (sd_reason sd))])) d = Inr (k, d1)"
    using run unfolding prepare_state_mutation_def
    by (auto simp: andThen_Inr_iff split: if_splits option.splits)
  then show ?thesis
  proof cases
    case same
    with wf show ?thesis by (auto intro: evolves_refl)
  next
    case (target i)
    let ?p = "\<lambda>f. f_id f = i \<and> (f_scope f = sd_scope sd \<and> active f)"
    let ?g = "\<lambda>f. f\<lparr>f_invalid_at := Some t0, f_expired_at := Some t0,
                 f_valid_to := (case close of None \<Rightarrow> f_valid_to f | Some v \<Rightarrow> coalesce (f_valid_to f) (Some v))\<rparr>"
    from target(3) have d1: "d1 = d\<lparr>facts := update_where ?p ?g (facts d)\<rparr>" and n: "count_where ?p (facts d) = 1"
      by (auto simp: update_facts_Inr)
    have "wf_db d1" unfolding d1 using wf
      by (rule wf_frame) (auto simp: slot_frame_def current_def)
    moreover have "evolves 0 d d1"
      by (rule evolves_same_rows [OF ids, of ?p ?g]) (simp_all add: aged_def claim_of_def active_def current_def d1)
    moreover have "i < next_fact d" using count_where_one [of ?p "facts d"] n old_id [OF ids] by auto
    ultimately show ?thesis using target by auto
  next
    case (opened k)
    have "wf_upto {} d1" by (rule open_state_conflict_wf [OF _ opened(3)]) (simp add: wf)
    with open_state_conflict_evolves [OF ids opened(3)] opened show ?thesis by simp
  qed
qed

lemma persist_state_candidate_Inr:
  assumes "persist_state_candidate env res c cid conf d = Inr (u, t)"
  obtains f g where "f \<in> set (facts d)" "f_id f = fr_fact res" "current f" "freshly_inserted res"
    "t = d\<lparr>facts := update_where (\<lambda>f. f_id f = fr_fact res \<and> current f) g (facts d)\<rparr>" "slots_unique (facts t)"
    "g = (\<lambda>f. f\<lparr>f_kind := Some ''state'', f_subject := Some (sc_subject c), f_predicate := Some (sc_predicate c),
              f_object := sc_object c, f_authority := Some (sc_authority c), f_valid_from := sc_valid_from c,
              f_scope := sc_scope c, f_conflict := cid, f_confidence := conf, f_valid_to := sc_valid_to c,
              f_invalid_at := (if sc_valid_to c = None then f_invalid_at f else Some (latest env))\<rparr>)"
proof -
  let ?p = "\<lambda>f. f_id f = fr_fact res \<and> current f"
  let ?g = "\<lambda>f. f\<lparr>f_kind := Some ''state'', f_subject := Some (sc_subject c), f_predicate := Some (sc_predicate c),
              f_object := sc_object c, f_authority := Some (sc_authority c), f_valid_from := sc_valid_from c,
              f_scope := sc_scope c, f_conflict := cid, f_confidence := conf, f_valid_to := sc_valid_to c,
              f_invalid_at := (if sc_valid_to c = None then f_invalid_at f else Some (latest env))\<rparr>"
  from assms have t: "t = d\<lparr>facts := update_where ?p ?g (facts d)\<rparr>" and n: "count_where ?p (facts d) = Suc 0"
    and u: "slots_unique (update_where ?p ?g (facts d))" and fr: "freshly_inserted res"
    unfolding persist_state_candidate_def by (auto simp: andThen_Inr_iff update_facts_Inr)
  from count_where_one [OF n] obtain f where f: "f \<in> set (facts d)" "?p f" by blast
  have "slots_unique (facts t)" using u by (simp add: t)
  with that [of f ?g] f t fr show thesis by blast
qed

lemma finish_state_supersession_wf:
  assumes wf: "wf_db d" and run: "finish_state_supersession (Some i) n d = Inr (u, t)"
    and h: "h \<in> set (facts d)" "f_id h = n" "f_superseded_by h = None" "i \<noteq> n"
  shows "wf_db t \<and> evolves 0 d t"
proof -
  let ?p = "\<lambda>f. f_id f = i \<and> (f_invalid_at f \<noteq> None \<and> f_superseded_by f = None)"
  let ?g = "\<lambda>f. f\<lparr>f_superseded_by := Some n\<rparr>"
  from run have t: "t = d\<lparr>facts := update_where ?p ?g (facts d)\<rparr>"
    unfolding finish_state_supersession_def by (auto simp: andThen_Inr_iff update_facts_Inr)
  have "wf_db t" unfolding t using wf
    by (rule wf_retire [where j = n and h = h]) (use h in \<open>auto simp: slot_frame_def current_def\<close>)
  moreover have "evolves 0 d t"
    by (rule evolves_same_rows [of d ?p ?g]) (use wf in \<open>auto simp: wf_db_def aged_def claim_of_def t\<close>)
  ultimately show ?thesis ..
qed

text \<open>
  A typed fact takes its place in its slot: it is there with its open interval, and what else is
  current was there before and is not in a conflict that the write resolved.
\<close>

definition in_place :: "state_candidate \<Rightarrow> slot_decision \<Rightarrow> string option \<Rightarrow> int \<Rightarrow> db \<Rightarrow> db \<Rightarrow> bool" where
  "in_place c sd cid n d t \<longleftrightarrow>
     (\<exists>f \<in> set (facts d). \<exists>g \<in> set (facts t). f_id f = n \<and> f_id g = n \<and> f_content g = f_content f
        \<and> in_slot (sc_scope c) (sc_subject c) (sc_predicate c) g \<and> open_interval_fact g
        \<and> f_conflict g = (if sd_action sd = Conflict then cid else None))
     \<and> (\<forall>h \<in> set (facts t). f_id h \<noteq> n \<and> current h \<longrightarrow>
          h \<in> set (facts d) \<and> (sd_action sd = Supersede \<and> cid \<noteq> None \<longrightarrow> f_conflict h \<noteq> cid))"

lemma resolved_in_place:
  assumes wf: "wf_db d" and run: "resolve_state_conflict env k n by why dt cl se ag d = Inr (x, t)"
  shows "(\<forall>f \<in> set (facts d). f_id f = n \<and> current f \<and> f_conflict f = Some k \<longrightarrow> f\<lparr>f_conflict := None\<rparr> \<in> set (facts t))
    \<and> (\<forall>h \<in> set (facts t). f_id h \<noteq> n \<and> current h \<longrightarrow> h \<in> set (facts d) \<and> f_conflict h \<noteq> Some k)"
  using run
proof (rule resolve_state_conflict_Inr)
  fix losers resolved from_w reason who rs d1
  let ?p = "\<lambda>f. f_id f \<in> set losers \<and> f_conflict f = Some k \<and> f_invalid_at f = None"
  let ?g = "\<lambda>f. f\<lparr>f_invalid_at := Some resolved, f_expired_at := Some resolved,
                f_superseded_by := Some n, f_valid_to := from_w\<rparr>"
  let ?q = "\<lambda>f. f_id f = n \<and> (f_conflict f = Some k \<and> current f)"
  assume l: "losers = filter (\<lambda>i. i \<noteq> n) (member_ids k d)"
    and d1: "d1 = d\<lparr>facts := update_where ?p ?g (facts d)\<rparr>"
    and t: "t = d1\<lparr>facts := update_where ?q (\<lambda>f. f\<lparr>f_conflict := None\<rparr>) (facts d1),
       conflicts := update_where (\<lambda>c. cf_id c = k \<and> cf_resolved_at c = None)
       (\<lambda>c. c\<lparr>cf_resolved_at := Some resolved, cf_resolution := Some n,
              cf_resolved_by := Some who, cf_reason := Some reason\<rparr>) (conflicts d), resolutions := rs\<rparr>"
  have ft: "facts t = update_where ?q (\<lambda>f. f\<lparr>f_conflict := None\<rparr>) (update_where ?p ?g (facts d))" using t d1 by simp
  have "f\<lparr>f_conflict := None\<rparr> \<in> set (facts t)" if f: "f \<in> set (facts d)" "f_id f = n \<and> current f \<and> f_conflict f = Some k" for f
  proof -
    have "\<not> ?p f" using f l by simp
    with f(1) have "f \<in> set (update_where ?p ?g (facts d))" by (rule update_where_miss)
    with f(2) show ?thesis unfolding ft by (intro update_where_hit) auto
  qed
  moreover have "h \<in> set (facts d) \<and> f_conflict h \<noteq> Some k" if h: "h \<in> set (facts t)" "f_id h \<noteq> n \<and> current h" for h
  proof -
    from in_update_where [OF h(1) [unfolded ft]] h(2) have "h \<in> set (update_where ?p ?g (facts d))" by (auto split: if_splits)
    with h(2) untouched_current [of h ?p ?g "facts d"] have "h \<in> set (facts d)" "\<not> ?p h" by (auto simp: current_def)
    moreover from this h(2) wf have "(c, f_id h) \<in> set (members d)" if "f_conflict h = Some c" for c
      using that by (auto simp: wf_db_def groups_ok_def)
    ultimately show ?thesis using h(2) l by (force simp: member_ids_def current_def)
  qed
  ultimately show ?thesis by blast
qed

lemma settle_state_fact_wf:
  assumes wf: "wf_db d" and run: "settle_state_fact env ctx r t0 c sd typed cid res d = Inr (res', t)"
    and cid: "sd_action sd \<notin> {Supersede, Conflict} \<longrightarrow> cid = None"
    and tgt: "\<And>i. sd_action sd = Supersede \<Longrightarrow> cid = None \<Longrightarrow> sd_target sd = Some i \<Longrightarrow> i \<noteq> fr_fact res"
    and ev: "evolves m d0 d" "ids_ok d0" "next_fact d0 \<le> fr_fact res"
  shows "wf_db t \<and> evolves m d0 t \<and> (sc_valid_to c = None \<longrightarrow> in_place c sd cid (fr_fact res) d t)"
proof -
  from run obtain u d3 v where ps: "persist_state_candidate env res c cid (map_option tf_confidence typed) d = Inr (u, d3)"
    and rest: "(if sd_action sd = Supersede then
         (case cid of
            None \<Rightarrow> finish_state_supersession (sd_target sd) (fr_fact res)
          | Some cid \<Rightarrow>
              andThen (add_conflict_member cid (fr_fact res)) (\<lambda>_.
              andThen (resolve_state_conflict env cid (fr_fact res)
                (text_or (rq_asserted_by r) (text_or (rq_performed_by r) (cx_agent ctx))) (sd_reason sd)
                (Some t0) (Some (cx_client ctx)) (Some (cx_session ctx)) (Some (cx_agent ctx))) (\<lambda>_. ret ())))
       else if sd_action sd = Conflict then
         (case cid of
            None \<Rightarrow> raise (RuntimeError ''state conflict group was not established'')
          | Some cid \<Rightarrow> add_conflict_member cid (fr_fact res))
       else ret ()) d3 = Inr (v, t)"
    unfolding settle_state_fact_def by (auto simp only: andThen_Inr_iff liftE_Inr_iff)
  from ps show ?thesis
  proof (rule persist_state_candidate_Inr)
    fix f g
    let ?n = "fr_fact res"
    let ?p = "\<lambda>f. f_id f = ?n \<and> current f"
    assume f: "f \<in> set (facts d)" "f_id f = ?n" "current f"
      and d3: "d3 = d\<lparr>facts := update_where ?p g (facts d)\<rparr>" and u: "slots_unique (facts d3)"
      and g: "g = (\<lambda>f. f\<lparr>f_kind := Some ''state'', f_subject := Some (sc_subject c), f_predicate := Some (sc_predicate c),
              f_object := sc_object c, f_authority := Some (sc_authority c), f_valid_from := sc_valid_from c,
              f_scope := sc_scope c, f_conflict := cid, f_confidence := map_option tf_confidence typed,
              f_valid_to := sc_valid_to c,
              f_invalid_at := (if sc_valid_to c = None then f_invalid_at f else Some (latest env))\<rparr>)"
    have keep: "f_id (g h) = f_id h" "f_superseded_by (g h) = f_superseded_by h" "f_conflict (g h) = cid" for h
      by (simp_all add: g)
    have but: "wf_but ?n d3"
      unfolding d3 by (rule wf_but_update [OF wf_but_weaken [OF wf]]) (use u in \<open>auto simp: d3 g\<close>)
    have ev3: "evolves m d0 d3"
      by (rule evolves_update [OF ev(1,2), of ?p g]) (use ev(3) in \<open>auto simp: d3\<close>)
    have gf: "g f \<in> set (facts d3)" "f_id (g f) = ?n" "f_superseded_by (g f) = None"
      using f keep by (auto simp: d3 current_def intro: update_where_hit)
    have ids3: "ids_ok d3" using but by (simp add: wf_but_def)
    have others: "h \<in> set (facts d)" if "h \<in> set (facts d3)" "f_id h \<noteq> ?n" for h
      using that keep(1) by (auto simp: d3 set_update_where split: if_splits)
    have placed: "in_slot (sc_scope c) (sc_subject c) (sc_predicate c) (g f) \<and> open_interval_fact (g f)
        \<and> f_content (g f) = f_content f" if "sc_valid_to c = None"
      using that f by (simp add: g in_slot_def is_state_def open_interval_fact_def current_def)
    show ?thesis
    proof (cases cid)
      case None
      have "\<not> current h \<or> f_conflict h = None" if h: "h \<in> set (facts d3)" "f_id h = ?n" for h
        using same_id_same_fact [OF ids3 h(1) gf(1)] h gf(2) keep(3) None by auto
      with but have wf3: "wf_db d3" by (rule wf_but_free)
      show ?thesis
      proof (cases "sd_action sd = Supersede")
        case True
        with rest None have fin: "finish_state_supersession (sd_target sd) ?n d3 = Inr (v, t)" by simp
        then obtain i where i: "sd_target sd = Some i" by (cases "sd_target sd") (auto simp: finish_state_supersession_def)
        have same: "h \<in> set (facts t) \<longleftrightarrow> h \<in> set (facts d3)" if "current h" for h
          using fin that by (auto simp: i finish_state_supersession_def andThen_Inr_iff update_facts_Inr
              set_update_where current_def)
        have "in_place c sd cid ?n d t" if "sc_valid_to c = None"
          unfolding in_place_def using placed [OF that] f(1,2) gf(1,2) same others None True keep(3)
          by (intro conjI bexI [of _ f] bexI [of _ "g f"]) (auto simp: open_interval_fact_def)
        with finish_state_supersession_wf [OF wf3 fin [unfolded i] gf] tgt [OF True None i] evolves_trans [OF ev3, of 0 t]
        show ?thesis by simp
      next
        case False
        with rest None have "t = d3" by (auto split: if_splits)
        moreover have "in_place c sd cid ?n d d3" if "sc_valid_to c = None"
          unfolding in_place_def using placed [OF that] f(1,2) gf(1,2) others None False keep(3)
          by (intro conjI bexI [of _ f] bexI [of _ "g f"]) auto
        ultimately show ?thesis using wf3 ev3 by simp
      qed
    next
      case (Some k)
      then have act: "sd_action sd = Supersede \<or> sd_action sd = Conflict" using cid by auto
      with rest Some obtain w d4 where add: "add_conflict_member k ?n d3 = Inr (w, d4)"
        and more: "sd_action sd = Conflict \<and> t = d4 \<or> sd_action sd = Supersede
          \<and> (\<exists>by why dt cl se ag x. resolve_state_conflict env k ?n by why dt cl se ag d4 = Inr (x, t))"
        by (auto simp: andThen_Inr_iff split: if_splits, blast)
      from join_conflict_wf [OF but disjI1 [OF add]] have wf4: "wf_db d4" and eq: "facts d4 = facts d3" "next_fact d4 = next_fact d3"
        by auto
      have ev4: "evolves m d0 d4" by (rule evolves_cong [OF ev3 eq])
      from more show ?thesis
      proof (elim disjE exE conjE)
        fix b why dt cl se ag x assume r: "resolve_state_conflict env k ?n b why dt cl se ag d4 = Inr (x, t)"
        assume sup: "sd_action sd = Supersede"
        have "in_place c sd cid ?n d t" if "sc_valid_to c = None"
        proof -
          let ?g = "(g f)\<lparr>f_conflict := None\<rparr>"
          from placed [OF that] gf keep(3) Some eq(1) resolved_in_place [OF wf4 r]
          have "?g \<in> set (facts t)" by (auto simp: open_interval_fact_def)
          moreover have "in_slot (sc_scope c) (sc_subject c) (sc_predicate c) ?g" "open_interval_fact ?g"
            "f_content ?g = f_content f"
            using placed [OF that] by (simp_all add: in_slot_def is_state_def open_interval_fact_def current_def)
          moreover have "h \<in> set (facts d) \<and> f_conflict h \<noteq> cid" if "h \<in> set (facts t)" "f_id h \<noteq> ?n" "current h" for h
            using resolved_in_place [OF wf4 r] that others eq(1) Some by auto
          ultimately show ?thesis using f(1,2) gf(2) sup unfolding in_place_def
            by (intro conjI bexI [of _ f] bexI [of _ ?g]) auto
        qed
        with resolve_state_conflict_wf [OF wf4 r] evolves_trans [OF ev4 resolve_state_conflict_evolves [OF wf4 r]]
        show ?thesis by simp
      next
        assume c: "sd_action sd = Conflict" "t = d4"
        have "in_place c sd cid ?n d t" if "sc_valid_to c = None"
          unfolding in_place_def using placed [OF that] f(1,2) gf(1,2) others c eq(1) keep(3)
          by (intro conjI bexI [of _ f] bexI [of _ "g f"]) auto
        with wf4 ev4 c show ?thesis by simp
      qed
    qed
  qed
qed

text \<open>An untyped contradiction: the old and the new fact join a fresh conflict.\<close>

lemma open_untyped_write_conflict_wf:
  assumes wf: "wf_db d" and run: "open_untyped_write_conflict env m n r t0 d = Inr (cid, t)"
  shows "wf_db t \<and> evolves 0 d t"
proof -
  have ids: "ids_ok d" using wf by (simp add: wf_db_def)
  from run obtain k d1 d2 u where
    op: "open_untyped_conflict env [ct_fact m] (rq_scope r) (ct_subject m) (ct_predicate m)
       (Some t0) (Some (JObj [(''reason'', JStr ''untyped contradiction'')])) d = Inr (k, d1)"
    and up: "update_facts (\<lambda>f. f_id f = n \<and> (f_scope f = rq_scope r \<and> active f))
       (\<lambda>f. f\<lparr>f_conflict := Some (kr_id k), f_subject := coalesce (f_subject f) (Some (ct_subject m)),
              f_predicate := coalesce (f_predicate f) (Some (ct_predicate m))\<rparr>) d1 = Inr (1, d2)"
    and add: "add_untyped_conflict_member (kr_id k) n d2 = Inr (u, t)"
    unfolding open_untyped_write_conflict_def by (auto simp: andThen_Inr_iff)
  let ?p = "\<lambda>f. f_id f = n \<and> (f_scope f = rq_scope r \<and> active f)"
  let ?g = "\<lambda>f. f\<lparr>f_conflict := Some (kr_id k), f_subject := coalesce (f_subject f) (Some (ct_subject m)),
              f_predicate := coalesce (f_predicate f) (Some (ct_predicate m))\<rparr>"
  have wf1: "wf_db d1" using open_untyped_conflict_wf [where X = "{}", OF _ op] wf by simp
  have ev1: "evolves 0 d d1" by (rule open_untyped_conflict_evolves [OF ids op])
  from up have d2: "d2 = d1\<lparr>facts := update_where ?p ?g (facts d1)\<rparr>" and u: "slots_unique (update_where ?p ?g (facts d1))"
    by (auto simp: update_facts_Inr)
  have "wf_but n d2" unfolding d2
    by (rule wf_but_update [OF wf_but_weaken [OF wf1] u]) auto
  from join_conflict_wf [OF this disjI2 [OF add]] have wft: "wf_db t" and eq: "facts t = facts d2" "next_fact t = next_fact d2"
    by auto
  have "evolves 0 d1 d2"
    by (rule evolves_same_rows [of d1 ?p ?g]) (use wf1 in \<open>auto simp: wf_db_def aged_def claim_of_def d2\<close>)
  with evolves_trans [OF ev1] have "evolves 0 d d2" by fastforce
  then show ?thesis using wft evolves_cong eq by blast
qed

lemma supersede_near_duplicate_wf:
  assumes wf: "wf_db d" and run: "supersede_near_duplicate l s t0 d = Inr (u, t)"
    and h: "h \<in> set (facts d)" "f_id h = s" "f_superseded_by h = None" "l \<noteq> s"
  shows "wf_db t \<and> evolves 0 d t"
proof -
  let ?p = "\<lambda>f. f_id f = l \<and> current f"
  let ?g = "\<lambda>f. f\<lparr>f_invalid_at := Some t0, f_expired_at := Some t0, f_superseded_by := Some s\<rparr>"
  from run have t: "t = d\<lparr>facts := update_where ?p ?g (facts d)\<rparr>"
    unfolding supersede_near_duplicate_def by (auto simp: andThen_Inr_iff update_facts_Inr)
  have "wf_db t" unfolding t using wf
    by (rule wf_retire [where j = s and h = h]) (use h in \<open>auto simp: slot_frame_def current_def\<close>)
  moreover have "evolves 0 d t"
    by (rule evolves_same_rows [of d ?p ?g]) (use wf in \<open>auto simp: wf_db_def aged_def claim_of_def current_def t\<close>)
  ultimately show ?thesis ..
qed

lemma merge_near_duplicate_wf:
  assumes wf: "wf_db d" and run: "merge_near_duplicate ins c r t0 d = Inr (x, t)"
    and h: "h \<in> set (facts d)" "f_id h = fr_fact ins" "current h" "nd_fact c \<noteq> fr_fact ins"
  shows "wf_db t \<and> evolves 0 d t"
proof -
  from run obtain f where f: "first_where (\<lambda>f. f_id f = nd_fact c \<and> current f) (facts d) = Some f"
    and more: "(\<exists>u. supersede_near_duplicate (nd_fact c) (fr_fact ins) t0 d = Inr (u, t))
       \<or> (\<exists>u. supersede_near_duplicate (fr_fact ins) (nd_fact c) t0 d = Inr (u, t))"
    unfolding merge_near_duplicate_def near_duplicate_candidate_is_protected_def
    by (auto simp: andThen_Inr_iff split: option.splits if_splits)
  from first_where_Some [OF f] have f: "f \<in> set (facts d)" "f_id f = nd_fact c" "f_superseded_by f = None"
    by (auto simp: current_def)
  have "f_superseded_by h = None" using h(3) by (simp add: current_def)
  with more f h wf show ?thesis
    by (elim disjE exE) (rule supersede_near_duplicate_wf, assumption+, simp)+
qed

text \<open>The typed fields of a fact that is not state.\<close>

lemma persist_nonstate_wf:
  assumes wf: "wf_db d" and run: "persist_nonstate_extracted_typed_fields res t1 d = Inr (u, t)"
    and free: "\<And>f. f \<in> set (facts d) \<Longrightarrow> f_id f = fr_fact res \<Longrightarrow> f_conflict f = None"
    and ev: "evolves m d0 d" "ids_ok d0" "next_fact d0 \<le> fr_fact res"
  shows "wf_db t \<and> evolves m d0 t \<and> (\<forall>f \<in> set (facts d). \<exists>g \<in> set (facts t). f_id g = f_id f \<and> f_superseded_by g = f_superseded_by f)"
proof -
  let ?p = "\<lambda>f. f_id f = fr_fact res \<and> current f"
  let ?g = "\<lambda>f. f\<lparr>f_kind := Some (tf_kind t1), f_subject := Some (tf_subject t1), f_predicate := Some (tf_predicate t1),
              f_object := tf_object t1, f_confidence := Some (tf_confidence t1), f_valid_from := tf_valid_from t1\<rparr>"
  from run have t: "t = d\<lparr>facts := update_where ?p ?g (facts d)\<rparr>" and u: "slots_unique (update_where ?p ?g (facts d))"
    unfolding persist_nonstate_extracted_typed_fields_def by (auto simp: andThen_Inr_iff update_facts_Inr)
  have but: "wf_but (fr_fact res) t" unfolding t
    by (rule wf_but_update [OF wf_but_weaken [OF wf] u]) auto
  have "wf_db t"
  proof (rule wf_but_free [OF but])
    fix f assume "f \<in> set (facts t)" "f_id f = fr_fact res"
    then show "\<not> current f \<or> f_conflict f = None"
      using free unfolding t by (auto dest!: in_update_where split: if_splits)
  qed
  moreover have "evolves m d0 t"
    by (rule evolves_update [OF ev(1,2), of ?p ?g]) (use ev(3) in \<open>auto simp: t\<close>)
  moreover have "\<exists>g \<in> set (facts t). f_id g = f_id f \<and> f_superseded_by g = f_superseded_by f" if f: "f \<in> set (facts d)" for f
  proof (cases "?p f")
    case True
    have "?g f \<in> set (facts t)" using update_where_hit [of f "facts d" ?p ?g, OF f True] by (simp add: t)
    then show ?thesis by (intro bexI [of _ "?g f"]) simp_all
  next
    case False
    then have "f \<in> set (facts t)" using f by (auto simp: t intro: update_where_miss)
    then show ?thesis by blast
  qed
  ultimately show ?thesis by blast
qed

lemma supersede_if_requested_wf:
  assumes wf: "wf_db d" and run: "supersede_if_requested old n t0 d = Inr (b, t)"
    and h: "old \<noteq> None \<Longrightarrow> \<exists>h \<in> set (facts d). f_id h = n \<and> f_superseded_by h = None"
  shows "wf_db t \<and> evolves 0 d t"
proof (cases old)
  case None
  with run wf show ?thesis by (auto simp: supersede_if_requested_def intro: evolves_refl)
next
  case (Some i)
  with run obtain sc where i: "i \<noteq> n" and t: "t = d\<lparr>facts := update_where (\<lambda>f. f_id f = i \<and> (f_scope f = sc \<and> current f))
       (\<lambda>f. f\<lparr>f_invalid_at := Some t0, f_expired_at := Some t0, f_superseded_by := Some n\<rparr>) (facts d)\<rparr>"
    unfolding supersede_if_requested_def by (auto simp: andThen_Inr_iff update_facts_Inr split: option.splits)
  let ?p = "\<lambda>f. f_id f = i \<and> (f_scope f = sc \<and> current f)"
  let ?g = "\<lambda>f. f\<lparr>f_invalid_at := Some t0, f_expired_at := Some t0, f_superseded_by := Some n\<rparr>"
  from h Some obtain h where h: "h \<in> set (facts d)" "f_id h = n" "f_superseded_by h = None" by auto
  have "wf_db t" unfolding t using wf
    by (rule wf_retire [where j = n and h = h]) (use h i in \<open>auto simp: slot_frame_def current_def\<close>)
  moreover have "evolves 0 d t"
    by (rule evolves_same_rows [of d ?p ?g]) (use wf in \<open>auto simp: wf_db_def aged_def claim_of_def current_def t\<close>)
  ultimately show ?thesis ..
qed

section \<open>What leaves the facts alone\<close>

lemma andThen_const_Inr: "andThen m (\<lambda>_. ret a) s = Inr (b, t) \<longleftrightarrow> b = a \<and> (\<exists>u. m s = Inr (u, t))"
  by (auto simp: andThen_def split: sum.splits)

definition quiet :: "db \<Rightarrow> db \<Rightarrow> bool" where
  "quiet d t \<longleftrightarrow> facts t = facts d \<and> next_fact t = next_fact d \<and> conflicts t = conflicts d \<and> members t = members d"

lemma quiet_refl [simp]: "quiet d d"
  by (simp add: quiet_def)

lemma quiet_trans: "quiet d s \<Longrightarrow> quiet s t \<Longrightarrow> quiet d t"
  by (simp add: quiet_def)

lemma quiet_wf: "quiet d t \<Longrightarrow> wf_db t = wf_db d"
  unfolding wf_upto_empty [symmetric] by (rule wf_upto_cong) (simp_all add: quiet_def)

lemma quiet_evolves: "quiet d t \<Longrightarrow> evolves 0 d t"
  by (simp add: quiet_def evolves_refl)

lemma evolves_quiet: "evolves n d s \<Longrightarrow> quiet s t \<Longrightarrow> evolves n d t"
  by (simp add: quiet_def evolves_def)

lemma quiet_ops:
  "register_client ctx t0 d = Inr (u, t) \<Longrightarrow> quiet d t"
  "register_session ctx t0 d = Inr (u, t) \<Longrightarrow> quiet d t"
  "record_observation env ctx r t0 d = Inr (i, t) \<Longrightarrow> quiet d t"
  "attach_provenance i j r t0 d = Inr (u, t) \<Longrightarrow> quiet d t"
  "insert_log l d = Inr (u, t) \<Longrightarrow> quiet d t"
  "uuid4 env d = Inr (w, t) \<Longrightarrow> quiet d t"
  by (auto simp: register_client_def register_session_def record_observation_def attach_provenance_def insert_log_def
      uuid4_def andThen_Inr_iff quiet_def Let_def split: option.splits if_splits)

lemma authorize_fact_scope_reads:
  "authorize_fact_scope i sc d = Inr (u, t) \<longleftrightarrow> t = d \<and> (\<exists>f. find_fact i d = Some f \<and> f_scope f = sc)"
  by (auto simp: authorize_fact_scope_def andThen_Inr_iff split: option.splits)

lemma max_first_in: "max_first k x xs \<in> set (x # xs)"
  by (induction xs arbitrary: x) (fastforce split: if_splits)+

lemma exact_duplicate_active:
  "find_untyped_exact_duplicate r d = Some i \<Longrightarrow> \<exists>f \<in> set (facts d). f_id f = i \<and> active f \<and> f_content f = rq_content r \<and> f_scope f = rq_scope r"
  unfolding find_untyped_exact_duplicate_def by (auto dest!: first_where_Some)

lemma near_duplicate_active:
  assumes "find_untyped_near_duplicate sv r query d = Some c"
  shows "\<exists>f \<in> set (facts d). f_id f = nd_fact c \<and> active f \<and> f_scope f = rq_scope r
    \<and> safe_to_merge_near_duplicate (rq_content r) (f_content f)"
proof -
  from assms obtain q cs where "find_write_near_duplicates (sv_index sv) (rq_content r) (rq_scope r) q
                  (nc_threshold (sv_near sv)) (nc_limit (sv_near sv)) (nc_identity (sv_near sv)) d = Inr cs" "c \<in> set cs"
    unfolding find_untyped_near_duplicate_def
    by (auto split: option.splits if_splits sum.splits list.splits) (metis max_first_in)
  from near_candidate_active [OF this] show ?thesis by blast
qed

lemma untyped_targets_cases:
  assumes "untyped_targets sv r cand typed query d = (dup, con, near)"
  shows "(cand \<noteq> None \<longrightarrow> dup = None \<and> con = None \<and> near = None)
    \<and> (typed \<noteq> None \<or> rq_supersede r \<noteq> None \<longrightarrow> con = None \<and> near = None) \<and> (con = None \<or> near = None)
    \<and> (dup = None \<or> find_untyped_exact_duplicate r d = dup)
    \<and> (near = None \<or> find_untyped_near_duplicate sv r query d = near)"
  using assms unfolding untyped_targets_def Let_def by (auto split: option.splits if_splits)

text \<open>The stages of an admitted write.\<close>

lemma andThenE:
  assumes "andThen m f s = Inr (b, t)"
  obtains a s' where "m s = Inr (a, s')" "f a s' = Inr (b, t)"
  using assms by (auto simp: andThen_Inr_iff)

lemma admitted_write_Inr:
  assumes "admitted_write sv env ctx r rh cand eff sd typed query d = Inr (out, t)"
  obtains obs d1 targets x res enq d2 d3 d5 sup d6 wid d7 det where
    "record_observation env ctx r (now env) d = Inr (obs, d1)"
    "targets = untyped_targets sv r cand typed query d1"
    "apply_fact sv env ctx r (now env) eff sd typed targets obs d1 = Inr (x, d2)" "res = fst x" "enq = snd (snd x)"
    "(case (enq, sv_enqueue sv) of (Some i, Some enq) \<Rightarrow> andThen (enq env i) (\<lambda>_. ret ()) | _ \<Rightarrow> ret ()) d2 = Inr ((), d3)"
    "\<exists>f. find_fact (fr_fact res) d3 = Some f \<and> f_scope f = rq_scope r"
    "attach_provenance (fr_fact res) obs r (now env) d3 = Inr ((), d5)"
    "(if cand = None then supersede_if_requested (rq_supersede r) (fr_fact res) (now env) else ret False) d5 = Inr (sup, d6)"
    "uuid4 env d6 = Inr (wid, d7)"
    "insert_log \<lparr>lg_write_id = wid, lg_key = rq_key r, lg_client = cx_client ctx,
        lg_session = cx_session ctx, lg_operation = rq_operation r, lg_outcome = fr_outcome res,
        lg_fact = Some (fr_fact res), lg_existing = fr_existing res, lg_observation = Some obs,
        lg_recorded_at = now env, lg_sha256 = rh, lg_detail = det\<rparr> d7 = Inr ((), t)"
    "make_outcome \<lparr>oc_write_id = wid, oc_outcome = fr_outcome res, oc_fact = Some (fr_fact res),
        oc_existing = fr_existing res, oc_observation = Some obs, oc_replayed = False, oc_detail = det\<rparr> = Inr out"
proof -
  from assms show thesis
    unfolding admitted_write_def Let_def split_beta
    by (elim andThenE) (rule that, auto simp only: gets_apply sum.inject prod.inject prod.collapse liftE_Inr_iff
        authorize_fact_scope_reads fst_conv snd_conv)
qed

text \<open>The stages of a write: replay, a factless decision, or an admitted write.\<close>

lemma decide_write_Inr:
  assumes "decide_write sv ctx r cand d = Inr ((dec, sd, eff), t)"
  shows "t = d \<and> (dec = None \<longrightarrow> (eff = None \<longleftrightarrow> cand = None) \<and> (sd = None \<longleftrightarrow> cand = None)
    \<and> write_policy sv ctx r cand d = Inr None \<and> effective_candidate r cand = Inr eff)"
proof -
  from assms obtain dec0 eff0 where w: "write_policy sv ctx r cand d = Inr dec0" "effective_candidate r cand = Inr eff0"
    and more: "(case (dec0, eff0) of
       (None, Some c) \<Rightarrow>
         bindE (decide_state_write c d) (\<lambda>sd0.
         let sd = adjust_conflict_decision sv ctx r d sd0 in
         Inr ((slot_policy r c sd d, Some sd, Some c), d))
     | _ \<Rightarrow> Inr ((dec0, None, eff0), d)) = Inr ((dec, sd, eff), t)"
    unfolding decide_write_def by (auto simp: bindE_Inr_iff)
  have e: "eff0 = None \<longleftrightarrow> cand = None"
    using w(2) by (auto simp: effective_candidate_def bindE_Inr_iff split: option.splits if_splits)
  show ?thesis
  proof (cases "dec0 = None \<and> eff0 \<noteq> None")
    case True
    then obtain c where "eff0 = Some c" by auto
    with True more e w show ?thesis by (auto simp: bindE_Inr_iff Let_def)
  next
    case False
    with more have "dec = dec0 \<and> sd = None \<and> eff = eff0 \<and> t = d" by (auto split: option.splits)
    with False e w show ?thesis by auto
  qed
qed

lemma write_in_transaction_cases:
  assumes "write_in_transaction sv env ctx r cand typed query d = Inr (out, t)"
  obtains d0 d' where "register_client ctx (now env) d = Inr ((), d0)" "register_session ctx (now env) d0 = Inr ((), d')"
    "(\<exists>l. load_prior (cx_client ctx) (rq_key r) d' = Some l \<and> lg_sha256 l = request_sha256 env ctx r cand
        \<and> outcome_from_row l True = Inr out \<and> t = d')
     \<or> load_prior (cx_client ctx) (rq_key r) d' = None \<and>
       (\<exists>dec sd eff. decide_write sv ctx r cand d' = Inr ((dec, sd, eff), d') \<and>
         (case dec of
            Some x \<Rightarrow> (if factless_decision_is_durable x
              then record_factless_decision env ctx r (request_sha256 env ctx r cand) (now env) x
              else ephemeral_factless_outcome env x) d' = Inr (out, t)
          | None \<Rightarrow> admitted_write sv env ctx r (request_sha256 env ctx r cand) cand eff sd typed query d' = Inr (out, t)))"
proof -
  from assms obtain d0 d' where reg: "register_client ctx (now env) d = Inr ((), d0)"
    "register_session ctx (now env) d0 = Inr ((), d')"
    and body: "(case load_prior (cx_client ctx) (rq_key r) d' of
        Some l \<Rightarrow>
          andThen (require (lg_sha256 l = request_sha256 env ctx r cand)
            (IdempotencyConflict ''idempotency key was already used for a different request'')) (\<lambda>_.
          liftE (outcome_from_row l True))
      | None \<Rightarrow>
          andThen (decide_write sv ctx r cand) (\<lambda>(dec, sd, eff). case dec of
            Some x \<Rightarrow>
              if factless_decision_is_durable x
              then record_factless_decision env ctx r (request_sha256 env ctx r cand) (now env) x
              else ephemeral_factless_outcome env x
          | None \<Rightarrow> admitted_write sv env ctx r (request_sha256 env ctx r cand) cand eff sd typed query)) d' = Inr (out, t)"
    unfolding write_in_transaction_def Let_def
    by (elim andThenE) (rule that, (simp_all only: gets_apply sum.inject prod.inject, auto))
  show thesis
  proof (cases "load_prior (cx_client ctx) (rq_key r) d'")
    case (Some l)
    with body that [OF reg] show thesis by (auto simp: andThen_Inr_iff)
  next
    case None
    with body obtain dec sd eff d1 where dec: "decide_write sv ctx r cand d' = Inr ((dec, sd, eff), d1)"
      and rest: "(case dec of
            Some x \<Rightarrow>
              if factless_decision_is_durable x
              then record_factless_decision env ctx r (request_sha256 env ctx r cand) (now env) x
              else ephemeral_factless_outcome env x
          | None \<Rightarrow> admitted_write sv env ctx r (request_sha256 env ctx r cand) cand eff sd typed query) d1 = Inr (out, t)"
      by (auto simp: andThen_Inr_iff)
    have "d1 = d'" using decide_write_Inr [OF dec] by blast
    with dec rest None show thesis by (intro that [OF reg] disjI2 conjI) (auto split: option.splits)
  qed
qed

lemma write_memory_cases:
  assumes "write_memory sv env ctx r cand d = Inr (out, t)"
  obtains ctx' d0 d' typed query where
    "authorize_context (sv_policy sv) (sv_legacy sv) ctx = Inr ctx'"
    "validate_state_candidate r cand = Inr ()" "extracted_typed_fields r cand = Inr typed"
    "prepare_near_dedup_query sv ctx' r cand d = Inr query"
    "register_client ctx' (now env) d = Inr ((), d0)" "register_session ctx' (now env) d0 = Inr ((), d')"
    "(\<exists>l. load_prior (cx_client ctx') (rq_key r) d' = Some l \<and> lg_sha256 l = request_sha256 env ctx' r cand
        \<and> outcome_from_row l True = Inr out \<and> t = d')
     \<or> load_prior (cx_client ctx') (rq_key r) d' = None \<and>
       (\<exists>dec sd eff. decide_write sv ctx' r cand d' = Inr ((dec, sd, eff), d') \<and>
         (case dec of
            Some x \<Rightarrow> (if factless_decision_is_durable x
              then record_factless_decision env ctx' r (request_sha256 env ctx' r cand) (now env) x
              else ephemeral_factless_outcome env x) d' = Inr (out, t)
          | None \<Rightarrow> admitted_write sv env ctx' r (request_sha256 env ctx' r cand) cand eff sd typed query d' = Inr (out, t)))"
proof -
  from assms obtain ctx' typed query where w: "authorize_context (sv_policy sv) (sv_legacy sv) ctx = Inr ctx'"
    "validate_state_candidate r cand = Inr ()" "extracted_typed_fields r cand = Inr typed"
    "prepare_near_dedup_query sv ctx' r cand d = Inr query"
    and run: "write_in_transaction sv env ctx' r cand typed query d = Inr (out, t)"
    unfolding write_memory_def by (auto simp: andThen_Inr_iff)
  show thesis by (rule write_in_transaction_cases [OF run]) (rule that [OF w])
qed

lemma factless_quiet:
  "record_factless_decision env ctx r h t0 x d = Inr (out, t) \<Longrightarrow> quiet d t \<and> oc_fact out = None"
  "ephemeral_factless_outcome env x d = Inr (out, t) \<Longrightarrow> quiet d t \<and> oc_fact out = None"
  by (auto simp: record_factless_decision_def ephemeral_factless_outcome_def andThen_Inr_iff insert_log_def uuid4_def
      quiet_def factless_outcome_def make_outcome_def bindE_Inr_iff split: if_splits)

lemma outcome_flag: "outcome_from_row l b = Inr out \<Longrightarrow> oc_replayed out = b"
  by (auto simp: outcome_from_row_def make_outcome_def bindE_Inr_iff)

text \<open>A fresh outcome with a fact comes from an admitted write.\<close>

lemma write_memory_admitted:
  assumes run: "write_memory sv env ctx r cand d = Inr (out, t)" and fresh: "oc_fact out \<noteq> None" "\<not> oc_replayed out"
  obtains ctx' d0 d' typed query sd eff where
    "authorize_context (sv_policy sv) (sv_legacy sv) ctx = Inr ctx'"
    "validate_state_candidate r cand = Inr ()" "extracted_typed_fields r cand = Inr typed"
    "register_client ctx' (now env) d = Inr ((), d0)" "register_session ctx' (now env) d0 = Inr ((), d')"
    "decide_write sv ctx' r cand d' = Inr ((None, sd, eff), d')"
    "admitted_write sv env ctx' r (request_sha256 env ctx' r cand) cand eff sd typed query d' = Inr (out, t)"
  using run
proof (rule write_memory_cases)
  fix ctx' d0 d' typed query
  assume w: "authorize_context (sv_policy sv) (sv_legacy sv) ctx = Inr ctx'"
    "validate_state_candidate r cand = Inr ()" "extracted_typed_fields r cand = Inr typed"
    and reg: "register_client ctx' (now env) d = Inr ((), d0)" "register_session ctx' (now env) d0 = Inr ((), d')"
    and body: "(\<exists>l. load_prior (cx_client ctx') (rq_key r) d' = Some l \<and> lg_sha256 l = request_sha256 env ctx' r cand
        \<and> outcome_from_row l True = Inr out \<and> t = d')
     \<or> load_prior (cx_client ctx') (rq_key r) d' = None \<and>
       (\<exists>dec sd eff. decide_write sv ctx' r cand d' = Inr ((dec, sd, eff), d') \<and>
         (case dec of
            Some x \<Rightarrow> (if factless_decision_is_durable x
              then record_factless_decision env ctx' r (request_sha256 env ctx' r cand) (now env) x
              else ephemeral_factless_outcome env x) d' = Inr (out, t)
          | None \<Rightarrow> admitted_write sv env ctx' r (request_sha256 env ctx' r cand) cand eff sd typed query d' = Inr (out, t)))"
  from body show thesis
  proof (elim disjE exE conjE)
    fix l assume "outcome_from_row l True = Inr out"
    with outcome_flag [of l True out] fresh show thesis by simp
  next
    fix dec sd eff
    assume dec: "decide_write sv ctx' r cand d' = Inr ((dec, sd, eff), d')"
      and rest: "case dec of
            Some x \<Rightarrow> (if factless_decision_is_durable x
              then record_factless_decision env ctx' r (request_sha256 env ctx' r cand) (now env) x
              else ephemeral_factless_outcome env x) d' = Inr (out, t)
          | None \<Rightarrow> admitted_write sv env ctx' r (request_sha256 env ctx' r cand) cand eff sd typed query d' = Inr (out, t)"
    have "dec = None"
    proof (rule ccontr)
      assume "dec \<noteq> None"
      with rest have "oc_fact out = None" using factless_quiet by (auto split: if_splits)
      with fresh show False by simp
    qed
    with dec rest show thesis by (intro that [OF w reg]) auto
  qed
qed

section \<open>The contract with the fact store\<close>

locale write_contract =
  fixes sv :: service
  assumes writer_appends: "ids_ok d \<Longrightarrow> sv_writer sv env r obs d = Inr (res, t) \<Longrightarrow>
      \<exists>f. t = d\<lparr>facts := facts d @ [f], next_fact := next_fact d + 1\<rparr> \<and> slots_unique (facts t)
        \<and> f_id f = next_fact d \<and> active f \<and> fr_fact res = next_fact d \<and> freshly_inserted res
        \<and> f_scope f = strip (rq_scope r) \<and> f_content f = strip (rq_content r)"
    and enqueue_adds_jobs: "sv_enqueue sv = Some enq \<Longrightarrow> enq env i d = Inr (j, t) \<Longrightarrow> \<exists>js. t = d\<lparr>jobs := js\<rparr>"
begin

lemma writer_wf:
  assumes "wf_db d" "sv_writer sv env r obs d = Inr (res, t)"
  shows "wf_db t \<and> evolves 1 d t"
proof -
  from writer_appends [OF _ assms(2)] assms(1) obtain f where f: "t = d\<lparr>facts := facts d @ [f], next_fact := next_fact d + 1\<rparr>"
    "slots_unique (facts t)" "f_id f = next_fact d" "active f" by (auto simp: wf_db_def)
  have "wf_db t" unfolding f(1) by (rule wf_append) (use assms(1) f in \<open>auto simp: active_def current_def\<close>)
  moreover have "evolves 1 d t" using evolves_append [OF evolves_refl [of d d], of t f] f(1) by simp
  ultimately show ?thesis ..
qed

lemma typed_insert_wf:
  assumes wf: "wf_db d"
    and run: "insert_new_fact sv env ctx r t0 (Some c) (Some sd) typed None None obs d = Inr (x, t)"
  shows "wf_db t \<and> evolves 1 d t \<and> fr_fact (fst x) = next_fact d \<and> fr_outcome (fst x) = action_name (sd_action sd)
    \<and> (sc_valid_to c = None \<longrightarrow> (\<exists>cid d1 d2 f. prepare_state_mutation env sd t0 (sc_valid_from c) d = Inr (cid, d1)
        \<and> facts d2 = facts d1 @ [f] \<and> f_id f = next_fact d \<and> f_content f = strip (rq_content r)
        \<and> in_place c sd cid (next_fact d) d2 t))"
proof -
  from run obtain cid d1 res d2 res' y where x: "fst x = res'" and pr: "prepare_state_mutation env sd t0 (sc_valid_from c) d = Inr (cid, d1)"
    and wr: "sv_writer sv env r obs d1 = Inr (res, d2)"
    and st: "settle_state_fact env ctx r t0 c sd typed cid res d2 = Inr (res', t)"
    unfolding insert_new_fact_def by (auto simp: andThen_Inr_iff)
  from prepare_state_mutation_wf [OF wf pr] have wf1: "wf_db d1" and ev1: "evolves 0 d d1"
    and cid: "sd_action sd \<notin> {Supersede, Conflict} \<longrightarrow> cid = None"
    and tgt: "sd_action sd = Supersede \<and> cid = None \<longrightarrow> (\<exists>i. sd_target sd = Some i \<and> i < next_fact d)" by auto
  from writer_wf [OF wf1 wr] have wf2: "wf_db d2" and "evolves 1 d1 d2" by auto
  with evolves_trans [OF ev1] have ev2: "evolves 1 d d2" by fastforce
  from writer_appends [OF _ wr] wf1 ev1 obtain f where n: "fr_fact res = next_fact d"
    and f: "facts d2 = facts d1 @ [f]" "f_id f = next_fact d" "f_content f = strip (rq_content r)"
    by (auto simp: evolves_def wf_db_def)
  have "fr_fact res' = fr_fact res \<and> fr_outcome res' = action_name (sd_action sd)"
    using st by (auto simp: settle_state_fact_def andThen_Inr_iff make_result_def bindE_Inr_iff)
  moreover have "wf_db t \<and> evolves 1 d t \<and> (sc_valid_to c = None \<longrightarrow> in_place c sd cid (fr_fact res) d2 t)"
    using settle_state_fact_wf [OF wf2 st cid _ ev2] wf tgt n by (auto simp: wf_db_def)
  ultimately show ?thesis using x pr f n by auto
qed

lemma untyped_insert_wf:
  assumes wf: "wf_db d"
    and near: "\<And>c. near = Some c \<Longrightarrow> \<exists>f \<in> set (facts d). f_id f = nd_fact c"
    and excl: "con = None \<or> near = None" "typed \<noteq> None \<longrightarrow> con = None \<and> near = None"
    and run: "insert_new_fact sv env ctx r t0 None None typed con near obs d = Inr ((res', cid', enq), t)"
  shows "wf_db t \<and> evolves 1 d t
    \<and> (con = None \<and> near = None \<longrightarrow> (\<exists>h \<in> set (facts t). f_id h = fr_fact res' \<and> f_superseded_by h = None))"
proof -
  have ids: "ids_ok d" using wf by (simp add: wf_db_def)
  from run obtain ins d2 where wr: "sv_writer sv env r obs d = Inr (ins, d2)"
    and rest: "andThen (case near of
         Some c \<Rightarrow> merge_near_duplicate ins c r t0
       | None \<Rightarrow> ret (ins, Some (fr_fact ins))) (\<lambda>(res0, enqueue).
     andThen (case con of None \<Rightarrow> ret (res0, None)
       | Some m \<Rightarrow>
           andThen (open_untyped_write_conflict env m (fr_fact res0) r t0) (\<lambda>cid.
           andThen (liftE (make_result \<lparr>fr_fact = fr_fact res0, fr_outcome = ''conflict'',
             fr_existing = Some (ct_fact m), fr_detail = fr_detail res0\<rparr>)) (\<lambda>res.
           ret (res, Some cid)))) (\<lambda>(res1, conflict1).
     andThen (case typed of
             None \<Rightarrow> ret res1
           | Some t \<Rightarrow> andThen (persist_nonstate_extracted_typed_fields res1 t) (\<lambda>_. ret res1)) (\<lambda>res2.
     ret (res2, conflict1, enqueue)))) d2 = Inr ((res', cid', enq), t)"
    unfolding insert_new_fact_def by (auto simp: andThen_Inr_iff)
  from writer_appends [OF ids wr] obtain f where f: "d2 = d\<lparr>facts := facts d @ [f], next_fact := next_fact d + 1\<rparr>"
    "f_id f = next_fact d" "active f" "fr_fact ins = next_fact d" by blast
  from writer_wf [OF wf wr] have wf2: "wf_db d2" and ev2: "evolves 1 d d2" by auto
  have fin: "f \<in> set (facts d2)" "current f" "f_superseded_by f = None" "f_conflict f = None"
    using f by (auto simp: active_def current_def)
  show ?thesis
  proof (cases near)
    case (Some c)
    with excl rest obtain x where m: "merge_near_duplicate ins c r t0 d2 = Inr (x, t)"
      by (auto simp: andThen_Inr_iff)
    from near [OF Some] old_id [OF ids] f(4) have "nd_fact c \<noteq> fr_fact ins" by fastforce
    from merge_near_duplicate_wf [OF wf2 m fin(1) _ fin(2) this] f evolves_trans [OF ev2, of 0 t] Some show ?thesis by simp
  next
    case near: None
    show ?thesis
    proof (cases con)
      case (Some m)
      with near excl rest obtain cid where "open_untyped_write_conflict env m (fr_fact ins) r t0 d2 = Inr (cid, t)"
        by (auto simp: andThen_Inr_iff)
      from open_untyped_write_conflict_wf [OF wf2 this] evolves_trans [OF ev2, of 0 t] Some show ?thesis by simp
    next
      case con: None
      show ?thesis
      proof (cases typed)
        case None
        with near con rest have "t = d2" "res' = ins" by auto
        with wf2 ev2 fin f show ?thesis by auto
      next
        case (Some ty)
        from rest have "andThen (persist_nonstate_extracted_typed_fields ins ty) (\<lambda>_. ret (ins, None, Some (fr_fact ins))) d2
            = Inr ((res', cid', enq), t)"
          unfolding near con Some by (simp add: andThen_def split: sum.splits prod.splits)
        then obtain u where ps: "persist_nonstate_extracted_typed_fields ins ty d2 = Inr (u, t)" and res: "res' = ins"
          unfolding andThen_const_Inr by blast
        have free: "f_conflict h = None" if "h \<in> set (facts d2)" "f_id h = fr_fact ins" for h
          using same_id_same_fact [of d2 h f] that fin(1,4) f(2,4) wf2 by (simp add: wf_db_def)
        from persist_nonstate_wf [OF wf2 ps free ev2 ids] f fin res show ?thesis by auto
      qed
    qed
  qed
qed

lemma apply_fact_wf:
  assumes wf: "wf_db d" and shape: "eff = None \<longleftrightarrow> cand = None" "sd = None \<longleftrightarrow> cand = None"
    and tg: "untyped_targets sv r cand typed query d = targets"
    and run: "apply_fact sv env ctx r t0 eff sd typed targets obs d = Inr ((res, cid, enq), t)"
  shows "wf_db t \<and> (\<exists>n \<le> 1. evolves n d t)
    \<and> (cand = None \<and> rq_supersede r \<noteq> None \<longrightarrow> (\<exists>h \<in> set (facts t). f_id h = fr_fact res \<and> f_superseded_by h = None))"
proof -
  obtain dup con near where t3: "targets = (dup, con, near)" by (cases targets)
  note cases = untyped_targets_cases [OF tg [unfolded t3]]
  have new: ?thesis if ins: "insert_new_fact sv env ctx r t0 eff sd typed con near obs d = Inr ((res, cid, enq), t)"
  proof (cases cand)
    case None
    then have e: "eff = None" "sd = None" using shape by auto
    have "\<exists>f \<in> set (facts d). f_id f = nd_fact c" if "near = Some c" for c
      using that cases near_duplicate_active [of sv r query d c] by auto
    from untyped_insert_wf [OF wf this _ _ ins [unfolded e]] cases None show ?thesis by auto
  next
    case (Some c0)
    then obtain c s where e: "eff = Some c" "sd = Some s" using shape by auto
    from Some cases have "con = None" "near = None" by auto
    from typed_insert_wf [OF wf ins [unfolded e this]] Some show ?thesis by auto
  qed
  show ?thesis
  proof (cases "case sd of None \<Rightarrow> None
             | Some s \<Rightarrow> if sd_action s \<in> {Dedup, Conflict} then map_option (\<lambda>t. (s, t)) (sd_target s) else None")
    case None
    show ?thesis
    proof (cases dup)
      case (Some i)
      with None run t3 have "t = d" "fr_fact res = i"
        by (auto simp: apply_fact_def andThen_Inr_iff make_result_def bindE_Inr_iff split: option.splits)
      moreover from cases Some exact_duplicate_active [of r d i] obtain f where "f \<in> set (facts d)" "f_id f = i" "active f"
        by auto
      ultimately show ?thesis using wf by (auto simp: active_def current_def intro!: exI [of _ 0] evolves_refl)
    qed (use None run t3 new in \<open>simp add: apply_fact_def\<close>)
  next
    case (Some x)
    then have "cand \<noteq> None" using shape by auto
    moreover from Some run t3 have "t = d" by (auto simp: apply_fact_def andThen_Inr_iff split: prod.splits)
    ultimately show ?thesis using wf by (auto intro!: exI [of _ 0] evolves_refl)
  qed
qed

lemma enqueue_quiet:
  assumes "(case (enq, sv_enqueue sv) of (Some i, Some e) \<Rightarrow> andThen (e env i) (\<lambda>_. ret ()) | _ \<Rightarrow> ret ()) d = Inr ((), t)"
  shows "quiet d t"
proof (cases "enq = None \<or> sv_enqueue sv = None")
  case True
  with assms show ?thesis by (auto split: option.splits)
next
  case False
  then obtain i e where e: "enq = Some i" "sv_enqueue sv = Some e" by auto
  with assms obtain u where "e env i d = Inr (u, t)" by (auto simp: andThen_const_Inr)
  from enqueue_adds_jobs [OF e(2) this] show ?thesis by (auto simp: quiet_def)
qed

lemma admitted_write_wf:
  assumes wf: "wf_db d" and shape: "eff = None \<longleftrightarrow> cand = None" "sd = None \<longleftrightarrow> cand = None"
    and run: "admitted_write sv env ctx r rh cand eff sd typed query d = Inr (out, t)"
  shows "wf_db t \<and> (\<exists>n \<le> 1. evolves n d t)"
proof -
  from run obtain obs d1 targets x res enq d2 d3 d5 b d6 wid d7 where
    a: "record_observation env ctx r (now env) d = Inr (obs, d1)"
    "targets = untyped_targets sv r cand typed query d1"
    "apply_fact sv env ctx r (now env) eff sd typed targets obs d1 = Inr (x, d2)"
    "(case (enq, sv_enqueue sv) of (Some i, Some enq) \<Rightarrow> andThen (enq env i) (\<lambda>_. ret ()) | _ \<Rightarrow> ret ()) d2 = Inr ((), d3)"
    "attach_provenance (fr_fact res) obs r (now env) d3 = Inr ((), d5)"
    "(if cand = None then supersede_if_requested (rq_supersede r) (fr_fact res) (now env) else ret False) d5 = Inr (b, d6)"
    "uuid4 env d6 = Inr (wid, d7)"
    and x: "res = fst x" "enq = snd (snd x)" and lg: "\<exists>l. insert_log l d7 = Inr ((), t)"
    by (rule admitted_write_Inr) blast
  obtain cid where x: "x = (res, cid, enq)" using x by (cases x) auto
  have q1: "quiet d d1" using a(1) by (rule quiet_ops)
  then have wf1: "wf_db d1" using wf quiet_wf by blast
  from apply_fact_wf [OF wf1 shape a(2) [symmetric] a(3) [unfolded x]] obtain n where n: "n \<le> 1" "evolves n d1 d2" and wf2: "wf_db d2"
    and sink: "cand = None \<and> rq_supersede r \<noteq> None \<longrightarrow> (\<exists>h \<in> set (facts d2). f_id h = fr_fact res \<and> f_superseded_by h = None)"
    by blast
  have "quiet d2 d3" by (rule enqueue_quiet [OF a(4)])
  with a(5) have q5: "quiet d2 d5" using quiet_ops(4) quiet_trans by blast
  have wf5: "wf_db d5" using q5 wf2 quiet_wf by blast
  have f5: "facts d5 = facts d2" using q5 by (simp add: quiet_def)
  have "wf_db d6 \<and> evolves 0 d5 d6"
  proof (cases "cand = None")
    case True
    with a(6) supersede_if_requested_wf [OF wf5, of "rq_supersede r" "fr_fact res" "now env" b d6] sink f5
    show ?thesis by simp
  qed (use a(6) wf5 in \<open>auto simp: evolves_refl\<close>)
  moreover have "quiet d6 t" using a(7) lg quiet_ops(5,6) quiet_trans by blast
  moreover have "evolves n d d5"
    using evolves_trans [OF quiet_evolves [OF q1] n(2)] evolves_quiet [OF _ q5] by fastforce
  ultimately show ?thesis using n(1) evolves_trans [of n d d5 0 d6] evolves_quiet [of n d d6 t] quiet_wf by auto
qed

lemma transaction_wf:
  assumes wf: "wf_db d" and run: "write_in_transaction sv env ctx r cand typed query d = Inr (out, t)"
  shows "wf_db t \<and> (\<exists>n \<le> 1. evolves n d t)"
  using run
proof (rule write_in_transaction_cases)
  fix d0 d'
  assume reg: "register_client ctx (now env) d = Inr ((), d0)" "register_session ctx (now env) d0 = Inr ((), d')"
    and body: "(\<exists>l. load_prior (cx_client ctx) (rq_key r) d' = Some l \<and> lg_sha256 l = request_sha256 env ctx r cand
        \<and> outcome_from_row l True = Inr out \<and> t = d')
     \<or> load_prior (cx_client ctx) (rq_key r) d' = None \<and>
       (\<exists>dec sd eff. decide_write sv ctx r cand d' = Inr ((dec, sd, eff), d') \<and>
         (case dec of
            Some x \<Rightarrow> (if factless_decision_is_durable x
              then record_factless_decision env ctx r (request_sha256 env ctx r cand) (now env) x
              else ephemeral_factless_outcome env x) d' = Inr (out, t)
          | None \<Rightarrow> admitted_write sv env ctx r (request_sha256 env ctx r cand) cand eff sd typed query d' = Inr (out, t)))"
  have q: "quiet d d'" using reg quiet_ops(1,2) quiet_trans by blast
  have wf': "wf_db d'" using q wf quiet_wf by blast
  from body consider "t = d'"
    | x where "(if factless_decision_is_durable x
              then record_factless_decision env ctx r (request_sha256 env ctx r cand) (now env) x
              else ephemeral_factless_outcome env x) d' = Inr (out, t)"
    | sd eff where "decide_write sv ctx r cand d' = Inr ((None, sd, eff), d')"
        "admitted_write sv env ctx r (request_sha256 env ctx r cand) cand eff sd typed query d' = Inr (out, t)"
  proof (elim disjE conjE exE)
    fix dec sd eff
    assume dec: "decide_write sv ctx r cand d' = Inr ((dec, sd, eff), d')"
      and rest: "case dec of
            Some x \<Rightarrow> (if factless_decision_is_durable x
              then record_factless_decision env ctx r (request_sha256 env ctx r cand) (now env) x
              else ephemeral_factless_outcome env x) d' = Inr (out, t)
          | None \<Rightarrow> admitted_write sv env ctx r (request_sha256 env ctx r cand) cand eff sd typed query d' = Inr (out, t)"
    show thesis
    proof (cases dec)
      case None
      with dec rest that(3) show thesis by simp
    next
      case (Some x)
      with rest that(2) show thesis by simp
    qed
  qed (rule that(1))
  then show ?thesis
  proof cases
    case 1
    with q wf' show ?thesis by (auto intro!: exI [of _ 0] quiet_evolves)
  next
    case (2 x)
    then have "quiet d' t" using factless_quiet by (auto split: if_splits)
    with q have "quiet d t" by (rule quiet_trans)
    with wf quiet_wf show ?thesis by (auto intro!: exI [of _ 0] quiet_evolves)
  next
    case (3 sd eff)
    from decide_write_Inr [OF 3(1)] have "eff = None \<longleftrightarrow> cand = None" "sd = None \<longleftrightarrow> cand = None" by auto
    from admitted_write_wf [OF wf' this 3(2)] obtain n where n: "wf_db t" "n \<le> 1" "evolves n d' t" by blast
    with evolves_trans [OF quiet_evolves [OF q] n(3)] show ?thesis by auto
  qed
qed

lemma write_wf:
  assumes wf: "wf_db d" and run: "write_memory sv env ctx r cand d = Inr (out, t)"
  shows "wf_db t \<and> (\<exists>n \<le> 1. evolves n d t)"
proof -
  from run obtain ctx' typed query where "write_in_transaction sv env ctx' r cand typed query d = Inr (out, t)"
    unfolding write_memory_def by (auto simp: andThen_Inr_iff)
  with wf show ?thesis by (rule transaction_wf)
qed

end

section \<open>The service's own writer and outbox\<close>

text \<open>The service with its fact writer, and with the outbox of a specification, if it has one.\<close>

abbreviation live :: "service \<Rightarrow> embedding_spec option \<Rightarrow> service" where
  "live sv spec \<equiv> sv\<lparr>sv_writer := fact_writer, sv_enqueue := map_option enqueue_in_transaction spec\<rparr>"

lemma required_Inr: "required v n = Inr x \<longleftrightarrow> x = strip v \<and> strip v \<noteq> []"
  by (auto simp: required_def Let_def)

lemma insert_fact_appends:
  assumes "insert_fact env c a d = Inr (i, t)"
  obtains f where "i = next_fact d" "t = d\<lparr>facts := facts d @ [f], next_fact := next_fact d + 1\<rparr>"
    "slots_unique (facts t)" "f_id f = next_fact d" "active f" "f_scope f = strip (ff_scope a)" "f_content f = strip c"
proof -
  from assms obtain x y where row: "insert_row (new_fact (later env) (strip c)
       (a\<lparr>ff_category := x, ff_scope := strip (ff_scope a), ff_sensitivity := y\<rparr>)) d = Inr (i, t)"
    unfolding insert_fact_def by (auto simp: andThen_Inr_iff required_Inr)
  then show thesis
    by (intro that) (auto simp: insert_row_Inr new_fact_def default_fact_def active_def current_def)
qed

lemma fact_writer_Inr:
  assumes ids: "ids_ok d" and run: "fact_writer env r obs d = Inr (res, t)"
  shows "\<exists>f. t = d\<lparr>facts := facts d @ [f], next_fact := next_fact d + 1\<rparr> \<and> slots_unique (facts t)
        \<and> f_id f = next_fact d \<and> active f \<and> fr_fact res = next_fact d \<and> freshly_inserted res
        \<and> f_scope f = strip (rq_scope r) \<and> f_content f = strip (rq_content r)"
proof -
  from run obtain i d1 n where ins: "insert_fact env (rq_content r) (default_fields\<lparr>ff_category := rq_category r, ff_tags := rq_tags r,
       ff_trust := rq_trust r, ff_authority := Some (rq_authority r), ff_scope := rq_scope r,
       ff_sensitivity := rq_sensitivity r\<rparr>) d = Inr (i, d1)"
    and up: "(if rq_correction r = None then ret 0
       else update_facts (\<lambda>f. f_id f = i) (\<lambda>f. f\<lparr>f_correction := rq_correction r\<rparr>)) d1 = Inr (n, t)"
    and mk: "make_result \<lparr>fr_fact = i, fr_outcome = ''inserted'', fr_existing = None, fr_detail = JObj []\<rparr> = Inr res"
    unfolding fact_writer_def by (auto simp: andThen_Inr_iff)
  from ins obtain f where i: "i = next_fact d" and d1: "d1 = d\<lparr>facts := facts d @ [f], next_fact := next_fact d + 1\<rparr>"
    and u: "slots_unique (facts d1)" and f: "f_id f = next_fact d" "active f" "f_scope f = strip (rq_scope r)"
      "f_content f = strip (rq_content r)"
    by (rule insert_fact_appends) (simp add: default_fields_def)
  have res: "fr_fact res = next_fact d" "freshly_inserted res"
    using mk i by (auto simp: make_result_def bindE_Inr_iff freshly_inserted_def)
  show ?thesis
  proof (cases "rq_correction r")
    case None
    with up d1 u f res show ?thesis by (intro exI [of _ f]) auto
  next
    case (Some c)
    let ?g = "f\<lparr>f_correction := rq_correction r\<rparr>"
    have "\<forall>x \<in> set (facts d). f_id x \<noteq> i" using ids i by (auto simp: ids_ok_def)
    then have upd: "update_where (\<lambda>f. f_id f = i) (\<lambda>f. f\<lparr>f_correction := rq_correction r\<rparr>) (facts d1) = facts d @ [?g]"
      using f(1) i d1 by (simp add: update_where_none)
    have "t = d\<lparr>facts := facts d @ [?g], next_fact := next_fact d + 1\<rparr> \<and> slots_unique (facts t)"
      using up Some d1 upd by (auto simp: update_facts_def Let_def split: if_splits)
    with f res show ?thesis by (intro exI [of _ ?g]) (auto simp: active_def current_def)
  qed
qed

lemma enqueue_in_transaction_Inr:
  assumes "enqueue_in_transaction sp env i d = Inr (j, t)"
  shows "\<exists>js. t = d\<lparr>jobs := js\<rparr>"
proof -
  have "\<exists>js. upsert_job sp n i h p d = d\<lparr>jobs := js\<rparr>" for n h p
    by (auto simp: upsert_job_def Let_def)
  then show ?thesis
    using assms by (auto simp: enqueue_in_transaction_def andThen_Inr_iff split: option.splits)
qed

interpretation live: write_contract "live sv spec" for sv spec
proof (unfold_locales, goal_cases)
  case (1 d env r obs res t)
  then show ?case by (simp add: fact_writer_Inr)
next
  case (2 enq env i d j t)
  then show ?case using enqueue_in_transaction_Inr by auto
qed

end
