(* ===== verification/WriteLaws.thy ===== *)
theory WriteLaws
  imports WriteFacts
begin

text \<open>
  What the write envelope promises its callers, over the service's own fact writer and outbox:
  the store stays well formed and facts only age, nothing changes without the policy's consent,
  every write that touches a fact is audited, a key answers again with what it answered first,
  and a batch is all or nothing.
\<close>

section \<open>Frames\<close>

text \<open>Code that leaves a part of the store alone.\<close>

definition keeps :: "('s \<Rightarrow> 'k) \<Rightarrow> ('s, 'a) tx \<Rightarrow> bool" where
  "keeps k m \<longleftrightarrow> (\<forall>s a t. m s = Inr (a, t) \<longrightarrow> k t = k s)"

named_theorems frame \<open>operations that leave a part of the store alone\<close>

lemma keepsD: "keeps k m \<Longrightarrow> m s = Inr (a, t) \<Longrightarrow> k t = k s"
  by (auto simp: keeps_def)

lemma keeps_basic [frame]:
  "keeps k (ret a)" "keeps k (raise e)" "keeps k (gets f)" "keeps k (require b e)" "keeps k (liftE x)"
  by (auto simp: keeps_def)

lemma keeps_modify: "(\<And>s. k (f s) = k s) \<Longrightarrow> keeps k (modify f)"
  by (auto simp: keeps_def)

lemma keeps_andThen [frame]: "keeps k m \<Longrightarrow> (\<And>a. keeps k (f a)) \<Longrightarrow> keeps k (andThen m f)"
  unfolding keeps_def by (metis andThen_Inr_iff)

lemma keeps_foldTx [frame]: "(\<And>acc x. keeps k (f acc x)) \<Longrightarrow> keeps k (foldTx f acc xs)"
  by (induction xs arbitrary: acc) (auto intro: keeps_basic keeps_andThen)

lemma keeps_branch [frame]:
  "(b \<Longrightarrow> keeps k m) \<Longrightarrow> (\<not> b \<Longrightarrow> keeps k n) \<Longrightarrow> keeps k (if b then m else n)"
  "(\<And>a. keeps k (g a)) \<Longrightarrow> keeps k n \<Longrightarrow> keeps k (case v of None \<Rightarrow> n | Some a \<Rightarrow> g a)"
  "(\<And>a b. keeps k (h a b)) \<Longrightarrow> keeps k (case p of (a, b) \<Rightarrow> h a b)"
  "keeps k (j v') \<Longrightarrow> keeps k (let v = v' in j v)"
  by (auto split: option.splits prod.splits)

text \<open>The connections, the evidence and the log: what a write's mutation of the facts must not touch.\<close>

definition desk :: "db \<Rightarrow> client list \<times> session list \<times> write_log list \<times> observation list \<times> provenance list" where
  "desk d = (clients d, sessions d, logs d, observations d, provenances d)"

lemma desk_update_facts [frame]: "keeps desk (update_facts p g)"
  by (auto simp: keeps_def desk_def update_facts_def Let_def split: if_splits)

lemma desk_leaves [frame]:
  "keeps desk (uuid4 env)" "keeps desk (insert_conflict c)" "keeps desk (insert_member cid i)"
  "keeps desk (insert_resolution r)" "keeps desk (insert_row mk)"
  by (auto simp: keeps_def desk_def uuid4_def insert_conflict_def insert_member_def insert_resolution_def insert_row_def
      Let_def split: if_splits)

lemma desk_ops [frame]:
  "keeps desk (open_state_conflict update_facts env s p ms sc dt det)"
  "keeps desk (open_untyped_conflict env ms sc s p dt det)"
  "keeps desk (add_conflict_member cid i)"
  "keeps desk (add_untyped_conflict_member cid i)"
  "keeps desk (record_resolver cid w why at1 cl se ag)"
  "keeps desk (insert_fact env c a)"
  unfolding open_state_conflict_def open_untyped_conflict_def add_conflict_member_def add_untyped_conflict_member_def
    record_resolver_def insert_fact_def
  by (intro frame)+

lemma desk_resolve [frame]: "keeps desk (resolve_state_conflict env cid w by why dt cl se ag)"
  unfolding resolve_state_conflict_def
  by (intro frame keeps_modify) (simp add: desk_def)

lemma desk_write_steps [frame]:
  "keeps desk (prepare_state_mutation env sd t0 close)"
  "keeps desk (persist_state_candidate env res c cid conf)"
  "keeps desk (persist_nonstate_extracted_typed_fields res t)"
  "keeps desk (finish_state_supersession old new)"
  "keeps desk (open_untyped_write_conflict env m i r t0)"
  "keeps desk (merge_near_duplicate ins nc r t0)"
  "keeps desk (supersede_if_requested old i t0)"
  unfolding prepare_state_mutation_def persist_state_candidate_def persist_nonstate_extracted_typed_fields_def
    finish_state_supersession_def open_untyped_write_conflict_def merge_near_duplicate_def
    near_duplicate_candidate_is_protected_def supersede_near_duplicate_def supersede_if_requested_def
  by (intro frame)+

lemma desk_fact [frame]:
  "keeps desk (fact_writer env r obs)"
  "keeps desk (settle_state_fact env ctx r t0 c sd typed cid res)"
  unfolding fact_writer_def settle_state_fact_def by (intro frame)+

lemma desk_apply_fact:
  "(\<And>env r obs. keeps desk (sv_writer sv env r obs)) \<Longrightarrow> keeps desk (apply_fact sv env ctx r t0 eff sd typed targets obs)"
  unfolding apply_fact_def insert_new_fact_def by (intro frame) auto

section \<open>Replay\<close>

text \<open>A connection that has registered once registers again without a trace.\<close>

lemma registered_again:
  assumes "register_client ctx t0 d = Inr (u, d0)" "register_session ctx t0 d0 = Inr (v, d')"
    and "clients s = clients d'" "sessions s = sessions d'"
  shows "register_client ctx t1 s = Inr ((), s)" "register_session ctx t1 s = Inr ((), s)"
proof -
  have cl: "clients d' = clients d0" using assms(2) by (auto simp: register_session_def andThen_Inr_iff)
  from assms(1) obtain c where "first_where (\<lambda>c. cl_id c = cx_client ctx) (clients d0) = Some c"
    "cl_surface c = cx_surface ctx" "cl_disabled_at c = None"
    by (auto simp: register_client_def andThen_Inr_iff split: option.splits)
  with cl assms(3) first_where_Some [of "\<lambda>c. cl_id c = cx_client ctx" "clients s" c]
  show "register_client ctx t1 s = Inr ((), s)"
    by (auto simp: register_client_def andThen_def)
  let ?g = "\<lambda>s. s\<lparr>se_branch := cx_branch ctx, se_commit := cx_commit ctx\<rparr>"
  from assms(2) obtain ss where ss: "sessions d' = update_where (same_session ctx) ?g ss"
    and chk: "case first_where (same_session ctx) (sessions d') of None \<Rightarrow> False | Some s \<Rightarrow>
         se_agent s = cx_agent ctx \<and> se_parent s = cx_parent ctx \<and> se_root s = cx_root ctx
         \<and> se_repo s = cx_repo ctx \<and> se_capabilities s = cx_capabilities ctx \<and> se_scopes s = cx_scopes ctx"
    by (auto simp: register_session_def andThen_Inr_iff)
  have "update_where (same_session ctx) ?g (sessions d') = sessions d'"
    unfolding ss update_where_def by (auto simp: same_session_def)
  moreover obtain se where "first_where (same_session ctx) (sessions d') = Some se" using chk by (auto split: option.splits)
  ultimately show "register_session ctx t1 s = Inr ((), s)"
    using chk assms(4) first_where_Some [of "same_session ctx" "sessions s" se]
    by (auto simp: register_session_def andThen_def)
qed

lemma make_outcome_replayed:
  "make_outcome x = Inr out \<Longrightarrow> make_outcome (x\<lparr>oc_replayed := b\<rparr>) = Inr (out\<lparr>oc_replayed := b\<rparr>)"
  by (auto simp: make_outcome_def bindE_Inr_iff)

lemma near_query_ok:
  assumes "prepare_near_dedup_query sv ctx r cand d = Inr q"
  obtains q' where "prepare_near_dedup_query sv ctx r cand t = Inr q'"
proof -
  from assms obtain dec where "evaluate_write (sv_policy sv) r (Some (cx_client ctx)) [] = Inr dec"
    by (auto simp only: prepare_near_dedup_query_def bindE_Inr_iff)
  then have "\<exists>q'. prepare_near_dedup_query sv ctx r cand t = Inr q'"
    by (simp only: prepare_near_dedup_query_def bindE_simps) (simp split: if_split)
  then show thesis using that by blast
qed

text \<open>A write under a key that is already in the log: the first outcome again, or a refusal.\<close>

lemma write_under_used_key:
  assumes "authorize_context (sv_policy sv) (sv_legacy sv) ctx = Inr ctx'"
    "validate_state_candidate r cand = Inr ()" "extracted_typed_fields r cand = Inr typed"
    "prepare_near_dedup_query sv ctx' r cand d = Inr query"
    "register_client ctx' (now env) d = Inr ((), d0)" "register_session ctx' (now env) d0 = Inr ((), d')"
    "load_prior (cx_client ctx') (rq_key r) d' = Some l"
  shows "write_memory sv env ctx r cand d = (if lg_sha256 l = request_sha256 env ctx' r cand
    then map_sum id (\<lambda>out. (out, d')) (outcome_from_row l True)
    else Inl (IdempotencyConflict ''idempotency key was already used for a different request''))"
  using assms by (simp add: write_memory_def write_in_transaction_def Let_def andThen_eval require_apply liftE_def
      split: sum.split)

lemma first_where_snoc: "first_where p (xs @ [x]) = (if \<exists>y \<in> set xs. p y then first_where p xs else if p x then Some x else None)"
  by (induction xs) (auto simp: first_where_def)

lemma insert_log_Inr:
  assumes "insert_log l d = Inr (u, t)"
  shows "t = d\<lparr>logs := logs d @ [l]\<rparr>" "load_prior (lg_client l) (lg_key l) t = Some l"
  using assms
  by (auto simp: insert_log_def load_prior_def first_where_snoc split: if_splits)

text \<open>What the log says of a write: the row that its key finds from then on.\<close>

definition logged_as :: "env \<Rightarrow> conn_context \<Rightarrow> write_request \<Rightarrow> state_candidate option \<Rightarrow> write_outcome \<Rightarrow> write_log \<Rightarrow> bool" where
  "logged_as env ctx r cand out l \<longleftrightarrow> lg_client l = cx_client ctx \<and> lg_session l = cx_session ctx \<and> lg_key l = rq_key r
     \<and> lg_operation l = rq_operation r \<and> lg_recorded_at l = now env \<and> lg_sha256 l = request_sha256 env ctx r cand
     \<and> outcome_from_row l False = Inr out"

lemma live_enqueue_desk:
  assumes "(case (enq, sv_enqueue (live sv spec)) of (Some i, Some e) \<Rightarrow> andThen (e env i) (\<lambda>_. ret ()) | _ \<Rightarrow> ret ()) d = Inr ((), t)"
  shows "desk t = desk d"
proof -
  have "keeps desk (e env i)" if "sv_enqueue (live sv spec) = Some e" for e i
    using live.enqueue_adds_jobs [OF that, of env i] by (force simp: keeps_def desk_def)
  then have "keeps desk (case (enq, sv_enqueue (live sv spec)) of (Some i, Some e) \<Rightarrow> andThen (e env i) (\<lambda>_. ret ()) | _ \<Rightarrow> ret ())"
    by (auto intro!: frame split: option.splits)
  from keepsD [OF this, OF assms] show ?thesis .
qed

text \<open>The evidence for a fact of a write.\<close>

definition evidenced_by :: "env \<Rightarrow> conn_context \<Rightarrow> write_request \<Rightarrow> db \<Rightarrow> int \<Rightarrow> int \<Rightarrow> bool" where
  "evidenced_by env ctx r t i obs \<longleftrightarrow>
     (\<exists>f. find_fact i t = Some f \<and> f_scope f = rq_scope r)
     \<and> (\<exists>b \<in> set (observations t). ob_id b = obs \<and> ob_client b = cx_client ctx \<and> ob_session b = cx_session ctx
          \<and> ob_source_type b = rq_source_type r \<and> ob_sha256 b = observation_sha256 env ctx r)
     \<and> (\<exists>p \<in> set (provenances t). pv_fact p = i \<and> pv_observation p = obs \<and> pv_relation p = rq_relation r)"

lemma record_observation_Inr:
  assumes "record_observation env ctx r t0 d = Inr (obs, t)"
  shows "(\<exists>b \<in> set (observations t). ob_id b = obs \<and> same_observation ctx r (observation_sha256 env ctx r) b)
    \<and> clients t = clients d \<and> sessions t = sessions d \<and> logs t = logs d"
  using assms first_where_Some [of "same_observation ctx r (observation_sha256 env ctx r)" "observations t"]
  by (auto simp: record_observation_def andThen_Inr_iff Let_def split: option.splits if_splits)

lemma supersede_keeps_scope:
  assumes "supersede_if_requested old i t0 d = Inr (b, t)" "find_fact i d = Some f"
  shows "\<exists>g. find_fact i t = Some g \<and> f_scope g = f_scope f"
proof (cases old)
  case None
  with assms show ?thesis by (simp add: supersede_if_requested_def)
next
  case (Some k)
  let ?p = "\<lambda>h. f_id h = k \<and> f_scope h = f_scope f \<and> current h"
  let ?g = "\<lambda>h. h\<lparr>f_invalid_at := Some t0, f_expired_at := Some t0, f_superseded_by := Some i\<rparr>"
  from Some assms have t: "t = d\<lparr>facts := update_where ?p ?g (facts d)\<rparr>"
    by (auto simp: supersede_if_requested_def andThen_Inr_iff update_facts_def Let_def split: option.splits if_splits)
  show ?thesis unfolding t by (subst find_fact_update) (auto simp: assms(2))
qed

lemma admitted_write_logged:
  assumes "admitted_write (live sv spec) env ctx r (request_sha256 env ctx r cand) cand eff sd typed query d = Inr (out, t)"
  obtains l i obs where "clients t = clients d" "sessions t = sessions d" "logs t = logs d @ [l]"
    "load_prior (cx_client ctx) (rq_key r) t = Some l" "logged_as env ctx r cand out l"
    "oc_fact out = Some i" "oc_observation out = Some obs" "evidenced_by env ctx r t i obs"
  using assms
proof (rule admitted_write_Inr)
  fix obs d1 targets x res enq d2 d3 d5 sup d6 wid d7 det
  let ?l = "\<lparr>lg_write_id = wid, lg_key = rq_key r, lg_client = cx_client ctx,
        lg_session = cx_session ctx, lg_operation = rq_operation r, lg_outcome = fr_outcome res,
        lg_fact = Some (fr_fact res), lg_existing = fr_existing res, lg_observation = Some obs,
        lg_recorded_at = now env, lg_sha256 = request_sha256 env ctx r cand, lg_detail = det\<rparr>"
  assume a: "record_observation env ctx r (now env) d = Inr (obs, d1)"
    "apply_fact (live sv spec) env ctx r (now env) eff sd typed targets obs d1 = Inr (x, d2)"
    "(case (enq, sv_enqueue (live sv spec)) of (Some i, Some enq) \<Rightarrow> andThen (enq env i) (\<lambda>_. ret ()) | _ \<Rightarrow> ret ()) d2 = Inr ((), d3)"
    "\<exists>f. find_fact (fr_fact res) d3 = Some f \<and> f_scope f = rq_scope r"
    "attach_provenance (fr_fact res) obs r (now env) d3 = Inr ((), d5)"
    "(if cand = None then supersede_if_requested (rq_supersede r) (fr_fact res) (now env) else ret False) d5 = Inr (sup, d6)"
    "uuid4 env d6 = Inr (wid, d7)"
    and log: "insert_log ?l d7 = Inr ((), t)"
    and out: "make_outcome \<lparr>oc_write_id = wid, oc_outcome = fr_outcome res, oc_fact = Some (fr_fact res),
        oc_existing = fr_existing res, oc_observation = Some obs, oc_replayed = False, oc_detail = det\<rparr> = Inr out"
  note d1 = record_observation_Inr [OF a(1)]
  have "desk d2 = desk d1"
    by (rule keepsD [OF desk_apply_fact, OF _ a(2)]) (simp add: desk_fact)
  moreover have "desk d3 = desk d2" by (rule live_enqueue_desk [OF a(3)])
  ultimately have d3: "desk d3 = desk d1" by simp
  have pv: "\<exists>p \<in> set (provenances d5). pv_fact p = fr_fact res \<and> pv_observation p = obs \<and> pv_relation p = rq_relation r"
    and d5: "clients d5 = clients d3" "sessions d5 = sessions d3" "logs d5 = logs d3" "observations d5 = observations d3"
      "facts d5 = facts d3"
    using a(5) by (auto simp: attach_provenance_def)
  have "desk d6 = desk d5" using a(6) keepsD [OF desk_write_steps(7)] by (auto split: if_splits)
  moreover have "desk d7 = desk d6" by (rule keepsD [OF desk_leaves(1), OF a(7)])
  ultimately have d7: "desk d7 = desk d5" by simp
  have "\<exists>f. find_fact (fr_fact res) d6 = Some f \<and> f_scope f = rq_scope r"
    using a(4) a(6) supersede_keeps_scope [of "rq_supersede r" "fr_fact res" "now env" d5 sup d6] d5(5)
    by (auto simp: find_fact_def split: if_splits)
  then have fact: "\<exists>f. find_fact (fr_fact res) d7 = Some f \<and> f_scope f = rq_scope r"
    using a(7) by (auto simp: uuid4_def find_fact_def)
  note t = insert_log_Inr [OF log]
  have "oc_fact out = Some (fr_fact res)" "oc_observation out = Some obs"
    using out by (auto simp: make_outcome_def bindE_Inr_iff)
  moreover have "evidenced_by env ctx r t (fr_fact res) obs"
    using fact pv d1 d3 d5 d7 unfolding evidenced_by_def by (auto simp: t(1) desk_def same_observation_def find_fact_def)
  moreover have "clients t = clients d" "sessions t = sessions d" "logs t = logs d @ [?l]"
    using d1 d3 d5 d7 t(1) by (auto simp: desk_def)
  ultimately show thesis
    using t(2) out by (intro that [of ?l]) (auto simp: logged_as_def outcome_from_row_def)
qed

lemma factless_logged:
  assumes "record_factless_decision env ctx r (request_sha256 env ctx r cand) (now env) x d = Inr (out, t)"
  obtains l where "clients t = clients d" "sessions t = sessions d" "logs t = logs d @ [l]"
    "load_prior (cx_client ctx) (rq_key r) t = Some l" "logged_as env ctx r cand out l" "oc_fact out = None"
proof -
  from assms obtain wid d1 where u: "uuid4 env d = Inr (wid, d1)"
    and log: "insert_log \<lparr>lg_write_id = wid, lg_key = rq_key r, lg_client = cx_client ctx,
       lg_session = cx_session ctx, lg_operation = rq_operation r, lg_outcome = pd_outcome x,
       lg_fact = None, lg_existing = None, lg_observation = None, lg_recorded_at = now env,
       lg_sha256 = request_sha256 env ctx r cand, lg_detail = policy_detail x\<rparr> d1 = Inr ((), t)"
    and out: "factless_outcome wid x = Inr out"
    unfolding record_factless_decision_def by (auto simp: andThen_Inr_iff)
  have "desk d1 = desk d" by (rule keepsD [OF desk_leaves(1), OF u])
  moreover have "oc_fact out = None" using out by (auto simp: factless_outcome_def make_outcome_def bindE_Inr_iff)
  ultimately show thesis
    using insert_log_Inr [OF log] out that
    by (auto simp: desk_def logged_as_def outcome_from_row_def factless_outcome_def)
qed

lemma write_on_the_desk:
  assumes run: "write_memory (live sv spec) env ctx r cand d = Inr (out, t)"
    and auth: "authorize_context (sv_policy sv) (sv_legacy sv) ctx = Inr ctx'"
  obtains query typed d0 d' where
    "validate_state_candidate r cand = Inr ()" "extracted_typed_fields r cand = Inr typed"
    "prepare_near_dedup_query (live sv spec) ctx' r cand d = Inr query"
    "register_client ctx' (now env) d = Inr ((), d0)" "register_session ctx' (now env) d0 = Inr ((), d')"
    "clients t = clients d'" "sessions t = sessions d'" "logs d' = logs d"
    "(\<exists>l. t = d' \<and> load_prior (cx_client ctx') (rq_key r) d' = Some l \<and> lg_sha256 l = request_sha256 env ctx' r cand
        \<and> outcome_from_row l True = Inr out)
     \<or> load_prior (cx_client ctx') (rq_key r) t = None \<and> logs t = logs d \<and> facts t = facts d \<and> oc_fact out = None
     \<or> (\<exists>l. load_prior (cx_client ctx') (rq_key r) d' = None \<and> logs t = logs d @ [l]
        \<and> load_prior (cx_client ctx') (rq_key r) t = Some l \<and> logged_as env ctx' r cand out l
        \<and> (\<forall>i. oc_fact out = Some i \<longrightarrow> (\<exists>obs. oc_observation out = Some obs \<and> evidenced_by env ctx' r t i obs)))"
  using run
proof (rule write_memory_cases)
  fix ctx1 d0 d' typed query
  assume w: "authorize_context (sv_policy (live sv spec)) (sv_legacy (live sv spec)) ctx = Inr ctx1"
    "validate_state_candidate r cand = Inr ()" "extracted_typed_fields r cand = Inr typed"
    "prepare_near_dedup_query (live sv spec) ctx1 r cand d = Inr query"
    "register_client ctx1 (now env) d = Inr ((), d0)" "register_session ctx1 (now env) d0 = Inr ((), d')"
    and body: "(\<exists>l. load_prior (cx_client ctx1) (rq_key r) d' = Some l \<and> lg_sha256 l = request_sha256 env ctx1 r cand
        \<and> outcome_from_row l True = Inr out \<and> t = d')
     \<or> load_prior (cx_client ctx1) (rq_key r) d' = None \<and>
       (\<exists>dec sd eff. decide_write (live sv spec) ctx1 r cand d' = Inr ((dec, sd, eff), d') \<and>
         (case dec of
            Some x \<Rightarrow> (if factless_decision_is_durable x
              then record_factless_decision env ctx1 r (request_sha256 env ctx1 r cand) (now env) x
              else ephemeral_factless_outcome env x) d' = Inr (out, t)
          | None \<Rightarrow> admitted_write (live sv spec) env ctx1 r (request_sha256 env ctx1 r cand) cand eff sd typed query d' = Inr (out, t)))"
  have [simp]: "ctx1 = ctx'" using w(1) auth by simp
  have logs: "logs d' = logs d" and facts: "facts d' = facts d"
    using w(5,6) by (auto simp: register_client_def register_session_def andThen_Inr_iff split: if_splits option.splits)
  note found = that [OF w(2-6) [simplified], unfolded logs, OF _ _ refl]
  from body show thesis
  proof (elim disjE exE conjE)
    fix l assume "load_prior (cx_client ctx1) (rq_key r) d' = Some l" "lg_sha256 l = request_sha256 env ctx1 r cand"
      "outcome_from_row l True = Inr out" "t = d'"
    then show thesis by (intro found) auto
  next
    fix dec sd eff
    assume fresh: "load_prior (cx_client ctx1) (rq_key r) d' = None"
      and rest: "case dec of
            Some x \<Rightarrow> (if factless_decision_is_durable x
              then record_factless_decision env ctx1 r (request_sha256 env ctx1 r cand) (now env) x
              else ephemeral_factless_outcome env x) d' = Inr (out, t)
          | None \<Rightarrow> admitted_write (live sv spec) env ctx1 r (request_sha256 env ctx1 r cand) cand eff sd typed query d' = Inr (out, t)"
    have one: thesis if "clients t = clients d'" "sessions t = sessions d'" "logs t = logs d' @ [l]"
      "load_prior (cx_client ctx1) (rq_key r) t = Some l" "logged_as env ctx1 r cand out l"
      "\<forall>i. oc_fact out = Some i \<longrightarrow> (\<exists>obs. oc_observation out = Some obs \<and> evidenced_by env ctx1 r t i obs)" for l
      using that fresh logs by (intro found) auto
    show thesis
    proof (cases dec)
      case None
      with rest have "admitted_write (live sv spec) env ctx1 r (request_sha256 env ctx1 r cand) cand eff sd typed query d' = Inr (out, t)"
        by simp
      then show thesis by (rule admitted_write_logged) (rule one, auto)
    next
      case (Some x)
      show thesis
      proof (cases "factless_decision_is_durable x")
        case True
        with Some rest have "record_factless_decision env ctx1 r (request_sha256 env ctx1 r cand) (now env) x d' = Inr (out, t)" by simp
        then show thesis by (rule factless_logged) (rule one, auto)
      next
        case False
        with Some rest have e: "ephemeral_factless_outcome env x d' = Inr (out, t)" by simp
        then have "desk t = desk d' \<and> facts t = facts d' \<and> oc_fact out = None"
          using factless_quiet(2) [OF e]
          by (auto simp: ephemeral_factless_outcome_def andThen_Inr_iff uuid4_def desk_def)
        with fresh logs facts show thesis by (intro found) (auto simp: desk_def load_prior_def)
      qed
    qed
  qed
qed

lemma outcome_replayed: "outcome_from_row l b = Inr out \<Longrightarrow> outcome_from_row l c = Inr (out\<lparr>oc_replayed := c\<rparr>)"
  unfolding outcome_from_row_def using make_outcome_replayed [of _ out c] by fastforce

text \<open>What a recorded write leaves behind for the next one under its key.\<close>

lemma recorded_write:
  assumes run: "write_memory (live sv spec) env ctx r cand d = Inr (out, t)"
    and auth: "authorize_context (sv_policy sv) (sv_legacy sv) ctx = Inr ctx'"
    and logged: "load_prior (cx_client ctx') (rq_key r) t \<noteq> None"
  obtains l query typed where "load_prior (cx_client ctx') (rq_key r) t = Some l"
    "lg_sha256 l = request_sha256 env ctx' r cand" "outcome_from_row l True = Inr (out\<lparr>oc_replayed := True\<rparr>)"
    "validate_state_candidate r cand = Inr ()" "extracted_typed_fields r cand = Inr typed"
    "prepare_near_dedup_query (live sv spec) ctx' r cand t = Inr query"
    "\<And>t1. register_client ctx' t1 t = Inr ((), t)" "\<And>t1. register_session ctx' t1 t = Inr ((), t)"
  using run auth
proof (rule write_on_the_desk)
  fix query typed d0 d'
  assume w: "validate_state_candidate r cand = Inr ()" "extracted_typed_fields r cand = Inr typed"
    and q: "prepare_near_dedup_query (live sv spec) ctx' r cand d = Inr query"
    and reg: "register_client ctx' (now env) d = Inr ((), d0)" "register_session ctx' (now env) d0 = Inr ((), d')"
      "clients t = clients d'" "sessions t = sessions d'"
    and c: "(\<exists>l. t = d' \<and> load_prior (cx_client ctx') (rq_key r) d' = Some l \<and> lg_sha256 l = request_sha256 env ctx' r cand
        \<and> outcome_from_row l True = Inr out)
     \<or> load_prior (cx_client ctx') (rq_key r) t = None \<and> logs t = logs d \<and> facts t = facts d \<and> oc_fact out = None
     \<or> (\<exists>l. load_prior (cx_client ctx') (rq_key r) d' = None \<and> logs t = logs d @ [l]
        \<and> load_prior (cx_client ctx') (rq_key r) t = Some l \<and> logged_as env ctx' r cand out l
        \<and> (\<forall>i. oc_fact out = Some i \<longrightarrow> (\<exists>obs. oc_observation out = Some obs \<and> evidenced_by env ctx' r t i obs)))"
  obtain q' where q': "prepare_near_dedup_query (live sv spec) ctx' r cand t = Inr q'" using near_query_ok [OF q] .
  from c logged obtain l where l: "load_prior (cx_client ctx') (rq_key r) t = Some l"
    "lg_sha256 l = request_sha256 env ctx' r cand" "outcome_from_row l True = Inr (out\<lparr>oc_replayed := True\<rparr>)"
  proof (elim disjE exE conjE)
    fix l assume "t = d'" "load_prior (cx_client ctx') (rq_key r) d' = Some l"
      "lg_sha256 l = request_sha256 env ctx' r cand" "outcome_from_row l True = Inr out"
    with outcome_replayed [of l True out True] show thesis by (intro that [of l]) auto
  next
    fix l assume "load_prior (cx_client ctx') (rq_key r) t = Some l" "logged_as env ctx' r cand out l"
    with outcome_replayed [of l False out True] show thesis by (intro that [of l]) (auto simp: logged_as_def)
  qed simp
  show thesis by (rule that [OF l w q' registered_again [OF reg(1,2,3,4)]])
qed

lemma same_request_hash: "sha256_json env' = sha256_json env \<Longrightarrow> request_sha256 env' ctx r cand = request_sha256 env ctx r cand"
  by (simp add: request_sha256_def)

section \<open>The promises\<close>



text \<open>C2: every write of the service keeps the store well formed, and the facts table only grows by at
  most the one new fact and ages: no fact is deleted, no content, provenance or validity start of a
  stored fact is rewritten, and a fact once retired keeps its end and its successor.
\<close>

theorem write_keeps_store:
  assumes "wf_db d" "write_memory (live sv spec) env ctx r cand d = Inr (out, t)"
  shows "wf_db t \<and> (\<exists>n \<le> 1. evolves n d t)"
  using assms by (rule live.write_wf)

text \<open>What a write needs before it may change the facts.\<close>

lemma write_needs_consent:
  assumes run: "write_memory sv env ctx r cand d = Inr (out, t)"
    and effect: "facts t \<noteq> facts d \<or> oc_fact out \<noteq> None \<and> \<not> oc_replayed out"
  shows "\<exists>ctx'. authorize_context (sv_policy sv) (sv_legacy sv) ctx = Inr ctx'
    \<and> evaluate_write (sv_policy sv) r (Some (cx_client ctx')) (slot_fields cand) = Inr None
    \<and> scope_authorized (rq_scope r) (cx_scopes ctx')
    \<and> (rq_sensitivity r = ''sensitive'' \<longrightarrow> ''sensitive'' \<in> set (cx_scopes ctx'))
    \<and> supersession_policy r None None d = None"
  using run
proof (rule write_memory_cases)
  fix ctx' d0 d' typed query
  assume auth: "authorize_context (sv_policy sv) (sv_legacy sv) ctx = Inr ctx'"
    and reg: "register_client ctx' (now env) d = Inr ((), d0)" "register_session ctx' (now env) d0 = Inr ((), d')"
    and body: "(\<exists>l. load_prior (cx_client ctx') (rq_key r) d' = Some l \<and> lg_sha256 l = request_sha256 env ctx' r cand
        \<and> outcome_from_row l True = Inr out \<and> t = d')
     \<or> load_prior (cx_client ctx') (rq_key r) d' = None \<and>
       (\<exists>dec sd eff. decide_write sv ctx' r cand d' = Inr ((dec, sd, eff), d') \<and>
         (case dec of
            Some x \<Rightarrow> (if factless_decision_is_durable x
              then record_factless_decision env ctx' r (request_sha256 env ctx' r cand) (now env) x
              else ephemeral_factless_outcome env x) d' = Inr (out, t)
          | None \<Rightarrow> admitted_write sv env ctx' r (request_sha256 env ctx' r cand) cand eff sd typed query d' = Inr (out, t)))"
  have same: "facts d' = facts d" using reg quiet_ops(1,2) by (auto simp: quiet_def)
  have silent: False if "facts t = facts d'" "oc_fact out = None \<or> oc_replayed out"
    using that same effect by auto
  from body show ?thesis
  proof (elim disjE exE conjE)
    fix l assume "outcome_from_row l True = Inr out" "t = d'"
    with silent outcome_flag show ?thesis by fastforce
  next
    fix dec sd eff
    assume dec: "decide_write sv ctx' r cand d' = Inr ((dec, sd, eff), d')"
      and rest: "case dec of
            Some x \<Rightarrow> (if factless_decision_is_durable x
              then record_factless_decision env ctx' r (request_sha256 env ctx' r cand) (now env) x
              else ephemeral_factless_outcome env x) d' = Inr (out, t)
          | None \<Rightarrow> admitted_write sv env ctx' r (request_sha256 env ctx' r cand) cand eff sd typed query d' = Inr (out, t)"
    have "dec = None"
    proof (rule ccontr)
      assume "dec \<noteq> None"
      with rest have "quiet d' t \<and> oc_fact out = None" using factless_quiet by (auto split: if_splits)
      with silent show False by (auto simp: quiet_def)
    qed
    with decide_write_Inr [OF dec] have "write_policy sv ctx' r cand d' = Inr None" by simp
    moreover have "supersession_policy r None None d' = supersession_policy r None None d"
      by (simp only: supersession_policy_def same)
    ultimately show ?thesis using auth
      by (auto simp: write_policy_def bindE_Inr_iff split: option.splits if_splits)
  qed
qed

text \<open>C3: nothing is stored without consent.  If a write changed the facts, or answers with a fact it
  did not replay, then the connection was authorised, the policy screen let the request and its
  slot through, its scope is one the connection was granted, a sensitive write had the sensitive
  scope, and no protection of a fact to be superseded objected.
\<close>

theorem facts_change_only_with_consent:
  assumes run: "write_memory sv env ctx r cand d = Inr (out, t)"
    and effect: "facts t \<noteq> facts d \<or> oc_fact out \<noteq> None \<and> \<not> oc_replayed out"
  shows "\<exists>ctx'. authorize_context (sv_policy sv) (sv_legacy sv) ctx = Inr ctx'
    \<and> evaluate_write (sv_policy sv) r (Some (cx_client ctx')) (slot_fields cand) = Inr None
    \<and> scope_authorized (rq_scope r) (cx_scopes ctx')
    \<and> (rq_sensitivity r = ''sensitive'' \<longrightarrow> ''sensitive'' \<in> set (cx_scopes ctx'))
    \<and> supersession_policy r None None d = None"
  using assms by (rule write_needs_consent)

text \<open>C6: every write that touches a fact is audited.  A fresh outcome with a fact is in the log under
  the connection's client, session and key with the hash of the request, the log row answers with
  that same outcome, the fact is stored in the requested scope, the observation it answers with is
  stored with the connection's identity and the hash of the evidence, and provenance links the two.
\<close>

theorem fact_writes_are_audited:
  assumes run: "write_memory (live sv spec) env ctx r cand d = Inr (out, t)"
    and auth: "authorize_context (sv_policy sv) (sv_legacy sv) ctx = Inr ctx'"
    and fact: "oc_fact out = Some i" "\<not> oc_replayed out"
  shows "\<exists>l obs. logs t = logs d @ [l] \<and> load_prior (cx_client ctx') (rq_key r) t = Some l
    \<and> logged_as env ctx' r cand out l \<and> oc_observation out = Some obs \<and> evidenced_by env ctx' r t i obs"
  by (rule write_on_the_desk [OF run auth]) (use fact in \<open>auto dest: outcome_flag\<close>)

section \<open>Batches\<close>

lemma batch_loop_Inr:
  assumes "batch_loop (live sv spec) envs ctx rb n acc items d = Inr ((outs, ab), t)" "wf_db d"
  shows "wf_db t \<and> (\<exists>k \<le> length items. evolves k d t)
    \<and> (\<exists>done. outs = acc @ done \<and> (ab \<longrightarrow> done \<noteq> [] \<and> rb (last done) \<and> (\<forall>x \<in> set (butlast done). \<not> rb x))
         \<and> (\<not> ab \<longrightarrow> length done = length items \<and> (\<forall>x \<in> set done. \<not> rb x)))"
  using assms
proof (induction items arbitrary: n acc d)
  case Nil
  then show ?case by (auto intro: evolves_refl)
next
  case (Cons it items)
  obtain r cand query where it: "it = (r, cand, query)" by (cases it)
  from Cons.prems(1) obtain ctx' typed out s where
    w: "write_in_transaction (live sv spec) (envs n) ctx' r cand typed query d = Inr (out, s)"
    and rest: "(if rb out then ret (acc @ [out], True)
       else batch_loop (live sv spec) envs ctx rb (Suc n) (acc @ [out]) items) s = Inr ((outs, ab), t)"
    unfolding it batch_loop.simps by (auto simp only: andThen_Inr_iff liftE_Inr_iff)
  from live.transaction_wf [OF Cons.prems(2) w] obtain k where k: "wf_db s" "k \<le> 1" "evolves k d s" by blast
  show ?case
  proof (cases "rb out")
    case True
    with rest have "outs = acc @ [out]" "ab" "t = s" by auto
    with True k show ?thesis by (auto intro!: exI [of _ k] exI [of _ "[out]"])
  next
    case False
    with rest have "batch_loop (live sv spec) envs ctx rb (Suc n) (acc @ [out]) items s = Inr ((outs, ab), t)" by simp
    from Cons.IH [OF this k(1)] obtain j new where j: "wf_db t" "j \<le> length items" "evolves j s t"
      and new: "outs = (acc @ [out]) @ new" "ab \<longrightarrow> new \<noteq> [] \<and> rb (last new) \<and> (\<forall>x \<in> set (butlast new). \<not> rb x)"
        "\<not> ab \<longrightarrow> length new = length items \<and> (\<forall>x \<in> set new. \<not> rb x)" by blast
    have "evolves (k + j) d t" "k + j \<le> length (it # items)" using evolves_trans [OF k(3) j(3)] k(2) j(2) by auto
    moreover have "outs = acc @ (out # new)" using new(1) by simp
    moreover have "ab \<longrightarrow> out # new \<noteq> [] \<and> rb (last (out # new)) \<and> (\<forall>x \<in> set (butlast (out # new)). \<not> rb x)"
      using new(2) False by auto
    moreover have "\<not> ab \<longrightarrow> length (out # new) = length (it # items) \<and> (\<forall>x \<in> set (out # new). \<not> rb x)"
      using new(3) False by auto
    ultimately show ?thesis using j(1) by blast
  qed
qed

text \<open>C7: a batch is all or nothing.  Abandoned, it leaves exactly the store it started from, and the
  last of the outcomes it reports is the first that the caller's rule rejected; committed, it
  reports one outcome for each write, none of them rejected, the store is well formed, and at most
  one fact was added for each write.
\<close>

theorem batch_all_or_nothing:
  assumes wf: "wf_db d"
    and run: "write_batch (live sv spec) envs ctx writes rollback_if before_commit d = Inr (b, t)"
    and before: "\<And>s u s'. before_commit s = Inr (u, s') \<Longrightarrow> quiet s s'"
  shows "if bo_committed b
    then wf_db t \<and> (\<exists>n \<le> length writes. evolves n d t) \<and> length (bo_outcomes b) = length writes
      \<and> (\<forall>x \<in> set (bo_outcomes b). \<not> rollback_if x)
    else t = d \<and> bo_outcomes b \<noteq> [] \<and> rollback_if (last (bo_outcomes b))
      \<and> (\<forall>x \<in> set (butlast (bo_outcomes b)). \<not> rollback_if x)"
proof -
  from run obtain ctx' items where items: "length items = length writes"
    and body: "(case batch_loop (live sv spec) envs ctx' rollback_if 0 [] items d of
       Inl e \<Rightarrow> Inl e
     | Inr ((outs, abandoned), d') \<Rightarrow>
         if abandoned then Inr (\<lparr>bo_outcomes = outs, bo_committed = False\<rparr>, d)
         else andThen before_commit (\<lambda>_. ret \<lparr>bo_outcomes = outs, bo_committed = True\<rparr>) d') = Inr (b, t)"
    unfolding write_batch_def by (auto simp: bindE_Inr_iff mapE_Inr dest!: list_all2_lengthD)
  then obtain outs ab d' where loop: "batch_loop (live sv spec) envs ctx' rollback_if 0 [] items d = Inr ((outs, ab), d')"
    and fin: "(if ab then Inr (\<lparr>bo_outcomes = outs, bo_committed = False\<rparr>, d)
         else andThen before_commit (\<lambda>_. ret \<lparr>bo_outcomes = outs, bo_committed = True\<rparr>) d') = Inr (b, t)"
    by (auto split: sum.splits prod.splits)
  from batch_loop_Inr [OF loop wf] obtain k where k: "wf_db d'" "k \<le> length writes" "evolves k d d'"
    and outs: "ab \<longrightarrow> outs \<noteq> [] \<and> rollback_if (last outs) \<and> (\<forall>x \<in> set (butlast outs). \<not> rollback_if x)"
      "\<not> ab \<longrightarrow> length outs = length writes \<and> (\<forall>x \<in> set outs. \<not> rollback_if x)"
    using items by auto
  show ?thesis
  proof (cases ab)
    case True
    with fin outs show ?thesis by auto
  next
    case False
    with fin obtain u where "before_commit d' = Inr (u, t)" and b: "b = \<lparr>bo_outcomes = outs, bo_committed = True\<rparr>"
      by (auto simp: andThen_const_Inr)
    then have "quiet d' t" by (intro before)
    with k False outs b quiet_wf evolves_quiet show ?thesis by fastforce
  qed
qed

end
