(* ===== verification/StateWrites.thy ===== *)
theory StateWrites
  imports WriteFacts
begin

text \<open>
  What a typed write means for the reader of its slot: an accepted value is the one the slot read
  returns from then on, and a contested one makes it abstain.
\<close>

section \<open>The current values of a slot\<close>

definition slot_values :: "state_candidate \<Rightarrow> db \<Rightarrow> fact list" where
  "slot_values c d = filter (\<lambda>f. in_slot (sc_scope c) (sc_subject c) (sc_predicate c) f \<and> open_interval_fact f) (facts d)"

definition read_slot :: "state_candidate \<Rightarrow> db \<Rightarrow> state_fact option res" where
  "read_slot c = read_current_state (sc_subject c) (sc_predicate c) (sc_scope c)"

text \<open>A candidate whose keys are in normal form, as the constructor leaves them.\<close>

definition keyed :: "state_candidate \<Rightarrow> bool" where
  "keyed c \<longleftrightarrow> strip (sc_subject c) = sc_subject c \<and> sc_subject c \<noteq> [] \<and> strip (sc_predicate c) = sc_predicate c
     \<and> sc_predicate c \<noteq> [] \<and> strip (sc_scope c) = sc_scope c \<and> sc_scope c \<noteq> []"

lemma by_id_Nil [simp]: "by_id fs = [] \<longleftrightarrow> fs = []"
  by (metis by_id_def length_0_conv length_sort)

lemma made_keyed: "make_candidate c0 = Inr c \<Longrightarrow> keyed c"
  using make_candidate_Inr [of c0 c] by (simp add: keyed_def)

lemma slot_facts:
  "keyed c \<Longrightarrow> current_state_facts (sc_subject c) (sc_predicate c) (sc_scope c) d = Inr (map state_row (by_id (slot_values c d)))"
  using current_state_facts_eq by (simp add: keyed_def slot_values_def)

lemma slot_values_current: "f \<in> set (slot_values c d) \<Longrightarrow> f \<in> set (facts d) \<and> current f"
  by (simp add: slot_values_def open_interval_fact_def)

lemma uncontested_single:
  assumes "slots_unique (facts d)" "\<forall>h \<in> set (slot_values c d). f_conflict h = None"
  shows "length (slot_values c d) \<le> 1"
proof -
  let ?a = "filter (\<lambda>f. in_slot (sc_scope c) (sc_subject c) (sc_predicate c) f \<and> active f) (facts d)"
  have "slot_values c d = filter (\<lambda>f. f_valid_to f = None) ?a"
    unfolding slot_values_def filter_filter
    by (rule filter_cong) (use assms(2) in \<open>auto simp: slot_values_def open_interval_fact_def active_def\<close>)
  then have "length (slot_values c d) \<le> length ?a" by (metis length_filter_le)
  with at_most_one_active [OF assms(1)] show ?thesis by (meson le_trans)
qed

lemma read_slot_single:
  assumes "keyed c" "slots_unique (facts d)" "g \<in> set (slot_values c d)" "\<forall>h \<in> set (slot_values c d). f_conflict h = None"
  shows "read_slot c d = Inr (Some (state_row g))"
proof -
  have "slot_values c d = [g]"
    using uncontested_single [OF assms(2,4)] assms(3) by (cases "slot_values c d") auto
  then show ?thesis
    using slot_facts [OF assms(1), of d] assms(4) by (simp add: read_slot_def read_current_state_def by_id_def truthy_text_def)
qed

lemma read_slot_contested:
  assumes "keyed c" "g \<in> set (slot_values c d)" "truthy_text (f_conflict g)"
  shows "read_slot c d = Inr None"
  using slot_facts [OF assms(1), of d] assms(2,3)
  by (auto simp: read_slot_def read_current_state_def list_ex_iff)

section \<open>The decision on a contested slot\<close>

definition contested :: "state_candidate \<Rightarrow> db \<Rightarrow> bool" where
  "contested c d \<longleftrightarrow> 1 < length (slot_values c d) \<or> (\<exists>f \<in> set (slot_values c d). truthy_text (f_conflict f))"

lemma contested_alt:
  "contested c d \<longleftrightarrow> 1 < length (map state_row (by_id (slot_values c d)))
     \<or> list_ex (\<lambda>f. truthy_text (cs_conflict f)) (map state_row (by_id (slot_values c d)))"
  by (auto simp: contested_def list_ex_iff by_id_def)

lemma contested_marked:
  assumes "contested c d" "slots_unique (facts d)"
  shows "\<exists>f \<in> set (slot_values c d). f_conflict f \<noteq> None"
proof (rule ccontr)
  assume n: "\<not> ?thesis"
  then have "length (slot_values c d) \<le> 1" by (intro uncontested_single [OF assms(2)]) blast
  with assms(1) n show False by (auto simp: contested_def truthy_text_def)
qed

lemma decide_contested_shape:
  assumes "decide_contested c cur ex = Inr dec"
  shows "sd_action dec \<in> {Supersede, Conflict} \<and> (sd_action dec = Supersede \<longrightarrow> sd_target dec = None)
    \<and> sd_current dec = map cs_id cur"
proof -
  from assms obtain a b tgt s1 s2 s3 where "(if a then Inr (decide_as c Supersede (map cs_id cur) None s1)
     else if b then Inr (decide_as c Supersede (map cs_id cur) None s2)
     else Inr (decide_as c Conflict (map cs_id cur) tgt s3)) = (Inr dec :: slot_decision res)"
    unfolding decide_contested_def Let_def bindE_Inr_iff by blast
  then show ?thesis by (auto split: if_splits)
qed

lemma decide_on_contested:
  assumes "keyed c" "sc_kind c = ''state''" "decide_state_write c d = Inr dec" "contested c d"
  shows "sd_action dec \<in> {Supersede, Conflict} \<and> (sd_action dec = Supersede \<longrightarrow> sd_target dec = None)
    \<and> sd_current dec = map f_id (by_id (slot_values c d))"
proof -
  let ?cur = "map state_row (by_id (slot_values c d))"
  have ne: "slot_values c d \<noteq> []" using assms(4) by (auto simp: contested_def)
  from assms(3) obtain ov where "(if ?cur = [] \<and> ov = []
       then Inr (decide_as c Add [] None ''slot has no current overlapping value'')
       else
         let peers = (if ?cur = [] then ov else ?cur);
             exact = find (same_value c) peers in
         if 1 < length ?cur \<or> list_ex (\<lambda>f. truthy_text (cs_conflict f)) ?cur
         then decide_contested c ?cur exact
         else (case exact of
             Some f \<Rightarrow> Inr (decide_as c Dedup (map cs_id peers) (Some (cs_id f))
               ''identical current content or structured value'')
           | None \<Rightarrow>
               if ov = []
               then Inr (decide_as c Add (map cs_id ?cur) None ''valid intervals do not overlap'')
               else decide_against c (hd ov))) = Inr dec"
    unfolding decide_state_write_def assms(2) slot_facts [OF assms(1)] by (auto simp only: bindE_simps bindE_Inr_iff if_False simp_thms)
  then have "\<exists>ex. decide_contested c ?cur ex = Inr dec"
    using ne assms(4) unfolding contested_alt Let_def by (simp only: map_is_Nil_conv by_id_Nil if_True if_False simp_thms) blast
  then show ?thesis using decide_contested_shape by fastforce
qed

lemma decide_conflict_with_target:
  assumes "keyed c" "sc_kind c = ''state''" "decide_state_write c d = Inr dec" "sd_action dec = Conflict" "sd_target dec \<noteq> None"
  shows "contested c d"
proof (rule ccontr)
  assume n: "\<not> contested c d"
  have against: "sd_target dec = None" if "decide_against c f = Inr dec" for f
    using that assms(4) by (auto simp: decide_against_def bindE_Inr_iff Let_def split: if_splits)
  show False
    by (rule decide_cases [OF assms(3,2) slot_facts [OF assms(1)]])
      (use n assms(4,5) against in \<open>auto simp: contested_alt\<close>)
qed

section \<open>What is decided for a typed write\<close>

lemma adjusted:
  "sd_current (adjust_conflict_decision sv ctx r d sd) = sd_current sd"
  "sd_action (adjust_conflict_decision sv ctx r d sd) = Conflict \<Longrightarrow> sd_target (adjust_conflict_decision sv ctx r d sd) = sd_target sd"
  "sd_action (adjust_conflict_decision sv ctx r d sd) = Conflict \<Longrightarrow>
     sd_action sd = Conflict \<or> sd_action sd = Supersede \<and> sd_target sd = None"
  "sd_action (adjust_conflict_decision sv ctx r d sd) = Supersede \<Longrightarrow>
     sd_action sd = Conflict \<and> sd_target (adjust_conflict_decision sv ctx r d sd) = None
     \<or> sd_action sd = Supersede \<and> sd_target (adjust_conflict_decision sv ctx r d sd) = sd_target sd"
  "sd_action (adjust_conflict_decision sv ctx r d sd) \<in> {Add, Dedup} \<Longrightarrow> sd_action sd = sd_action (adjust_conflict_decision sv ctx r d sd)"
  by (auto simp: adjust_conflict_decision_def Let_def split: if_splits)

lemma decide_write_typed:
  assumes "decide_write sv ctx r (Some c) d = Inr ((None, sd, eff), t)"
  obtains ce sd0 where "eff = Some ce" "effective_candidate r (Some c) = Inr (Some ce)"
    "decide_state_write ce d = Inr sd0" "sd = Some (adjust_conflict_decision sv ctx r d sd0)"
proof -
  from assms obtain dec eff0 where w: "effective_candidate r (Some c) = Inr eff0"
    and more: "(case (dec, eff0) of
       (None, Some c) \<Rightarrow>
         bindE (decide_state_write c d) (\<lambda>sd0.
         let sd = adjust_conflict_decision sv ctx r d sd0 in
         Inr ((slot_policy r c sd d, Some sd, Some c), d))
     | _ \<Rightarrow> Inr ((dec, None, eff0), d)) = Inr ((None, sd, eff), t)"
    unfolding decide_write_def by (auto simp: bindE_Inr_iff)
  obtain ce where "eff0 = Some ce"
    using w by (auto simp: effective_candidate_def bindE_Inr_iff split: if_splits)
  with w more that show thesis by (cases dec) (auto simp: bindE_Inr_iff Let_def)
qed

lemma effective_slot:
  assumes "make_candidate c0 = Inr c" "sc_kind c = ''state''" "effective_candidate r (Some c) = Inr (Some ce)"
  shows "keyed ce \<and> sc_subject ce = sc_subject c \<and> sc_predicate ce = sc_predicate c \<and> sc_scope ce = sc_scope c
    \<and> sc_kind ce = ''state'' \<and> sc_valid_to ce = sc_valid_to c"
proof (cases "ce = c")
  case True
  with made_keyed [OF assms(1)] assms(2) show ?thesis by simp
next
  case False
  with assms(3) obtain v where "make_candidate (c\<lparr>sc_valid_from := v\<rparr>) = Inr ce"
    by (auto simp: effective_candidate_def bindE_Inr_iff split: if_splits)
  moreover have "strip ''state'' = ''state''" by code_simp
  ultimately show ?thesis
    using make_candidate_Inr [OF assms(1)] assms(2)
    by (auto simp: make_candidate_def bindE_Inr_iff required_ok keyed_def)
qed

section \<open>The mutation, seen from the slot\<close>

lemma in_groups: "h \<in> set (facts d) \<Longrightarrow> f_id h \<in> set ids \<Longrightarrow> f_conflict h = Some k \<Longrightarrow> k \<in> set (groups_of ids d)"
  by (force simp: groups_of_def)

lemma groups_in: "k \<in> set (groups_of ids d) \<Longrightarrow> \<exists>h \<in> set (facts d). f_conflict h = Some k"
  by (auto simp: groups_of_def)

lemma prepare_keeps_current:
  assumes "prepare_state_mutation env sd t0 close d = Inr (cid, d1)" "sd_action sd \<noteq> Conflict"
    and "h \<in> set (facts d1)" "current h"
  shows "h \<in> set (facts d)"
proof -
  from assms(1,2) consider "d1 = d" | i where "facts d1 = update_where (\<lambda>f. f_id f = i \<and> (f_scope f = sd_scope sd \<and> active f))
      (\<lambda>f. f\<lparr>f_invalid_at := Some t0, f_expired_at := Some t0,
             f_valid_to := (case close of None \<Rightarrow> f_valid_to f | Some v \<Rightarrow> coalesce (f_valid_to f) (Some v))\<rparr>) (facts d)"
    unfolding prepare_state_mutation_def by (auto simp: andThen_Inr_iff update_facts_Inr split: if_splits option.splits)
  then show ?thesis
  proof cases
    case (2 i)
    with assms(3,4) show ?thesis by (auto simp: set_update_where current_def split: if_splits)
  qed (use assms(3) in simp)
qed

lemma prepare_resolution:
  assumes "prepare_state_mutation env sd t0 close d = Inr (cid, d1)" "sd_action sd = Supersede" "sd_target sd = None"
  obtains k where "cid = Some k" "groups_of (sd_current sd) d = [k]"
proof -
  from assms obtain k where "cid = Some (hd (groups_of (sd_current sd) d))" "length (groups_of (sd_current sd) d) = 1"
    unfolding prepare_state_mutation_def by (auto simp: andThen_Inr_iff)
  with that show thesis by (cases "groups_of (sd_current sd) d") auto
qed

lemma prepare_ids:
  assumes "prepare_state_mutation env sd t0 close d = Inr (cid, d1)"
  shows "map f_id (facts d1) = map f_id (facts d)"
proof (cases "sd_action sd = Conflict \<and> groups_of (sd_current sd) d = []")
  case True
  with assms obtain k where
    "open_state_conflict update_facts env (sd_subject sd) (sd_predicate sd) (sd_current sd)
            (sd_scope sd) (Some t0) (Some (JObj [(''reason'', JStr (sd_reason sd))])) d = Inr (k, d1)"
    unfolding prepare_state_mutation_def by (auto simp: andThen_Inr_iff)
  then show ?thesis by (rule open_state_conflict_Inr) (simp add: map_update_where)
next
  case False
  with assms show ?thesis unfolding prepare_state_mutation_def
    by (auto simp: andThen_Inr_iff update_facts_Inr map_update_where split: if_splits option.splits)
qed

lemma prepare_conflict:
  assumes "prepare_state_mutation env sd t0 close d = Inr (cid, d1)" "sd_action sd = Conflict"
  obtains k where "cid = Some k" "k \<in> set (groups_of (sd_current sd) d) \<or> k = uuid env (uuid_ctr d)"
proof (cases "groups_of (sd_current sd) d = []")
  case True
  with assms obtain k where k: "cid = Some (kr_id k)"
    "open_state_conflict update_facts env (sd_subject sd) (sd_predicate sd) (sd_current sd)
            (sd_scope sd) (Some t0) (Some (JObj [(''reason'', JStr (sd_reason sd))])) d = Inr (k, d1)"
    unfolding prepare_state_mutation_def by (auto simp: andThen_Inr_iff)
  from k(2) show thesis by (rule open_state_conflict_Inr) (use k(1) that in blast)
next
  case False
  with assms have "cid = Some (hd (groups_of (sd_current sd) d))"
    unfolding prepare_state_mutation_def by (auto simp: andThen_Inr_iff)
  with False that show thesis by simp
qed

text \<open>The effect of the insertion on the slot.\<close>

lemma inserted_governs:
  assumes ids: "ids_ok d" and named: "\<forall>f \<in> set (facts d). f_conflict f \<noteq> Some []" and uuid: "\<forall>n. uuid env n \<noteq> []"
    and c: "keyed c" "sc_kind c = ''state''"
    and dec: "decide_state_write c d = Inr sd0" and sd: "sd = adjust_conflict_decision sv ctx r e sd0"
    and pr: "prepare_state_mutation env sd t0 close d = Inr (cid, d1)"
    and f: "facts d2 = facts d1 @ [f]" "f_id f = next_fact d" "f_content f = x"
    and place: "in_place c sd cid (next_fact d) d2 t" and wf: "wf_db t"
  shows "(sd_action sd = Conflict \<longrightarrow> read_slot c t = Inr None)
    \<and> (sd_action sd \<in> {Add, Supersede} \<longrightarrow>
        (\<exists>g. read_slot c t = Inr (Some (state_row g)) \<and> f_id g = next_fact d \<and> f_content g = x))"
proof -
  let ?n = "next_fact d"
  have fresh: "\<forall>h \<in> set (facts d). f_id h \<noteq> ?n" using ids by (auto simp: ids_ok_def)
  from place obtain f' g where fg: "f' \<in> set (facts d2)" "g \<in> set (facts t)" "f_id f' = ?n" "f_id g = ?n" "f_content g = f_content f'"
    "in_slot (sc_scope c) (sc_subject c) (sc_predicate c) g" "open_interval_fact g"
    "f_conflict g = (if sd_action sd = Conflict then cid else None)"
    and others: "\<forall>h \<in> set (facts t). f_id h \<noteq> ?n \<and> current h \<longrightarrow>
          h \<in> set (facts d2) \<and> (sd_action sd = Supersede \<and> cid \<noteq> None \<longrightarrow> f_conflict h \<noteq> cid)"
    unfolding in_place_def by blast
  have g: "g \<in> set (slot_values c t)" using fg by (simp add: slot_values_def)
  have one: "h = g" if "h \<in> set (facts t)" "f_id h = ?n" for h
    using that fg wf same_id_same_fact [of t h g] by (simp add: wf_db_def)
  have conflict: "read_slot c t = Inr None" if con: "sd_action sd = Conflict"
  proof -
    obtain k where k: "cid = Some k" "k \<in> set (groups_of (sd_current sd) d) \<or> k = uuid env (uuid_ctr d)"
      by (rule prepare_conflict [OF pr con])
    with named uuid groups_in have "k \<noteq> []" by metis
    with k(1) have "truthy_text cid" by (auto simp: truthy_text_def split: list.splits)
    with fg(8) con g show ?thesis by (intro read_slot_contested [OF c(1)]) auto
  qed
  moreover have "read_slot c t = Inr (Some (state_row g)) \<and> f_id g = ?n \<and> f_content g = x" if act: "sd_action sd \<in> {Add, Supersede}"
  proof -
    have "f_conflict h = None" if h: "h \<in> set (slot_values c t)" for h
    proof (rule ccontr)
      assume con: "f_conflict h \<noteq> None"
      with fg(8) act one h have id: "f_id h \<noteq> ?n" by (auto simp: slot_values_def)
      with h others have h2: "h \<in> set (facts d2)" "sd_action sd = Supersede \<and> cid \<noteq> None \<longrightarrow> f_conflict h \<noteq> cid"
        by (auto simp: slot_values_def open_interval_fact_def)
      with f(1,2) id have "h \<in> set (facts d1)" by auto
      with prepare_keeps_current [OF pr, of h] act slot_values_current [OF h] have hd: "h \<in> set (facts d)" by auto
      then have hs: "h \<in> set (slot_values c d)" using h by (simp add: slot_values_def)
      with con named hd have "contested c d" by (auto simp: contested_def truthy_text_def split: option.splits list.splits)
      from decide_on_contested [OF c dec this] act adjusted [of sv ctx r e sd0, folded sd]
      have sup: "sd_action sd = Supersede" "sd_target sd = None" "sd_current sd = map f_id (by_id (slot_values c d))" by auto
      obtain k where k: "cid = Some k" "groups_of (sd_current sd) d = [k]" by (rule prepare_resolution [OF pr sup(1,2)])
      from con obtain k' where k': "f_conflict h = Some k'" by blast
      have "k' \<in> set (groups_of (sd_current sd) d)" by (rule in_groups [OF hd _ k']) (use hs sup(3) in auto)
      with k k' h2(2) sup(1) show False by simp
    qed
    then have "read_slot c t = Inr (Some (state_row g))"
      using read_slot_single [OF c(1) _ g] wf by (simp add: wf_db_def)
    moreover have "f' = f"
    proof -
      have "f' \<notin> set (facts d1)"
      proof
        assume "f' \<in> set (facts d1)"
        then have "\<exists>h \<in> set (facts d). f_id h = f_id f'"
          using prepare_ids [OF pr] by (metis imageE imageI list.set_map)
        with fresh fg(3) show False by auto
      qed
      with fg(1) f(1) show ?thesis by simp
    qed
    ultimately show ?thesis using fg f(3) by simp
  qed
  ultimately show ?thesis by blast
qed

section \<open>The write, seen from the slot\<close>

lemma strip_action_name [simp]: "strip (action_name a) = action_name a"
proof -
  have "\<forall>a \<in> set [Add, Dedup, Supersede, Conflict]. strip (action_name a) = action_name a" by code_simp
  then show ?thesis by (cases a) auto
qed

lemma apply_typed_governs:
  assumes wf: "wf_db d" and named: "\<forall>f \<in> set (facts d). f_conflict f \<noteq> Some []" and uuid: "\<forall>n. uuid env n \<noteq> []"
    and c: "keyed c" "sc_kind c = ''state''" "sc_valid_to c = None"
    and dec: "decide_state_write c d = Inr sd0" and sd: "sd = adjust_conflict_decision sv ctx r e sd0"
    and run: "apply_fact (live sv' spec) env ctx r t0 (Some c) (Some sd) typed (None, None, None) obs d = Inr ((res, cid, enq), t)"
    and wft: "wf_db t"
  shows "fr_outcome res = action_name (sd_action sd) \<and> (fr_outcome res = ''conflict'' \<longrightarrow> read_slot c t = Inr None)
    \<and> (fr_outcome res \<in> {''add'', ''supersede''} \<longrightarrow>
        (\<exists>x. read_slot c t = Inr (Some x) \<and> cs_id x = fr_fact res \<and> cs_content x = strip (rq_content r)))"
proof (cases "sd_action sd \<in> {Dedup, Conflict} \<and> sd_target sd \<noteq> None")
  case True
  with run have t: "t = d" and out: "fr_outcome res = action_name (sd_action sd)"
    by (auto simp: apply_fact_def andThen_Inr_iff make_result_def bindE_Inr_iff)
  have "read_slot c d = Inr None" if con: "sd_action sd = Conflict"
  proof -
    have "contested c d"
    proof (cases "sd_action sd0 = Conflict")
      case True
      with decide_conflict_with_target [OF c(1,2) dec] adjusted(2) [of sv ctx r e sd0, folded sd] con
        \<open>sd_action sd \<in> {Dedup, Conflict} \<and> sd_target sd \<noteq> None\<close> show ?thesis by simp
    next
      case False
      with adjusted(2,3) [of sv ctx r e sd0, folded sd] con
        \<open>sd_action sd \<in> {Dedup, Conflict} \<and> sd_target sd \<noteq> None\<close> show ?thesis by simp
    qed
    with contested_marked [of c d] wf obtain f where "f \<in> set (slot_values c d)" "f_conflict f \<noteq> None"
      by (auto simp: wf_db_def)
    with named slot_values_current [of f c d] show ?thesis
      by (intro read_slot_contested [OF c(1)]) (auto simp: truthy_text_def split: option.splits list.splits)
  qed
  with True t out show ?thesis by (auto simp: action_name_def)
next
  case False
  then have "(case Some sd of None \<Rightarrow> None
      | Some s \<Rightarrow> if sd_action s \<in> {Dedup, Conflict} then map_option (\<lambda>t. (s, t)) (sd_target s) else None) = None" by auto
  with run have ins: "insert_new_fact (live sv' spec) env ctx r t0 (Some c) (Some sd) typed None None obs d = Inr ((res, cid, enq), t)"
    by (simp add: apply_fact_def)
  from live.typed_insert_wf [OF wf ins] c(3) obtain cid d1 d2 f where
    pr: "prepare_state_mutation env sd t0 (sc_valid_from c) d = Inr (cid, d1)"
    and f: "facts d2 = facts d1 @ [f]" "f_id f = next_fact d" "f_content f = strip (rq_content r)"
    and place: "in_place c sd cid (next_fact d) d2 t"
    and res: "fr_fact res = next_fact d" "fr_outcome res = action_name (sd_action sd)" by auto
  from wf have "ids_ok d" by (simp add: wf_db_def)
  from inserted_governs [OF this named uuid c(1,2) dec sd pr f place wft] res show ?thesis
    by (cases "sd_action sd") (auto simp: action_name_def)
qed

text \<open>C1: a typed write governs its slot.  When a write of a value with an open interval answers
  \<open>add\<close> or \<open>supersede\<close>, the slot read returns exactly the stored fact, with the content
  that was written; when it answers \<open>conflict\<close>, the slot read abstains, whoever is right.
\<close>

theorem typed_write_governs_slot:
  assumes wf: "wf_db d" and named: "\<forall>f \<in> set (facts d). f_conflict f \<noteq> Some []" and uuid: "\<forall>n. uuid env n \<noteq> []"
    and c: "make_candidate c0 = Inr c" "sc_valid_to c = None"
    and run: "write_memory (live sv spec) env ctx r (Some c) d = Inr (out, t)"
    and fresh: "oc_fact out = Some i" "\<not> oc_replayed out"
  shows "(oc_outcome out = ''conflict'' \<longrightarrow> read_current_state (sc_subject c) (sc_predicate c) (sc_scope c) t = Inr None)
    \<and> (oc_outcome out \<in> {''add'', ''supersede''} \<longrightarrow>
        (\<exists>x. read_current_state (sc_subject c) (sc_predicate c) (sc_scope c) t = Inr (Some x)
           \<and> cs_id x = i \<and> cs_content x = sc_content c))"
proof -
  obtain ctx' d0 d' typed query sd eff where val: "validate_state_candidate r (Some c) = Inr ()"
    and reg: "register_client ctx' (now env) d = Inr ((), d0)" "register_session ctx' (now env) d0 = Inr ((), d')"
    and dec: "decide_write (live sv spec) ctx' r (Some c) d' = Inr ((None, sd, eff), d')"
    and adm: "admitted_write (live sv spec) env ctx' r (request_sha256 env ctx' r (Some c)) (Some c) eff sd typed query d' = Inr (out, t)"
    by (rule write_memory_admitted [OF run]) (use fresh in auto)
  have q: "quiet d d'" using reg quiet_ops(1,2) quiet_trans by blast
  have kind: "sc_kind c = ''state''" "sc_content c = rq_content r"
    using val by (auto simp: validate_state_candidate_def bindE_Inr_iff)
  from dec obtain ce sd0 where e: "eff = Some ce" "effective_candidate r (Some c) = Inr (Some ce)"
    "decide_state_write ce d' = Inr sd0" "sd = Some (adjust_conflict_decision (live sv spec) ctx' r d' sd0)"
    by (rule decide_write_typed)
  note ce = effective_slot [OF c(1) kind(1) e(2)]
  from adm show ?thesis
  proof (rule admitted_write_Inr)
    fix obs d1 targets x enq d2 d3 d5 sup d6 wid d7 det and res :: write_result
    let ?l = "\<lparr>lg_write_id = wid, lg_key = rq_key r, lg_client = cx_client ctx',
        lg_session = cx_session ctx', lg_operation = rq_operation r, lg_outcome = fr_outcome res,
        lg_fact = Some (fr_fact res), lg_existing = fr_existing res, lg_observation = Some obs,
        lg_recorded_at = now env, lg_sha256 = request_sha256 env ctx' r (Some c), lg_detail = det\<rparr>"
    assume a: "record_observation env ctx' r (now env) d' = Inr (obs, d1)"
      "targets = untyped_targets (live sv spec) r (Some c) typed query d1"
      "apply_fact (live sv spec) env ctx' r (now env) eff sd typed targets obs d1 = Inr (x, d2)" "res = fst x"
      "(case (enq, sv_enqueue (live sv spec)) of (Some i, Some enq) \<Rightarrow> andThen (enq env i) (\<lambda>_. ret ()) | _ \<Rightarrow> ret ()) d2 = Inr ((), d3)"
      "attach_provenance (fr_fact res) obs r (now env) d3 = Inr ((), d5)"
      "(if Some c = None then supersede_if_requested (rq_supersede r) (fr_fact res) (now env) else ret False) d5 = Inr (sup, d6)"
      "uuid4 env d6 = Inr (wid, d7)" "insert_log ?l d7 = Inr ((), t)"
      and out: "make_outcome \<lparr>oc_write_id = wid, oc_outcome = fr_outcome res, oc_fact = Some (fr_fact res),
        oc_existing = fr_existing res, oc_observation = Some obs, oc_replayed = False, oc_detail = det\<rparr> = Inr out"
    have d1: "quiet d' d1" using a(1) by (rule quiet_ops)
    have wf1: "wf_db d1" using wf q d1 quiet_wf by blast
    have fd: "facts d1 = facts d" "facts d' = facts d1" using q d1 by (auto simp: quiet_def)
    have t3: "targets = (None, None, None)" using a(2) by (simp add: untyped_targets_def)
    have "d6 = d5" using a(7) by simp
    with live.enqueue_quiet [OF a(5)] quiet_ops(4) [OF a(6)] quiet_ops(6) [OF a(8)] quiet_ops(5) [OF a(9)]
    have q2: "quiet d2 t" by (simp add: quiet_def)
    have dec1: "decide_state_write ce d1 = Inr sd0"
      using e(3) unfolding decide_state_write_def current_state_facts_def believed_state_facts_def fd(2) .
    have wft: "wf_db t" using live.write_wf [OF wf run] by blast
    then have wf2: "wf_db d2" using quiet_wf [OF q2] by simp
    have named1: "\<forall>f \<in> set (facts d1). f_conflict f \<noteq> Some []" using named fd by simp
    obtain cid enq' where x: "x = (res, cid, enq')" using a(4) by (cases x) auto
    have "sc_valid_to ce = None" using ce c(2) by simp
    with ce have ce': "keyed ce" "sc_kind ce = ''state''" "sc_valid_to ce = None" by simp_all
    note gov = apply_typed_governs [OF wf1 named1 uuid ce' dec1 refl a(3) [unfolded e t3 x] wf2]
    have "read_slot ce d2 = read_current_state (sc_subject c) (sc_predicate c) (sc_scope c) t"
      using ce q2 by (simp add: read_slot_def read_current_state_def current_state_facts_def quiet_def)
    moreover have "oc_outcome out = strip (fr_outcome res)" "fr_fact res = i"
      using out fresh by (auto simp: make_outcome_def bindE_Inr_iff required_ok)
    moreover have "strip (rq_content r) = sc_content c" using make_candidate_Inr(1) [OF c(1)] kind(2) by simp
    moreover have "strip (fr_outcome res) = fr_outcome res" using gov strip_action_name by auto
    ultimately show ?thesis using gov by simp
  qed
qed

section \<open>Closed intervals\<close>

text \<open>
  A claim with a closed interval is retired as it is stored, and only a current fact may join a
  conflict: so a closed claim that has no clear winner against the slot is never recorded.  The
  write raises, and nothing of it is kept; only a value that is already there can answer
  \<open>conflict\<close>.
\<close>

lemma settle_closed_conflict:
  assumes "settle_state_fact env ctx r t0 c sd typed cid res d = Inr (x, t)" "sc_valid_to c \<noteq> None"
  shows "sd_action sd \<noteq> Conflict"
proof
  assume act: "sd_action sd = Conflict"
  from assms(1) act obtain u d3 v k where ps: "persist_state_candidate env res c cid (map_option tf_confidence typed) d = Inr (u, d3)"
    and add: "add_conflict_member k (fr_fact res) d3 = Inr (v, t)"
    by (auto simp: settle_state_fact_def andThen_Inr_iff split: option.splits)
  from add obtain f where f: "find_fact (fr_fact res) d3 = Some f" "current f"
    by (auto simp: add_conflict_member_def andThen_Inr_iff split: option.splits)
  from ps show False
  proof (rule persist_state_candidate_Inr)
    fix g
    let ?p = "\<lambda>f. f_id f = fr_fact res \<and> current f"
    assume d3: "d3 = d\<lparr>facts := update_where ?p g (facts d)\<rparr>"
      and g: "g = (\<lambda>f. f\<lparr>f_kind := Some ''state'', f_subject := Some (sc_subject c), f_predicate := Some (sc_predicate c),
              f_object := sc_object c, f_authority := Some (sc_authority c), f_valid_from := sc_valid_from c,
              f_scope := sc_scope c, f_conflict := cid, f_confidence := map_option tf_confidence typed,
              f_valid_to := sc_valid_to c,
              f_invalid_at := (if sc_valid_to c = None then f_invalid_at f else Some (latest env))\<rparr>)"
    have "\<not> current (g h)" for h using assms(2) by (auto simp: g current_def)
    moreover have "f \<in> set (update_where ?p g (facts d))" "f_id f = fr_fact res" using f(1) d3 by (auto dest: find_fact_Some)
    ultimately show False using in_update_where [of f ?p g "facts d"] f(2) by (metis (full_types))
  qed
qed

theorem closed_claims_never_join_conflicts:
  assumes run: "write_memory (live sv spec) env ctx r (Some c) d = Inr (out, t)" and wf: "wf_db d"
    and c: "make_candidate c0 = Inr c" "sc_valid_to c \<noteq> None"
    and out: "oc_fact out = Some i" "\<not> oc_replayed out" "oc_outcome out = ''conflict''"
  shows "facts t = facts d"
proof -
  obtain ctx' d0 d' typed query sd eff where val: "validate_state_candidate r (Some c) = Inr ()"
    and reg: "register_client ctx' (now env) d = Inr ((), d0)" "register_session ctx' (now env) d0 = Inr ((), d')"
    and dec: "decide_write (live sv spec) ctx' r (Some c) d' = Inr ((None, sd, eff), d')"
    and adm: "admitted_write (live sv spec) env ctx' r (request_sha256 env ctx' r (Some c)) (Some c) eff sd typed query d' = Inr (out, t)"
    by (rule write_memory_admitted [OF run]) (use out in auto)
  have q: "quiet d d'" using reg quiet_ops(1,2) quiet_trans by blast
  have kind: "sc_kind c = ''state''" using val by (auto simp: validate_state_candidate_def bindE_Inr_iff)
  from dec obtain ce sd0 where e: "eff = Some ce" "effective_candidate r (Some c) = Inr (Some ce)"
    "sd = Some (adjust_conflict_decision (live sv spec) ctx' r d' sd0)"
    by (rule decide_write_typed)
  obtain s where s: "sd = Some s" using e(3) by blast
  have closed: "sc_valid_to ce \<noteq> None" using effective_slot [OF c(1) kind e(2)] c(2) by simp
  from adm show ?thesis
  proof (rule admitted_write_Inr)
    fix obs d1 targets x enq d2 d3 d5 sup d6 wid d7 det and res :: write_result
    let ?l = "\<lparr>lg_write_id = wid, lg_key = rq_key r, lg_client = cx_client ctx',
        lg_session = cx_session ctx', lg_operation = rq_operation r, lg_outcome = fr_outcome res,
        lg_fact = Some (fr_fact res), lg_existing = fr_existing res, lg_observation = Some obs,
        lg_recorded_at = now env, lg_sha256 = request_sha256 env ctx' r (Some c), lg_detail = det\<rparr>"
    assume a: "record_observation env ctx' r (now env) d' = Inr (obs, d1)"
      "targets = untyped_targets (live sv spec) r (Some c) typed query d1"
      "apply_fact (live sv spec) env ctx' r (now env) eff sd typed targets obs d1 = Inr (x, d2)" "res = fst x"
      "(case (enq, sv_enqueue (live sv spec)) of (Some i, Some enq) \<Rightarrow> andThen (enq env i) (\<lambda>_. ret ()) | _ \<Rightarrow> ret ()) d2 = Inr ((), d3)"
      "attach_provenance (fr_fact res) obs r (now env) d3 = Inr ((), d5)"
      "(if Some c = None then supersede_if_requested (rq_supersede r) (fr_fact res) (now env) else ret False) d5 = Inr (sup, d6)"
      "uuid4 env d6 = Inr (wid, d7)" "insert_log ?l d7 = Inr ((), t)"
      and oc: "make_outcome \<lparr>oc_write_id = wid, oc_outcome = fr_outcome res, oc_fact = Some (fr_fact res),
        oc_existing = fr_existing res, oc_observation = Some obs, oc_replayed = False, oc_detail = det\<rparr> = Inr out"
    have f1: "facts d1 = facts d" using q quiet_ops(3) [OF a(1)] by (simp add: quiet_def)
    have "d6 = d5" using a(7) by simp
    with live.enqueue_quiet [OF a(5)] quiet_ops(4) [OF a(6)] quiet_ops(6) [OF a(8)] quiet_ops(5) [OF a(9)]
    have f2: "facts t = facts d2" by (simp add: quiet_def)
    have t3: "targets = (None, None, None)" using a(2) by (simp add: untyped_targets_def)
    have "d2 = d1"
    proof (cases "sd_action s \<in> {Dedup, Conflict} \<and> sd_target s \<noteq> None")
      case True
      with a(3) show ?thesis by (auto simp: apply_fact_def andThen_Inr_iff s t3)
    next
      case False
      then have "(case Some s of None \<Rightarrow> None
          | Some s \<Rightarrow> if sd_action s \<in> {Dedup, Conflict} then map_option (\<lambda>t. (s, t)) (sd_target s) else None) = None" by auto
      with a(3) have ins: "insert_new_fact (live sv spec) env ctx' r (now env) (Some ce) (Some s) typed None None obs d1 = Inr (x, d2)"
        by (simp add: apply_fact_def s t3 e(1))
      have "wf_db d1" using wf q quiet_ops(3) [OF a(1)] quiet_wf by blast
      from live.typed_insert_wf [OF this ins] a(4) have "fr_outcome res = action_name (sd_action s)" by simp
      moreover from this have "oc_outcome out = fr_outcome res"
        using oc strip_action_name [of "sd_action s"] by (auto simp: make_outcome_def bindE_Inr_iff required_ok)
      ultimately have "sd_action s = Conflict" using out(3) by (cases "sd_action s") (auto simp: action_name_def)
      moreover have "sd_action s \<noteq> Conflict"
        using ins settle_closed_conflict [OF _ closed] by (auto simp: insert_new_fact_def andThen_Inr_iff)
      ultimately show ?thesis by simp
    qed
    with f1 f2 show ?thesis by simp
  qed
qed

end
