(* ===== verification/Witnesses.thy ===== *)
theory Witnesses
  imports WriteService EmbeddingFacts ConflictFacts Temporal
begin

text \<open>
  Small concrete stores, and on them one instance of each property that has hypotheses: the
  hypotheses can hold together, and what the property says there.
\<close>

section \<open>Stores and processes\<close>

definition demo_env :: env where
  "demo_env = \<lparr>now = ''2026-02-01T00:00:00+00:00'', later = ''2026-02-01T00:00:01+00:00'',
     latest = ''2026-02-01T00:00:02+00:00'', tick = 1000000000000, uuid = (\<lambda>n. replicate (Suc n) CHR ''u''),
     sha256 = (\<lambda>s. s), sha256_json = json_text (\<lambda>q. show_int \<lfloor>q * 1000000\<rfloor>)\<rparr>"

definition demo_state :: "int \<Rightarrow> string \<Rightarrow> string option \<Rightarrow> string option \<Rightarrow> fact" where
  "demo_state i content start grp = (default_fact i content ''private'' ''2026-01-01'')
     \<lparr>f_kind := Some ''state'', f_subject := Some ''person:ann'', f_predicate := Some ''city'',
      f_valid_from := start, f_conflict := grp\<rparr>"

text \<open>One settled value; two values in an open conflict; two untyped facts.\<close>

definition settled_db :: db where
  "settled_db = empty_db\<lparr>next_fact := 2, facts := [demo_state 1 ''Oslo'' (Some ''2026-01-01'') None]\<rparr>"

definition contested_db :: db where
  "contested_db = empty_db\<lparr>next_fact := 3,
     facts := [demo_state 1 ''Oslo'' (Some ''2026-01-01'') (Some ''c''), demo_state 2 ''Bergen'' (Some ''2026-01-01'') (Some ''c'')],
     conflicts := [\<lparr>cf_id = ''c'', cf_scope = ''private'', cf_subject = ''person:ann'', cf_predicate = ''city'',
       cf_detected_at = ''2026-01-02'', cf_resolved_at = None, cf_resolution = None, cf_resolved_by = None,
       cf_reason = None, cf_detail = JObj []\<rparr>],
     members := [(''c'', 1), (''c'', 2)]\<rparr>"

definition untyped_db :: db where
  "untyped_db = empty_db\<lparr>next_fact := 3,
     facts := [default_fact 1 ''the relay listens on port 3100'' ''private'' ''2026-01-01'',
       (default_fact 2 ''the relay listens on port 3200'' ''private'' ''2026-01-02'')\<lparr>f_valid_from := Some ''2026-01-02''\<rparr>]\<rparr>"

lemmas demo_dbs = settled_db_def contested_db_def untyped_db_def demo_state_def default_fact_def empty_db_def

lemma wf_fresh:
  assumes "ids_ok d" "slots_unique (facts d)" "groups_ok {} d" "\<forall>f \<in> set (facts d). f_superseded_by f = None"
  shows "wf_db d"
proof -
  have "successor (facts d) = {}" using assms(4) by (auto simp: successor_def)
  with assms show ?thesis by (simp add: wf_db_def lineage_ok_def acyclic_def)
qed

lemma wf_settled_db: "wf_db settled_db"
  by (rule wf_fresh) (simp_all add: ids_ok_def groups_ok_def slots_unique_def in_slot_index_def is_state_def
      current_def demo_dbs)

lemma wf_untyped_db: "wf_db untyped_db"
  by (rule wf_fresh) (simp_all add: ids_ok_def groups_ok_def slots_unique_def in_slot_index_def is_state_def
      current_def demo_dbs)

lemma wf_contested_db: "wf_db contested_db"
  by (rule wf_fresh) (simp_all add: ids_ok_def groups_ok_def slots_unique_def in_slot_index_def is_state_def
      current_def active_def open_group_def demo_dbs)

lemma demo_uuid: "inj (uuid demo_env)" "uuid demo_env n \<noteq> []"
  by (auto simp: demo_env_def inj_def dest: arg_cong [where f = length])

lemma ok_obtain: "is_ok m \<Longrightarrow> \<exists>r. m = Inr r"
  by (cases m) auto

text \<open>That a run returns, with a check on what it returns: a form that evaluates.\<close>

definition returns :: "('a \<times> 's) res \<Rightarrow> ('a \<Rightarrow> 's \<Rightarrow> bool) \<Rightarrow> bool" where
  "returns m q = (case m of Inr (a, s) \<Rightarrow> q a s | Inl e \<Rightarrow> False)"

lemma returns_iff: "returns m q \<longleftrightarrow> (\<exists>a s. m = Inr (a, s) \<and> q a s)"
  by (auto simp: returns_def split: sum.splits)

definition returns_some :: "('a option \<times> 's) res \<Rightarrow> ('a \<Rightarrow> 's \<Rightarrow> bool) \<Rightarrow> bool" where
  "returns_some m q = (case m of Inr (Some a, s) \<Rightarrow> q a s | _ \<Rightarrow> False)"

lemma returns_some_iff: "returns_some m q \<longleftrightarrow> (\<exists>a s. m = Inr (Some a, s) \<and> q a s)"
  by (auto simp: returns_some_def split: sum.splits option.splits)

section \<open>Reads\<close>

theorem active_facts_authorized_witness:
  "\<exists>fs. active_facts (Some [''private'']) None 5 untyped_db = Inr fs \<and> map f_id fs = [2, 1]
    \<and> sorted_wrt (>) (map f_id fs) \<and> (\<forall>f \<in> set fs. may_read (Some [''private'']) f)"
proof -
  have "case active_facts (Some [''private'']) None 5 untyped_db of Inr fs \<Rightarrow> map f_id fs = [2, 1] | _ \<Rightarrow> False"
    by code_simp
  then obtain fs where fs: "active_facts (Some [''private'']) None 5 untyped_db = Inr fs" "map f_id fs = [2, 1]"
    by (auto split: sum.splits)
  have "ids_ok untyped_db" using wf_untyped_db by (simp add: wf_db_def)
  from active_facts_authorized [OF this fs(1)] fs show ?thesis by simp
qed

theorem reads_noninterference_witness:
  "active_facts (Some [''work'']) None 5 untyped_db = active_facts (Some [''work'']) None 5 settled_db"
proof -
  have "filter (may_read (Some [''work''])) (facts untyped_db) = filter (may_read (Some [''work''])) (facts settled_db)"
    by code_simp
  from reads_noninterference [OF this] show ?thesis by blast
qed

theorem settled_events_sound_witness:
  "\<exists>es. settled_fact_events (\<lambda>s. Some 0) (Some [''private'']) None None contested_db = Inr es \<and> es = []
    \<and> sorted (map (event_key (\<lambda>s. Some 0)) es)"
proof -
  have "case settled_fact_events (\<lambda>s. Some 0) (Some [''private'']) None None contested_db of Inr es \<Rightarrow> es = [] | _ \<Rightarrow> False"
    by code_simp
  then obtain es where es: "settled_fact_events (\<lambda>s. Some 0) (Some [''private'']) None None contested_db = Inr es" "es = []"
    by (auto split: sum.splits)
  from settled_events_sound [OF es(1)] es show ?thesis by blast
qed

section \<open>State slots\<close>

theorem read_current_state_total_witness:
  "read_current_state ''person:ann'' ''city'' ''private'' contested_db = Inr None"
proof -
  have "\<forall>f \<in> set (facts contested_db). f_conflict f \<noteq> Some []" by (simp add: demo_dbs)
  moreover have "strip ''person:ann'' \<noteq> []" "strip ''city'' \<noteq> []" "strip ''private'' \<noteq> []" by code_simp+
  ultimately have "(\<exists>f \<in> set (filter (\<lambda>f. in_slot (strip ''private'') (strip ''person:ann'') (strip ''city'') f \<and> open_interval_fact f)
      (facts contested_db)). f_conflict f \<noteq> None) \<longrightarrow> read_current_state ''person:ann'' ''city'' ''private'' contested_db = Inr None"
    using read_current_state_total [OF wf_contested_db] by blast
  moreover have "\<exists>f \<in> set (filter (\<lambda>f. in_slot (strip ''private'') (strip ''person:ann'') (strip ''city'') f \<and> open_interval_fact f)
      (facts contested_db)). f_conflict f \<noteq> None" by code_simp
  ultimately show ?thesis by blast
qed

definition demo_claim :: state_candidate where
  "demo_claim = \<lparr>sc_content = ''Bergen'', sc_subject = ''person:ann'', sc_predicate = ''city'', sc_object = None,
     sc_authority = 1/2, sc_valid_from = Some ''2026-01-20'', sc_kind = ''state'', sc_scope = ''private'', sc_valid_to = None\<rparr>"

theorem supersede_needs_stronger_claim_witness:
  "\<exists>f \<in> set (facts settled_db). f_id f = 1 \<and> stronger_claim demo_claim f"
proof -
  have c: "make_candidate demo_claim = Inr demo_claim" by code_simp
  have "case decide_state_write demo_claim settled_db of
      Inr dec \<Rightarrow> sd_action dec = Supersede \<and> 1 \<in> set (sd_current dec) | _ \<Rightarrow> False" by code_simp
  then obtain dec where dec: "decide_state_write demo_claim settled_db = Inr dec" "sd_action dec = Supersede"
    "1 \<in> set (sd_current dec)" by (auto split: sum.splits)
  from supersede_needs_stronger_claim [OF c dec] show ?thesis by blast
qed

theorem open_conflict_hides_members_witness:
  "\<exists>r t. open_state_conflict update_facts demo_env ''person:ann'' ''city'' [1] ''private'' None (Some (JObj [])) settled_db = Inr (r, t)
    \<and> wf_db t \<and> read_current_state ''person:ann'' ''city'' ''private'' t = Inr None"
proof -
  have "is_ok (open_state_conflict update_facts demo_env ''person:ann'' ''city'' [1] ''private'' None (Some (JObj [])) settled_db)"
    by code_simp
  then obtain r t where run: "open_state_conflict update_facts demo_env ''person:ann'' ''city'' [1] ''private'' None (Some (JObj [])) settled_db = Inr (r, t)"
    by (metis ok_obtain surj_pair)
  have "\<forall>f \<in> set (facts settled_db). f_conflict f \<noteq> Some []"
    "\<exists>f \<in> set (facts settled_db). f_id f \<in> set [1] \<and> f_valid_to f = None" by (simp_all add: demo_dbs)
  from open_conflict_hides_members [OF wf_settled_db run _ this] demo_uuid(2) run show ?thesis by blast
qed

theorem resolve_conflict_effect_witness:
  "\<exists>r t. resolve_state_conflict demo_env ''c'' 2 ''ann'' ''moved'' None None None None contested_db = Inr (r, t)
    \<and> wf_db t \<and> (\<exists>f. find_fact 2 t = Some f \<and> active f)"
proof -
  have "is_ok (resolve_state_conflict demo_env ''c'' 2 ''ann'' ''moved'' None None None None contested_db)" by code_simp
  then obtain r t where run: "resolve_state_conflict demo_env ''c'' 2 ''ann'' ''moved'' None None None None contested_db = Inr (r, t)"
    by (metis ok_obtain surj_pair)
  from resolve_conflict_effect [OF wf_contested_db run] run show ?thesis by blast
qed

theorem conflict_pages_cover_witness:
  "\<exists>xs ys. list_state_conflicts ''private'' True 1 0 None None contested_db = Inr xs
    \<and> list_state_conflicts ''private'' True 1 1 None None contested_db = Inr ys
    \<and> list_state_conflicts ''private'' True 2 0 None None contested_db = Inr (xs @ ys)"
proof -
  have "is_ok (list_state_conflicts ''private'' True 1 0 None None contested_db)"
    "is_ok (list_state_conflicts ''private'' True 1 (0 + 1) None None contested_db)" by code_simp+
  then obtain xs ys where l: "list_state_conflicts ''private'' True 1 0 None None contested_db = Inr xs"
    "list_state_conflicts ''private'' True 1 (0 + 1) None None contested_db = Inr ys" by (metis ok_obtain)
  from conflict_pages_cover [OF l] l show ?thesis by (simp add: MAX_CONFLICT_LIMIT_def)
qed

section \<open>Supersession and history\<close>

theorem supersede_effect_witness:
  "\<exists>r d'. supersede ''2026-01-03'' 1 2 untyped_db = Inr (r, d') \<and> r
    \<and> (\<exists>f. find_fact 1 d' = Some f \<and> f_superseded_by f = Some 2)"
proof -
  have "\<exists>f. find_fact 1 untyped_db = Some f \<and> \<not> is_state f \<and> f_conflict f = None \<and> f_invalid_at f = None"
    by (simp add: demo_dbs find_fact_def first_where_def is_state_def)
  with supersede_effect [OF wf_untyped_db, of "''2026-01-03''" 1 2] show ?thesis by blast
qed



theorem merge_guard_blocks_changes_witness:
  "value_tokens ''port 3100 is open'' = value_tokens ''the port 3100 is open''"
proof -
  have "safe_to_merge_near_duplicate ''port 3100 is open'' ''the port 3100 is open''" by code_simp
  with merge_guard_blocks_changes show ?thesis by blast
qed

section \<open>The embedding outbox\<close>

definition demo_spec :: embedding_spec where
  "demo_spec = \<lparr>es_identity = ''m:document:none:v1'', es_version = ''v1'', es_dimensions = 1,
     es_fingerprint = ''v1'', es_policy = ''none'', es_query_prefix = [], es_document_prefix = []\<rparr>"

definition demo_processor :: processor where
  "demo_processor = \<lparr>pr_spec = demo_spec, pr_worker = ''w'', pr_lease = 60, pr_max_attempts = 5\<rparr>"

definition outbox_db :: db where
  "outbox_db = untyped_db\<lparr>jobs := [fresh_job demo_spec 0 1 ''h'' 1]\<rparr>"

abbreviation first_claim :: "(claimed_job option \<times> db) res" where
  "first_claim \<equiv> claim (demo_processor\<lparr>pr_worker := ''a''\<rparr>) demo_env 0 outbox_db"

lemma first_claim_runs:
  obtains c d1 where "first_claim = Inr (Some c, d1)"
proof -
  have "case first_claim of Inr (Some c, d1) \<Rightarrow> True | _ \<Rightarrow> False" by code_simp
  then show thesis using that by (auto split: sum.splits option.splits)
qed

lemma outbox_db_ok: "jobs_ok demo_processor (uuid demo_env) outbox_db"
  by (simp add: jobs_ok_def job_ok_def outbox_db_def fresh_job_def demo_processor_def)

theorem outbox_invariant_witness:
  "\<exists>c d1. first_claim = Inr (Some c, d1) \<and> jobs_ok demo_processor (uuid demo_env) d1"
proof -
  obtain c d1 where run: "first_claim = Inr (Some c, d1)" by (rule first_claim_runs)
  then have "(job_step demo_processor (uuid demo_env))\<^sup>*\<^sup>* outbox_db d1"
    using job_step.claimed [OF refl] by blast
  from outbox_invariant [OF this outbox_db_ok] run show ?thesis by (auto simp: demo_processor_def)
qed

theorem claim_settled_once_witness:
  "\<exists>c d1 d2. first_claim = Inr (Some c, d1) \<and> settles_job demo_processor (uuid demo_env) c d1 d2
    \<and> \<not> settles_job demo_processor (uuid demo_env) c d2 d2"
proof -
  have "case first_claim of Inr (Some c, d1) \<Rightarrow> is_ok (fail_job demo_processor c ''TimeoutError'' 5 d1) | _ \<Rightarrow> False"
    by code_simp
  then obtain c d1 out d2 where run: "first_claim = Inr (Some c, d1)"
    and out: "fail_job demo_processor c ''TimeoutError'' 5 d1 = Inr (out, d2)"
    by (auto split: sum.splits option.splits simp: is_ok_iff)
  have settled: "settles_job demo_processor (uuid demo_env) c d1 d2"
    using out demo_uuid(1) unfolding settles_job_def by blast
  from claim_settled_once [OF demo_uuid(1) refl run rtranclp.rtrancl_refl settled rtranclp.rtrancl_refl]
  show ?thesis using run settled by blast
qed

theorem expired_claim_is_fenced_witness:
  "\<exists>c d1 c2 d2. first_claim = Inr (Some c, d1)
    \<and> claim (demo_processor\<lparr>pr_worker := ''b''\<rparr>) demo_env 60000000 d1 = Inr (Some c2, d2)
    \<and> \<not> settles_job demo_processor (uuid demo_env) c d2 d2"
proof -
  have "returns_some first_claim (\<lambda>c d1. returns_some (claim (demo_processor\<lparr>pr_worker := ''b''\<rparr>) demo_env 60000000 d1)
      (\<lambda>c2 d2. cj_job c2 = cj_job c))"
    by code_simp
  then obtain c d1 c2 d2 where run: "first_claim = Inr (Some c, d1)"
    and again: "claim (demo_processor\<lparr>pr_worker := ''b''\<rparr>) demo_env 60000000 d1 = Inr (Some c2, d2)" "cj_job c2 = cj_job c"
    by (auto simp: returns_some_iff)
  from expired_claim_is_fenced [OF demo_uuid(1) refl run rtranclp.rtrancl_refl refl again rtranclp.rtrancl_refl]
  show ?thesis using run again by blast
qed

theorem claim_takes_first_due_witness:
  "\<exists>c d1. first_claim = Inr (Some c, d1) \<and> (\<exists>j \<in> set (jobs outbox_db). ej_id j = cj_job c)"
proof -
  obtain c d1 where run: "first_claim = Inr (Some c, d1)" by (rule first_claim_runs)
  have "distinct (map ej_id (jobs outbox_db))" by (simp add: outbox_db_def)
  from claim_takes_first_due [OF run this] run show ?thesis by blast
qed

theorem commit_stores_fresh_vector_witness:
  "\<exists>c d1 d2. first_claim = Inr (Some c, d1)
    \<and> commit_prepared demo_processor c demo_env ''the relay listens on port 3100'' ''v'' d1 = Inr (''embedded'', d2)
    \<and> has_embedding demo_spec 1 d2"
proof -
  have "returns_some first_claim (\<lambda>c d1. returns (commit_prepared demo_processor c demo_env ''the relay listens on port 3100'' ''v'' d1)
      (\<lambda>out d2. out = ''embedded'' \<and> cj_fact c = 1))"
    by code_simp
  then obtain c d1 d2 where run: "first_claim = Inr (Some c, d1)" "cj_fact c = 1"
    and out: "commit_prepared demo_processor c demo_env ''the relay listens on port 3100'' ''v'' d1 = Inr (''embedded'', d2)"
    by (auto simp: returns_some_iff returns_iff)
  have "pr_spec demo_processor = demo_spec" by (simp add: demo_processor_def)
  with commit_stores_fresh_vector [OF out] run out show ?thesis by auto
qed

theorem failure_backs_off_witness:
  "\<exists>c d1 d2. first_claim = Inr (Some c, d1) \<and> fail_job demo_processor c ''TimeoutError'' 5 d1 = Inr (''pending'', d2)
    \<and> (\<exists>j \<in> set (jobs d2). ej_error j = Some ''TimeoutError'' \<and> ej_available_at j \<le> 5 + seconds 300)"
proof -
  have "returns_some first_claim (\<lambda>c d1. returns (fail_job demo_processor c ''TimeoutError'' 5 d1)
      (\<lambda>out d2. out = ''pending'' \<and> 0 \<le> cj_attempts c))"
    by code_simp
  then obtain c d1 d2 where run: "first_claim = Inr (Some c, d1)" "0 \<le> cj_attempts c"
    and out: "fail_job demo_processor c ''TimeoutError'' 5 d1 = Inr (''pending'', d2)"
    by (auto simp: returns_some_iff returns_iff)
  from failure_backs_off [OF out run(2)] run out show ?thesis by blast
qed


theorem backfill_leaves_no_gap_witness:
  "\<exists>n d'. enqueue_backfill demo_spec demo_env outbox_db = Inr (n, d')
    \<and> (\<forall>j \<in> set (jobs outbox_db). j \<in> set (jobs d'))"
proof -
  have "\<forall>j \<in> set (jobs outbox_db). ej_status j \<noteq> ''completed''" by (simp add: outbox_db_def fresh_job_def)
  with backfill_leaves_no_gap [of demo_spec demo_env outbox_db] show ?thesis by blast
qed

end
