(* ===== verification/WriteWitnesses.thy ===== *)
theory WriteWitnesses
  imports WriteLaws StateWrites Witnesses
begin

text \<open>
  The write envelope at work on the small stores: one instance of each of its properties.
\<close>

definition demo_near :: near_config where
  "demo_near = \<lparr>nc_enabled = False, nc_threshold = 9/10, nc_limit = 5, nc_identity = None\<rparr>"

definition demo_service :: service where
  "demo_service = \<lparr>sv_policy = demo_policy, sv_legacy = False, sv_writer = fact_writer, sv_enqueue = None,
     sv_near = demo_near, sv_embedder = None, sv_index = \<lparr>ix_match = (\<lambda>ws d. []), ix_usable = (\<lambda>q. False), ix_cosine = (\<lambda>q e. None)\<rparr>\<rparr>"

definition hash_content :: "json \<Rightarrow> string" where
  "hash_content v = (case jget ''request'' v of Some q \<Rightarrow> (case jget ''content'' q of Some (JStr s) \<Rightarrow> s | _ \<Rightarrow> []) | None \<Rightarrow> [])"

definition hashing_env :: env where
  "hashing_env = demo_env\<lparr>sha256_json := hash_content\<rparr>"

definition demo_live :: service where
  "demo_live = live demo_service None"

abbreviation demo_write :: "write_request \<Rightarrow> state_candidate option \<Rightarrow> db \<Rightarrow> (write_outcome \<times> db) res" where
  "demo_write \<equiv> write_memory demo_live hashing_env demo_context"

definition granted :: conn_context where
  "granted = demo_context\<lparr>cx_scopes := [''private'']\<rparr>"

lemma demo_parts:
  "sv_policy demo_live = demo_policy" "sv_legacy demo_live = False"
  "cx_client granted = ''codex''" "cx_scopes granted = [''private'']"
  "cx_client demo_context = ''codex''"
  by (simp_all add: demo_live_def demo_service_def granted_def demo_context_def)

lemma demo_authorized: "authorize_context demo_policy False demo_context = Inr granted"
  using demo_context_authorized by (simp add: granted_def)

text \<open>The screen lets the requests of the examples through: settled once, used by all of them.\<close>

lemma demo_allowed: "evaluate_write demo_policy (demo_request k ''x'') (Some ''codex'') [] = Inr None"
proof -
  have "is_ok (validate_scope ''private'')" "is_ok (validate_relation ''supports'')" "is_ok (validate_sensitivity ''normal'')"
    "is_ok (validate_correction_status None)" "\<not> claims_correction (demo_request [] ''x'')" by code_simp+
  then show ?thesis
    using demo_text [of k] demo_text_harmless
    by (auto simp: evaluate_write_def demo_request_def default_credential_screen_def is_ok_iff claims_correction_def demo_policy_def)
qed

lemma demo_request_parts:
  "rq_key (demo_request k ''x'') = k" "rq_supersede (demo_request k ''x'') = None"
  "validate_state_candidate (demo_request k ''x'') None = Inr ()"
  "extracted_typed_fields (demo_request k ''x'') cand = Inr None"
  "request_sha256 hashing_env granted (demo_request k ''x'') cand = ''x''"
  "scope_authorized (rq_scope (demo_request k ''x'')) [''private'']"
  "rq_sensitivity (demo_request k ''x'') = ''normal''"
  by (simp_all add: demo_request_def validate_state_candidate_def extracted_typed_fields_def request_sha256_def
      hashing_env_def hash_content_def request_json_def granted_def scope_authorized_def)

lemma demo_query: "prepare_near_dedup_query demo_live granted (demo_request k ''x'') cand d = Inr None"
  unfolding prepare_near_dedup_query_def demo_parts demo_allowed by (simp add: demo_live_def demo_service_def demo_near_def)

text \<open>What remains of the transaction once the screen has let the request through.\<close>

lemma demo_transaction_eq:
  "write_in_transaction demo_live hashing_env granted (demo_request k ''x'') None None None =
     andThen (register_client granted (now hashing_env)) (\<lambda>_.
     andThen (register_session granted (now hashing_env)) (\<lambda>_.
     andThen (gets (load_prior ''codex'' k)) (\<lambda>prior. case prior of
        Some l \<Rightarrow>
          andThen (require (lg_sha256 l = ''x'')
            (IdempotencyConflict ''idempotency key was already used for a different request'')) (\<lambda>_.
          liftE (outcome_from_row l True))
      | None \<Rightarrow>
          admitted_write demo_live hashing_env granted (demo_request k ''x'') ''x'' None None None None None)))"
proof -
  have w: "write_policy demo_live granted (demo_request k ''x'') None d = Inr None" for d
    unfolding write_policy_def demo_parts slot_fields_def option.case demo_allowed
    by (simp add: demo_request_parts supersession_policy_def policy_target_def truthy_id_def demo_parts)
  have dec: "decide_write demo_live granted (demo_request k ''x'') None = ret (None, None, None)"
    by (rule ext) (simp add: decide_write_def w effective_candidate_def)
  show ?thesis
    by (simp add: dec write_in_transaction_def Let_def demo_request_parts demo_parts andThen_def)
qed

lemma demo_write_eq:
  "demo_write (demo_request k ''x'') None = write_in_transaction demo_live hashing_env granted (demo_request k ''x'') None None None"
  unfolding write_memory_def demo_parts demo_authorized liftE_ok andThen_ret
  by (rule ext) (simp add: demo_request_parts demo_query andThen_def)

lemma first_write:
  obtains out t where "demo_write (demo_request ''k'' ''x'') None settled_db = Inr (out, t)"
    "oc_fact out = Some 2" "\<not> oc_replayed out" "load_prior (cx_client granted) (rq_key (demo_request ''k'' ''x'')) t \<noteq> None"
proof -
  have "returns (demo_write (demo_request ''k'' ''x'') None settled_db)
    (\<lambda>out t. oc_fact out = Some 2 \<and> \<not> oc_replayed out \<and> load_prior ''codex'' ''k'' t \<noteq> None)"
    unfolding demo_write_eq demo_transaction_eq by code_simp
  with that show thesis by (auto simp: returns_iff demo_parts demo_request_parts)
qed

lemma demo_auth: "authorize_context (sv_policy demo_service) (sv_legacy demo_service) demo_context = Inr granted"
  using demo_authorized by (simp add: demo_service_def)

section \<open>The promises of the envelope\<close>



theorem write_keeps_store_witness:
  "\<exists>out t. demo_write (demo_request ''k'' ''x'') None settled_db = Inr (out, t) \<and> wf_db t"
proof (rule first_write)
  fix out t
  assume run: "demo_write (demo_request ''k'' ''x'') None settled_db = Inr (out, t)"
  from write_keeps_store [OF wf_settled_db run [unfolded demo_live_def]] run show ?thesis by blast
qed

theorem facts_change_only_with_consent_witness:
  "evaluate_write demo_policy (demo_request ''k'' ''x'') (Some ''codex'') [] = Inr None
    \<and> supersession_policy (demo_request ''k'' ''x'') None None settled_db = None"
proof (rule first_write)
  fix out t
  assume run: "demo_write (demo_request ''k'' ''x'') None settled_db = Inr (out, t)"
    and fresh: "oc_fact out = Some 2" "\<not> oc_replayed out"
  from facts_change_only_with_consent [OF run] fresh
  have "supersession_policy (demo_request ''k'' ''x'') None None settled_db = None" by blast
  with demo_allowed show ?thesis by simp
qed

theorem fact_writes_are_audited_witness:
  "\<exists>out t l. demo_write (demo_request ''k'' ''x'') None settled_db = Inr (out, t) \<and> logs t = [l] \<and> lg_client l = ''codex''"
proof (rule first_write)
  fix out t
  assume run: "demo_write (demo_request ''k'' ''x'') None settled_db = Inr (out, t)"
    and fresh: "oc_fact out = Some 2" "\<not> oc_replayed out"
  have "logs settled_db = []" by (simp add: settled_db_def empty_db_def)
  with fact_writes_are_audited [OF run [unfolded demo_live_def] demo_auth fresh] run
  show ?thesis by (auto simp: logged_as_def demo_parts)
qed

theorem batch_all_or_nothing_witness:
  "\<exists>b. write_batch demo_live (\<lambda>n. hashing_env) demo_context [(demo_request ''k'' ''x'', None)] (\<lambda>out. True) (ret ()) settled_db
    = Inr (b, settled_db) \<and> \<not> bo_committed b"
proof (rule first_write)
  fix out t
  assume run: "demo_write (demo_request ''k'' ''x'') None settled_db = Inr (out, t)"
  have again: "authorize_context demo_policy False granted = Inr granted" by code_simp
  have b: "write_batch demo_live (\<lambda>n. hashing_env) demo_context [(demo_request ''k'' ''x'', None)] (\<lambda>out. True) (ret ()) settled_db
      = Inr (\<lparr>bo_outcomes = [out], bo_committed = False\<rparr>, settled_db)"
    using run unfolding demo_write_eq
    by (simp add: write_batch_def demo_parts demo_authorized again demo_request_parts demo_query andThen_def checkE_def)
  show ?thesis
    using batch_all_or_nothing [OF wf_settled_db b [unfolded demo_live_def]] b by (auto split: if_splits)
qed

section \<open>A typed write\<close>

definition slot_db :: db where
  "slot_db = empty_db\<lparr>next_fact := 2,
     facts := [(demo_state 1 ''w'' (Some ''2026-01-01'') None)\<lparr>f_subject := Some ''a'', f_predicate := Some ''b''\<rparr>]\<rparr>"

definition slot_claim :: state_candidate where
  "slot_claim = \<lparr>sc_content = ''x'', sc_subject = ''a'', sc_predicate = ''b'', sc_object = None,
     sc_authority = 1/2, sc_valid_from = Some ''2026-01-20'', sc_kind = ''state'', sc_scope = ''private'', sc_valid_to = None\<rparr>"

lemma wf_slot_db: "wf_db slot_db"
  by (rule wf_fresh) (simp_all add: ids_ok_def groups_ok_def slots_unique_def in_slot_index_def is_state_def
      current_def demo_dbs slot_db_def)

lemma slot_text: "screened_text (po_float_text demo_policy) (demo_request key ''x'') [''a'', ''b'']
    = ''x'' @ [CHR 0x0A] @ ''general'' @ [CHR 0x0A] @ ''{}'' @ [CHR 0x0A] @ ''a'' @ [CHR 0x0A] @ ''b''"
  by (simp add: screened_text_def screened_parts_def demo_request_def or_empty_def)

lemma slot_text_harmless:
  "\<not> credential_shaped (''x'' @ [CHR 0x0A] @ ''general'' @ [CHR 0x0A] @ ''{}'' @ [CHR 0x0A] @ ''a'' @ [CHR 0x0A] @ ''b'')"
  by code_simp

lemma slot_allowed: "evaluate_write demo_policy (demo_request k ''x'') (Some ''codex'') [''a'', ''b''] = Inr None"
proof -
  have "is_ok (validate_scope ''private'')" "is_ok (validate_relation ''supports'')" "is_ok (validate_sensitivity ''normal'')"
    "is_ok (validate_correction_status None)" "\<not> claims_correction (demo_request [] ''x'')" by code_simp+
  then show ?thesis
    using slot_text [of k] slot_text_harmless
    by (auto simp: evaluate_write_def demo_request_def default_credential_screen_def is_ok_iff claims_correction_def demo_policy_def)
qed

lemma slot_write_eq:
  "demo_write (demo_request k ''x'') (Some slot_claim) =
     andThen (register_client granted (now hashing_env)) (\<lambda>_.
     andThen (register_session granted (now hashing_env)) (\<lambda>_.
     andThen (gets (load_prior ''codex'' k)) (\<lambda>prior. case prior of
        Some l \<Rightarrow>
          andThen (require (lg_sha256 l = ''x'')
            (IdempotencyConflict ''idempotency key was already used for a different request'')) (\<lambda>_.
          liftE (outcome_from_row l True))
      | None \<Rightarrow>
          andThen (\<lambda>d. bindE (decide_state_write slot_claim d) (\<lambda>sd0.
            let sd = adjust_conflict_decision demo_live granted (demo_request k ''x'') d sd0 in
            Inr ((slot_policy (demo_request k ''x'') slot_claim sd d, Some sd, Some slot_claim), d))) (\<lambda>(dec, sd, eff). case dec of
            Some x \<Rightarrow>
              if factless_decision_is_durable x
              then record_factless_decision hashing_env granted (demo_request k ''x'') ''x'' (now hashing_env) x
              else ephemeral_factless_outcome hashing_env x
          | None \<Rightarrow> admitted_write demo_live hashing_env granted (demo_request k ''x'') ''x'' (Some slot_claim) eff sd None None))))"
proof -
  have v: "validate_state_candidate (demo_request k ''x'') (Some slot_claim) = Inr ()"
    by (simp add: validate_state_candidate_def demo_request_def slot_claim_def checkE_def)
  have e: "effective_candidate (demo_request k ''x'') (Some slot_claim) = Inr (Some slot_claim)"
    by (simp add: effective_candidate_def slot_claim_def)
  have f: "slot_fields (Some slot_claim) = [''a'', ''b'']"
    by (simp add: slot_fields_def slot_claim_def or_empty_def)
  have w: "write_policy demo_live granted (demo_request k ''x'') (Some slot_claim) d = Inr None" for d
    unfolding write_policy_def demo_parts f slot_allowed
    by (simp add: demo_request_parts supersession_policy_def policy_target_def truthy_id_def demo_parts)
  have dec: "decide_write demo_live granted (demo_request k ''x'') (Some slot_claim) = (\<lambda>d. bindE (decide_state_write slot_claim d) (\<lambda>sd0.
            let sd = adjust_conflict_decision demo_live granted (demo_request k ''x'') d sd0 in
            Inr ((slot_policy (demo_request k ''x'') slot_claim sd d, Some sd, Some slot_claim), d)))"
    by (rule ext) (simp add: decide_write_def w e)
  show ?thesis
    unfolding write_memory_def demo_parts demo_authorized liftE_ok andThen_ret v demo_request_parts demo_query
      write_in_transaction_def dec Let_def
    by (rule ext) (simp add: demo_request_parts demo_query demo_parts andThen_def)
qed

theorem typed_write_governs_slot_witness:
  "\<exists>out t. demo_write (demo_request ''k'' ''x'') (Some slot_claim) slot_db = Inr (out, t) \<and> oc_outcome out = ''supersede''
    \<and> (\<exists>v. read_current_state ''a'' ''b'' ''private'' t = Inr (Some v) \<and> cs_content v = ''x'')"
proof -
  have "returns (demo_write (demo_request ''k'' ''x'') (Some slot_claim) slot_db)
    (\<lambda>out t. oc_fact out = Some 2 \<and> \<not> oc_replayed out \<and> oc_outcome out = ''supersede'')"
    unfolding slot_write_eq by code_simp
  then obtain out t where run: "demo_write (demo_request ''k'' ''x'') (Some slot_claim) slot_db = Inr (out, t)"
    and out: "oc_fact out = Some 2" "\<not> oc_replayed out" "oc_outcome out = ''supersede''"
    by (auto simp: returns_iff)
  have made: "make_candidate slot_claim = Inr slot_claim" by code_simp
  have "\<forall>f \<in> set (facts slot_db). f_conflict f \<noteq> Some []" by (simp add: slot_db_def demo_dbs)
  moreover have "\<forall>n. uuid hashing_env n \<noteq> []" using demo_uuid(2) by (simp add: hashing_env_def)
  moreover have "sc_valid_to slot_claim = None" by (simp add: slot_claim_def)
  ultimately show ?thesis
    using typed_write_governs_slot [OF wf_slot_db _ _ made _ run [unfolded demo_live_def] out(1,2)] run out(3)
    by (auto simp: slot_claim_def)
qed

end
