(* ===== verification/Spans.thy ===== *)
theory Spans
  imports PyText Store
begin

text \<open>
  \<^verbatim>\<open>enfold/extraction_spans.py\<close>: cutting a transcript into bounded, exact source spans.  A text
  is a list of code points, a cursor a natural number.  The loops are functions on the cursor
  with the distance to the end as their measure.  A role-structured transcript is the decoded
  JSON of its turns.  The theorems: cutting a text never fails, its spans are ordered, disjoint,
  bounded, trimmed and exact, and together they cover every character that is not white space;
  the spans of a structured transcript are exact substrings of the text it is searched in.
\<close>

section \<open>Spans\<close>

definition MAX_EVIDENCE_CHARS :: nat where
  "MAX_EVIDENCE_CHARS = 2000"

definition MIN_BOUNDARY_SEARCH_CHARS :: nat where
  "MIN_BOUNDARY_SEARCH_CHARS = 64"

definition TRANSCRIPT_ROLES :: "string list" where
  "TRANSCRIPT_ROLES = [''user'', ''assistant'', ''tool'']"

record span =
  sp_id :: string
  sp_start :: int
  sp_end :: int
  sp_text :: string
  sp_role :: "string option"

text \<open>The format \<open>:06d\<close> of a number that is not negative.\<close>

definition pad6 :: "int \<Rightarrow> string" where
  "pad6 i = (let s = show_int i in replicate (6 - length s) CHR ''0'' @ s)"

definition span_id_of :: "int \<Rightarrow> int \<Rightarrow> string" where
  "span_id_of a b = ''span-'' @ pad6 a @ ''-'' @ pad6 b"

definition make_span :: "span \<Rightarrow> span res" where
  "make_span s =
     bindE (checkE (\<not> (sp_start s < 0 \<or> sp_end s \<le> sp_start s)) (ValueError ''transcript span offsets are invalid'')) (\<lambda>_.
     bindE (checkE (\<not> (sp_text s = [] \<or> int (length (sp_text s)) \<noteq> sp_end s - sp_start s))
       (ValueError ''transcript span text does not match its offsets'')) (\<lambda>_.
     bindE (checkE (length (sp_text s) \<le> MAX_EVIDENCE_CHARS)
       (ValueError ''transcript span exceeds the evidence limit'')) (\<lambda>_.
     bindE (checkE (sp_id s = span_id_of (sp_start s) (sp_end s))
       (ValueError ''transcript span id does not match its offsets'')) (\<lambda>_.
     bindE (checkE (case sp_role s of None \<Rightarrow> True | Some r \<Rightarrow> r \<in> set TRANSCRIPT_ROLES)
       (ValueError ''transcript span role is invalid'')) (\<lambda>_.
     Inr s)))))"

definition as_model_input :: "span \<Rightarrow> (string \<times> string) list" where
  "as_model_input s = [(''id'', sp_id s), (''text'', sp_text s)]
     @ (case sp_role s of None \<Rightarrow> [] | Some r \<Rightarrow> [(''role'', r)])"

section \<open>Boundaries\<close>

definition substring :: "string \<Rightarrow> nat \<Rightarrow> nat \<Rightarrow> string" where
  "substring t a b = take (b - a) (drop a t)"

text \<open>\<open>str.rfind(separator, low, high)\<close>, \<open>None\<close> for \<open>-1\<close>.\<close>

definition rfind :: "string \<Rightarrow> string \<Rightarrow> nat \<Rightarrow> nat \<Rightarrow> nat option" where
  "rfind t sep low high =
     (case filter (\<lambda>i. i + length sep \<le> high \<and> substring t i (i + length sep) = sep) [low..<Suc high] of
        [] \<Rightarrow> None | i # is \<Rightarrow> Some (last (i # is)))"

definition boundary_separators :: "string list" where
  "boundary_separators = [[CHR 0x0A, CHR 0x0A], [CHR 0x0A], ''. '', ''? '', ''! '']"

fun first_boundary :: "string \<Rightarrow> nat \<Rightarrow> nat \<Rightarrow> string list \<Rightarrow> nat" where
  "first_boundary t minimum hard_end [] = hard_end"
| "first_boundary t minimum hard_end (sep # seps) =
     (case rfind t sep minimum hard_end of
        Some i \<Rightarrow> i + (if py_space (last sep) then 1 else length sep)
      | None \<Rightarrow> first_boundary t minimum hard_end seps)"

definition preferred_end :: "string \<Rightarrow> nat \<Rightarrow> nat \<Rightarrow> nat \<Rightarrow> nat" where
  "preferred_end t start hard_end block_end =
     (if hard_end = block_end then hard_end
      else first_boundary t (min hard_end (start + MIN_BOUNDARY_SEARCH_CHARS)) hard_end boundary_separators)"

text \<open>
  The expression for a blank line at the head of a text, as the length of its match: an optional
  return, a newline, blanks, an optional return, a newline.
\<close>

definition skip_return :: "string \<Rightarrow> string" where
  "skip_return s = (case s of [] \<Rightarrow> [] | c # cs \<Rightarrow> if c = CHR 0x0D then cs else s)"

definition blank_match :: "string \<Rightarrow> nat option" where
  "blank_match s = (case skip_return s of
     [] \<Rightarrow> None
   | c # cs \<Rightarrow>
       if c \<noteq> CHR 0x0A then None
       else (case skip_return (dropWhile (\<lambda>c. c = CHR '' '' \<or> c = CHR 0x09) cs) of
           [] \<Rightarrow> None
         | e # es \<Rightarrow> if e = CHR 0x0A then Some (length s - length es) else None))"

text \<open>\<open>search\<close> from a cursor on: start and end of the first match.\<close>

fun blank_search :: "nat \<Rightarrow> string \<Rightarrow> (nat \<times> nat) option" where
  "blank_search i [] = None"
| "blank_search i (c # cs) =
     (case blank_match (c # cs) of Some n \<Rightarrow> Some (i, i + n) | None \<Rightarrow> blank_search (Suc i) cs)"

text \<open>The loops that move a cursor over white space, forwards and backwards.\<close>

function skip_forward :: "string \<Rightarrow> nat \<Rightarrow> nat \<Rightarrow> nat" where
  "skip_forward t high i = (if i < high \<and> py_space (t ! i) then skip_forward t high (Suc i) else i)"
  by pat_completeness auto
termination by (relation "measure (\<lambda>(t, high, i). high - i)") auto

fun skip_back :: "string \<Rightarrow> nat \<Rightarrow> nat \<Rightarrow> nat" where
  "skip_back t low i = (if low < i \<and> py_space (t ! (i - 1)) then skip_back t low (i - 1) else i)"

declare skip_forward.simps [simp del] skip_back.simps [simp del]

lemma skip_forward_props:
  "i \<le> skip_forward t high i \<and> (i \<le> high \<longrightarrow> skip_forward t high i \<le> high)
    \<and> (\<forall>k. i \<le> k \<and> k < skip_forward t high i \<longrightarrow> py_space (t ! k))
    \<and> (skip_forward t high i < high \<longrightarrow> \<not> py_space (t ! skip_forward t high i))"
proof (induction t high i rule: skip_forward.induct)
  case (1 t high i)
  show ?case
  proof (cases "i < high \<and> py_space (t ! i)")
    case True
    with 1 have IH: "Suc i \<le> skip_forward t high (Suc i) \<and> (Suc i \<le> high \<longrightarrow> skip_forward t high (Suc i) \<le> high)
      \<and> (\<forall>k. Suc i \<le> k \<and> k < skip_forward t high (Suc i) \<longrightarrow> py_space (t ! k))
      \<and> (skip_forward t high (Suc i) < high \<longrightarrow> \<not> py_space (t ! skip_forward t high (Suc i)))" by blast
    have eq: "skip_forward t high i = skip_forward t high (Suc i)" using True by (simp add: skip_forward.simps [of t high i])
    have "py_space (t ! k)" if "i \<le> k" "k < skip_forward t high (Suc i)" for k
      using that True IH by (cases "k = i") auto
    with True IH show ?thesis unfolding eq by auto
  next
    case False
    then have "skip_forward t high i = i" by (auto simp: skip_forward.simps [of t high i])
    with False show ?thesis by auto
  qed
qed

lemma skip_back_props:
  "skip_back t low i \<le> i \<and> (low \<le> i \<longrightarrow> low \<le> skip_back t low i)
    \<and> (\<forall>k. skip_back t low i \<le> k \<and> k < i \<longrightarrow> py_space (t ! k))
    \<and> (low < skip_back t low i \<longrightarrow> \<not> py_space (t ! (skip_back t low i - 1)))"
proof (induction t low i rule: skip_back.induct)
  case (1 t low i)
  show ?case
  proof (cases "low < i \<and> py_space (t ! (i - 1))")
    case True
    with 1 have IH: "skip_back t low (i - 1) \<le> i - 1 \<and> (low \<le> i - 1 \<longrightarrow> low \<le> skip_back t low (i - 1))
      \<and> (\<forall>k. skip_back t low (i - 1) \<le> k \<and> k < i - 1 \<longrightarrow> py_space (t ! k))
      \<and> (low < skip_back t low (i - 1) \<longrightarrow> \<not> py_space (t ! (skip_back t low (i - 1) - 1)))" by blast
    have eq: "skip_back t low i = skip_back t low (i - 1)" using True by (simp add: skip_back.simps [of t low i])
    have "py_space (t ! k)" if "skip_back t low (i - 1) \<le> k" "k < i" for k
      using that True IH by (cases "k = i - 1") auto
    with True IH show ?thesis unfolding eq by auto
  next
    case False
    then have "skip_back t low i = i" by (auto simp: skip_back.simps [of t low i])
    with False show ?thesis by auto
  qed
qed

lemmas skip_forward_le = skip_forward_props [THEN conjunct1]
  and skip_forward_high = skip_forward_props [THEN conjunct2, THEN conjunct1, rule_format]
  and skip_forward_space = skip_forward_props [THEN conjunct2, THEN conjunct2, THEN conjunct1, rule_format]
  and skip_forward_stop = skip_forward_props [THEN conjunct2, THEN conjunct2, THEN conjunct2, rule_format]
  and skip_back_le = skip_back_props [THEN conjunct1]
  and skip_back_low = skip_back_props [THEN conjunct2, THEN conjunct1, rule_format]
  and skip_back_space = skip_back_props [THEN conjunct2, THEN conjunct2, THEN conjunct1, rule_format]
  and skip_back_stop = skip_back_props [THEN conjunct2, THEN conjunct2, THEN conjunct2, rule_format]

lemma rfind_Some:
  assumes "rfind t sep low high = Some i"
  shows "low \<le> i" "i + length sep \<le> high" "substring t i (i + length sep) = sep"
proof -
  define js where "js = filter (\<lambda>i. i + length sep \<le> high \<and> substring t i (i + length sep) = sep) [low..<Suc high]"
  from assms have "i \<in> set js"
    unfolding rfind_def js_def [symmetric] by (cases js) (auto intro: last_in_set)
  then show "low \<le> i" "i + length sep \<le> high" "substring t i (i + length sep) = sep" by (auto simp: js_def)
qed

lemma first_boundary_bounds:
  assumes "low \<le> high" "\<forall>sep \<in> set seps. sep \<noteq> []"
  shows "low \<le> first_boundary t low high seps \<and> first_boundary t low high seps \<le> high"
  using assms
proof (induction seps)
  case (Cons sep seps)
  show ?case
  proof (cases "rfind t sep low high")
    case (Some i)
    have "1 \<le> length sep" using Cons.prems(2) by (cases sep) auto
    with rfind_Some(1,2) [OF Some] Some show ?thesis by simp
  qed (use Cons in simp)
qed simp

lemma preferred_end_bounds:
  assumes "b < hard"
  shows "b < preferred_end t b hard e \<and> preferred_end t b hard e \<le> hard"
proof -
  have "\<forall>sep \<in> set boundary_separators. sep \<noteq> []" by (simp add: boundary_separators_def)
  with first_boundary_bounds [of "min hard (b + MIN_BOUNDARY_SEARCH_CHARS)" hard boundary_separators t] assms
  show ?thesis by (auto simp: preferred_end_def MIN_BOUNDARY_SEARCH_CHARS_def)
qed

lemma skip_return_split: "\<exists>p. s = p @ skip_return s \<and> (\<forall>c \<in> set p. py_space c)"
proof (cases s)
  case (Cons c cs)
  have "py_space (CHR 0x0D)" by code_simp
  with Cons show ?thesis by (cases "c = CHR 0x0D") (auto simp: skip_return_def intro: exI [of _ "[CHR 0x0D]"])
qed (simp add: skip_return_def)

lemma blank_match_bounds:
  assumes "blank_match s = Some n"
  shows "2 \<le> n" "n \<le> length s" "\<forall>c \<in> set (take n s). py_space c"
proof -
  let ?blank = "\<lambda>c. c = CHR '' '' \<or> c = CHR 0x09"
  from assms obtain cs es where a: "skip_return s = CHR 0x0A # cs" "skip_return (dropWhile ?blank cs) = CHR 0x0A # es"
    and n: "n = length s - length es"
    unfolding blank_match_def by (auto split: list.splits if_splits)
  obtain p where p: "s = p @ CHR 0x0A # cs" "\<forall>c \<in> set p. py_space c" using skip_return_split [of s] a by auto
  obtain q where q: "dropWhile ?blank cs = q @ CHR 0x0A # es" "\<forall>c \<in> set q. py_space c"
    using skip_return_split [of "dropWhile ?blank cs"] a by auto
  have cs: "cs = takeWhile ?blank cs @ q @ CHR 0x0A # es" using q(1) by (metis takeWhile_dropWhile_id)
  define w where "w = p @ CHR 0x0A # takeWhile ?blank cs @ q @ [CHR 0x0A]"
  have sw: "s = w @ es" using p(1) cs unfolding w_def by simp
  have sp: "py_space (CHR 0x0A) \<and> py_space (CHR '' '') \<and> py_space (CHR 0x09)" by code_simp
  have "\<forall>c \<in> set w. py_space c" using p(2) q(2) sp set_takeWhileD [of _ ?blank cs] unfolding w_def by auto
  moreover have "n = length w" using n sw by simp
  moreover have "2 \<le> length w" by (simp add: w_def)
  ultimately show "2 \<le> n" "n \<le> length s" "\<forall>c \<in> set (take n s). py_space c" using sw by simp_all
qed

lemma blank_search_Some:
  assumes "blank_search i s = Some (a, b)"
  shows "i \<le> a \<and> a + 2 \<le> b \<and> b \<le> i + length s \<and> (\<forall>k. a \<le> k \<and> k < b \<longrightarrow> py_space (s ! (k - i)))"
  using assms
proof (induction i s rule: blank_search.induct)
  case (2 i c cs)
  show ?case
  proof (cases "blank_match (c # cs)")
    case None
    with 2 have "Suc i \<le> a \<and> a + 2 \<le> b \<and> b \<le> Suc i + length cs \<and> (\<forall>k. a \<le> k \<and> k < b \<longrightarrow> py_space (cs ! (k - Suc i)))"
      by simp
    moreover from this have "(c # cs) ! (k - i) = cs ! (k - Suc i)" if "a \<le> k" for k using that by (simp add: nth_Cons')
    ultimately show ?thesis by simp
  next
    case (Some n)
    with 2 have ab: "a = i" "b = i + n" by auto
    note bm = blank_match_bounds [OF Some]
    have "py_space ((c # cs) ! (k - i))" if "i \<le> k" "k < i + n" for k
    proof -
      have "(c # cs) ! (k - i) = take n (c # cs) ! (k - i)" using that by simp
      moreover have "k - i < length (take n (c # cs))" using that bm(2) by auto
      ultimately show ?thesis using bm(3) nth_mem by metis
    qed
    with ab bm(1,2) show ?thesis by auto
  qed
qed simp

section \<open>Cutting a text\<close>

text \<open>
  One block: its spans from a cursor to its end.  The limit is positive, as the entry point has
  checked; the loop is not entered otherwise.
\<close>

definition cut_end :: "string \<Rightarrow> nat \<Rightarrow> nat \<Rightarrow> nat \<Rightarrow> nat" where
  "cut_end t max_chars block_end b =
     (let hard_end = min block_end (b + max_chars);
          e = skip_back t b (preferred_end t b hard_end block_end) in
      if e \<le> b then hard_end else e)"

lemma cut_end_bounds: "0 < m \<Longrightarrow> b < be \<Longrightarrow> b < cut_end t m be b \<and> cut_end t m be b \<le> min be (b + m)"
  using preferred_end_bounds [of b "min be (b + m)" t be] skip_back_le [of t b "preferred_end t b (min be (b + m)) be"]
  by (auto simp: cut_end_def Let_def)

definition span_at :: "string \<Rightarrow> nat \<Rightarrow> string option \<Rightarrow> nat \<Rightarrow> nat \<Rightarrow> span" where
  "span_at t offset role a b =
     \<lparr>sp_id = span_id_of (int (a + offset)) (int (b + offset)), sp_start = int (a + offset), sp_end = int (b + offset),
      sp_text = substring t a b, sp_role = role\<rparr>"

function block_spans :: "string \<Rightarrow> nat \<Rightarrow> nat \<Rightarrow> string option \<Rightarrow> nat \<Rightarrow> nat \<Rightarrow> span list res" where
  "block_spans t max_chars offset role block_end b =
     (if 0 < max_chars \<and> b < block_end then
        let e = cut_end t max_chars block_end b in
        bindE (make_span (span_at t offset role b e)) (\<lambda>s.
        bindE (block_spans t max_chars offset role block_end (skip_forward t block_end e)) (\<lambda>rest.
        Inr (s # rest)))
      else Inr [])"
  by pat_completeness auto
termination
proof (relation "measure (\<lambda>(t, m, off, role, be, b). be - b)", simp, clarsimp)
  fix t :: string and m be b :: nat
  assume "0 < m" "b < be"
  with cut_end_bounds [of m b be t] skip_forward_le [of "cut_end t m be b" t be]
  show "be - skip_forward t be (cut_end t m be b) < be - b" by linarith
qed

text \<open>The blocks of a text, separated by blank lines.\<close>

definition block_start :: "string \<Rightarrow> nat \<Rightarrow> nat" where
  "block_start t cursor = skip_forward t (length t) cursor"

function text_spans_from :: "string \<Rightarrow> nat \<Rightarrow> nat \<Rightarrow> string option \<Rightarrow> nat \<Rightarrow> span list res" where
  "text_spans_from t max_chars offset role cursor =
     (if cursor < length t then
        let c = block_start t cursor in
        if length t \<le> c then Inr []
        else
          let separator = blank_search c (drop c t);
              block_end = skip_back t c (case separator of Some (a, b) \<Rightarrow> a | None \<Rightarrow> length t) in
          bindE (block_spans t max_chars offset role block_end c) (\<lambda>xs.
          bindE (text_spans_from t max_chars offset role (case separator of Some (a, b) \<Rightarrow> b | None \<Rightarrow> length t)) (\<lambda>ys.
          Inr (xs @ ys)))
      else Inr [])"
  by pat_completeness auto
termination
proof (relation "measure (\<lambda>(t, m, off, role, c). length t - c)", simp, clarsimp)
  fix t :: string and cursor :: nat
  let ?c = "block_start t cursor"
  assume c: "cursor < length t" "\<not> length t \<le> ?c"
  have "cursor \<le> ?c" by (simp add: block_start_def skip_forward_le)
  moreover have "?c < b" if "blank_search ?c (drop ?c t) = Some (a, b)" for a b
    using blank_search_Some [OF that] by simp
  ultimately show "length t - (case blank_search ?c (drop ?c t) of None \<Rightarrow> length t | Some (a, b) \<Rightarrow> b) < length t - cursor"
    using c by (fastforce split: option.splits)
qed

declare block_spans.simps [simp del] text_spans_from.simps [simp del]

definition text_spans :: "string \<Rightarrow> nat \<Rightarrow> nat \<Rightarrow> string option \<Rightarrow> span list res" where
  "text_spans t max_chars offset role = text_spans_from t max_chars offset role 0"

section \<open>What a cut is\<close>

text \<open>
  \<open>tiles t m lo hi ps\<close>: the intervals \<open>ps\<close> are in order between \<open>lo\<close> and \<open>hi\<close>, not longer
  than \<open>m\<close>, begin and end with a character that is not white space, and leave out only white space.
\<close>

fun tiles :: "string \<Rightarrow> nat \<Rightarrow> nat \<Rightarrow> nat \<Rightarrow> (nat \<times> nat) list \<Rightarrow> bool" where
  "tiles t m lo hi [] = (\<forall>k. lo \<le> k \<and> k < hi \<longrightarrow> py_space (t ! k))"
| "tiles t m lo hi ((a, b) # ps) =
     (lo \<le> a \<and> a < b \<and> b \<le> hi \<and> b - a \<le> m \<and> \<not> py_space (t ! a) \<and> \<not> py_space (t ! (b - 1))
      \<and> (\<forall>k. lo \<le> k \<and> k < a \<longrightarrow> py_space (t ! k)) \<and> tiles t m b hi ps)"

lemma tiles_extend:
  assumes "lo' \<le> lo" "\<forall>k. lo' \<le> k \<and> k < lo \<longrightarrow> py_space (t ! k)" "tiles t m lo hi ps"
  shows "tiles t m lo' hi ps"
proof (cases ps)
  case Nil
  with assms show ?thesis by (simp, meson not_le)
next
  case (Cons p qs)
  with assms show ?thesis by (cases p) (simp, meson not_le)
qed

lemma tiles_shorter:
  "\<forall>k. hi \<le> k \<and> k < hi' \<longrightarrow> py_space (t ! k) \<Longrightarrow> hi \<le> hi' \<Longrightarrow> tiles t m lo hi ps \<Longrightarrow> tiles t m lo hi' ps"
proof (induction ps arbitrary: lo)
  case Nil
  then show ?case by (simp, meson not_le)
next
  case (Cons p ps)
  then show ?case by (cases p) auto
qed

lemma tiles_append:
  "tiles t m lo mid ps \<Longrightarrow> tiles t m mid hi qs \<Longrightarrow> lo \<le> mid \<Longrightarrow> mid \<le> hi \<Longrightarrow> tiles t m lo hi (ps @ qs)"
proof (induction ps arbitrary: lo)
  case Nil
  then show ?case using tiles_extend by auto
next
  case (Cons p ps)
  then show ?case by (cases p) auto
qed

lemma skip_back_from:
  assumes "b < e" "\<not> py_space (t ! b)"
  shows "b < skip_back t b e \<and> skip_back t b e \<le> e \<and> \<not> py_space (t ! (skip_back t b e - 1))"
proof -
  have "b < skip_back t b e"
  proof (rule ccontr)
    assume "\<not> ?thesis"
    with skip_back_space [of t b e b] assms show False by auto
  qed
  with skip_back_le skip_back_stop show ?thesis by blast
qed

lemma cut_end_trimmed:
  assumes "0 < m" "b < be" "\<not> py_space (t ! b)"
  shows "\<not> py_space (t ! (cut_end t m be b - 1))"
  using skip_back_from [of b "preferred_end t b (min be (b + m)) be" t] preferred_end_bounds [of b "min be (b + m)" t be] assms
  by (auto simp: cut_end_def Let_def)

definition role_ok :: "string option \<Rightarrow> bool" where
  "role_ok role \<longleftrightarrow> (case role of None \<Rightarrow> True | Some r \<Rightarrow> r \<in> set TRANSCRIPT_ROLES)"

lemma make_span_at:
  assumes "a < b" "b \<le> length t" "b - a \<le> MAX_EVIDENCE_CHARS" "role_ok role"
  shows "make_span (span_at t off role a b) = Inr (span_at t off role a b)"
  using assms by (auto simp: make_span_def span_at_def substring_def bindE_def checkE_def role_ok_def)

abbreviation spans_at :: "string \<Rightarrow> nat \<Rightarrow> string option \<Rightarrow> (nat \<times> nat) list \<Rightarrow> span list" where
  "spans_at t off role ps \<equiv> map (\<lambda>(a, b). span_at t off role a b) ps"

lemma block_spans_tiles:
  assumes "0 < m" "m \<le> MAX_EVIDENCE_CHARS" "role_ok role" "be \<le> length t" "b \<le> be"
    and "b < be \<Longrightarrow> \<not> py_space (t ! b)"
  shows "\<exists>ps. block_spans t m off role be b = Inr (spans_at t off role ps) \<and> tiles t m b be ps"
  using assms
proof (induction t m off role be b rule: block_spans.induct)
  case (1 t m off role be b)
  show ?case
  proof (cases "b < be")
    case False
    then have "block_spans t m off role be b = Inr []" by (simp add: block_spans.simps [of t m off role be b])
    with False "1.prems"(5) show ?thesis by (intro exI [of _ "[]"]) auto
  next
    case True
    let ?e = "cut_end t m be b" and ?n = "skip_forward t be (cut_end t m be b)"
    note e = cut_end_bounds [OF "1.prems"(1) True, of t] cut_end_trimmed [OF "1.prems"(1) True "1.prems"(6) [OF True]]
    have n: "?e \<le> ?n" "?n \<le> be" "?n < be \<Longrightarrow> \<not> py_space (t ! ?n)"
      using skip_forward_le [of ?e t be] skip_forward_high [of ?e be t] skip_forward_stop [of t be ?e] e by auto
    have span: "make_span (span_at t off role b ?e) = Inr (span_at t off role b ?e)"
      using e "1.prems" by (intro make_span_at) auto
    from "1.IH" [of ?e] True "1.prems" n span obtain ps where
      ps: "block_spans t m off role be ?n = Inr (spans_at t off role ps)" "tiles t m ?n be ps" by auto
    have "tiles t m ?e be ps"
      using skip_forward_space [where t = t and high = be and i = ?e] n(1) ps(2) by (intro tiles_extend [of ?e ?n]) auto
    with e True "1.prems"(6) have "tiles t m b be ((b, ?e) # ps)" by auto
    moreover have "block_spans t m off role be b = Inr (spans_at t off role ((b, ?e) # ps))"
      using True "1.prems"(1) span ps(1) by (simp add: block_spans.simps [of t m off role be b] Let_def)
    ultimately show ?thesis by blast
  qed
qed

lemma text_spans_from_tiles:
  assumes "0 < m" "m \<le> MAX_EVIDENCE_CHARS" "role_ok role" "cursor \<le> length t"
  shows "\<exists>ps. text_spans_from t m off role cursor = Inr (spans_at t off role ps) \<and> tiles t m cursor (length t) ps"
  using assms
proof (induction t m off role cursor rule: text_spans_from.induct)
  case (1 t m off role cursor)
  let ?c = "block_start t cursor"
  have c: "cursor \<le> ?c" "?c \<le> length t" "?c < length t \<Longrightarrow> \<not> py_space (t ! ?c)"
    "\<forall>k. cursor \<le> k \<and> k < ?c \<longrightarrow> py_space (t ! k)"
    using skip_forward_le [of cursor t "length t"] skip_forward_high [of cursor "length t" t]
      skip_forward_stop [of t "length t" cursor] skip_forward_space [where t = t and high = "length t" and i = cursor] "1.prems"(4)
    by (auto simp: block_start_def)
  show ?case
  proof (cases "?c < length t")
    case False
    with c have "tiles t m cursor (length t) []" by auto
    moreover have "text_spans_from t m off role cursor = Inr (spans_at t off role [])"
      using False by (simp add: text_spans_from.simps [of t m off role cursor] Let_def)
    ultimately show ?thesis by blast
  next
    case True
    let ?sep = "blank_search ?c (drop ?c t)"
    let ?a = "case ?sep of Some (a, b) \<Rightarrow> a | None \<Rightarrow> length t" and ?b = "case ?sep of Some (a, b) \<Rightarrow> b | None \<Rightarrow> length t"
    let ?be = "skip_back t ?c ?a"
    have "?c < ?a \<and> ?a \<le> ?b \<and> ?b \<le> length t \<and> (\<forall>k. ?a \<le> k \<and> k < ?b \<longrightarrow> py_space (t ! k))"
    proof (cases ?sep)
      case (Some p)
      obtain a b where p: "p = (a, b)" by (cases p)
      note bs = blank_search_Some [OF Some [unfolded p]]
      have "drop ?c t ! (k - ?c) = t ! k" if "a \<le> k" "k < b" for k using that bs c(2) by simp
      with bs c(2) have s: "?c \<le> a \<and> a + 2 \<le> b \<and> b \<le> length t \<and> (\<forall>k. a \<le> k \<and> k < b \<longrightarrow> py_space (t ! k))"
        by auto
      moreover have "?c \<noteq> a" using s c(3) [OF True] by auto
      ultimately show ?thesis using Some p by auto
    qed (use True in auto)
    then have ab: "?c < ?a" "?a \<le> ?b" "?b \<le> length t" "\<forall>k. ?a \<le> k \<and> k < ?b \<longrightarrow> py_space (t ! k)" by blast+
    from skip_back_from [OF ab(1) c(3) [OF True]] ab have be: "?c < ?be" "?be \<le> ?a" by auto
    have gap: "\<forall>k. ?be \<le> k \<and> k < ?b \<longrightarrow> py_space (t ! k)" using ab(4) skip_back_space [of t ?c ?a] by (meson not_le)
    obtain ps where ps: "block_spans t m off role ?be ?c = Inr (spans_at t off role ps)" "tiles t m ?c ?be ps"
      using block_spans_tiles [OF "1.prems"(1-3), of ?be t ?c off] be ab c(3) [OF True] by auto
    from "1.IH" [of ?c ?sep ?be] True c(1) ps(1) "1.prems" ab(3) obtain qs where
      qs: "text_spans_from t m off role ?b = Inr (spans_at t off role qs)" "tiles t m ?b (length t) qs" by auto
    have "tiles t m ?be (length t) qs" using gap qs(2) be ab by (intro tiles_extend [of ?be ?b]) auto
    with ps(2) have "tiles t m ?c (length t) (ps @ qs)" by (rule tiles_append) (use be ab in auto)
    then have "tiles t m cursor (length t) (ps @ qs)" using c by (intro tiles_extend [of cursor ?c]) auto
    moreover have "text_spans_from t m off role cursor = Inr (spans_at t off role (ps @ qs))"
      using True c(1) ps(1) qs(1) by (simp add: text_spans_from.simps [of t m off role cursor] Let_def)
    ultimately show ?thesis by blast
  qed
qed

section \<open>Transcripts\<close>

text \<open>A transcript is a text, or a sequence of turns as decoded from JSON.\<close>

datatype transcript = Text string | Turns "json list"

definition turn_of :: "json \<Rightarrow> (string \<times> string) res" where
  "turn_of turn =
     bindE (checkE (case turn of JObj kvs \<Rightarrow> set (map fst kvs) = {''role'', ''content''} | _ \<Rightarrow> False)
       (ValueError ''each transcript turn must contain role and content'')) (\<lambda>_.
     case (jget ''role'' turn, jget ''content'' turn) of
       (Some (JStr role), Some (JStr content)) \<Rightarrow>
         bindE (checkE (role \<in> set TRANSCRIPT_ROLES) (ValueError ''transcript turn role or content is invalid'')) (\<lambda>_.
         bindE (checkE (strip content \<noteq> []) (ValueError ''transcript turn content must be non-empty'')) (\<lambda>_.
         Inr (role, content)))
     | _ \<Rightarrow> Inl (ValueError ''transcript turn role or content is invalid''))"

fun turn_spans :: "nat \<Rightarrow> nat \<Rightarrow> json list \<Rightarrow> span list res" where
  "turn_spans max_chars offset [] = Inr []"
| "turn_spans max_chars offset (turn # turns) =
     bindE (turn_of turn) (\<lambda>(role, content).
     bindE (text_spans content max_chars offset (Some role)) (\<lambda>xs.
     bindE (turn_spans max_chars (offset + length content + 2) turns) (\<lambda>ys.
     Inr (xs @ ys))))"

definition transcript_spans :: "transcript \<Rightarrow> int \<Rightarrow> span list res" where
  "transcript_spans transcript max_chars =
     bindE (checkE (0 < max_chars \<and> max_chars \<le> int MAX_EVIDENCE_CHARS)
       (ValueError ''max_chars must be within the evidence limit'')) (\<lambda>_.
     case transcript of
       Text t \<Rightarrow> text_spans t (nat max_chars) 0 None
     | Turns turns \<Rightarrow>
         bindE (turn_spans (nat max_chars) 0 turns) (\<lambda>spans.
         bindE (checkE (spans \<noteq> []) (ValueError ''role-structured transcript must not be empty'')) (\<lambda>_.
         Inr spans)))"

definition normalize_transcript :: "transcript \<Rightarrow> (string \<times> (string \<times> string) list option) res" where
  "normalize_transcript transcript = (case transcript of
     Text t \<Rightarrow>
       bindE (checkE (strip t \<noteq> []) (ValueError ''transcript must be non-empty'')) (\<lambda>_. Inr (strip t, None))
   | Turns turns \<Rightarrow>
       bindE (transcript_spans (Turns turns) (int MAX_EVIDENCE_CHARS)) (\<lambda>_.
       bindE (mapE turn_of turns) (\<lambda>ps.
       Inr (join [CHR 0x0A, CHR 0x0A] (map snd ps), Some ps))))"

definition eligible_transcript_spans :: "span list \<Rightarrow> span list" where
  "eligible_transcript_spans spans = filter (\<lambda>s. sp_role s = Some ''user'') spans"

section \<open>What the spans of a transcript are\<close>

text \<open>A span is an exact piece of a text that begins at an offset.\<close>

definition exact_at :: "string \<Rightarrow> nat \<Rightarrow> nat \<Rightarrow> span \<Rightarrow> bool" where
  "exact_at t off m s \<longleftrightarrow> (\<exists>a b. sp_start s = int (a + off) \<and> sp_end s = int (b + off) \<and> a < b \<and> b \<le> length t \<and> b - a \<le> m
     \<and> sp_text s = substring t a b \<and> \<not> py_space (t ! a) \<and> \<not> py_space (t ! (b - 1)))"

lemma tiles_exact:
  "tiles t m lo hi ps \<Longrightarrow> hi \<le> length t \<Longrightarrow> s \<in> set (spans_at t off role ps) \<Longrightarrow> exact_at t off m s \<and> sp_role s = role
     \<and> int (lo + off) \<le> sp_start s"
proof (induction ps arbitrary: lo)
  case (Cons p ps)
  obtain a b where p: "p = (a, b)" by (cases p)
  have c: "lo \<le> a" "a < b" "b \<le> hi" "b - a \<le> m" "\<not> py_space (t ! a)" "\<not> py_space (t ! (b - 1))" "tiles t m b hi ps"
    using Cons.prems(1) p by auto
  from Cons.prems(3) p consider "s = span_at t off role a b" | "s \<in> set (spans_at t off role ps)" by auto
  then show ?case
  proof cases
    case 1
    with c Cons.prems(2) show ?thesis
      unfolding exact_at_def by (intro conjI exI [of _ a] exI [of _ b]) (auto simp: span_at_def)
  next
    case 2
    from Cons.IH [OF c(7) Cons.prems(2) 2] c(1,2) show ?thesis by auto
  qed
qed simp

lemma tiles_sorted:
  "tiles t m lo hi ps \<Longrightarrow> hi \<le> length t \<Longrightarrow> sorted_wrt (\<lambda>x y. sp_end x \<le> sp_start y) (spans_at t off role ps)"
proof (induction ps arbitrary: lo)
  case (Cons p ps)
  obtain a b where p: "p = (a, b)" by (cases p)
  have c: "tiles t m b hi ps" using Cons.prems(1) p by auto
  from Cons.IH [OF c Cons.prems(2)] tiles_exact [OF c Cons.prems(2), of _ off role] p
  show ?case by (auto simp: span_at_def)
qed simp

lemma tiles_cover:
  "tiles t m lo hi ps \<Longrightarrow> lo \<le> k \<Longrightarrow> k < hi \<Longrightarrow> \<not> py_space (t ! k) \<Longrightarrow> \<exists>(a, b) \<in> set ps. a \<le> k \<and> k < b"
proof (induction ps arbitrary: lo)
  case (Cons p ps)
  obtain a b where p: "p = (a, b)" by (cases p)
  with Cons.prems have c: "tiles t m b hi ps" "\<forall>k. lo \<le> k \<and> k < a \<longrightarrow> py_space (t ! k)" by auto
  then have "a \<le> k" using Cons.prems(2,4) by (meson not_le)
  with Cons.IH [OF c(1)] Cons.prems p show ?case by (cases "k < b") auto
qed auto

lemma text_spans_tiles:
  assumes "0 < m" "m \<le> MAX_EVIDENCE_CHARS" "role_ok role"
  obtains ps where "text_spans t m off role = Inr (spans_at t off role ps)" "tiles t m 0 (length t) ps"
  using text_spans_from_tiles [OF assms, of 0 t off] by (auto simp: text_spans_def)

text \<open>C27: cutting a text into evidence spans never fails, loses nothing and invents nothing: the spans
  are in order and disjoint, no longer than the limit, each is the exact substring at its offsets
  and begins and ends with a character that is not white space, and every such character of the
  text is in one of them.
\<close>

theorem text_spans_exact_cover:
  assumes "0 < m" "m \<le> int MAX_EVIDENCE_CHARS"
  shows "\<exists>xs. transcript_spans (Text t) m = Inr xs
    \<and> (\<forall>s \<in> set xs. exact_at t 0 (nat m) s) \<and> sorted_wrt (\<lambda>x y. sp_end x \<le> sp_start y) xs
    \<and> (\<forall>k < length t. \<not> py_space (t ! k) \<longrightarrow> (\<exists>s \<in> set xs. sp_start s \<le> int k \<and> int k < sp_end s))"
proof -
  have m: "0 < nat m" "nat m \<le> MAX_EVIDENCE_CHARS" "role_ok None" using assms by (auto simp: role_ok_def)
  obtain ps where ps: "text_spans t (nat m) 0 None = Inr (spans_at t 0 None ps)" "tiles t (nat m) 0 (length t) ps"
    by (rule text_spans_tiles [OF m])
  have "\<exists>s \<in> set (spans_at t 0 None ps). sp_start s \<le> int k \<and> int k < sp_end s" if k: "k < length t" "\<not> py_space (t ! k)" for k
  proof -
    from tiles_cover [OF ps(2) _ k] obtain a b where "(a, b) \<in> set ps" "a \<le> k" "k < b" by auto
    then show ?thesis by (intro bexI [of _ "span_at t 0 None a b"]) (auto simp: span_at_def)
  qed
  moreover have "transcript_spans (Text t) m = Inr (spans_at t 0 None ps)"
    using assms ps(1) by (simp add: transcript_spans_def checkE_def)
  ultimately show ?thesis using tiles_exact [OF ps(2) order_refl] tiles_sorted [OF ps(2) order_refl] by blast
qed

lemma substring_left: "b \<le> length x \<Longrightarrow> substring (x @ y) a b = substring x a b"
  by (simp add: substring_def)

lemma substring_right: "substring (x @ y) (length x + a) (length x + b) = substring y a b"
  by (simp add: substring_def)

lemma turn_of_Inr: "turn_of turn = Inr (r, c) \<Longrightarrow> r \<in> set TRANSCRIPT_ROLES"
  by (auto simp: turn_of_def bindE_Inr_iff split: option.splits json.splits)

lemma turn_spans_exact:
  assumes "0 < m" "m \<le> MAX_EVIDENCE_CHARS" "mapE turn_of ts = Inr ps"
  shows "\<exists>xs. turn_spans m off ts = Inr xs \<and> (\<forall>s \<in> set xs. exact_at (join [CHR 0x0A, CHR 0x0A] (map snd ps)) off m s
    \<and> (\<exists>(r, c) \<in> set ps. sp_role s = Some r \<and> (\<exists>a b. sp_text s = substring c a b)))"
  using assms(3)
proof (induction ts arbitrary: off ps)
  case (Cons turn ts)
  let ?sep = "[CHR 0x0A, CHR 0x0A]"
  from Cons.prems obtain r c qs where ps: "turn_of turn = Inr (r, c)" "mapE turn_of ts = Inr qs" "ps = (r, c) # qs"
    by (auto simp: bindE_Inr_iff)
  have "role_ok (Some r)" using turn_of_Inr [OF ps(1)] by (simp add: role_ok_def)
  then obtain cs where cs: "text_spans c m off (Some r) = Inr (spans_at c off (Some r) cs)" "tiles c m 0 (length c) cs"
    by (rule text_spans_tiles [OF assms(1,2)])
  obtain ys where ys: "turn_spans m (off + length c + 2) ts = Inr ys"
    "\<forall>s \<in> set ys. exact_at (join ?sep (map snd qs)) (off + length c + 2) m s
      \<and> (\<exists>(r, c) \<in> set qs. sp_role s = Some r \<and> (\<exists>a b. sp_text s = substring c a b))"
    using Cons.IH [OF ps(2)] by blast
  let ?t = "join ?sep (map snd ps)"
  have first: "\<exists>rest. ?t = c @ rest" using ps(3) by (cases qs) auto
  have "exact_at ?t off m s \<and> (\<exists>(r, c) \<in> set ps. sp_role s = Some r \<and> (\<exists>a b. sp_text s = substring c a b))"
    if "s \<in> set (spans_at c off (Some r) cs)" for s
  proof -
    from tiles_exact [OF cs(2) order_refl that] obtain a b where ab: "sp_start s = int (a + off)" "sp_end s = int (b + off)"
      "a < b" "b \<le> length c" "b - a \<le> m" "sp_text s = substring c a b" "\<not> py_space (c ! a)" "\<not> py_space (c ! (b - 1))"
      "sp_role s = Some r" unfolding exact_at_def by auto
    from first obtain rest where t: "?t = c @ rest" by blast
    have "exact_at ?t off m s" unfolding exact_at_def t
      using ab by (intro exI [of _ a] exI [of _ b]) (auto simp: substring_left nth_append)
    with ab ps(3) show ?thesis by auto
  qed
  moreover have "exact_at ?t off m s \<and> (\<exists>(r, c) \<in> set ps. sp_role s = Some r \<and> (\<exists>a b. sp_text s = substring c a b))"
    if s: "s \<in> set ys" for s
  proof -
    from ys(2) s obtain a b where ab: "sp_start s = int (a + (off + length c + 2))" "sp_end s = int (b + (off + length c + 2))"
      "a < b" "b \<le> length (join ?sep (map snd qs))" "b - a \<le> m" "sp_text s = substring (join ?sep (map snd qs)) a b"
      "\<not> py_space (join ?sep (map snd qs) ! a)" "\<not> py_space (join ?sep (map snd qs) ! (b - 1))"
      unfolding exact_at_def by blast
    have "qs \<noteq> []" using ab(3,4) by auto
    then have t: "?t = (c @ ?sep) @ join ?sep (map snd qs)" using ps(3) by (cases qs) auto
    have l: "length (c @ ?sep) = length c + 2" by simp
    have "exact_at ?t off m s" unfolding exact_at_def t
      using ab substring_right [of "c @ ?sep" "join ?sep (map snd qs)" a b]
      by (intro exI [of _ "length (c @ ?sep) + a"] exI [of _ "length (c @ ?sep) + b"]) (auto simp: nth_append)
    with ys(2) s ps(3) show ?thesis by auto
  qed
  ultimately show ?case using ps(1) cs(1) ys(1) by (auto simp: ball_Un)
qed simp

text \<open>C28: evidence keeps its speaker and its place.  When a role-structured transcript is cut into
  spans, every span is the exact substring, at its own offsets, of the text that the transcript
  normalises to, lies inside one turn's content and carries that turn's role.
\<close>

theorem structured_spans_attributed:
  assumes norm_ok: "normalize_transcript (Turns ts) = Inr (text', Some turns)" and cut: "transcript_spans (Turns ts) m = Inr xs"
  shows "\<forall>s \<in> set xs. exact_at text' 0 (nat m) s
    \<and> (\<exists>(r, c) \<in> set turns. sp_role s = Some r \<and> (\<exists>a b. sp_text s = substring c a b))"
proof -
  from norm_ok have ps: "mapE turn_of ts = Inr turns" "text' = join [CHR 0x0A, CHR 0x0A] (map snd turns)"
    by (auto simp: normalize_transcript_def bindE_Inr_iff)
  from cut have m: "0 < nat m" "nat m \<le> MAX_EVIDENCE_CHARS" "turn_spans (nat m) 0 ts = Inr xs"
    by (auto simp: transcript_spans_def bindE_Inr_iff)
  from turn_spans_exact [OF m(1,2) ps(1), of 0] m(3) ps(2) show ?thesis by simp
qed

theorem text_spans_exact_cover_witness:
  "\<exists>xs. transcript_spans (Text ''Tea. Milk'') 6 = Inr xs \<and> (\<forall>s \<in> set xs. exact_at ''Tea. Milk'' 0 (nat 6) s)
    \<and> sorted_wrt (\<lambda>x y. sp_end x \<le> sp_start y) xs
    \<and> (\<forall>k < length ''Tea. Milk''. \<not> py_space (''Tea. Milk'' ! k) \<longrightarrow> (\<exists>s \<in> set xs. sp_start s \<le> int k \<and> int k < sp_end s))"
  by (rule text_spans_exact_cover) (simp_all add: MAX_EVIDENCE_CHARS_def)

definition demo_turns :: "json list" where
  "demo_turns = [JObj [(''role'', JStr ''user''), (''content'', JStr ''I moved'')],
     JObj [(''role'', JStr ''assistant''), (''content'', JStr ''OK'')]]"

lemma demo_turns_normal:
  "normalize_transcript (Turns demo_turns)
    = Inr (''I moved'' @ [CHR 0x0A, CHR 0x0A] @ ''OK'', Some [(''user'', ''I moved''), (''assistant'', ''OK'')])"
  by code_simp

lemma demo_turns_cut:
  "transcript_spans (Turns demo_turns) 100 = Inr
     [\<lparr>sp_id = ''span-000000-000007'', sp_start = 0, sp_end = 7, sp_text = ''I moved'', sp_role = Some ''user''\<rparr>,
      \<lparr>sp_id = ''span-000009-000011'', sp_start = 9, sp_end = 11, sp_text = ''OK'', sp_role = Some ''assistant''\<rparr>]"
  by code_simp

theorem structured_spans_attributed_witness:
  "\<exists>xs. transcript_spans (Turns demo_turns) 100 = Inr xs \<and> length xs = 2
    \<and> (\<forall>s \<in> set xs. exact_at (''I moved'' @ [CHR 0x0A, CHR 0x0A] @ ''OK'') 0 (nat 100) s
      \<and> (\<exists>(r, c) \<in> set [(''user'', ''I moved''), (''assistant'', ''OK'')]. sp_role s = Some r
        \<and> (\<exists>a b. sp_text s = substring c a b)))"
  by (intro exI conjI) (rule demo_turns_cut, simp, rule structured_spans_attributed [OF demo_turns_normal demo_turns_cut])

end
