(* ===== verification/ExtractQueue.thy ===== *)
theory ExtractQueue
  imports Spans Policy StoreInv
begin

text \<open>
  \<^verbatim>\<open>enfold/extract_queue.py\<close>: the persistent queue of transcripts waiting for extraction.  Every
  operation of \<open>ExtractQueue\<close> commits by itself, so it is a function on the store.  Readings of
  \<open>time.time()\<close> and the lease columns are rationals, in seconds; \<open>created_at\<close> is the second the
  row was made in.  A lease owner is a string that may carry the end of the lease it was issued
  with (\<open>_ClaimedLeaseOwner\<close>).
\<close>

section \<open>Constants\<close>

definition MAX_PAYLOAD_BYTES :: nat where
  "MAX_PAYLOAD_BYTES = 12 * 1024"

definition STATUS_PENDING :: string where "STATUS_PENDING = ''pending''"

definition STATUS_PROCESSING :: string where "STATUS_PROCESSING = ''processing''"

definition STATUS_DEAD :: string where "STATUS_DEAD = ''dead''"

definition QUOTA_ERROR_PATTERNS :: "string list" where
  "QUOTA_ERROR_PATTERNS = [''429'', ''usage_limit_reached'', ''usage_limit'', ''rate limit'', ''quota'']"

definition QUOTA_FALLBACK_DELAY :: rat where "QUOTA_FALLBACK_DELAY = 1800"

definition MAX_ROW_AGE_SECONDS :: int where "MAX_ROW_AGE_SECONDS = 48 * 3600"

definition AGE_CAP_NOTE :: string where "AGE_CAP_NOTE = '' (dead: 48h age cap)''"

section \<open>Quota errors\<close>

text \<open>Python's \<open>in\<close> on strings.\<close>

definition occurs_in :: "string \<Rightarrow> string \<Rightarrow> bool" where
  "occurs_in w s \<longleftrightarrow> list_ex (\<lambda>i. take (length w) (drop i s) = w) [0..<Suc (length s)]"

definition is_quota_error :: "string option \<Rightarrow> bool" where
  "is_quota_error err \<longleftrightarrow>
     (let t = lower (case err of None \<Rightarrow> [] | Some e \<Rightarrow> e) in list_ex (\<lambda>w. occurs_in w t) QUOTA_ERROR_PATTERNS)"

text \<open>
  The two expressions \<open><word>\D{0,12}(\d+)\<close> and \<open><word>\D{0,12}(\d{9,12})\<close>, ignoring case, as
  the text of their group: a run of non-digits is left at its first digit, so a match at a place
  means at most twelve of them and enough digits after.
\<close>

definition group_after :: "nat \<Rightarrow> nat option \<Rightarrow> string \<Rightarrow> string option" where
  "group_after least most s =
     (let gap = length (takeWhile (\<lambda>c. \<not> is_digit c) s);
          digits = takeWhile is_digit (drop gap s) in
      if gap \<le> 12 \<and> least \<le> length digits
      then Some (case most of None \<Rightarrow> digits | Some m \<Rightarrow> take m digits) else None)"

fun number_after :: "string \<Rightarrow> nat \<Rightarrow> nat option \<Rightarrow> string \<Rightarrow> string option" where
  "number_after w least most [] = None"
| "number_after w least most (c # cs) =
     (case (if prefix w (lower (c # cs)) then group_after least most (drop (length w) (c # cs)) else None) of
        Some g \<Rightarrow> Some g
      | None \<Rightarrow> number_after w least most cs)"

text \<open>\<open>jitter\<close> is the value \<open>random.uniform\<close> draws between its two bounds.\<close>

definition quota_retry_delay :: "rat \<Rightarrow> string option \<Rightarrow> rat \<Rightarrow> rat" where
  "quota_retry_delay jitter err t =
     (let s = (case err of None \<Rightarrow> [] | Some e \<Rightarrow> e) in
      case number_after ''resets_in_seconds'' 1 None s of
        Some g \<Rightarrow> of_int (digits_val g) + jitter
      | None \<Rightarrow>
        (case number_after ''resets_at'' 9 (Some 12) s of
           Some g \<Rightarrow> max 0 (of_int (digits_val g) - t) + jitter
         | None \<Rightarrow> QUOTA_FALLBACK_DELAY))"

section \<open>Payloads\<close>

text \<open>
  The decoder that ignores what it cannot decode (\<open>errors="ignore"\<close>).
\<close>

fun utf8_decode :: "string \<Rightarrow> string" where
  "utf8_decode [] = []"
| "utf8_decode [b] = (if code b < 128 then [b] else [])"
| "utf8_decode (b # e # bs) =
     (if code b < 128 then b # utf8_decode (e # bs)
      else if (code b = 194 \<or> code b = 195) \<and> continuation e
      then char_of ((code b - 192) * 64 + (code e - 128)) # utf8_decode bs
      else utf8_decode (e # bs))"

text \<open>\<open>json.dumps\<close> of a dictionary of texts, with \<open>ensure_ascii=False\<close>, \<open>sort_keys\<close> and the compact separators.\<close>

definition dict_text :: "(string \<times> string) list \<Rightarrow> string" where
  "dict_text kvs = ''{'' @ join '','' (map (\<lambda>(k, v). json_quote_raw k @ '':'' @ json_quote_raw v) (sort_key fst kvs)) @ ''}''"

definition turns_text :: "(string \<times> string) list \<Rightarrow> string" where
  "turns_text turns = ''['' @ join '','' (map (\<lambda>(r, c). dict_text [(''role'', r), (''content'', c)]) turns) @ '']''"

definition payload_hash :: "env \<Rightarrow> bool \<Rightarrow> string \<Rightarrow> string" where
  "payload_hash env structured payload =
     sha256 env ((if structured then ''role-structured-v1'' @ [CHR 0x00] else []) @ payload)"

section \<open>Rows, leases and the index\<close>

definition queued :: "queue_row \<Rightarrow> bool" where
  "queued r \<longleftrightarrow> q_status r \<in> {STATUS_PENDING, STATUS_PROCESSING}"

text \<open>The rows of the partial index \<open>uq_extract_queue_active_payload_hash\<close>.\<close>

definition in_queue_index :: "queue_row \<Rightarrow> bool" where
  "in_queue_index r \<longleftrightarrow> q_hash r \<noteq> None \<and> queued r"

definition queue_unique :: "queue_row list \<Rightarrow> bool" where
  "queue_unique rows \<longleftrightarrow> distinct (map q_hash (filter in_queue_index rows))"

definition update_queue :: "(queue_row \<Rightarrow> bool) \<Rightarrow> (queue_row \<Rightarrow> queue_row) \<Rightarrow> nat dbtx" where
  "update_queue p g = (\<lambda>d.
     let rows = update_where p g (queue d) in
     if queue_unique rows then Inr (count_where p (queue d), d\<lparr>queue := rows\<rparr>)
     else Inl (IntegrityError ''UNIQUE constraint failed: extract_queue.payload_hash''))"

text \<open>The migration that gives existing rows their hash, when the index is first made.\<close>

fun backfill_hashes :: "env \<Rightarrow> string list \<Rightarrow> queue_row list \<Rightarrow> queue_row list" where
  "backfill_hashes env active_hashes [] = []"
| "backfill_hashes env active_hashes (r # rs) =
     (let digest = payload_hash env False (q_payload r) in
      if queued r then
        (if digest \<in> set active_hashes then r # backfill_hashes env active_hashes rs
         else r\<lparr>q_hash := Some digest\<rparr> # backfill_hashes env (digest # active_hashes) rs)
      else r\<lparr>q_hash := Some digest\<rparr> # backfill_hashes env active_hashes rs)"

type_synonym lease_owner = "(string \<times> rat option) option"

definition lease_fence :: "lease_owner \<Rightarrow> string option \<times> rat option" where
  "lease_fence owner = (map_option fst owner, Option.bind owner snd)"

text \<open>
  \<open>status = 'processing' AND lease_owner = ? AND (? IS NULL OR lease_until = ?)\<close>, in SQL: no row
  has an owner equal to \<open>NULL\<close>.
\<close>

definition fenced :: "lease_owner \<Rightarrow> queue_row \<Rightarrow> bool" where
  "fenced owner r \<longleftrightarrow> (case lease_fence owner of (who, until) \<Rightarrow>
     q_status r = STATUS_PROCESSING \<and> who \<noteq> None \<and> q_owner r = who \<and> (until = None \<or> q_until r = until))"

definition age_exceeded :: "rat \<Rightarrow> rat \<Rightarrow> bool" where
  "age_exceeded t created \<longleftrightarrow> of_int MAX_ROW_AGE_SECONDS \<le> t - created"

definition unlease :: "queue_row \<Rightarrow> queue_row" where
  "unlease r = r\<lparr>q_owner := None, q_until := None\<rparr>"

section \<open>Writing\<close>

definition new_queue_row :: "string \<Rightarrow> string \<Rightarrow> rat \<Rightarrow> int \<Rightarrow> queue_row" where
  "new_queue_row payload hash t i =
     \<lparr>q_id = i, q_payload = payload, q_created_at = of_int \<lfloor>t\<rfloor>, q_attempts = 0, q_error = None,
      q_status = STATUS_PENDING, q_not_before = None, q_owner = None, q_until = None,
      q_hash = Some hash, q_proposal = None, q_proposal_hash = None\<rparr>"

text \<open>The text that is stored for a transcript, and whether it is role-structured.\<close>

definition encode_payload :: "transcript \<Rightarrow> (string \<times> bool) res" where
  "encode_payload transcript = (case transcript of
     Text t \<Rightarrow>
       Inr (if MAX_PAYLOAD_BYTES < length (utf8 t)
            then utf8_decode (drop (length (utf8 t) - MAX_PAYLOAD_BYTES) (utf8 t)) else t, False)
   | Turns turns \<Rightarrow>
       bindE (normalize_transcript (Turns turns)) (\<lambda>(_, ps).
       let payload = turns_text (case ps of None \<Rightarrow> [] | Some ps \<Rightarrow> ps) in
       bindE (checkE (length (utf8 payload) \<le> MAX_PAYLOAD_BYTES)
         (ValueError ''role-structured extraction payload exceeds size limit'')) (\<lambda>_.
       Inr (payload, True))))"

definition same_payload :: "string \<Rightarrow> string \<Rightarrow> queue_row \<Rightarrow> bool" where
  "same_payload payload hash r \<longleftrightarrow> queued r \<and> (q_hash r = Some hash \<or> (q_hash r = None \<and> q_payload r = payload))"

definition enqueue :: "env \<Rightarrow> rat \<Rightarrow> transcript \<Rightarrow> int dbtx" where
  "enqueue env t transcript =
     andThen (liftE (encode_payload transcript)) (\<lambda>(payload, structured).
     let hash = payload_hash env structured payload in
     andThen (gets (\<lambda>d. first_where (same_payload payload hash) (sort_key q_id (queue d)))) (\<lambda>existing.
     case existing of
       Some r \<Rightarrow> ret (q_id r)
     | None \<Rightarrow> (\<lambda>d.
         let row = new_queue_row payload hash t (next_queue d) in
         if queue_unique (queue d @ [row])
         then Inr (next_queue d, d\<lparr>queue := queue d @ [row], next_queue := next_queue d + 1\<rparr>)
         else (case first_where (\<lambda>r. q_hash r = Some hash \<and> queued r) (sort_key q_id (queue d)) of
             None \<Rightarrow> Inl (IntegrityError ''extract queue idempotency conflict had no active row'')
           | Some r \<Rightarrow> Inr (q_id r, d)))))"

definition mark_done :: "int \<Rightarrow> lease_owner \<Rightarrow> bool dbtx" where
  "mark_done row_id owner = (\<lambda>d.
     let p = (\<lambda>r. q_id r = row_id \<and> fenced owner r) in
     Inr (count_where p (queue d) = 1, d\<lparr>queue := filter (\<lambda>r. \<not> p r) (queue d)\<rparr>))"

text \<open>A proposal is a dictionary of texts, as its items.\<close>

definition credential_shaped_proposal :: "(string \<times> string) list \<Rightarrow> bool res" where
  "credential_shaped_proposal proposal =
     (let get = (\<lambda>k default. case map_of proposal k of None \<Rightarrow> default | Some v \<Rightarrow> v);
          content = strip (get ''content'' []) in
      bindE (make_request
       \<lparr>rq_key = ''legacy-extraction-snapshot-screen'',
        rq_content = (if content = [] then ''invalid proposal'' else content),
        rq_source_type = ''automatic_extraction'', rq_category = get ''category'' ''general'',
        rq_tags = get ''tags'' [], rq_trust = 1/2, rq_authority = 1/2, rq_source_uri = None,
        rq_observation = None, rq_asserted_by = None, rq_performed_by = None, rq_observed_at = None,
        rq_scope = ''private'', rq_sensitivity = ''normal'', rq_correction = None,
        rq_excerpt = None, rq_relation = ''supports'', rq_metadata = JObj [],
        rq_supersede = None, rq_operation = ''add_fact''\<rparr> (Some (JObj []))) (\<lambda>r.
      Inr (default_credential_screen (\<lambda>_. []) r [dict_text proposal] \<noteq> None)))"

fun safe_proposals :: "(string \<times> string) list list \<Rightarrow> (string \<times> string) list list res" where
  "safe_proposals [] = Inr []"
| "safe_proposals (p # ps) =
     bindE (credential_shaped_proposal p) (\<lambda>bad.
     bindE (safe_proposals ps) (\<lambda>rest. Inr (if bad then rest else p # rest)))"

definition proposals_json :: "(string \<times> string) list list \<Rightarrow> json" where
  "proposals_json ps = JArr (map (\<lambda>p. JObj (sort_key fst (map (\<lambda>(k, v). (k, JStr v)) p))) ps)"

definition save_proposals :: "int \<Rightarrow> (string \<times> string) list list \<Rightarrow> lease_owner \<Rightarrow> bool dbtx" where
  "save_proposals row_id proposals owner =
     andThen (liftE (safe_proposals proposals)) (\<lambda>safe.
     andThen (update_queue (\<lambda>r. q_id r = row_id \<and> fenced owner r)
       (\<lambda>r. r\<lparr>q_proposal := (case q_proposal r of None \<Rightarrow> Some (proposals_json safe) | Some v \<Rightarrow> Some v)\<rparr>)) (\<lambda>n.
     ret (n = 1)))"

text \<open>The row a failure is recorded on, when the caller still holds its lease.\<close>

definition leased_row :: "int \<Rightarrow> lease_owner \<Rightarrow> db \<Rightarrow> queue_row option" where
  "leased_row row_id owner d = (case first_where (\<lambda>r. q_id r = row_id) (queue d) of
     None \<Rightarrow> None
   | Some r \<Rightarrow> (case lease_fence owner of (who, until) \<Rightarrow>
       if q_status r \<noteq> STATUS_PROCESSING \<or> q_owner r \<noteq> who \<or> (until \<noteq> None \<and> q_until r \<noteq> until)
       then None else Some r))"

definition mark_failed :: "rat \<Rightarrow> int \<Rightarrow> string \<Rightarrow> int \<Rightarrow> lease_owner \<Rightarrow> int dbtx" where
  "mark_failed t row_id err max_attempts owner =
     andThen (gets (leased_row row_id owner)) (\<lambda>row. case row of
       None \<Rightarrow> ret 0
     | Some r \<Rightarrow>
         let attempts = q_attempts r + 1;
             aged = age_exceeded t (q_created_at r);
             message = take 500 err @ (if aged then AGE_CAP_NOTE else []);
             st = (if aged \<or> max_attempts \<le> attempts then STATUS_DEAD else STATUS_PENDING) in
         andThen (update_queue (\<lambda>x. q_id x = row_id \<and> fenced owner x \<and> q_attempts x = q_attempts r)
           (\<lambda>x. (unlease x)\<lparr>q_attempts := attempts, q_error := Some message, q_status := st\<rparr>)) (\<lambda>n.
         ret (if n = 1 then attempts else 0)))"

definition mark_quota_failed :: "rat \<Rightarrow> int \<Rightarrow> string \<Rightarrow> rat \<Rightarrow> lease_owner \<Rightarrow> bool dbtx" where
  "mark_quota_failed t row_id err not_before owner =
     andThen (gets (leased_row row_id owner)) (\<lambda>row. case row of
       None \<Rightarrow> ret False
     | Some r \<Rightarrow>
         let message = take 500 err;
             hit = (\<lambda>x. q_id x = row_id \<and> fenced owner x \<and> q_attempts x = q_attempts r) in
         if age_exceeded t (q_created_at r) then
           andThen (update_queue hit (\<lambda>x. (unlease x)\<lparr>q_error := Some (message @ AGE_CAP_NOTE),
             q_status := STATUS_DEAD, q_not_before := None\<rparr>)) (\<lambda>_. ret False)
         else
           andThen (update_queue hit (\<lambda>x. (unlease x)\<lparr>q_error := Some message,
             q_status := STATUS_PENDING, q_not_before := Some not_before\<rparr>)) (\<lambda>n. ret (n = 1)))"

definition release_claim :: "int \<Rightarrow> lease_owner \<Rightarrow> bool dbtx" where
  "release_claim row_id owner =
     andThen (update_queue (\<lambda>r. q_id r = row_id \<and> fenced owner r)
       (\<lambda>r. (unlease r)\<lparr>q_status := STATUS_PENDING\<rparr>)) (\<lambda>n. ret (n = 1))"

text \<open>
  Which dead rows may come back: a row without a hash, or the oldest dead row of its hash when no
  active row has it.
\<close>

definition revivable :: "queue_row list \<Rightarrow> queue_row \<Rightarrow> bool" where
  "revivable rows r \<longleftrightarrow> q_status r = STATUS_DEAD \<and> (q_hash r = None \<or>
     (q_id r = Min (set (map q_id (filter (\<lambda>peer. q_status peer = STATUS_DEAD \<and> q_hash peer = q_hash r) rows)))
      \<and> \<not> list_ex (\<lambda>x. q_hash x = q_hash r \<and> queued x) rows))"

definition revive :: "queue_row \<Rightarrow> queue_row" where
  "revive r = (unlease r)\<lparr>q_status := STATUS_PENDING, q_attempts := 0, q_not_before := None,
     q_error := Some ((case q_error r of None \<Rightarrow> [] | Some e \<Rightarrow> e) @ '' (revived)'')\<rparr>"

definition revive_dead :: "int list option \<Rightarrow> nat dbtx" where
  "revive_dead ids =
     (if ids = Some [] then ret 0 else
      andThen (gets queue) (\<lambda>rows.
      update_queue (\<lambda>r. revivable rows r \<and> (case ids of None \<Rightarrow> True | Some is \<Rightarrow> q_id r \<in> set is)) revive))"

definition revive_recent_quota_dead :: "rat \<Rightarrow> nat dbtx" where
  "revive_recent_quota_dead t =
     andThen (gets (\<lambda>d. map q_id (filter (\<lambda>r. q_status r = STATUS_DEAD
       \<and> of_int \<lfloor>t\<rfloor> - q_created_at r < of_int MAX_ROW_AGE_SECONDS \<and> is_quota_error (q_error r)) (queue d)))) (\<lambda>quota_ids.
     if quota_ids = [] then ret 0 else revive_dead (Some quota_ids))"

section \<open>Claiming and counting\<close>

record claimed_row =
  qc_id :: int
  qc_payload :: string
  qc_attempts :: int
  qc_owner :: string
  qc_until :: rat
  qc_proposal :: "json option"
  qc_structured :: bool

definition due_row :: "int \<Rightarrow> rat \<Rightarrow> queue_row \<Rightarrow> bool" where
  "due_row max_attempts t r \<longleftrightarrow> q_attempts r < max_attempts
     \<and> (case q_not_before r of None \<Rightarrow> True | Some b \<Rightarrow> b \<le> t)
     \<and> (q_status r = STATUS_PENDING
        \<or> (q_status r = STATUS_PROCESSING \<and> (case q_until r of None \<Rightarrow> False | Some u \<Rightarrow> u \<le> t)))"

text \<open>\<open>fallback\<close> is the name the process makes from its thread and a fresh \<open>uuid4\<close>.\<close>

definition claim_owner :: "string \<Rightarrow> string option \<Rightarrow> string" where
  "claim_owner fallback owner = (case owner of None \<Rightarrow> fallback | Some w \<Rightarrow> if w = [] then fallback else w)"

definition next_pending :: "env \<Rightarrow> rat \<Rightarrow> string \<Rightarrow> int \<Rightarrow> int list \<Rightarrow> string option \<Rightarrow> rat
    \<Rightarrow> claimed_row option dbtx" where
  "next_pending env t fallback max_attempts exclude_ids owner lease_seconds =
     (\<lambda>d0. let who = claim_owner fallback owner; until = t + lease_seconds in
      andThen (gets (\<lambda>d. first_where (\<lambda>r. due_row max_attempts t r \<and> q_id r \<notin> set exclude_ids)
        (sort_key q_id (queue d)))) (\<lambda>row. case row of
        None \<Rightarrow> ret None
      | Some r \<Rightarrow>
          andThen (update_queue (\<lambda>x. q_id x = q_id r \<and> due_row max_attempts t x)
            (\<lambda>x. x\<lparr>q_status := STATUS_PROCESSING, q_owner := Some who, q_until := Some until\<rparr>)) (\<lambda>n.
          if n \<noteq> 1 then (\<lambda>_. Inr (None, d0)) else
          andThen (gets (\<lambda>d. first_where (\<lambda>x. q_id x = q_id r) (queue d))) (\<lambda>claimed. case claimed of
            None \<Rightarrow> ret None
          | Some x \<Rightarrow> ret (Some \<lparr>qc_id = q_id x, qc_payload = q_payload x, qc_attempts = q_attempts x,
              qc_owner = who, qc_until = until, qc_proposal = q_proposal x,
              qc_structured = (q_hash x = Some (payload_hash env True (q_payload x)))\<rparr>)))) d0)"

text \<open>The handle of a claim, as its holder passes it back.\<close>

definition handle :: "claimed_row \<Rightarrow> lease_owner" where
  "handle c = Some (qc_owner c, Some (qc_until c))"

definition pending_count :: "db \<Rightarrow> nat" where
  "pending_count d = count_where queued (queue d)"

definition dead_count :: "db \<Rightarrow> nat" where
  "dead_count d = count_where (\<lambda>r. q_status r = STATUS_DEAD) (queue d)"

end
