(* ===== verification/QueueFacts.thy ===== *)
theory QueueFacts
  imports ExtractQueue Lease
begin

text \<open>
  What the extraction queue promises: the invariant of its table and that no operation on a table
  that has it raises for a reason of its own, which row a claim takes, the fence around a lease,
  and what is stored for a transcript.
\<close>

section \<open>The invariant of the table\<close>

text \<open>A row is under a lease exactly while it is in processing.\<close>

definition row_ok :: "queue_row \<Rightarrow> bool" where
  "row_ok r \<longleftrightarrow> 0 \<le> q_attempts r \<and> q_status r \<in> {STATUS_PENDING, STATUS_PROCESSING, STATUS_DEAD}
     \<and> (q_owner r \<noteq> None \<longleftrightarrow> q_status r = STATUS_PROCESSING) \<and> (q_until r \<noteq> None \<longleftrightarrow> q_status r = STATUS_PROCESSING)"

definition queue_ok :: "db \<Rightarrow> bool" where
  "queue_ok d \<longleftrightarrow> distinct (map q_id (queue d)) \<and> (\<forall>r \<in> set (queue d). 0 < q_id r \<and> q_id r < next_queue d \<and> row_ok r)
     \<and> 0 < next_queue d \<and> queue_unique (queue d)"

lemma status_distinct [simp]:
  "STATUS_PENDING \<noteq> STATUS_PROCESSING" "STATUS_PROCESSING \<noteq> STATUS_PENDING" "STATUS_DEAD \<noteq> STATUS_PROCESSING"
  "STATUS_PROCESSING \<noteq> STATUS_DEAD" "STATUS_DEAD \<noteq> STATUS_PENDING" "STATUS_PENDING \<noteq> STATUS_DEAD"
  by (simp_all add: STATUS_PENDING_def STATUS_PROCESSING_def STATUS_DEAD_def)

lemma update_queue_Inr:
  "update_queue p g d = Inr (n, t) \<longleftrightarrow> t = d\<lparr>queue := update_where p g (queue d)\<rparr>
     \<and> n = count_where p (queue d) \<and> queue_unique (update_where p g (queue d))"
  by (auto simp: update_queue_def Let_def)

text \<open>
  An update that keeps ids and row conditions, and brings no row into the index under another
  hash, succeeds and keeps the table.
\<close>

definition tame :: "(queue_row \<Rightarrow> bool) \<Rightarrow> (queue_row \<Rightarrow> queue_row) \<Rightarrow> db \<Rightarrow> bool" where
  "tame p g d \<longleftrightarrow> (\<forall>r \<in> set (queue d). p r \<longrightarrow> q_id (g r) = q_id r \<and> (row_ok r \<longrightarrow> row_ok (g r))
     \<and> (in_queue_index (g r) \<longrightarrow> in_queue_index r \<and> q_hash (g r) = q_hash r))"

lemma queue_ok_rows:
  assumes ok: "queue_ok d" and g: "\<forall>r \<in> set (queue d). p r \<longrightarrow> q_id (g r) = q_id r \<and> (row_ok r \<longrightarrow> row_ok (g r))"
    and u: "queue_unique (update_where p g (queue d))"
  shows "queue_ok (d\<lparr>queue := update_where p g (queue d)\<rparr>)"
proof -
  have "map q_id (update_where p g (queue d)) = map q_id (queue d)" using g by (intro map_update_where) simp
  moreover have "0 < q_id r \<and> q_id r < next_queue d \<and> row_ok r" if "r \<in> set (update_where p g (queue d))" for r
  proof -
    from that obtain r0 where "r0 \<in> set (queue d)" "r = (if p r0 then g r0 else r0)" by (blast dest: in_update_where)
    with ok g show ?thesis by (auto simp: queue_ok_def)
  qed
  ultimately show ?thesis using ok u by (simp add: queue_ok_def)
qed

lemma update_queue_tame:
  assumes ok: "queue_ok d" and t: "tame p g d"
  shows "update_queue p g d = Inr (count_where p (queue d), d\<lparr>queue := update_where p g (queue d)\<rparr>)
    \<and> queue_ok (d\<lparr>queue := update_where p g (queue d)\<rparr>)"
proof -
  have "queue_unique (update_where p g (queue d))"
    using ok t unfolding queue_unique_def queue_ok_def tame_def by (intro distinct_keys_update) auto
  with ok t show ?thesis using queue_ok_rows [OF ok] by (auto simp: update_queue_def Let_def tame_def)
qed

lemma tameI:
  "(\<And>r. q_id (g r) = q_id r) \<Longrightarrow> (\<And>r. p r \<Longrightarrow> row_ok r \<Longrightarrow> row_ok (g r)) \<Longrightarrow> (\<And>r. q_hash (g r) = q_hash r)
    \<Longrightarrow> (\<And>r. p r \<Longrightarrow> queued (g r) \<Longrightarrow> queued r) \<Longrightarrow> tame p g d"
  by (auto simp: tame_def in_queue_index_def)

text \<open>A claim and the ways back from one.\<close>

lemma fenced_processing: "fenced owner r \<Longrightarrow> q_status r = STATUS_PROCESSING"
  by (auto simp: fenced_def split: prod.splits)

lemma due_queued: "due_row m t r \<Longrightarrow> queued r"
  by (auto simp: due_row_def queued_def)

lemma tame_settle:
  assumes "\<And>r. p r \<Longrightarrow> fenced owner r"
    and "\<And>r. q_id (g r) = q_id r \<and> q_hash (g r) = q_hash r \<and> q_owner (g r) = None \<and> q_until (g r) = None
      \<and> q_status (g r) \<in> {STATUS_PENDING, STATUS_DEAD}"
    and "\<And>r. row_ok r \<Longrightarrow> p r \<Longrightarrow> 0 \<le> q_attempts (g r)"
  shows "tame p g d"
proof (intro tameI)
  fix r assume "p r"
  then show "queued r" by (simp add: queued_def fenced_processing [OF assms(1)])
next
  fix r assume "p r" "row_ok r"
  then show "row_ok (g r)" using assms(2) [of r] assms(3) [of r] by (auto simp: row_ok_def)
qed (use assms(2) in simp_all)

lemma tame_claim:
  "(\<And>r. p r \<Longrightarrow> due_row m t r)
    \<Longrightarrow> tame p (\<lambda>x. x\<lparr>q_status := STATUS_PROCESSING, q_owner := Some who, q_until := Some until\<rparr>) d"
  by (intro tameI) (auto simp: row_ok_def dest: due_queued)

lemma tame_proposal: "tame p (\<lambda>r. r\<lparr>q_proposal := h r\<rparr>) d"
  by (intro tameI) (auto simp: row_ok_def queued_def)

section \<open>Every operation keeps it\<close>

lemma leased_row_Some:
  "leased_row i owner d = Some r \<Longrightarrow> r \<in> set (queue d) \<and> q_id r = i \<and> q_status r = STATUS_PROCESSING"
  by (auto simp: leased_row_def dest!: first_where_Some split: option.splits prod.splits if_splits)

lemma unlease_fields [simp]:
  "q_id (unlease r) = q_id r" "q_hash (unlease r) = q_hash r" "q_owner (unlease r) = None"
  "q_until (unlease r) = None" "q_status (unlease r) = q_status r" "q_attempts (unlease r) = q_attempts r"
  by (simp_all add: unlease_def)

lemma leased_row_attempts: "queue_ok d \<Longrightarrow> leased_row i owner d = Some r \<Longrightarrow> 0 \<le> q_attempts r"
  using leased_row_Some [of i owner d r] by (auto simp: queue_ok_def row_ok_def)

lemma enqueue_cases:
  assumes "enqueue env t tr d = Inr (i, d')"
  obtains (old) r where "r \<in> set (queue d)" "queued r" "q_id r = i" "d' = d"
  | (fresh) payload structured where "encode_payload tr = Inr (payload, structured)" "i = next_queue d"
    "d' = d\<lparr>queue := queue d @ [new_queue_row payload (payload_hash env structured payload) t i], next_queue := i + 1\<rparr>"
    "queue_unique (queue d')"
proof -
  from assms obtain payload structured where enc: "encode_payload tr = Inr (payload, structured)"
    by (auto simp: enqueue_def andThen_Inr_iff)
  let ?h = "payload_hash env structured payload"
  let ?old = "first_where (same_payload payload ?h) (sort_key q_id (queue d))"
  let ?new = "queue d @ [new_queue_row payload ?h t (next_queue d)]"
  show thesis
  proof (cases ?old)
    case (Some r)
    then have "r \<in> set (queue d)" "queued r" by (auto dest!: first_where_Some simp: same_payload_def)
    moreover have "q_id r = i" "d' = d" using assms enc Some by (auto simp: enqueue_def andThen_Inr_iff Let_def)
    ultimately show thesis by (rule old)
  next
    case None
    show thesis
    proof (cases "queue_unique ?new")
      case True
      with None assms enc show thesis by (intro fresh [of payload structured]) (auto simp: enqueue_def andThen_Inr_iff Let_def)
    next
      case False
      with None assms enc obtain r where "first_where (\<lambda>r. q_hash r = Some ?h \<and> queued r) (sort_key q_id (queue d)) = Some r"
        "q_id r = i" "d' = d" by (auto simp: enqueue_def andThen_Inr_iff Let_def split: option.splits)
      then show thesis by (intro old) (auto dest: first_where_Some)
    qed
  qed
qed

lemma enqueue_ok:
  assumes ok: "queue_ok d" and run: "enqueue env t tr d = Inr (i, d')"
  shows "queue_ok d'"
  using run
proof (cases rule: enqueue_cases)
  case (fresh payload structured)
  then show ?thesis using ok
    by (auto simp: queue_ok_def row_ok_def new_queue_row_def image_iff)
qed (use ok in simp)

lemma mark_done_ok: "queue_ok d \<Longrightarrow> mark_done i owner d = Inr (b, d') \<Longrightarrow> queue_ok d'"
  by (auto simp: mark_done_def Let_def queue_ok_def queue_unique_def distinct_map filter_filter intro: inj_on_subset)

lemma save_proposals_ok:
  assumes ok: "queue_ok d" and run: "save_proposals i ps owner d = Inr (b, d')"
  shows "queue_ok d'"
  using run update_queue_tame [OF ok tame_proposal]
  by (auto simp: save_proposals_def andThen_Inr_iff)

text \<open>The three ways to give a row back: each succeeds, and leaves no row under the lease.\<close>

definition given_back :: "int \<Rightarrow> lease_owner \<Rightarrow> db \<Rightarrow> db \<Rightarrow> bool" where
  "given_back i owner d d' \<longleftrightarrow> (\<exists>p g. d' = d\<lparr>queue := update_where p g (queue d)\<rparr>
     \<and> (\<forall>r \<in> set (queue d). p r \<longleftrightarrow> q_id r = i \<and> fenced owner r) \<and> (\<forall>r. q_id (g r) = q_id r \<and> q_hash (g r) = q_hash r
       \<and> q_owner (g r) = None \<and> q_until (g r) = None \<and> q_status (g r) \<in> {STATUS_PENDING, STATUS_DEAD}))"

lemma leased_row_unique:
  assumes ok: "queue_ok d" and row: "leased_row i owner d = Some r" and x: "x \<in> set (queue d)" "q_id x = i"
  shows "x = r"
proof -
  from leased_row_Some [OF row] have "r \<in> set (queue d)" "q_id r = i" by auto
  with x ok show ?thesis by (auto simp: queue_ok_def distinct_map inj_on_def)
qed

lemma leased_row_fenced:
  assumes ok: "queue_ok d" and row: "leased_row i owner d = Some r"
  shows "fenced owner r"
proof -
  note r = leased_row_Some [OF row]
  with ok have "q_owner r \<noteq> None" by (auto simp: queue_ok_def row_ok_def)
  with row show ?thesis
    by (auto simp: leased_row_def fenced_def split: option.splits prod.splits if_splits)
qed

lemma leased_row_None:
  assumes ok: "queue_ok d" and row: "leased_row i owner d = None" and x: "x \<in> set (queue d)" "q_id x = i"
  shows "\<not> fenced owner x"
proof -
  have "first_where (\<lambda>r. q_id r = q_id x) (queue d) = Some x"
    using ok x(1) by (intro first_where_unique) (simp add: queue_ok_def)
  with row x(2) show ?thesis by (auto simp: leased_row_def fenced_def split: prod.splits if_splits)
qed

lemma release_claim_back:
  assumes ok: "queue_ok d"
  shows "\<exists>d'. release_claim i owner d = Inr (\<exists>r \<in> set (queue d). q_id r = i \<and> fenced owner r, d')
    \<and> queue_ok d' \<and> given_back i owner d d'"
proof -
  let ?p = "\<lambda>r. q_id r = i \<and> fenced owner r"
  let ?g = "\<lambda>r. (unlease r)\<lparr>q_status := STATUS_PENDING\<rparr>"
  have "tame ?p ?g d" by (rule tame_settle [of _ owner]) (auto simp: row_ok_def)
  note u = update_queue_tame [OF ok this]
  have "count_where ?p (queue d) = (if \<exists>r \<in> set (queue d). ?p r then 1 else 0)"
    using ok by (intro count_where_key) (simp add: queue_ok_def)
  with u have "release_claim i owner d = Inr (\<exists>r \<in> set (queue d). ?p r, d\<lparr>queue := update_where ?p ?g (queue d)\<rparr>)"
    by (simp add: release_claim_def andThen_def)
  moreover have "given_back i owner d (d\<lparr>queue := update_where ?p ?g (queue d)\<rparr>)"
    unfolding given_back_def by (intro exI [of _ ?p] exI [of _ ?g]) auto
  ultimately show ?thesis using u by blast
qed

text \<open>Recording a failure hits the leased row, whose attempts cannot have changed meanwhile.\<close>

lemma failure_update:
  assumes ok: "queue_ok d" and row: "leased_row i owner d = Some r"
    and g: "\<And>x. q_id (g x) = q_id x \<and> q_hash (g x) = q_hash x \<and> q_owner (g x) = None \<and> q_until (g x) = None
      \<and> q_status (g x) \<in> {STATUS_PENDING, STATUS_DEAD} \<and> (0 \<le> q_attempts x \<longrightarrow> 0 \<le> q_attempts (g x))"
  shows "\<exists>d'. update_queue (\<lambda>x. q_id x = i \<and> fenced owner x \<and> q_attempts x = q_attempts r) g d = Inr (1, d')
    \<and> queue_ok d' \<and> given_back i owner d d' \<and> d' = d\<lparr>queue := update_where (\<lambda>x. q_id x = i) g (queue d)\<rparr>"
proof -
  let ?p = "\<lambda>x. q_id x = i \<and> fenced owner x \<and> q_attempts x = q_attempts r"
  have "tame ?p g d" using g by (intro tame_settle [of _ owner]) (auto simp: row_ok_def)
  note u = update_queue_tame [OF ok this]
  have r: "r \<in> set (queue d)" "?p r" using leased_row_Some [OF row] leased_row_fenced [OF ok row] by auto
  have iff: "?p x \<longleftrightarrow> q_id x = i" "?p x \<longleftrightarrow> q_id x = i \<and> fenced owner x" if "x \<in> set (queue d)" for x
    using leased_row_unique [OF ok row that] r by auto
  have "count_where ?p (queue d) = 1"
    using r ok count_where_key [of q_id "queue d" i "\<lambda>x. fenced owner x \<and> q_attempts x = q_attempts r"]
    by (auto simp: queue_ok_def)
  moreover have "update_where ?p g (queue d) = update_where (\<lambda>x. q_id x = i) g (queue d)"
    using iff(1) unfolding update_where_def by (intro map_cong) auto
  moreover have "given_back i owner d (d\<lparr>queue := update_where ?p g (queue d)\<rparr>)"
    unfolding given_back_def using g iff(2) by (intro exI [of _ ?p] exI [of _ g]) auto
  ultimately show ?thesis using u by auto
qed

lemma given_back_same: "(\<And>x. x \<in> set (queue d) \<Longrightarrow> q_id x = i \<Longrightarrow> \<not> fenced owner x) \<Longrightarrow> given_back i owner d d"
  unfolding given_back_def
  by (intro exI [of _ "\<lambda>_. False"] exI [of _ "\<lambda>r. (unlease r)\<lparr>q_status := STATUS_PENDING\<rparr>"])
    (auto simp: update_where_none)

lemma mark_failed_back:
  assumes ok: "queue_ok d"
  shows "\<exists>n d'. mark_failed t i e m owner d = Inr (n, d') \<and> queue_ok d' \<and> given_back i owner d d'
    \<and> (0 < n \<longleftrightarrow> leased_row i owner d \<noteq> None) \<and> (leased_row i owner d = None \<longrightarrow> d' = d)"
proof (cases "leased_row i owner d")
  case None
  with given_back_same leased_row_None [OF ok None] ok show ?thesis by (auto simp: mark_failed_def andThen_def)
next
  case (Some r)
  let ?aged = "age_exceeded t (q_created_at r)"
  let ?g = "\<lambda>x. (unlease x)\<lparr>q_attempts := q_attempts r + 1,
    q_error := Some (take 500 e @ (if ?aged then AGE_CAP_NOTE else [])),
    q_status := if ?aged \<or> m \<le> q_attempts r + 1 then STATUS_DEAD else STATUS_PENDING\<rparr>"
  have "0 \<le> q_attempts r" by (rule leased_row_attempts [OF ok Some])
  moreover from this obtain d' where "update_queue (\<lambda>x. q_id x = i \<and> fenced owner x \<and> q_attempts x = q_attempts r) ?g d = Inr (1, d')"
    "queue_ok d'" "given_back i owner d d'" using failure_update [OF ok Some, of ?g] by auto
  ultimately show ?thesis using Some by (auto simp: mark_failed_def andThen_def Let_def)
qed

lemma mark_quota_failed_back:
  assumes ok: "queue_ok d"
  shows "\<exists>b d'. mark_quota_failed t i e nb owner d = Inr (b, d') \<and> queue_ok d' \<and> given_back i owner d d'
    \<and> (leased_row i owner d = None \<longrightarrow> d' = d) \<and> (b \<longrightarrow> leased_row i owner d \<noteq> None)"
proof (cases "leased_row i owner d")
  case None
  with given_back_same leased_row_None [OF ok None] ok show ?thesis by (auto simp: mark_quota_failed_def andThen_def)
next
  case (Some r)
  let ?dead = "\<lambda>x. (unlease x)\<lparr>q_error := Some (take 500 e @ AGE_CAP_NOTE), q_status := STATUS_DEAD, q_not_before := None\<rparr>"
  let ?later = "\<lambda>x. (unlease x)\<lparr>q_error := Some (take 500 e), q_status := STATUS_PENDING, q_not_before := Some nb\<rparr>"
  from failure_update [OF ok Some, of ?dead] failure_update [OF ok Some, of ?later] Some show ?thesis
    by (cases "age_exceeded t (q_created_at r)") (auto simp: mark_quota_failed_def andThen_def Let_def)
qed

section \<open>Reviving dead rows\<close>

lemma revivable_alone:
  assumes ok: "queue_ok d" and a: "revivable (queue d) a" "a \<in> set (queue d)" "q_hash a \<noteq> None"
    and b: "b \<in> set (queue d)" "q_hash b = q_hash a" "queued b \<or> revivable (queue d) b"
  shows "q_id b = q_id a"
  using a b by (auto simp: revivable_def list_ex_iff)

lemma revive_update:
  assumes ok: "queue_ok d" and p: "\<And>r. p r \<Longrightarrow> revivable (queue d) r"
  shows "update_queue p revive d = Inr (count_where p (queue d), d\<lparr>queue := update_where p revive (queue d)\<rparr>)
    \<and> queue_ok (d\<lparr>queue := update_where p revive (queue d)\<rparr>)"
proof -
  have rev: "q_id (revive r) = q_id r \<and> q_hash (revive r) = q_hash r \<and> row_ok (revive r)" for r
    by (simp add: revive_def row_ok_def)
  let ?rows = "update_where p revive (queue d)"
  have ids: "map q_id ?rows = map q_id (queue d)" using rev by (intro map_update_where) simp
  have "q_id a = q_id b" if ab: "a \<in> set ?rows" "b \<in> set ?rows" "in_queue_index a" "in_queue_index b" "q_hash a = q_hash b" for a b
  proof -
    from ab(1,2) obtain a0 b0 where o: "a0 \<in> set (queue d)" "a = (if p a0 then revive a0 else a0)"
      "b0 \<in> set (queue d)" "b = (if p b0 then revive b0 else b0)" by (blast dest: in_update_where)
    then have same: "q_hash a0 = q_hash b0" "q_hash a0 \<noteq> None" "q_id a = q_id a0" "q_id b = q_id b0"
      using ab(3,5) rev by (auto simp: in_queue_index_def split: if_splits)
    have qa: "queued a0 \<or> revivable (queue d) a0" and qb: "queued b0 \<or> revivable (queue d) b0"
      using o ab(3,4) p by (auto simp: in_queue_index_def split: if_splits)
    show ?thesis
    proof (cases "p a0 \<or> p b0")
      case True
      then have "q_id a0 = q_id b0"
      proof
        assume "p a0"
        from revivable_alone [OF ok p [OF this] o(1) same(2) o(3) same(1) [symmetric] qb] show ?thesis ..
      next
        assume "p b0"
        from revivable_alone [OF ok p [OF this] o(3) _ o(1) same(1) qa] same(1,2) show ?thesis by simp
      qed
      with same show ?thesis by simp
    next
      case False
      then have "in_queue_index a0" "in_queue_index b0" using o ab(3,4) by auto
      moreover have "queue_unique (queue d)" "distinct (map q_id (queue d))" using ok by (simp_all add: queue_ok_def)
      ultimately have "q_id a0 = q_id b0"
        using o(1,3) same(1) distinct_filter_keys [of q_id "queue d" q_hash in_queue_index] unfolding queue_unique_def by blast
      with same show ?thesis by simp
    qed
  qed
  moreover have "distinct (map q_id ?rows)" using ids ok by (simp add: queue_ok_def)
  ultimately have u: "queue_unique ?rows" unfolding queue_unique_def by (subst distinct_filter_keys) blast+
  with queue_ok_rows [OF ok _ u] rev show ?thesis by (simp add: update_queue_def Let_def)
qed

lemma revive_dead_ok:
  assumes ok: "queue_ok d"
  shows "\<exists>p. revive_dead ids d = Inr (count_where p (queue d), d\<lparr>queue := update_where p revive (queue d)\<rparr>)
    \<and> queue_ok (d\<lparr>queue := update_where p revive (queue d)\<rparr>)
    \<and> (\<forall>r. p r \<longleftrightarrow> revivable (queue d) r \<and> (case ids of None \<Rightarrow> True | Some is \<Rightarrow> q_id r \<in> set is))"
proof (cases "ids = Some []")
  case True
  with ok show ?thesis by (intro exI [of _ "\<lambda>_. False"]) (simp add: revive_dead_def count_where_def update_where_none)
next
  case False
  let ?p = "\<lambda>r. revivable (queue d) r \<and> (case ids of None \<Rightarrow> True | Some is \<Rightarrow> q_id r \<in> set is)"
  from revive_update [OF ok, of ?p] False show ?thesis
    by (intro exI [of _ ?p]) (simp add: revive_dead_def andThen_def)
qed

lemma revive_recent_ok:
  assumes ok: "queue_ok d"
  shows "\<exists>n p. revive_recent_quota_dead t d = Inr (n, d\<lparr>queue := update_where p revive (queue d)\<rparr>)
    \<and> queue_ok (d\<lparr>queue := update_where p revive (queue d)\<rparr>)"
proof -
  let ?ids = "map q_id (filter (\<lambda>r. q_status r = STATUS_DEAD \<and> of_int \<lfloor>t\<rfloor> - q_created_at r < of_int MAX_ROW_AGE_SECONDS
    \<and> is_quota_error (q_error r)) (queue d))"
  show ?thesis
  proof (cases "?ids = []")
    case True
    with ok show ?thesis
      by (intro exI [of _ 0] exI [of _ "\<lambda>_. False"]) (simp add: revive_recent_quota_dead_def andThen_def update_where_none)
  next
    case False
    from revive_dead_ok [OF ok, of "Some ?ids"] False show ?thesis
      by (auto simp: revive_recent_quota_dead_def andThen_def)
  qed
qed

section \<open>Claiming\<close>

lemma first_by_id:
  assumes "first_where p (sort_key q_id rows) = Some r"
  shows "r \<in> set rows \<and> p r \<and> (\<forall>x \<in> set rows. p x \<longrightarrow> q_id r \<le> q_id x)"
proof -
  let ?xs = "sort_key q_id rows"
  from assms obtain i where i: "i < length ?xs" "p (?xs ! i)" "r = ?xs ! i" "\<forall>j < i. \<not> p (?xs ! j)"
    unfolding first_where_def find_Some_iff by blast
  have "q_id r \<le> q_id x" if "x \<in> set rows" "p x" for x
  proof -
    from that obtain j where j: "j < length ?xs" "x = ?xs ! j" by (metis in_set_conv_nth set_sort)
    with i(4) that(2) have "i \<le> j" by (meson not_le)
    then have "map q_id ?xs ! i \<le> map q_id ?xs ! j" using j(1) by (intro sorted_nth_mono sorted_sort_key) simp_all
    with i(1,3) j show ?thesis by simp
  qed
  moreover have "r \<in> set ?xs" using i(1,3) nth_mem by metis
  ultimately show ?thesis using i(2,3) by simp
qed

definition claim_row :: "string \<Rightarrow> rat \<Rightarrow> queue_row \<Rightarrow> queue_row" where
  "claim_row who until x = x\<lparr>q_status := STATUS_PROCESSING, q_owner := Some who, q_until := Some until\<rparr>"

lemma next_pending_runs:
  assumes ok: "queue_ok d"
  shows "(next_pending env t fb m ex owner len d = Inr (None, d) \<and> (\<forall>r \<in> set (queue d). due_row m t r \<longrightarrow> q_id r \<in> set ex))
    \<or> (\<exists>r c d'. next_pending env t fb m ex owner len d = Inr (Some c, d') \<and> r \<in> set (queue d) \<and> due_row m t r \<and> q_id r \<notin> set ex
      \<and> (\<forall>x \<in> set (queue d). due_row m t x \<and> q_id x \<notin> set ex \<longrightarrow> q_id r \<le> q_id x)
      \<and> d' = d\<lparr>queue := update_where (\<lambda>x. q_id x = q_id r) (claim_row (claim_owner fb owner) (t + len)) (queue d)\<rparr>
      \<and> queue_ok d' \<and> qc_id c = q_id r \<and> qc_payload c = q_payload r \<and> qc_attempts c = q_attempts r
      \<and> qc_owner c = claim_owner fb owner \<and> qc_until c = t + len \<and> qc_proposal c = q_proposal r
      \<and> qc_structured c = (q_hash r = Some (payload_hash env True (q_payload r))))"
proof (cases "first_where (\<lambda>r. due_row m t r \<and> q_id r \<notin> set ex) (sort_key q_id (queue d))")
  case None
  then have "\<forall>r \<in> set (queue d). due_row m t r \<longrightarrow> q_id r \<in> set ex" by (auto simp: first_where_None)
  with None show ?thesis by (simp add: next_pending_def Let_def andThen_def)
next
  case (Some r)
  note r = first_by_id [OF Some]
  let ?p = "\<lambda>x. q_id x = q_id r \<and> due_row m t x"
  let ?g = "\<lambda>x. x\<lparr>q_status := STATUS_PROCESSING, q_owner := Some (claim_owner fb owner), q_until := Some (t + len)\<rparr>"
  have g: "?g = claim_row (claim_owner fb owner) (t + len)" by (simp add: claim_row_def fun_eq_iff)
  have "tame ?p ?g d" by (rule tame_claim) auto
  note u = update_queue_tame [OF ok this]
  have one: "count_where ?p (queue d) = 1"
    using r ok count_where_key [of q_id "queue d" "q_id r" "due_row m t"] by (auto simp: queue_ok_def)
  have same: "x = r" if "x \<in> set (queue d)" "q_id x = q_id r" for x
    using that r ok by (auto simp: queue_ok_def distinct_map inj_on_def)
  have eq: "update_where ?p ?g (queue d) = update_where (\<lambda>x. q_id x = q_id r) ?g (queue d)"
    using same r unfolding update_where_def by (intro map_cong) auto
  let ?d = "d\<lparr>queue := update_where ?p ?g (queue d)\<rparr>"
  have "?g r \<in> set (queue ?d)" using r by (auto intro: update_where_hit)
  then have "first_where (\<lambda>x. q_id x = q_id (?g r)) (queue ?d) = Some (?g r)"
    using u by (intro first_where_unique) (auto simp: queue_ok_def)
  then have found: "first_where (\<lambda>x. q_id x = q_id r) (queue ?d) = Some (?g r)" by simp
  let ?c = "\<lparr>qc_id = q_id r, qc_payload = q_payload r, qc_attempts = q_attempts r, qc_owner = claim_owner fb owner,
    qc_until = t + len, qc_proposal = q_proposal r, qc_structured = (q_hash r = Some (payload_hash env True (q_payload r)))\<rparr>"
  let ?d' = "d\<lparr>queue := update_where (\<lambda>x. q_id x = q_id r) (claim_row (claim_owner fb owner) (t + len)) (queue d)\<rparr>"
  have d': "?d = ?d'" using eq by (simp add: g)
  from found u one Some have "next_pending env t fb m ex owner len d = Inr (Some ?c, ?d)"
    by (simp add: next_pending_def Let_def andThen_def)
  then show ?thesis unfolding d' using r u [unfolded d']
    by (intro disjI2 exI [of _ r] exI [of _ ?c] exI [of _ ?d']) simp
qed

section \<open>The first index\<close>

text \<open>
  The migration makes the table fit for its index: of the waiting or running rows with one payload
  only the oldest gets the hash, and nothing but the hash of a row changes.
\<close>

lemma backfill_hashes_unique:
  assumes "\<forall>r \<in> set rows. queued r \<longrightarrow> q_hash r = None"
  shows "queue_unique (backfill_hashes env hs rows)"
    and "map (\<lambda>r. r\<lparr>q_hash := None\<rparr>) (backfill_hashes env hs rows) = map (\<lambda>r. r\<lparr>q_hash := None\<rparr>) rows"
proof -
  have "queue_unique (backfill_hashes env hs rows)
    \<and> (\<forall>r \<in> set (backfill_hashes env hs rows). in_queue_index r \<longrightarrow> (\<forall>h \<in> set hs. q_hash r \<noteq> Some h))"
    using assms
  proof (induction env hs rows rule: backfill_hashes.induct)
    case (2 env hs r rs)
    let ?h = "payload_hash env False (q_payload r)"
    have q: "queued (r\<lparr>q_hash := x\<rparr>) = queued r" for x by (simp add: queued_def)
    have rest: "\<forall>r \<in> set rs. queued r \<longrightarrow> q_hash r = None" and r: "queued r \<longrightarrow> q_hash r = None" using 2 by simp_all
    consider "\<not> queued r" | "queued r" "?h \<in> set hs" | "queued r" "?h \<notin> set hs" by blast
    then show ?case
    proof cases
      assume n: "\<not> queued r"
      from "2.IH"(3) [OF refl n rest] n q show ?thesis by (simp add: queue_unique_def in_queue_index_def)
    next
      assume n: "queued r" "?h \<in> set hs"
      from "2.IH"(1) [OF refl n rest] n r show ?thesis by (simp add: queue_unique_def in_queue_index_def)
    next
      assume n: "queued r" "?h \<notin> set hs"
      have rows: "backfill_hashes env hs (r # rs) = r\<lparr>q_hash := Some ?h\<rparr> # backfill_hashes env (?h # hs) rs" using n by (simp add: Let_def)
      have "in_queue_index (r\<lparr>q_hash := Some ?h\<rparr>)" using n q by (simp add: in_queue_index_def)
      with "2.IH"(2) [OF refl n rest] n show ?thesis unfolding rows queue_unique_def by auto
    qed
  qed (simp add: queue_unique_def)
  then show "queue_unique (backfill_hashes env hs rows)" ..
  show "map (\<lambda>r. r\<lparr>q_hash := None\<rparr>) (backfill_hashes env hs rows) = map (\<lambda>r. r\<lparr>q_hash := None\<rparr>) rows"
    by (induction env hs rows rule: backfill_hashes.induct) (simp_all add: Let_def)
qed

section \<open>Steps\<close>

text \<open>
  A state is a reading of the clock and a store.  Workers claim with the lease length of their
  name, and the clock has advanced when a row is claimed: two claims never read the same time.
  The clock of any other step may stand still.
\<close>

inductive queue_step :: "(string \<Rightarrow> rat) \<Rightarrow> rat \<times> db \<Rightarrow> rat \<times> db \<Rightarrow> bool" for L where
  enqueued: "t \<le> t' \<Longrightarrow> enqueue env t' tr d = Inr (i, d') \<Longrightarrow> queue_step L (t, d) (t', d')"
| taken: "t < t' \<Longrightarrow> next_pending env t' fb m ex owner (L (claim_owner fb owner)) d = Inr (c, d')
    \<Longrightarrow> queue_step L (t, d) (t', d')"
| saved: "t \<le> t' \<Longrightarrow> save_proposals i ps h d = Inr (b, d') \<Longrightarrow> queue_step L (t, d) (t', d')"
| finished: "t \<le> t' \<Longrightarrow> mark_done i h d = Inr (b, d') \<Longrightarrow> queue_step L (t, d) (t', d')"
| failed: "t \<le> t' \<Longrightarrow> mark_failed t' i e m h d = Inr (n, d') \<Longrightarrow> queue_step L (t, d) (t', d')"
| deferred: "t \<le> t' \<Longrightarrow> mark_quota_failed t' i e nb h d = Inr (b, d') \<Longrightarrow> queue_step L (t, d) (t', d')"
| released: "t \<le> t' \<Longrightarrow> release_claim i h d = Inr (b, d') \<Longrightarrow> queue_step L (t, d) (t', d')"
| revived: "t \<le> t' \<Longrightarrow> revive_dead ids d = Inr (k, d') \<Longrightarrow> queue_step L (t, d) (t', d')"
| recovered: "t \<le> t' \<Longrightarrow> revive_recent_quota_dead t' d = Inr (k, d') \<Longrightarrow> queue_step L (t, d) (t', d')"
| elsewhere: "t \<le> t' \<Longrightarrow> queue d' = queue d \<Longrightarrow> next_queue d' = next_queue d \<Longrightarrow> queue_step L (t, d) (t', d')"

text \<open>What a step does to the leases: a row under a lease had it before, or was claimed just now.\<close>

definition leases_change :: "(string \<Rightarrow> rat) \<Rightarrow> rat \<times> db \<Rightarrow> rat \<times> db \<Rightarrow> bool" where
  "leases_change L s s' \<longleftrightarrow> fst s \<le> fst s' \<and> next_queue (snd s) \<le> next_queue (snd s') \<and> queue_ok (snd s')
     \<and> (\<forall>r' \<in> set (queue (snd s')). q_owner r' \<noteq> None \<longrightarrow>
         (\<exists>r \<in> set (queue (snd s)). q_id r = q_id r' \<and> q_owner r = q_owner r' \<and> q_until r = q_until r')
         \<or> (fst s < fst s' \<and> (\<exists>who. q_owner r' = Some who \<and> q_until r' = Some (fst s' + L who))))"

lemma leases_update:
  assumes "t \<le> t'" "queue_ok d'" "next_queue d' = next_queue d" "queue d' = update_where p g (queue d)"
    and g: "\<And>r. r \<in> set (queue d) \<Longrightarrow> q_id (g r) = q_id r \<and> (q_owner (g r) \<noteq> None \<longrightarrow> q_owner (g r) = q_owner r \<and> q_until (g r) = q_until r)"
  shows "leases_change L (t, d) (t', d')"
proof -
  have "\<exists>r \<in> set (queue d). q_id r = q_id r' \<and> q_owner r = q_owner r' \<and> q_until r = q_until r'"
    if r': "r' \<in> set (queue d')" "q_owner r' \<noteq> None" for r'
  proof -
    from r'(1) assms(4) obtain r where "r \<in> set (queue d)" "r' = (if p r then g r else r)" by (metis in_update_where)
    with g [of r] r'(2) show ?thesis by (intro bexI [of _ r]) (auto split: if_splits)
  qed
  with assms(1-3) show ?thesis by (simp add: leases_change_def)
qed

lemma leases_given_back: "t \<le> t' \<Longrightarrow> queue_ok d' \<Longrightarrow> given_back i h d d' \<Longrightarrow> leases_change L (t, d) (t', d')"
  unfolding given_back_def by (elim exE conjE) (rule leases_update, auto)

lemma leases_revived:
  "t \<le> t' \<Longrightarrow> queue_ok d' \<Longrightarrow> d' = d\<lparr>queue := update_where p revive (queue d)\<rparr> \<Longrightarrow> leases_change L (t, d) (t', d')"
  by (rule leases_update [where p = p and g = revive]) (simp_all add: revive_def)

lemma queue_step_leases:
  assumes "queue_step L s s'" and "queue_ok (snd s)"
  shows "leases_change L s s'"
  using assms
proof (induction rule: queue_step.induct)
  case (enqueued t t' env tr d i d')
  then have ok: "queue_ok d" "queue_ok d'" by (auto intro: enqueue_ok)
  from enqueued(2) show ?case
  proof (cases rule: enqueue_cases)
    case (fresh payload structured)
    then show ?thesis using enqueued(1) ok by (auto simp: leases_change_def new_queue_row_def)
  qed (use enqueued(1) ok in \<open>auto simp: leases_change_def\<close>)
next
  case (taken t t' env fb m ex owner d c d')
  let ?who = "claim_owner fb owner"
  from taken(3) have ok: "queue_ok d" by simp
  have "d' = d \<or> (\<exists>i. d' = d\<lparr>queue := update_where (\<lambda>x. q_id x = i) (claim_row ?who (t' + L ?who)) (queue d)\<rparr> \<and> queue_ok d')"
    using next_pending_runs [OF ok, of env t' fb m ex owner "L ?who"] taken(2) by auto
  then show ?case
  proof
    assume "d' = d"
    with taken(1) ok show ?thesis by (auto simp: leases_change_def)
  next
    assume "\<exists>i. d' = d\<lparr>queue := update_where (\<lambda>x. q_id x = i) (claim_row ?who (t' + L ?who)) (queue d)\<rparr> \<and> queue_ok d'"
    then obtain i where d': "queue d' = update_where (\<lambda>x. q_id x = i) (claim_row ?who (t' + L ?who)) (queue d)"
      "next_queue d' = next_queue d" "queue_ok d'" by auto
    have "(\<exists>r \<in> set (queue d). q_id r = q_id r' \<and> q_owner r = q_owner r' \<and> q_until r = q_until r')
      \<or> (\<exists>who. q_owner r' = Some who \<and> q_until r' = Some (t' + L who))" if "r' \<in> set (queue d')" for r'
    proof -
      from in_update_where [OF that [unfolded d'(1)]] obtain r where "r \<in> set (queue d)"
        "r' = (if q_id r = i then claim_row ?who (t' + L ?who) r else r)" by blast
      then show ?thesis by (auto simp: claim_row_def split: if_splits)
    qed
    with taken(1) d'(2,3) show ?thesis by (auto simp: leases_change_def)
  qed
next
  case (saved t t' i ps h d b d')
  from saved(3) have ok: "queue_ok d" by simp
  from saved(2) obtain p f where "queue d' = update_where p (\<lambda>r. r\<lparr>q_proposal := f r\<rparr>) (queue d)" "next_queue d' = next_queue d"
    by (auto simp: save_proposals_def andThen_Inr_iff update_queue_Inr)
  then show ?case
    by (intro leases_update [OF saved(1) save_proposals_ok [OF ok saved(2)], where p = p and g = "\<lambda>r. r\<lparr>q_proposal := f r\<rparr>"])
      simp_all
next
  case (finished t t' i h d b d')
  then have "queue_ok d'" by (auto intro: mark_done_ok)
  with finished(1,2) show ?case by (auto simp: leases_change_def mark_done_def Let_def)
next
  case (failed t t' i e m h d n d')
  then show ?case using mark_failed_back [of d t' i e m h] by (auto intro: leases_given_back)
next
  case (deferred t t' i e nb h d b d')
  then show ?case using mark_quota_failed_back [of d t' i e nb h] by (auto intro: leases_given_back)
next
  case (released t t' i h d b d')
  then show ?case using release_claim_back [of d i h] by (auto intro: leases_given_back)
next
  case (revived t t' ids d k d')
  then show ?case using revive_dead_ok [of d ids] by (auto intro: leases_revived)
next
  case (recovered t t' d k d')
  then show ?case using revive_recent_ok [of d t'] by (auto intro: leases_revived)
next
  case (elsewhere t t' d' d)
  then show ?case by (auto simp: leases_change_def queue_ok_def)
qed

section \<open>Fences\<close>

text \<open>A claim handle: the row, the owner and the end of the lease it was issued with.\<close>

type_synonym row_claim = "int \<times> string \<times> rat"

definition lease_of :: "row_claim \<Rightarrow> lease_owner" where
  "lease_of c = (case c of (i, who, until) \<Rightarrow> Some (who, Some until))"

definition issued_row :: "(string \<Rightarrow> rat) \<Rightarrow> row_claim \<Rightarrow> rat \<times> db \<Rightarrow> bool" where
  "issued_row L c s \<longleftrightarrow> (case c of (i, who, until) \<Rightarrow> i < next_queue (snd s) \<and> until - L who \<le> fst s)"

definition holds_row :: "row_claim \<Rightarrow> rat \<times> db \<Rightarrow> bool" where
  "holds_row c s \<longleftrightarrow> (\<exists>r \<in> set (queue (snd s)). q_id r = fst c \<and> fenced (lease_of c) r)"

text \<open>Its holder completed the row, recorded a failure, deferred it or gave it back.\<close>

inductive settles_row :: "row_claim \<Rightarrow> rat \<times> db \<Rightarrow> rat \<times> db \<Rightarrow> bool" for c where
  "t \<le> t' \<Longrightarrow> mark_done (fst c) (lease_of c) d = Inr (True, d') \<Longrightarrow> settles_row c (t, d) (t', d')"
| "t \<le> t' \<Longrightarrow> mark_failed t' (fst c) e m (lease_of c) d = Inr (n, d') \<Longrightarrow> 0 < n \<Longrightarrow> settles_row c (t, d) (t', d')"
| "t \<le> t' \<Longrightarrow> mark_quota_failed t' (fst c) e nb (lease_of c) d = Inr (b, d') \<Longrightarrow> d' \<noteq> d \<Longrightarrow> settles_row c (t, d) (t', d')"
| "t \<le> t' \<Longrightarrow> release_claim (fst c) (lease_of c) d = Inr (True, d') \<Longrightarrow> settles_row c (t, d) (t', d')"

lemma fenced_lease: "fenced (lease_of (i, who, until)) r \<longleftrightarrow> q_status r = STATUS_PROCESSING \<and> q_owner r = Some who \<and> q_until r = Some until"
  by (auto simp: fenced_def lease_of_def lease_fence_def)

lemma settles_row_step: "settles_row c s s' \<Longrightarrow> queue_step L s s'"
  by (induction rule: settles_row.induct) (auto intro: queue_step.intros)

lemma given_back_drops:
  assumes "given_back i h d d'" "r \<in> set (queue d')" "q_id r = i"
  shows "\<not> fenced h r"
proof -
  from assms(1) obtain p g where d': "d' = d\<lparr>queue := update_where p g (queue d)\<rparr>" "\<forall>r \<in> set (queue d). p r \<longleftrightarrow> q_id r = i \<and> fenced h r"
    "\<forall>r. q_id (g r) = q_id r \<and> q_owner (g r) = None" unfolding given_back_def by blast
  from assms(2) d'(1) obtain r0 where r0: "r0 \<in> set (queue d)" "r = (if p r0 then g r0 else r0)" by (auto dest: in_update_where)
  show ?thesis
  proof (cases "p r0")
    case True
    with r0 d'(3) show ?thesis by (auto simp: fenced_def split: prod.splits)
  next
    case False
    with r0 d'(2) assms(3) show ?thesis by auto
  qed
qed

lemma settles_row_effect:
  assumes "settles_row c s s'" "queue_ok (snd s)"
  shows "holds_row c s \<and> \<not> holds_row c s'"
  using assms
proof (induction rule: settles_row.induct)
  case (1 t t' d d')
  then show ?case by (auto simp: mark_done_def Let_def holds_row_def dest: count_where_one)
next
  case (2 t t' e m d n d')
  from 2(4) have ok: "queue_ok d" by simp
  from mark_failed_back [OF ok, of t' "fst c" e m "lease_of c"] 2(2,3) have
    "given_back (fst c) (lease_of c) d d'" "leased_row (fst c) (lease_of c) d \<noteq> None" by auto
  then show ?case using given_back_drops leased_row_fenced [OF ok] leased_row_Some unfolding holds_row_def by fastforce
next
  case (3 t t' e nb d b d')
  from 3(4) have ok: "queue_ok d" by simp
  from mark_quota_failed_back [OF ok, of t' "fst c" e nb "lease_of c"] 3(2,3) have
    "given_back (fst c) (lease_of c) d d'" "leased_row (fst c) (lease_of c) d \<noteq> None" by auto
  then show ?case using given_back_drops leased_row_fenced [OF ok] leased_row_Some unfolding holds_row_def by fastforce
next
  case (4 t t' d d')
  from 4(3) have ok: "queue_ok d" by simp
  from release_claim_back [OF ok, of "fst c" "lease_of c"] 4(2) have
    "given_back (fst c) (lease_of c) d d'" "\<exists>r \<in> set (queue d). q_id r = fst c \<and> fenced (lease_of c) r" by auto
  then show ?case using given_back_drops unfolding holds_row_def by fastforce
qed

lemma leases_no_regain:
  assumes "issued_row L c s" "\<not> holds_row c s" "leases_change L s s'" "queue_ok (snd s)"
  shows "\<not> holds_row c s'"
proof
  obtain i who until where c: "c = (i, who, until)" by (cases c)
  assume "holds_row c s'"
  then obtain r' where r': "r' \<in> set (queue (snd s'))" "q_id r' = i" "q_owner r' = Some who" "q_until r' = Some until"
    by (auto simp: holds_row_def c fenced_lease)
  have "until \<noteq> fst s' + L who" if "fst s < fst s'" using assms(1) that by (auto simp: issued_row_def c)
  with r' assms(3) obtain r where r: "r \<in> set (queue (snd s))" "q_id r = i" "q_owner r = Some who" "q_until r = Some until"
    unfolding leases_change_def by fastforce
  then have "q_status r = STATUS_PROCESSING" using assms(4) by (auto simp: queue_ok_def row_ok_def)
  with r assms(2) show False by (auto simp: holds_row_def c fenced_lease)
qed

lemma leases_issued: "issued_row L c s \<Longrightarrow> leases_change L s s' \<Longrightarrow> issued_row L c s'"
  by (auto simp: issued_row_def leases_change_def split: prod.splits)

definition ok_step :: "(string \<Rightarrow> rat) \<Rightarrow> rat \<times> db \<Rightarrow> rat \<times> db \<Rightarrow> bool" where
  "ok_step L s s' \<longleftrightarrow> queue_ok (snd s) \<and> queue_step L s s'"

interpretation transcripts: fenced_leases "ok_step L" "issued_row L" holds_row "\<lambda>c s s'. queue_ok (snd s) \<and> settles_row c s s'" for L
proof unfold_locales
  fix c s s' assume "issued_row L c s" "ok_step L s s'"
  then show "issued_row L c s'" unfolding ok_step_def by (blast intro: leases_issued queue_step_leases)
next
  fix c s s' assume "issued_row L c s" "\<not> holds_row c s" "ok_step L s s'"
  then show "\<not> holds_row c s'" using leases_no_regain queue_step_leases unfolding ok_step_def by metis
qed (auto simp: ok_step_def dest: settles_row_effect intro: settles_row_step)

lemma queue_steps_ok: "(queue_step L)\<^sup>*\<^sup>* s s' \<Longrightarrow> queue_ok (snd s) \<Longrightarrow> queue_ok (snd s') \<and> (ok_step L)\<^sup>*\<^sup>* s s'"
proof (induction rule: rtranclp_induct)
  case (step s1 s2)
  then have "ok_step L s1 s2" by (simp add: ok_step_def)
  moreover have "queue_ok (snd s2)" using step queue_step_leases by (auto simp: leases_change_def)
  ultimately show ?case using step by (auto intro: rtranclp.rtrancl_into_rtrancl)
qed simp

section \<open>UTF-8 and what is stored\<close>

lemma decode_continuation: "continuation b \<Longrightarrow> utf8_decode (b # rest) = utf8_decode rest"
  by (cases rest) (auto simp: continuation_def)

lemma decode_char: "utf8_decode (utf8_char c @ rest) = c # utf8_decode rest"
proof (cases "code c < 128")
  case True
  then show ?thesis by (cases rest) (simp_all add: utf8_char_def Let_def)
next
  case False
  let ?n = "code c"
  have n: "?n < 256" by (rule code_less)
  then have "?n div 64 < 4" by (intro less_mult_imp_div_less) simp
  moreover have "128 div 64 \<le> ?n div 64" using False by (intro div_le_mono) simp
  ultimately have d: "?n div 64 = 2 \<or> ?n div 64 = 3" by (simp, linarith)
  have b: "code (char_of (192 + ?n div 64)) = 192 + ?n div 64" "code (char_of (128 + ?n mod 64)) = 128 + ?n mod 64"
    using d by (auto intro!: code_char_of)
  have "char_of (?n div 64 * 64 + ?n mod 64) = c" by (simp add: code_def)
  with b d False show ?thesis by (auto simp: utf8_char_def Let_def continuation_def)
qed

lemma utf8_decode_utf8: "utf8_decode (utf8 s) = s"
  by (induction s) (simp_all add: decode_char)

lemma utf8_tail:
  "n \<le> length (utf8 t) \<Longrightarrow> suffix (utf8_decode (drop n (utf8 t))) t
    \<and> length (utf8 (utf8_decode (drop n (utf8 t)))) \<le> length (utf8 t) - n
    \<and> length (utf8 t) - n \<le> Suc (length (utf8 (utf8_decode (drop n (utf8 t)))))"
proof (induction t arbitrary: n)
  case Nil
  then show ?case by simp
next
  case (Cons c t)
  show ?case
  proof (cases "length (utf8_char c) \<le> n")
    case True
    with Cons.IH [of "n - length (utf8_char c)"] Cons.prems show ?thesis by (auto intro: suffix_ConsI simp: add.commute)
  next
    case False
    show ?thesis
    proof (cases n)
      case 0
      then show ?thesis using utf8_decode_utf8 [of "c # t"] by simp
    next
      case (Suc k)
      then have two: "n = 1" "utf8_char c = [char_of (192 + code c div 64), char_of (128 + code c mod 64)]"
        using False by (auto simp: utf8_char_def Let_def split: if_splits)
      have "continuation (char_of (128 + code c mod 64))"
        by (simp add: continuation_def code_char_of)
      with two show ?thesis by (simp add: decode_continuation utf8_decode_utf8 suffix_Cons)
    qed
  qed
qed

lemma payload_bounded_parts:
  shows "\<exists>p. encode_payload (Text t) = Inr (p, False) \<and> length (utf8 p) \<le> MAX_PAYLOAD_BYTES \<and> suffix p t
      \<and> (p \<noteq> t \<longrightarrow> MAX_PAYLOAD_BYTES < length (utf8 t) \<and> MAX_PAYLOAD_BYTES \<le> Suc (length (utf8 p)))"
    and "encode_payload (Turns ts) = Inr (p, b) \<Longrightarrow> length (utf8 p) \<le> MAX_PAYLOAD_BYTES
      \<and> (\<exists>ps. normalize_transcript (Turns ts) = Inr (join [CHR 0x0A, CHR 0x0A] (map snd ps), Some ps) \<and> p = turns_text ps)"
proof -
  show "\<exists>p. encode_payload (Text t) = Inr (p, False) \<and> length (utf8 p) \<le> MAX_PAYLOAD_BYTES \<and> suffix p t
      \<and> (p \<noteq> t \<longrightarrow> MAX_PAYLOAD_BYTES < length (utf8 t) \<and> MAX_PAYLOAD_BYTES \<le> Suc (length (utf8 p)))"
    using utf8_tail [of "length (utf8 t) - MAX_PAYLOAD_BYTES" t]
    by (cases "MAX_PAYLOAD_BYTES < length (utf8 t)") (auto simp: encode_payload_def)
  assume "encode_payload (Turns ts) = Inr (p, b)"
  then show "length (utf8 p) \<le> MAX_PAYLOAD_BYTES
      \<and> (\<exists>ps. normalize_transcript (Turns ts) = Inr (join [CHR 0x0A, CHR 0x0A] (map snd ps), Some ps) \<and> p = turns_text ps)"
    by (auto simp: encode_payload_def bindE_Inr_iff Let_def normalize_transcript_def)
qed

text \<open>A payload is stored within the size limit or not at all.  A text is always accepted, whole
  when it fits, otherwise as the longest end of it that fits, cut between characters; role-structured
  turns are never cut: they are stored whole or refused.
\<close>

theorem payload_bounded:
  "(\<exists>p. encode_payload (Text t) = Inr (p, False) \<and> length (utf8 p) \<le> MAX_PAYLOAD_BYTES \<and> suffix p t
      \<and> (p \<noteq> t \<longrightarrow> MAX_PAYLOAD_BYTES < length (utf8 t) \<and> MAX_PAYLOAD_BYTES \<le> Suc (length (utf8 p))))
    \<and> (\<forall>p b. encode_payload (Turns ts) = Inr (p, b) \<longrightarrow> length (utf8 p) \<le> MAX_PAYLOAD_BYTES
      \<and> (\<exists>ps. normalize_transcript (Turns ts) = Inr (join [CHR 0x0A, CHR 0x0A] (map snd ps), Some ps) \<and> p = turns_text ps))"
  using payload_bounded_parts by blast

section \<open>What the queue promises\<close>

text \<open>C21: any interleaving of the queue's operations by any number of workers keeps the table well
  formed: row ids stay a key below the counter, at most one waiting or running row has a given
  payload hash, and a row carries an owner and a lease end exactly while it is in processing.
\<close>

theorem queue_invariant:
  assumes "queue_ok (snd s)" "(queue_step L)\<^sup>*\<^sup>* s s'"
  shows "queue_ok (snd s')"
  using queue_steps_ok [OF assms(2,1)] ..

lemma next_pending_issues:
  assumes ok: "queue_ok d" and run: "next_pending env t fb m ex owner (L (claim_owner fb owner)) d = Inr (Some c, d')"
  shows "queue_ok d'" "issued_row L (qc_id c, qc_owner c, qc_until c) (t, d')" "holds_row (qc_id c, qc_owner c, qc_until c) (t, d')"
    "\<And>x. x \<in> set (queue d') \<Longrightarrow> q_id x = qc_id c \<Longrightarrow> q_until x = Some (t + L (claim_owner fb owner)) \<and> q_owner x = Some (qc_owner c)"
    "qc_owner c = claim_owner fb owner" "qc_until c = t + L (claim_owner fb owner)"
proof -
  let ?who = "claim_owner fb owner"
  from next_pending_runs [OF ok, of env t fb m ex owner "L ?who"] run obtain r where r: "r \<in> set (queue d)"
    "d' = d\<lparr>queue := update_where (\<lambda>x. q_id x = q_id r) (claim_row ?who (t + L ?who)) (queue d)\<rparr>" "queue_ok d'"
    "qc_id c = q_id r" "qc_owner c = ?who" "qc_until c = t + L ?who" by auto
  show "queue_ok d'" "qc_owner c = ?who" "qc_until c = t + L ?who" by (rule r)+
  show "issued_row L (qc_id c, qc_owner c, qc_until c) (t, d')"
    using r(1,2,4-6) ok by (auto simp: issued_row_def queue_ok_def)
  have "claim_row ?who (t + L ?who) r \<in> set (queue d')" using r(1,2) by (auto intro: update_where_hit)
  then show "holds_row (qc_id c, qc_owner c, qc_until c) (t, d')"
    unfolding holds_row_def using r(4-6) by (intro bexI) (auto simp: fenced_lease claim_row_def)
  fix x assume x: "x \<in> set (queue d')" "q_id x = qc_id c"
  then have "x \<in> set (update_where (\<lambda>x. q_id x = q_id r) (claim_row ?who (t + L ?who)) (queue d))" using r(2) by simp
  from in_update_where [OF this] x(2) r(4,5) show "q_until x = Some (t + L ?who) \<and> q_owner x = Some (qc_owner c)"
    by (auto simp: claim_row_def)
qed

lemma queue_clock: "(queue_step L)\<^sup>*\<^sup>* s s' \<Longrightarrow> queue_ok (snd s) \<Longrightarrow> fst s \<le> fst s'"
proof (induction rule: rtranclp_induct)
  case (step s1 s2)
  have "queue_ok (snd s1)" using queue_steps_ok [OF step.hyps(1) step.prems] ..
  with step queue_step_leases show ?case by (fastforce simp: leases_change_def)
qed simp

text \<open>A claim on a transcript is settled at most once, over any interleaving: after its holder
  completed the row, recorded a failure, deferred it or gave it back, nothing it does with the
  same handle succeeds again, even when the row was claimed anew under the same owner name.
\<close>

theorem queue_claim_settled_once:
  assumes "queue_ok d" "next_pending env t fb m ex owner (L (claim_owner fb owner)) d = Inr (Some c, d1)"
    and "(queue_step L)\<^sup>*\<^sup>* (t, d1) s2" "settles_row (qc_id c, qc_owner c, qc_until c) s2 s3" "(queue_step L)\<^sup>*\<^sup>* s3 s4"
  shows "\<not> settles_row (qc_id c, qc_owner c, qc_until c) s4 s5"
proof -
  note c = next_pending_issues [where L = L, OF assms(1,2)]
  have s2: "queue_ok (snd s2)" "(ok_step L)\<^sup>*\<^sup>* (t, d1) s2" using queue_steps_ok [OF assms(3)] c(1) by auto
  have "queue_step L s2 s3" using settles_row_step assms(4) .
  then have s3: "queue_ok (snd s3)" using queue_step_leases s2(1) by (auto simp: leases_change_def)
  have s4: "queue_ok (snd s4)" "(ok_step L)\<^sup>*\<^sup>* s3 s4" using queue_steps_ok [OF assms(5) s3] by auto
  from transcripts.settled_once [OF transcripts.issued_forever [OF s2(2) c(2)] _ s4(2)] s2(1) assms(4) s4(1)
  show ?thesis by blast
qed


text \<open>A claim always returns.  It reports nothing, and changes nothing, exactly when no row is due
  that the caller does not exclude; otherwise it takes the due row with the least id, hands out its
  payload and attempts with the new lease, and touches no other row; in particular a row whose
  lease still runs is never taken.
\<close>

theorem next_pending_takes_first_due:
  assumes "queue_ok d"
  shows "\<exists>c d'. next_pending env t fb m ex owner len d = Inr (c, d')
    \<and> (c = None \<longleftrightarrow> (\<forall>r \<in> set (queue d). due_row m t r \<longrightarrow> q_id r \<in> set ex)) \<and> (c = None \<longrightarrow> d' = d)
    \<and> (\<forall>x. c = Some x \<longrightarrow> (\<exists>r \<in> set (queue d). due_row m t r \<and> q_id r \<notin> set ex
        \<and> (\<forall>y \<in> set (queue d). due_row m t y \<and> q_id y \<notin> set ex \<longrightarrow> q_id r \<le> q_id y)
        \<and> (q_status r = STATUS_PROCESSING \<longrightarrow> (\<exists>u \<le> t. q_until r = Some u))
        \<and> qc_id x = q_id r \<and> qc_payload x = q_payload r \<and> qc_attempts x = q_attempts r \<and> qc_until x = t + len
        \<and> d' = d\<lparr>queue := update_where (\<lambda>y. q_id y = q_id r) (claim_row (qc_owner x) (t + len)) (queue d)\<rparr>))"
  using next_pending_runs [OF assms, of env t fb m ex owner len]
proof (elim disjE exE conjE)
  fix r c d'
  assume r: "r \<in> set (queue d)" "due_row m t r" "q_id r \<notin> set ex"
    "\<forall>x \<in> set (queue d). due_row m t x \<and> q_id x \<notin> set ex \<longrightarrow> q_id r \<le> q_id x"
    and c: "next_pending env t fb m ex owner len d = Inr (Some c, d')" "qc_id c = q_id r" "qc_payload c = q_payload r"
    "qc_attempts c = q_attempts r" "qc_until c = t + len" "qc_owner c = claim_owner fb owner"
    "d' = d\<lparr>queue := update_where (\<lambda>x. q_id x = q_id r) (claim_row (claim_owner fb owner) (t + len)) (queue d)\<rparr>"
  have "q_status r = STATUS_PROCESSING \<longrightarrow> (\<exists>u \<le> t. q_until r = Some u)"
    using r(2) by (auto simp: due_row_def split: option.splits)
  with r c show ?thesis by (intro exI [of _ "Some c"] exI [of _ d']) auto
qed auto

lemma first_same_appended:
  assumes "first_where p (sort_key q_id rows) = None" "p new" "\<forall>r \<in> set rows. q_id r < q_id new"
  shows "first_where p (sort_key q_id (rows @ [new])) = Some new"
proof (cases "first_where p (sort_key q_id (rows @ [new]))")
  case None
  with assms(2) show ?thesis by (simp add: first_where_None)
next
  case (Some r)
  then have "r \<in> set (sort_key q_id (rows @ [new]))" "p r" by (blast dest: first_where_Some)+
  with assms(1) have "r = new" by (auto simp: first_where_None)
  with Some show ?thesis by simp
qed

lemma enqueue_is_idempotent_parts:
  assumes ok: "queue_ok d" and run: "enqueue env t tr d = Inr (i, d')"
  shows "enqueue env t' tr d' = Inr (i, d')"
    and "\<exists>r \<in> set (queue d'). q_id r = i \<and> queued r"
    and "d' = d \<or> (\<exists>r. queue d' = queue d @ [r] \<and> q_id r = next_queue d \<and> q_attempts r = 0 \<and> (0 < m \<longrightarrow> due_row m t r))"
proof -
  from run obtain payload structured where enc: "encode_payload tr = Inr (payload, structured)"
    by (auto simp: enqueue_def andThen_Inr_iff)
  let ?h = "payload_hash env structured payload"
  show "enqueue env t' tr d' = Inr (i, d')"
  proof (cases "first_where (same_payload payload ?h) (sort_key q_id (queue d))")
    case (Some r)
    with run enc show ?thesis by (auto simp: enqueue_def andThen_def Let_def)
  next
    case None
    let ?new = "new_queue_row payload ?h t (next_queue d)"
    show ?thesis
    proof (cases "queue_unique (queue d @ [?new])")
      case True
      with None run enc have d': "i = next_queue d" "queue d' = queue d @ [?new]"
        by (auto simp: enqueue_def andThen_def Let_def)
      have "first_where (same_payload payload ?h) (sort_key q_id (queue d')) = Some ?new"
        unfolding d' by (rule first_same_appended [OF None]) (use ok in \<open>auto simp: same_payload_def new_queue_row_def queued_def queue_ok_def\<close>)
      with enc d'(1) show ?thesis by (simp add: enqueue_def andThen_def Let_def new_queue_row_def)
    next
      case False
      have "first_where (\<lambda>r. q_hash r = Some ?h \<and> queued r) (sort_key q_id (queue d)) = None"
        using None by (auto simp: first_where_None same_payload_def)
      with None False run enc show ?thesis by (simp add: enqueue_def andThen_def Let_def)
    qed
  qed
  from run show "\<exists>r \<in> set (queue d'). q_id r = i \<and> queued r"
    and "d' = d \<or> (\<exists>r. queue d' = queue d @ [r] \<and> q_id r = next_queue d \<and> q_attempts r = 0 \<and> (0 < m \<longrightarrow> due_row m t r))"
    by (cases rule: enqueue_cases; auto simp: new_queue_row_def queued_def due_row_def)+
qed

text \<open>Work is queued once.  After a transcript was accepted, its row is waiting or running, and
  queueing it again at any time before that changes returns the same id and leaves the store as
  it is; a first acceptance adds one fresh row, due at once, and alters no other.
\<close>

theorem enqueue_is_idempotent:
  assumes "queue_ok d" "enqueue env t tr d = Inr (i, d')"
  shows "enqueue env t' tr d' = Inr (i, d') \<and> (\<exists>r \<in> set (queue d'). q_id r = i \<and> queued r)
    \<and> (d' = d \<or> (\<exists>r. queue d' = queue d @ [r] \<and> q_id r = next_queue d \<and> q_attempts r = 0 \<and> (0 < m \<longrightarrow> due_row m t r)))"
  using enqueue_is_idempotent_parts [OF assms] by blast

lemma failure_accounting_parts:
  assumes ok: "queue_ok d" and row: "r \<in> set (queue d)" and i: "q_id r = i"
  shows "\<exists>n d'. mark_failed t i e m owner d = Inr (n, d') \<and> (\<not> fenced owner r \<longrightarrow> n = 0 \<and> d' = d)
      \<and> (fenced owner r \<longrightarrow> n = q_attempts r + 1 \<and> (\<exists>r' \<in> set (queue d'). q_id r' = i \<and> q_owner r' = None \<and> q_attempts r' = q_attempts r + 1
          \<and> q_status r' = (if m \<le> q_attempts r + 1 \<or> age_exceeded t (q_created_at r) then STATUS_DEAD else STATUS_PENDING)))"
    and "\<exists>b d'. mark_quota_failed t i e nb owner d = Inr (b, d') \<and> (\<not> fenced owner r \<longrightarrow> \<not> b \<and> d' = d)
      \<and> (fenced owner r \<longrightarrow> b = (\<not> age_exceeded t (q_created_at r)) \<and> (\<exists>r' \<in> set (queue d'). q_id r' = i \<and> q_owner r' = None
          \<and> q_attempts r' = q_attempts r \<and> q_status r' = (if b then STATUS_PENDING else STATUS_DEAD)
          \<and> q_not_before r' = (if b then Some nb else None)))"
proof -
  let ?A = "\<exists>n d'. mark_failed t i e m owner d = Inr (n, d') \<and> (\<not> fenced owner r \<longrightarrow> n = 0 \<and> d' = d)
      \<and> (fenced owner r \<longrightarrow> n = q_attempts r + 1 \<and> (\<exists>r' \<in> set (queue d'). q_id r' = i \<and> q_owner r' = None \<and> q_attempts r' = q_attempts r + 1
          \<and> q_status r' = (if m \<le> q_attempts r + 1 \<or> age_exceeded t (q_created_at r) then STATUS_DEAD else STATUS_PENDING)))"
  let ?B = "\<exists>b d'. mark_quota_failed t i e nb owner d = Inr (b, d') \<and> (\<not> fenced owner r \<longrightarrow> \<not> b \<and> d' = d)
      \<and> (fenced owner r \<longrightarrow> b = (\<not> age_exceeded t (q_created_at r)) \<and> (\<exists>r' \<in> set (queue d'). q_id r' = i \<and> q_owner r' = None
          \<and> q_attempts r' = q_attempts r \<and> q_status r' = (if b then STATUS_PENDING else STATUS_DEAD)
          \<and> q_not_before r' = (if b then Some nb else None)))"
  have "?A \<and> ?B"
  proof (cases "leased_row i owner d")
    case None
    note nf = leased_row_None [OF ok None row i]
    have ?A using nf None by (simp add: mark_failed_def andThen_def)
    moreover have ?B using nf None by (intro exI [of _ False] exI [of _ d]) (simp add: mark_quota_failed_def andThen_def)
    ultimately show ?thesis ..
  next
    case (Some r0)
    have r0: "r0 = r" using leased_row_unique [OF ok Some row i] ..
    have f: "fenced owner r" using leased_row_fenced [OF ok Some] r0 by simp
    have att: "0 \<le> q_attempts r" using leased_row_attempts [OF ok Some] r0 by simp
    let ?aged = "age_exceeded t (q_created_at r)"
    let ?p = "\<lambda>x. q_id x = i \<and> fenced owner x \<and> q_attempts x = q_attempts r"
    let ?g = "\<lambda>x. (unlease x)\<lparr>q_attempts := q_attempts r + 1, q_error := Some (take 500 e @ (if ?aged then AGE_CAP_NOTE else [])),
      q_status := if ?aged \<or> m \<le> q_attempts r + 1 then STATUS_DEAD else STATUS_PENDING\<rparr>"
    let ?dead = "\<lambda>x. (unlease x)\<lparr>q_error := Some (take 500 e @ AGE_CAP_NOTE), q_status := STATUS_DEAD, q_not_before := None\<rparr>"
    let ?later = "\<lambda>x. (unlease x)\<lparr>q_error := Some (take 500 e), q_status := STATUS_PENDING, q_not_before := Some nb\<rparr>"
    have hit: "g r \<in> set (queue (d\<lparr>queue := update_where (\<lambda>x. q_id x = i) g (queue d)\<rparr>))" for g
      using row i by (auto intro: update_where_hit)
    note upd = failure_update [OF ok Some [unfolded r0]]
    from upd [of ?g] att obtain d' where u: "update_queue ?p ?g d = Inr (1, d')"
      "d' = d\<lparr>queue := update_where (\<lambda>x. q_id x = i) ?g (queue d)\<rparr>" by auto
    then have "mark_failed t i e m owner d = Inr (q_attempts r + 1, d')"
      using Some r0 by (simp add: mark_failed_def andThen_def Let_def)
    moreover have "?g r \<in> set (queue d')" unfolding u(2) by (rule hit)
    then have "\<exists>r' \<in> set (queue d'). q_id r' = i \<and> q_owner r' = None \<and> q_attempts r' = q_attempts r + 1
        \<and> q_status r' = (if m \<le> q_attempts r + 1 \<or> ?aged then STATUS_DEAD else STATUS_PENDING)"
      by (rule rev_bexI) (simp add: i)
    ultimately have ?A using f by (intro exI [of _ "q_attempts r + 1"] exI [of _ d']) simp
    moreover have ?B
    proof (cases ?aged)
      case True
      from upd [of ?dead] obtain d' where u: "update_queue ?p ?dead d = Inr (1, d')"
        "d' = d\<lparr>queue := update_where (\<lambda>x. q_id x = i) ?dead (queue d)\<rparr>" by auto
      then have "mark_quota_failed t i e nb owner d = Inr (False, d')"
        using Some r0 True by (simp add: mark_quota_failed_def andThen_def Let_def)
      moreover have "?dead r \<in> set (queue d')" unfolding u(2) by (rule hit)
      then have "\<exists>r' \<in> set (queue d'). q_id r' = i \<and> q_owner r' = None \<and> q_attempts r' = q_attempts r
          \<and> q_status r' = STATUS_DEAD \<and> q_not_before r' = None" by (rule rev_bexI) (simp add: i)
      ultimately show ?thesis using True f by (intro exI [of _ False] exI [of _ d']) simp
    next
      case False
      from upd [of ?later] obtain d' where u: "update_queue ?p ?later d = Inr (1, d')"
        "d' = d\<lparr>queue := update_where (\<lambda>x. q_id x = i) ?later (queue d)\<rparr>" by auto
      then have "mark_quota_failed t i e nb owner d = Inr (True, d')"
        using Some r0 False by (simp add: mark_quota_failed_def andThen_def Let_def)
      moreover have "?later r \<in> set (queue d')" unfolding u(2) by (rule hit)
      then have "\<exists>r' \<in> set (queue d'). q_id r' = i \<and> q_owner r' = None \<and> q_attempts r' = q_attempts r
          \<and> q_status r' = STATUS_PENDING \<and> q_not_before r' = Some nb" by (rule rev_bexI) (simp add: i)
      ultimately show ?thesis using False f by (intro exI [of _ True] exI [of _ d']) simp
    qed
    ultimately show ?thesis ..
  qed
  then show ?A and ?B by blast+
qed

text \<open>C23: failures are counted, quota errors are not.  A failure reported under a live lease costs one
  attempt and gives the row back: dead when the attempts are used up or the row is two days old,
  waiting otherwise.  A quota error costs no attempt: the row waits until the given time, or is
  dead from age.  Without a live lease either report changes nothing.
\<close>

theorem failure_accounting:
  assumes "queue_ok d" "r \<in> set (queue d)" "q_id r = i"
  shows "(\<exists>n d'. mark_failed t i e m owner d = Inr (n, d') \<and> (\<not> fenced owner r \<longrightarrow> n = 0 \<and> d' = d)
      \<and> (fenced owner r \<longrightarrow> n = q_attempts r + 1 \<and> (\<exists>r' \<in> set (queue d'). q_id r' = i \<and> q_owner r' = None \<and> q_attempts r' = q_attempts r + 1
          \<and> q_status r' = (if m \<le> q_attempts r + 1 \<or> age_exceeded t (q_created_at r) then STATUS_DEAD else STATUS_PENDING))))
    \<and> (\<exists>b d'. mark_quota_failed t i e nb owner d = Inr (b, d') \<and> (\<not> fenced owner r \<longrightarrow> \<not> b \<and> d' = d)
      \<and> (fenced owner r \<longrightarrow> b = (\<not> age_exceeded t (q_created_at r)) \<and> (\<exists>r' \<in> set (queue d'). q_id r' = i \<and> q_owner r' = None
          \<and> q_attempts r' = q_attempts r \<and> q_status r' = (if b then STATUS_PENDING else STATUS_DEAD)
          \<and> q_not_before r' = (if b then Some nb else None))))"
  by (intro conjI failure_accounting_parts [OF assms])

end
