(* ===== verification/QueueSpec.thy ===== *)
theory QueueSpec
  imports QueueFacts
begin

text \<open>
  What the extraction queue is for, without rows, statuses and columns: a map from task ids to the
  phase a task is in, and a step relation that says how a task may move.  The queue of
  \<^verbatim>\<open>enfold/extract_queue.py\<close> refines it: every step of the queue is a step of the map.
\<close>

section \<open>The abstract queue\<close>

datatype task =
    Waiting
  | Leased string rat
  | Dead

text \<open>The time, the next id to be given out, and the tasks.\<close>

type_synonym task_state = "rat \<times> int \<times> (int \<rightharpoonup> task)"

inductive task_step :: "(string \<Rightarrow> rat) \<Rightarrow> task_state \<Rightarrow> task_state \<Rightarrow> bool" for L where
  idle: "t \<le> t' \<Longrightarrow> task_step L (t, n, m) (t', n, m)"
| submit: "t \<le> t' \<Longrightarrow> task_step L (t, n, m) (t', n + 1, m(n \<mapsto> Waiting))"
| grab: "t < t' \<Longrightarrow> m i = Some Waiting \<or> (\<exists>w u. m i = Some (Leased w u) \<and> u \<le> t')
    \<Longrightarrow> task_step L (t, n, m) (t', n, m(i \<mapsto> Leased who (t' + L who)))"
| finish: "t \<le> t' \<Longrightarrow> m i = Some (Leased w u) \<Longrightarrow> task_step L (t, n, m) (t', n, m(i := None))"
| give_up: "t \<le> t' \<Longrightarrow> m i = Some (Leased w u) \<Longrightarrow> x \<in> {Waiting, Dead} \<Longrightarrow> task_step L (t, n, m) (t', n, m(i \<mapsto> x))"
| resurrect: "t \<le> t' \<Longrightarrow> (\<And>i. i \<in> S \<Longrightarrow> m i = Some Dead)
    \<Longrightarrow> task_step L (t, n, m) (t', n, \<lambda>i. if i \<in> S then Some Waiting else m i)"

text \<open>Ids are given out once: a task that is gone stays gone.\<close>

lemma task_step_gone:
  assumes "task_step L s s'" "i < fst (snd s)" "snd (snd s) i = None"
  shows "i < fst (snd s') \<and> snd (snd s') i = None"
  using assms by (induction rule: task_step.induct) auto

lemma task_steps_gone:
  assumes "(task_step L)\<^sup>*\<^sup>* s s'" "i < fst (snd s)" "snd (snd s) i = None"
  shows "i < fst (snd s') \<and> snd (snd s') i = None"
  using assms by (induction rule: rtranclp_induct) (auto dest: task_step_gone)

section \<open>The abstraction\<close>

definition task_of :: "queue_row \<Rightarrow> task" where
  "task_of r = (if q_status r = STATUS_PENDING then Waiting
     else if q_status r = STATUS_PROCESSING then Leased (the (q_owner r)) (the (q_until r)) else Dead)"

definition queue_tasks :: "db \<Rightarrow> int \<rightharpoonup> task" where
  "queue_tasks d i = map_option task_of (first_where (\<lambda>r. q_id r = i) (queue d))"

definition task_view :: "rat \<times> db \<Rightarrow> task_state" where
  "task_view s = (fst s, next_queue (snd s), queue_tasks (snd s))"

lemma first_where_update_where:
  "(\<And>r. k (g r) = k r) \<Longrightarrow> first_where (\<lambda>r. k r = j) (update_where p g rows)
     = map_option (\<lambda>r. if p r then g r else r) (first_where (\<lambda>r. k r = j) rows)"
  by (induction rows) (auto simp: first_where_def)

lemma queue_tasks_update:
  assumes "queue d' = update_where p g (queue d)" "\<And>r. q_id (g r) = q_id r"
  shows "queue_tasks d' i = map_option (\<lambda>r. task_of (if p r then g r else r)) (first_where (\<lambda>r. q_id r = i) (queue d))"
  unfolding queue_tasks_def assms(1) by (simp add: first_where_update_where assms(2) option.map_comp comp_def)

lemma queue_tasks_same:
  assumes "queue d' = update_where p g (queue d)" "\<And>r. q_id (g r) = q_id r" "\<And>r. task_of (g r) = task_of r"
  shows "queue_tasks d' = queue_tasks d"
proof
  fix i
  have "(\<lambda>r. task_of (if p r then g r else r)) = task_of" using assms(3) by auto
  with queue_tasks_update [OF assms(1,2)] show "queue_tasks d' i = queue_tasks d i" by (simp add: queue_tasks_def)
qed

lemma row_by_id:
  assumes "queue_ok d" "first_where (\<lambda>r. q_id r = i) (queue d) = Some r"
  shows "r \<in> set (queue d) \<and> q_id r = i \<and> row_ok r"
  using first_where_Some [OF assms(2)] assms(1) by (auto simp: queue_ok_def)

lemma row_present: "queue_ok d \<Longrightarrow> r \<in> set (queue d) \<Longrightarrow> first_where (\<lambda>x. q_id x = q_id r) (queue d) = Some r"
  by (rule first_where_unique) (simp_all add: queue_ok_def)

text \<open>An update that hits at most the row with id \<open>i\<close>.\<close>

lemma queue_tasks_at:
  assumes ok: "queue_ok d" and upd: "queue d' = update_where p g (queue d)" and g: "\<And>r. q_id (g r) = q_id r"
    and r: "r \<in> set (queue d)" "q_id r = i" "p r" and only: "\<And>x. x \<in> set (queue d) \<Longrightarrow> p x \<Longrightarrow> q_id x = i"
  shows "queue_tasks d' = (queue_tasks d)(i \<mapsto> task_of (g r))"
proof
  fix j
  show "queue_tasks d' j = ((queue_tasks d)(i \<mapsto> task_of (g r))) j"
  proof (cases "j = i")
    case True
    with row_present [OF ok r(1)] r queue_tasks_update [OF upd g, of i] show ?thesis by simp
  next
    case False
    have "\<not> p x" if "first_where (\<lambda>r. q_id r = j) (queue d) = Some x" for x
      using row_by_id [OF ok that] only False by auto
    with False queue_tasks_update [OF upd g, of j] show ?thesis
      by (cases "first_where (\<lambda>r. q_id r = j) (queue d)") (auto simp: queue_tasks_def)
  qed
qed

lemma fenced_task:
  assumes "row_ok r" "fenced h r"
  shows "\<exists>w u. task_of r = Leased w u"
  using fenced_processing [OF assms(2)] by (auto simp: task_of_def)

section \<open>The simulation\<close>

lemma view_idle: "t \<le> t' \<Longrightarrow> next_queue d' = next_queue d \<Longrightarrow> queue_tasks d' = queue_tasks d
    \<Longrightarrow> task_step L (task_view (t, d)) (task_view (t', d'))"
  by (simp add: task_view_def task_step.idle)

lemma view_given_back:
  assumes ok: "queue_ok d" and t: "t \<le> t'" and gb: "given_back i h d d'"
  shows "task_step L (task_view (t, d)) (task_view (t', d'))"
proof -
  from gb obtain p g where d': "queue d' = update_where p g (queue d)" "next_queue d' = next_queue d"
    and p: "\<And>r. r \<in> set (queue d) \<Longrightarrow> p r \<longleftrightarrow> q_id r = i \<and> fenced h r"
    and g: "\<And>r. q_id (g r) = q_id r" "\<And>r. q_status (g r) \<in> {STATUS_PENDING, STATUS_DEAD}"
    unfolding given_back_def by fastforce
  show ?thesis
  proof (cases "\<exists>r \<in> set (queue d). p r")
    case False
    then have "queue d' = queue d" using d'(1) by (simp add: update_where_none)
    then have "queue_tasks d' = queue_tasks d" by (simp add: queue_tasks_def fun_eq_iff)
    with t d'(2) show ?thesis by (rule view_idle)
  next
    case True
    then obtain r where r: "r \<in> set (queue d)" "p r" by blast
    with p have i: "q_id r = i" and f: "fenced h r" by auto
    have "row_ok r" using ok r(1) by (simp add: queue_ok_def)
    with f obtain w u where "task_of r = Leased w u" using fenced_task by blast
    then have "queue_tasks d i = Some (Leased w u)" using row_present [OF ok r(1)] i by (simp add: queue_tasks_def)
    moreover have "queue_tasks d' = (queue_tasks d)(i \<mapsto> task_of (g r))"
      by (rule queue_tasks_at [OF ok d'(1) g(1) r(1) i r(2)]) (use p in auto)
    moreover have "task_of (g r) \<in> {Waiting, Dead}" using g(2) [of r] by (auto simp: task_of_def)
    ultimately show ?thesis using t d'(2) by (simp add: task_view_def task_step.give_up)
  qed
qed

lemma view_revived:
  assumes ok: "queue_ok d" and t: "t \<le> t'" and d': "d' = d\<lparr>queue := update_where p revive (queue d)\<rparr>"
    and dead: "\<And>r. r \<in> set (queue d) \<Longrightarrow> p r \<Longrightarrow> q_status r = STATUS_DEAD"
  shows "task_step L (task_view (t, d)) (task_view (t', d'))"
proof -
  let ?S = "{q_id r | r. r \<in> set (queue d) \<and> p r}"
  have rev: "q_id (revive r) = q_id r" "task_of (revive r) = Waiting" for r by (simp_all add: revive_def task_of_def)
  have "queue_tasks d i = Some Dead" if "i \<in> ?S" for i
    using that row_present [OF ok] dead by (force simp: queue_tasks_def task_of_def)
  moreover have "queue_tasks d' = (\<lambda>i. if i \<in> ?S then Some Waiting else queue_tasks d i)"
  proof
    fix i
    have eq: "queue_tasks d' i = map_option (\<lambda>r. task_of (if p r then revive r else r)) (first_where (\<lambda>r. q_id r = i) (queue d))"
      by (rule queue_tasks_update) (simp_all add: d' rev)
    show "queue_tasks d' i = (if i \<in> ?S then Some Waiting else queue_tasks d i)"
    proof (cases "first_where (\<lambda>r. q_id r = i) (queue d)")
      case None
      then have "i \<notin> ?S" by (auto simp: first_where_None)
      with None eq show ?thesis by (simp add: queue_tasks_def)
    next
      case (Some r)
      note r = row_by_id [OF ok Some]
      have "i \<in> ?S \<longleftrightarrow> p r"
        using r ok by (auto simp: queue_ok_def distinct_map inj_on_def)
      then have "queue_tasks d' i = (if i \<in> ?S then Some Waiting else Some (task_of r))"
        unfolding eq Some by (simp only: option.map rev if_distrib [of task_of] split: if_split) simp
      moreover have "queue_tasks d i = Some (task_of r)" using Some by (simp add: queue_tasks_def)
      ultimately show ?thesis by (simp only:)
    qed
  qed
  moreover have "task_step L (t, next_queue d, queue_tasks d) (t', next_queue d, \<lambda>i. if i \<in> ?S then Some Waiting else queue_tasks d i)"
    using t calculation(1) by (rule task_step.resurrect)
  ultimately show ?thesis unfolding task_view_def d' by simp
qed

lemma view_taken:
  assumes ok: "queue_ok d" and t: "t < t'" and run: "next_pending env t' fb m ex owner (L (claim_owner fb owner)) d = Inr (c, d')"
  shows "task_step L (task_view (t, d)) (task_view (t', d'))"
proof -
  let ?who = "claim_owner fb owner"
  from next_pending_runs [OF ok, of env t' fb m ex owner "L ?who"] run consider "d' = d"
    | r where "r \<in> set (queue d)" "due_row m t' r"
      "d' = d\<lparr>queue := update_where (\<lambda>x. q_id x = q_id r) (claim_row ?who (t' + L ?who)) (queue d)\<rparr>" by auto
  then show ?thesis
  proof cases
    case 1
    with t show ?thesis by (simp add: view_idle)
  next
    case (2 r)
    have "queue_tasks d' = (queue_tasks d)(q_id r \<mapsto> task_of (claim_row ?who (t' + L ?who) r))"
      by (rule queue_tasks_at [OF ok _ _ 2(1), where p = "\<lambda>x. q_id x = q_id r" and g = "claim_row ?who (t' + L ?who)"])
        (simp_all add: 2(3), simp add: claim_row_def)
    moreover have "task_of (claim_row ?who (t' + L ?who) r) = Leased ?who (t' + L ?who)" by (simp add: task_of_def claim_row_def)
    moreover have "queue_tasks d (q_id r) = Some (task_of r)" using row_present [OF ok 2(1)] by (simp add: queue_tasks_def)
    moreover have "task_of r = Waiting \<or> (\<exists>w u. task_of r = Leased w u \<and> u \<le> t')"
      using 2(2) by (auto simp: due_row_def task_of_def split: option.splits)
    moreover have "next_queue d' = next_queue d" using 2(3) by simp
    ultimately show ?thesis using t unfolding task_view_def by (simp add: task_step.grab)
  qed
qed

lemma view_finished:
  assumes ok: "queue_ok d" and t: "t \<le> t'" and run: "mark_done i h d = Inr (b, d')"
  shows "task_step L (task_view (t, d)) (task_view (t', d'))"
proof -
  let ?p = "\<lambda>r. q_id r = i \<and> fenced h r"
  have d': "queue d' = filter (\<lambda>r. \<not> ?p r) (queue d)" "next_queue d' = next_queue d"
    using run by (auto simp: mark_done_def Let_def)
  show ?thesis
  proof (cases "\<exists>r \<in> set (queue d). ?p r")
    case False
    then have "queue d' = queue d" unfolding d'(1) by (auto intro: filter_True)
    then have "queue_tasks d' = queue_tasks d" by (simp add: queue_tasks_def fun_eq_iff)
    with t d'(2) show ?thesis by (rule view_idle)
  next
    case True
    then obtain r where r: "r \<in> set (queue d)" "q_id r = i" "fenced h r" by blast
    have "row_ok r" using ok r(1) by (simp add: queue_ok_def)
    with r(3) obtain w u where "task_of r = Leased w u" using fenced_task by blast
    then have lease: "queue_tasks d i = Some (Leased w u)" using row_present [OF ok r(1)] r(2) by (simp add: queue_tasks_def)
    have same: "x = r" if "x \<in> set (queue d)" "q_id x = i" for x
      using that r ok by (auto simp: queue_ok_def distinct_map inj_on_def)
    have "first_where (\<lambda>x. q_id x = j) (filter (\<lambda>x. \<not> ?p x) xs) = (if j = i then None else first_where (\<lambda>x. q_id x = j) xs)"
      if "\<forall>x \<in> set xs. q_id x = i \<longrightarrow> fenced h x" for xs j using that by (induction xs) (auto simp: first_where_def)
    moreover have "\<forall>x \<in> set (queue d). q_id x = i \<longrightarrow> fenced h x" using same r(3) by auto
    ultimately have "first_where (\<lambda>x. q_id x = j) (queue d') = (if j = i then None else first_where (\<lambda>x. q_id x = j) (queue d))" for j
      unfolding d'(1) by blast
    then have "queue_tasks d' = (queue_tasks d)(i := None)" by (auto simp: queue_tasks_def fun_eq_iff)
    with t d'(2) lease show ?thesis unfolding task_view_def by (simp add: task_step.finish)
  qed
qed

lemma view_enqueued:
  assumes ok: "queue_ok d" and t: "t \<le> t'" and run: "enqueue env t' tr d = Inr (i, d')"
  shows "task_step L (task_view (t, d)) (task_view (t', d'))"
  using run
proof (cases rule: enqueue_cases)
  case (old r)
  with t show ?thesis by (simp add: view_idle)
next
  case (fresh payload structured)
  let ?row = "new_queue_row payload (payload_hash env structured payload) t' i"
  have row: "q_id ?row = i" "task_of ?row = Waiting" by (simp_all add: new_queue_row_def task_of_def)
  have new: "\<forall>r \<in> set (queue d). q_id r \<noteq> i" using ok fresh(2) by (auto simp: queue_ok_def)
  have "first_where (\<lambda>r. q_id r = j) (xs @ [?row]) = (if j = i then Some ?row else first_where (\<lambda>r. q_id r = j) xs)"
    if "\<forall>r \<in> set xs. q_id r \<noteq> i" for xs j using that row(1) by (induction xs) (auto simp: first_where_def)
  note this [OF new]
  then have "queue_tasks d' = (queue_tasks d)(next_queue d \<mapsto> Waiting)"
    using fresh(2,3) row(2) by (auto simp: queue_tasks_def fun_eq_iff)
  with t fresh(2,3) show ?thesis unfolding task_view_def by (simp add: task_step.submit)
qed

lemma view_saved:
  assumes t: "t \<le> t'" and run: "save_proposals i ps h d = Inr (b, d')"
  shows "task_step L (task_view (t, d)) (task_view (t', d'))"
proof -
  from run obtain p f where "queue d' = update_where p (\<lambda>r. r\<lparr>q_proposal := f r\<rparr>) (queue d)" "next_queue d' = next_queue d"
    by (auto simp: save_proposals_def andThen_Inr_iff update_queue_Inr)
  moreover from this(1) have "queue_tasks d' = queue_tasks d" by (rule queue_tasks_same) (simp_all add: task_of_def)
  ultimately show ?thesis using t by (simp add: view_idle)
qed

lemma queue_step_task:
  assumes "queue_step L s s'" "queue_ok (snd s)"
  shows "task_step L (task_view s) (task_view s')"
  using assms
proof (induction rule: queue_step.induct)
  case (revived t t' ids d k d')
  then have "queue_ok d" by simp
  from revive_dead_ok [OF this, of ids] revived(2) obtain p where "d' = d\<lparr>queue := update_where p revive (queue d)\<rparr>"
    "\<forall>r. p r \<longrightarrow> revivable (queue d) r" by auto
  with revived(1) \<open>queue_ok d\<close> show ?case by (intro view_revived [where p = p]) (auto simp: revivable_def)
next
  case (recovered t t' d k d')
  then have ok: "queue_ok d" by simp
  show ?case
  proof (cases "d' = d")
    case False
    with recovered(2) obtain ids where "revive_dead (Some ids) d = Inr (k, d')"
      by (auto simp: revive_recent_quota_dead_def andThen_Inr_iff split: if_splits)
    with revive_dead_ok [OF ok, of "Some ids"] obtain p where "d' = d\<lparr>queue := update_where p revive (queue d)\<rparr>"
      "\<forall>r. p r \<longrightarrow> revivable (queue d) r" by auto
    with recovered(1) ok show ?thesis by (intro view_revived [where p = p]) (auto simp: revivable_def)
  qed (use recovered in \<open>simp add: view_idle\<close>)
next
  case (failed t t' i e m h d n d')
  then show ?case using mark_failed_back [of d t' i e m h] by (auto intro: view_given_back)
next
  case (deferred t t' i e nb h d b d')
  then show ?case using mark_quota_failed_back [of d t' i e nb h] by (auto intro: view_given_back)
next
  case (released t t' i h d b d')
  then show ?case using release_claim_back [of d i h] by (auto intro: view_given_back)
next
  case (elsewhere t t' d' d)
  then show ?case by (intro view_idle) (simp_all add: queue_tasks_def fun_eq_iff)
qed (auto intro: view_enqueued view_taken view_saved view_finished)

lemma queue_steps_task:
  assumes "(queue_step L)\<^sup>*\<^sup>* s s'" "queue_ok (snd s)"
  shows "(task_step L)\<^sup>*\<^sup>* (task_view s) (task_view s') \<and> queue_ok (snd s')"
  using assms
proof (induction rule: rtranclp_induct)
  case (step s' s'')
  then have "task_step L (task_view s') (task_view s'')" by (blast intro: queue_step_task)
  moreover have "queue_ok (snd s'')" using queue_step_leases [OF step(2)] step by (simp add: leases_change_def)
  ultimately show ?case using step by (auto intro: rtranclp.rtrancl_into_rtrancl)
qed simp

section \<open>Properties\<close>

text \<open>C29: the queue refines the abstract one.  Seen through \<open>task_view\<close>, every interleaving of the
  queue's operations is a run of the task machine: ids are given out in turn, only a waiting task or
  one whose lease has run out is taken, only a leased one is finished, put back or buried, and
  only a dead one comes back.
\<close>

theorem queue_refines_tasks:
  assumes "(queue_step L)\<^sup>*\<^sup>* s s'" "queue_ok (snd s)"
  shows "(task_step L)\<^sup>*\<^sup>* (task_view s) (task_view s')"
  using queue_steps_task [OF assms] by blast

text \<open>C30: a finished transcript stays finished.  Once the row with an id that was given out is gone, no
  interleaving of the queue's operations brings a row with that id back.
\<close>

theorem finished_stays_finished:
  assumes "(queue_step L)\<^sup>*\<^sup>* s s'" "queue_ok (snd s)"
    and "i < next_queue (snd s)" "\<forall>r \<in> set (queue (snd s)). q_id r \<noteq> i"
  shows "\<forall>r \<in> set (queue (snd s')). q_id r \<noteq> i"
proof -
  have "queue_tasks (snd s) i = None" using assms(4) by (simp add: queue_tasks_def first_where_None)
  then have "queue_tasks (snd s') i = None"
    using task_steps_gone [OF conjunct1 [OF queue_steps_task [OF assms(1,2)]], of i] assms(3) by (simp add: task_view_def)
  then show ?thesis by (simp add: queue_tasks_def first_where_None)
qed

end
