(* ===== verification/QueueWitnesses.thy ===== *)
theory QueueWitnesses
  imports QueueSpec Witnesses
begin

text \<open>
  A queue with one waiting transcript, its claim, its return and its second claim, and on them
  one instance of each property of the queue that has hypotheses.
\<close>

section \<open>A queue\<close>

definition queue_db :: db where
  "queue_db = empty_db\<lparr>queue := [new_queue_row ''I moved'' ''h'' 0 1], next_queue := 2\<rparr>"

abbreviation worker_lease :: "string \<Rightarrow> rat" where
  "worker_lease \<equiv> (\<lambda>_. 600)"

definition claim_at :: "rat \<Rightarrow> claimed_row" where
  "claim_at t = \<lparr>qc_id = 1, qc_payload = ''I moved'', qc_attempts = 0, qc_owner = ''w'', qc_until = t + 600,
     qc_proposal = None, qc_structured = False\<rparr>"

definition leased_db :: "rat \<Rightarrow> db" where
  "leased_db t = queue_db\<lparr>queue := [claim_row ''w'' (t + 600) (new_queue_row ''I moved'' ''h'' 0 1)]\<rparr>"

lemma queue_db_ok: "queue_ok queue_db"
  by (simp add: queue_ok_def queue_db_def new_queue_row_def row_ok_def queue_unique_def in_queue_index_def)

lemmas queue_eval = next_pending_def queue_db_def leased_db_def claim_at_def new_queue_row_def claim_row_def due_row_def
  claim_owner_def andThen_def first_where_def update_queue_def queue_unique_def in_queue_index_def queued_def count_where_def
  payload_hash_def demo_env_def Let_def

lemma first_taken:
  "next_pending demo_env t [] 3 [] (Some ''w'') 600 queue_db = Inr (Some (claim_at t), leased_db t)"
  by (simp add: queue_eval)

lemma taken_again:
  "t + 600 \<le> t' \<Longrightarrow> next_pending demo_env t' [] 3 [] (Some ''w'') 600 (leased_db t) = Inr (Some (claim_at t'), leased_db t')"
  by (simp add: queue_eval)

lemma returned: "release_claim 1 (Some (''w'', Some (t + 600))) (leased_db t) = Inr (True, queue_db)"
  by (simp add: release_claim_def fenced_def lease_fence_def unlease_def queue_eval)

lemma worker_claim: "claim_owner [] (Some ''w'') = ''w''"
  by (simp add: claim_owner_def)

section \<open>Instances\<close>

theorem queue_invariant_witness:
  "queue_step worker_lease (0, queue_db) (10, leased_db 10) \<and> queue_ok (leased_db 10)"
proof -
  have "queue_step worker_lease (0, queue_db) (10, leased_db 10)" by (rule queue_step.taken [OF _ first_taken]) simp
  moreover from this have "(queue_step worker_lease)\<^sup>*\<^sup>* (0, queue_db) (10, leased_db 10)" by blast
  from queue_invariant [OF _ this] queue_db_ok have "queue_ok (leased_db 10)" by simp
  ultimately show ?thesis ..
qed

lemma returned_settles: "settles_row (1, ''w'', 610) (10, leased_db 10) (11, queue_db)"
  by (rule settles_row.intros(4)) (simp_all add: lease_of_def returned [of 10, simplified])

theorem queue_claim_settled_once_witness:
  "settles_row (1, ''w'', 610) (10, leased_db 10) (11, queue_db) \<and> \<not> settles_row (1, ''w'', 610) (11, queue_db) (12, queue_db)"
  using returned_settles
    queue_claim_settled_once [where L = worker_lease, OF queue_db_ok first_taken [of 10] rtranclp.rtrancl_refl _ rtranclp.rtrancl_refl,
      of "(11, queue_db)" "(12, queue_db)"]
  by (simp add: claim_at_def)


theorem next_pending_takes_first_due_witness:
  "\<exists>c d'. next_pending demo_env 10 [] 3 [] None 600 queue_db = Inr (c, d') \<and> c \<noteq> None"
  using next_pending_takes_first_due [OF queue_db_ok, of demo_env 10 "[]" 3 "[]" None 600]
  by (auto simp: queue_db_def new_queue_row_def due_row_def)

theorem enqueue_is_idempotent_witness:
  "\<exists>d'. enqueue demo_env 5 (Text ''Hi'') queue_db = Inr (2, d') \<and> enqueue demo_env 9 (Text ''Hi'') d' = Inr (2, d')"
proof -
  have "\<exists>d'. enqueue demo_env 5 (Text ''Hi'') queue_db = Inr (2, d')"
    by (auto simp: enqueue_def encode_payload_def utf8_char_def code_def MAX_PAYLOAD_BYTES_def same_payload_def queue_eval)
  then obtain d' where run: "enqueue demo_env 5 (Text ''Hi'') queue_db = Inr (2, d')" ..
  from enqueue_is_idempotent [OF queue_db_ok run] run show ?thesis by blast
qed

theorem failure_accounting_witness:
  "\<exists>n d'. mark_failed 20 1 ''boom'' 3 (Some (''w'', Some 610)) (leased_db 10) = Inr (n, d') \<and> n = 1"
proof -
  have "queue_ok (leased_db 10)"
    by (simp add: queue_ok_def leased_db_def queue_db_def claim_row_def new_queue_row_def row_ok_def queue_unique_def in_queue_index_def)
  from failure_accounting [OF this, of "claim_row ''w'' 610 (new_queue_row ''I moved'' ''h'' 0 1)" 1 20 "''boom''" 3 "Some (''w'', Some 610)"]
  show ?thesis by (auto simp: leased_db_def claim_row_def new_queue_row_def fenced_def lease_fence_def)
qed

theorem payload_bounded_witness:
  "\<exists>p. encode_payload (Turns demo_turns) = Inr (p, True) \<and> length (utf8 p) \<le> MAX_PAYLOAD_BYTES"
proof -
  have "is_ok (encode_payload (Turns demo_turns))" by code_simp
  moreover have "b" if "encode_payload (Turns demo_turns) = Inr (p, b)" for p b
    using that by (auto simp: encode_payload_def bindE_Inr_iff Let_def)
  ultimately obtain p where "encode_payload (Turns demo_turns) = Inr (p, True)" by (fastforce simp: is_ok_iff)
  with payload_bounded show ?thesis by blast
qed

theorem queue_refines_tasks_witness:
  "(task_step worker_lease)\<^sup>*\<^sup>* (task_view (0, queue_db)) (task_view (10, leased_db 10))
    \<and> queue_tasks queue_db 1 = Some Waiting \<and> queue_tasks (leased_db 10) 1 = Some (Leased ''w'' 610)"
proof -
  have "queue_step worker_lease (0, queue_db) (10, leased_db 10)" by (rule queue_step.taken [OF _ first_taken]) simp
  then have "(queue_step worker_lease)\<^sup>*\<^sup>* (0, queue_db) (10, leased_db 10)" by blast
  from queue_refines_tasks [OF this] queue_db_ok have "(task_step worker_lease)\<^sup>*\<^sup>* (task_view (0, queue_db)) (task_view (10, leased_db 10))"
    by simp
  then show ?thesis by (simp add: queue_tasks_def task_of_def queue_eval)
qed

definition done_db :: db where
  "done_db = queue_db\<lparr>queue := []\<rparr>"

definition next_db :: db where
  "next_db = queue_db\<lparr>queue := [new_queue_row ''I left'' (payload_hash demo_env False ''I left'') 12 2], next_queue := 3\<rparr>"

lemma next_enqueued: "enqueue demo_env 12 (Text ''I left'') done_db = Inr (2, next_db)"
  by code_simp

theorem finished_stays_finished_witness:
  "(queue_step worker_lease)\<^sup>*\<^sup>* (10, done_db) (12, next_db) \<and> 1 \<notin> q_id ` set (queue next_db)"
proof -
  have run: "(queue_step worker_lease)\<^sup>*\<^sup>* (10, done_db) (12, next_db)"
    by (rule r_into_rtranclp, rule queue_step.enqueued [OF _ next_enqueued]) simp
  moreover have "queue_ok done_db" by (simp add: queue_ok_def done_db_def queue_db_def queue_unique_def)
  ultimately have "\<forall>r \<in> set (queue (snd (12 :: rat, next_db))). q_id r \<noteq> 1"
    by (intro finished_stays_finished [OF run, of 1]) (simp_all add: done_db_def queue_db_def)
  with run show ?thesis by auto
qed

end
