(* ===== verification/Erasure.thy ===== *)
theory Erasure
  imports WriteService ExtractQueue
begin

text \<open>
  \<^verbatim>\<open>enfold/erasure.py\<close>: the privacy erasure of one fact, step by step in the order of
  \<open>erase_fact\<close>.  The transaction is the whole operation: an exception leaves the store as it was.
  The full-text table follows \<open>facts\<close> by its triggers and the vector index is SQLite's; neither is
  a table of the model.  The texts that replace hashes carry the fresh erasure id, so the unique
  key of the observations is not checked again.
\<close>

section \<open>Referential integrity\<close>

text \<open>\<open>PRAGMA foreign_key_check\<close> on the tables of the model: every \<open>REFERENCES\<close> clause of the schema.\<close>

definition refers :: "'k set \<Rightarrow> 'k option list \<Rightarrow> bool" where
  "refers ks rs \<longleftrightarrow> list_all (\<lambda>r. case r of None \<Rightarrow> True | Some k \<Rightarrow> k \<in> ks) rs"

definition fact_ids :: "db \<Rightarrow> int set" where
  "fact_ids d = set (map f_id (facts d))"

definition session_keys :: "db \<Rightarrow> (string \<times> string) set" where
  "session_keys d = set (map (\<lambda>s. (se_client s, se_id s)) (sessions d))"

definition client_fk_ok :: "db \<Rightarrow> bool" where
  "client_fk_ok d \<longleftrightarrow>
     refers (set (map cl_id (clients d))) (map (\<lambda>s. Some (se_client s)) (sessions d))
     \<and> refers (set (map cl_id (clients d))) (map (\<lambda>l. Some (lg_client l)) (logs d))
     \<and> refers (session_keys d) (map (\<lambda>ob. Some (ob_client ob, ob_session ob)) (observations d))
     \<and> refers (session_keys d) (map (\<lambda>r. Some (rs_client r, rs_session r)) (resolutions d))"

definition fact_fk_ok :: "db \<Rightarrow> bool" where
  "fact_fk_ok d \<longleftrightarrow>
     refers (fact_ids d) (map f_superseded_by (facts d))
     \<and> refers (fact_ids d) (map (\<lambda>p. Some (pv_fact p)) (provenances d))
     \<and> refers (fact_ids d) (map lg_fact (logs d)) \<and> refers (fact_ids d) (map lg_existing (logs d))
     \<and> refers (fact_ids d) (map (\<lambda>e. Some (er_fact e)) (erasures d))
     \<and> refers (fact_ids d) (map (\<lambda>j. Some (ej_fact j)) (jobs d))
     \<and> refers (fact_ids d) (map (\<lambda>e. Some (em_fact e)) (embeddings d))
     \<and> refers (fact_ids d) (map (\<lambda>e. Some (fst e)) (fact_entities d))
     \<and> refers (fact_ids d) (map cf_resolution (conflicts d))
     \<and> refers (fact_ids d) (map (\<lambda>m. Some (snd m)) (members d))
     \<and> refers (fact_ids d) (map (\<lambda>r. Some (rs_fact r)) (resolutions d))"

definition other_fk_ok :: "db \<Rightarrow> bool" where
  "other_fk_ok d \<longleftrightarrow>
     refers (set (map en_id (entities d))) (map f_object_entity (facts d))
     \<and> refers (set (map en_id (entities d))) (map (\<lambda>e. Some (snd e)) (fact_entities d))
     \<and> refers (set (map ob_id (observations d))) (map (\<lambda>p. Some (pv_observation p)) (provenances d))
     \<and> refers (set (map ob_id (observations d))) (map lg_observation (logs d))
     \<and> refers (set (map cf_id (conflicts d))) (map (\<lambda>m. Some (fst m)) (members d))
     \<and> refers (set (map cf_id (conflicts d))) (map (\<lambda>r. Some (rs_conflict r)) (resolutions d))"

definition foreign_keys_ok :: "db \<Rightarrow> bool" where
  "foreign_keys_ok d \<longleftrightarrow> client_fk_ok d \<and> fact_fk_ok d \<and> other_fk_ok d"

section \<open>Evidence\<close>

record erasure_report =
  ex_id :: string
  ex_fact :: int
  ex_observations :: nat
  ex_embeddings :: nat
  ex_queue_rows :: nat
  ex_insights :: nat
  ex_conflicts :: nat

definition SUPPORTED_SCHEMA_VERSION :: int where
  "SUPPORTED_SCHEMA_VERSION = 1"

definition fact_observations :: "int \<Rightarrow> db \<Rightarrow> int list" where
  "fact_observations i d = dedup_first (map pv_observation (filter (\<lambda>p. pv_fact p = i) (provenances d)))"

text \<open>The queue row and the payload an observation says it was extracted from; \<open>True\<close> is the integer 1.\<close>

definition linked_queue_id :: "json \<Rightarrow> int option" where
  "linked_queue_id m = (case m of JObj _ \<Rightarrow> (case jget ''extraction_queue_id'' m of
       Some (JInt n) \<Rightarrow> if 0 < n then Some n else None
     | Some (JBool b) \<Rightarrow> if b then Some 1 else None
     | _ \<Rightarrow> None) | _ \<Rightarrow> None)"

definition linked_payload_hash :: "json \<Rightarrow> string option" where
  "linked_payload_hash m = (case m of JObj _ \<Rightarrow> (case jget ''extraction_payload_sha256'' m of
       Some (JStr s) \<Rightarrow> if s \<noteq> [] then Some s else None
     | _ \<Rightarrow> None) | _ \<Rightarrow> None)"

definition linked_metadata :: "int list \<Rightarrow> db \<Rightarrow> json list" where
  "linked_metadata obs d = map ob_metadata (filter (\<lambda>ob. ob_id ob \<in> set obs) (observations d))"

text \<open>Other facts keep a copy of a shared observation, under an id of its own.\<close>

definition clone_shared_observation :: "int \<Rightarrow> string \<Rightarrow> int \<Rightarrow> db \<Rightarrow> db" where
  "clone_shared_observation i erasure_id oid d =
     (if \<not> list_ex (\<lambda>p. pv_observation p = oid \<and> pv_fact p \<noteq> i) (provenances d) then d
      else (case first_where (\<lambda>ob. ob_id ob = oid) (observations d) of
        None \<Rightarrow> d
      | Some source \<Rightarrow>
          let clone_id = next_observation d in
          d\<lparr>observations := observations d @ [source\<lparr>ob_id := clone_id,
              ob_sha256 := ''clone:'' @ erasure_id @ '':'' @ show_int oid\<rparr>],
            provenances := update_where (\<lambda>p. pv_observation p = oid \<and> pv_fact p \<noteq> i)
              (\<lambda>p. p\<lparr>pv_observation := clone_id\<rparr>) (provenances d),
            logs := update_where (\<lambda>l. lg_observation l = Some oid \<and> lg_fact l \<noteq> Some i)
              (\<lambda>l. l\<lparr>lg_observation := Some clone_id\<rparr>) (logs d)\<rparr>))"

definition ERASED_TEXT :: string where
  "ERASED_TEXT = ''[PRIVACY ERASED]''"

definition scrub_observation :: "string \<Rightarrow> string \<Rightarrow> observation \<Rightarrow> observation" where
  "scrub_observation erasure_id at_time ob = ob\<lparr>ob_source_uri := None, ob_content := ERASED_TEXT,
     ob_sha256 := ''erased:'' @ erasure_id @ '':'' @ show_int (ob_id ob), ob_asserted_by := None,
     ob_metadata := JObj [], ob_redacted_at := Some at_time\<rparr>"

definition scrub_evidence :: "int \<Rightarrow> string \<Rightarrow> string \<Rightarrow> int list \<Rightarrow> db \<Rightarrow> db" where
  "scrub_evidence i erasure_id at_time obs d =
     d\<lparr>observations := update_where (\<lambda>ob. ob_id ob \<in> set obs) (scrub_observation erasure_id at_time) (observations d),
       provenances := update_where (\<lambda>p. pv_fact p = i) (\<lambda>p. p\<lparr>pv_excerpt := None\<rparr>) (provenances d)\<rparr>"

section \<open>The fact and what was derived from it\<close>

definition placeholder :: "int \<Rightarrow> string" where
  "placeholder i = ''[PRIVACY ERASED fact:'' @ show_int i @ '']''"

definition scrub_fact :: "int \<Rightarrow> string \<Rightarrow> fact \<Rightarrow> fact" where
  "scrub_fact i at_time f = f\<lparr>f_content := placeholder i, f_tags := [],
     f_invalid_at := (case f_invalid_at f of None \<Rightarrow> Some at_time | Some v \<Rightarrow> Some v), f_conflict := None,
     f_object := None, f_object_entity := None, f_subject := None, f_predicate := None, f_kind := Some ''fact''\<rparr>"

definition drop_derived :: "int \<Rightarrow> string \<Rightarrow> int \<Rightarrow> db \<Rightarrow> db" where
  "drop_derived i erasure_id stamp d =
     d\<lparr>fact_entities := filter (\<lambda>e. fst e \<noteq> i) (fact_entities d),
       embeddings := filter (\<lambda>e. em_fact e \<noteq> i) (embeddings d),
       jobs := update_where (\<lambda>j. ej_fact j = i)
         (\<lambda>j. j\<lparr>ej_sha256 := ''erased:'' @ erasure_id @ '':'' @ show_int i, ej_status := ''completed'', ej_token := None,
                ej_owner := None, ej_expires_at := None, ej_error := Some ''privacy_erased'',
                ej_completed_at := Some stamp, ej_updated_at := stamp\<rparr>) (jobs d)\<rparr>"

definition row_linked :: "env \<Rightarrow> json list \<Rightarrow> queue_row \<Rightarrow> bool" where
  "row_linked env ms r \<longleftrightarrow> list_ex (\<lambda>m. linked_queue_id m = Some (q_id r)
     \<or> linked_payload_hash m = Some (sha256 env (q_payload r))
     \<or> (q_hash r \<noteq> None \<and> q_hash r \<noteq> Some [] \<and> linked_payload_hash m = q_hash r)) ms"

definition erased_payload :: "int \<Rightarrow> string" where
  "erased_payload i = json_text (\<lambda>_. []) (JObj [(''privacy_erased'', JBool True), (''queue_id'', JInt i)])"

definition scrub_row :: "env \<Rightarrow> queue_row \<Rightarrow> queue_row" where
  "scrub_row env r = r\<lparr>q_payload := erased_payload (q_id r), q_hash := Some (sha256 env (erased_payload (q_id r))),
     q_error := None, q_proposal := None, q_proposal_hash := None\<rparr>"

text \<open>
  The ids an insight cites in its tags: the text after the first marker, its first word without
  outer commas, the decimal items of the list.  \<open>str.isdigit\<close> also holds of the superscripts
  one to three, which \<open>int\<close> refuses.
\<close>

fun after_first :: "string \<Rightarrow> string \<Rightarrow> string option" where
  "after_first w [] = (if w = [] then Some [] else None)"
| "after_first w (c # cs) = (if prefix w (c # cs) then Some (drop (length w) (c # cs)) else after_first w cs)"

definition py_isdigit :: "string \<Rightarrow> bool" where
  "py_isdigit s \<longleftrightarrow> s \<noteq> [] \<and> list_all (\<lambda>c. is_digit c \<or> code c \<in> {178, 179, 185}) s"

definition int_of :: "string \<Rightarrow> int res" where
  "int_of s = (if list_all is_digit s then Inr (digits_val s) else Inl (ValueError ''invalid literal for int() with base 10''))"

definition cited_facts :: "string \<Rightarrow> int list res" where
  "cited_facts tags = (case after_first ''source_facts:'' tags of
     None \<Rightarrow> Inr []
   | Some rest \<Rightarrow>
       let word = takeWhile (\<lambda>c. \<not> py_space c) (lstrip rest) in
       bindE (checkE (word \<noteq> []) (IndexError ''list index out of range'')) (\<lambda>_.
       mapE int_of (filter py_isdigit (split_by (\<lambda>c. c = CHR '','') (strip_by (\<lambda>c. c = CHR '','') word)))))"

definition invalidate_insight :: "int \<Rightarrow> string \<Rightarrow> nat \<Rightarrow> fact \<Rightarrow> nat dbtx" where
  "invalidate_insight i at_time n f =
     andThen (liftE (cited_facts (f_tags f))) (\<lambda>cited.
     if i \<in> set cited then
       andThen (update_facts (\<lambda>x. f_id x = f_id f) (\<lambda>x. x\<lparr>f_invalid_at := Some at_time\<rparr>)) (\<lambda>_. ret (Suc n))
     else ret n)"

definition invalidate_insights :: "int \<Rightarrow> string \<Rightarrow> nat dbtx" where
  "invalidate_insights i at_time =
     andThen (gets (\<lambda>d. filter (\<lambda>f. f_category f = ''insight'' \<and> f_invalid_at f = None) (facts d))) (\<lambda>insights.
     foldTx (invalidate_insight i at_time) 0 insights)"

section \<open>Conflicts and the log\<close>

definition erasure_resolves :: "string \<Rightarrow> string \<Rightarrow> conflict \<Rightarrow> conflict" where
  "erasure_resolves at_time who c = c\<lparr>cf_resolved_at := Some at_time, cf_resolution := None, cf_resolved_by := Some who,
     cf_reason := Some ''privacy erasure removed a conflict member''\<rparr>"

definition leave_conflict :: "string \<Rightarrow> string \<Rightarrow> nat \<Rightarrow> string \<Rightarrow> nat dbtx" where
  "leave_conflict at_time who n cid =
     andThen (gets (\<lambda>d. map snd (filter (\<lambda>m. fst m = cid) (members d)))) (\<lambda>remaining.
     if length remaining \<le> 1 then
       andThen (modify (\<lambda>d. d\<lparr>conflicts := update_where (\<lambda>c. cf_id c = cid \<and> cf_resolved_at c = None)
         (erasure_resolves at_time who) (conflicts d)\<rparr>)) (\<lambda>_. ret (Suc n))
     else ret n)"

definition leave_conflicts :: "int \<Rightarrow> string \<Rightarrow> string \<Rightarrow> nat dbtx" where
  "leave_conflicts i at_time who =
     andThen (gets (\<lambda>d. map fst (filter (\<lambda>m. snd m = i) (members d)))) (\<lambda>cids.
     andThen (modify (\<lambda>d. d\<lparr>members := filter (\<lambda>m. snd m \<noteq> i) (members d)\<rparr>)) (\<lambda>_.
     foldTx (leave_conflict at_time who) 0 cids))"

definition ERASED_DETAIL :: json where
  "ERASED_DETAIL = JObj [(''privacy_erased'', JBool True)]"

definition scrub_logs :: "(rat \<Rightarrow> string) \<Rightarrow> int \<Rightarrow> int list \<Rightarrow> string \<Rightarrow> db \<Rightarrow> db" where
  "scrub_logs ft i obs original d =
     (let ls = update_where (\<lambda>l. lg_fact l = Some i \<or> lg_observation l \<in> Some ` set obs)
            (\<lambda>l. l\<lparr>lg_detail := ERASED_DETAIL\<rparr>) (logs d) in
      d\<lparr>logs := (if original = [] then ls
         else update_where (\<lambda>l. occurs_in original (json_text ft (lg_detail l))) (\<lambda>l. l\<lparr>lg_detail := ERASED_DETAIL\<rparr>) ls)\<rparr>)"

section \<open>The operation\<close>

text \<open>
  The part inside \<open>BEGIN IMMEDIATE ... COMMIT\<close>; then the checks before it.  \<open>busy\<close> says the
  connection already has a transaction, \<open>version\<close> is what \<open>require_compatible_schema\<close> reads, and
  \<open>ft\<close> prints the floating-point numbers in a log's detail.
\<close>

definition erase_in_transaction :: "(rat \<Rightarrow> string) \<Rightarrow> env \<Rightarrow> int \<Rightarrow> string \<Rightarrow> string \<Rightarrow> string \<Rightarrow> string
    \<Rightarrow> int list \<Rightarrow> json list \<Rightarrow> erasure_report dbtx" where
  "erase_in_transaction ft env i requested_by reason original erasure_id obs ms =
     (let at_time = now env in
      andThen (modify (\<lambda>d. fold (clone_shared_observation i erasure_id) obs d)) (\<lambda>_.
      andThen (modify (scrub_evidence i erasure_id at_time obs)) (\<lambda>_.
      andThen (update_facts (\<lambda>f. f_id f = i) (scrub_fact i at_time)) (\<lambda>_.
      andThen (gets (\<lambda>d. count_where (\<lambda>e. em_fact e = i) (embeddings d))) (\<lambda>n_embeddings.
      andThen (modify (drop_derived i erasure_id (tick env))) (\<lambda>_.
      andThen (update_queue (row_linked env ms) (scrub_row env)) (\<lambda>n_rows.
      andThen (invalidate_insights i at_time) (\<lambda>n_insights.
      andThen (leave_conflicts i at_time requested_by) (\<lambda>n_conflicts.
      andThen (modify (scrub_logs ft i obs original)) (\<lambda>_.
      andThen (modify (\<lambda>d. d\<lparr>erasures := erasures d @ [\<lparr>er_id = erasure_id, er_fact = i,
        er_requested_by = requested_by, er_reason = reason, er_erased_at = at_time, er_observations = length obs,
        er_embeddings = n_embeddings, er_queue_rows = n_rows\<rparr>]\<rparr>)) (\<lambda>_.
      andThen (gets foreign_keys_ok) (\<lambda>fks.
      andThen (require fks (ErasureError ''privacy erasure would violate foreign keys'')) (\<lambda>_.
      ret \<lparr>ex_id = erasure_id, ex_fact = i, ex_observations = length obs, ex_embeddings = n_embeddings,
           ex_queue_rows = n_rows, ex_insights = n_insights, ex_conflicts = n_conflicts\<rparr>)))))))))))))"

definition erase_fact :: "(rat \<Rightarrow> string) \<Rightarrow> env \<Rightarrow> bool \<Rightarrow> int \<Rightarrow> int \<Rightarrow> string \<Rightarrow> string \<Rightarrow> erasure_report dbtx" where
  "erase_fact ft env busy version i requested_by reason =
     andThen (require (\<not> busy) (ErasureError ''privacy erasure requires an idle connection'')) (\<lambda>_.
     andThen (require (0 < i) (ValueError ''fact_id must be a positive integer'')) (\<lambda>_.
     let requested_by = strip requested_by; reason = strip reason in
     andThen (require (requested_by \<noteq> [] \<and> reason \<noteq> []) (ValueError ''requested_by and reason must not be empty'')) (\<lambda>_.
     andThen (require (version = SUPPORTED_SCHEMA_VERSION) (ErasureError ''privacy erasure requires schema v1'')) (\<lambda>_.
     andThen (gets (find_fact i)) (\<lambda>row. case row of
       None \<Rightarrow> raise (ErasureError ''fact was not found'')
     | Some f \<Rightarrow>
         andThen (uuid4 env) (\<lambda>erasure_id.
         andThen (gets (fact_observations i)) (\<lambda>obs.
         andThen (gets (linked_metadata obs)) (\<lambda>ms.
         erase_in_transaction ft env i requested_by reason (f_content f) erasure_id obs ms))))))))"

end
