(* ===== verification/ErasureFacts.thy ===== *)
theory ErasureFacts
  imports Erasure QueueFacts
begin

text \<open>
  What an erasure leaves behind: nothing of the fact in any table the code scrubs, every other fact
  with the evidence it had, a referentially sound store; when it succeeds; and the conflict it
  settles without telling the survivor.
\<close>

section \<open>References through updates\<close>

lemma refers_iff: "refers ks (map h xs) \<longleftrightarrow> (\<forall>x \<in> set xs. \<forall>k. h x = Some k \<longrightarrow> k \<in> ks)"
  by (induction xs) (auto simp: refers_def split: option.splits)

lemma refers_update [simp]:
  "(\<And>x. p x \<Longrightarrow> h (g x) = h x) \<Longrightarrow> refers ks (map h (update_where p g xs)) = refers ks (map h xs)"
  by (induction xs) (auto simp: refers_def)

lemma refers_append [simp]: "refers ks (rs @ ss) \<longleftrightarrow> refers ks rs \<and> refers ks ss"
  by (simp add: refers_def)

lemma refers_one [simp]: "refers ks [Some k] \<longleftrightarrow> k \<in> ks"
  by (simp add: refers_def)

lemma refers_filter: "refers ks (map h xs) \<Longrightarrow> refers ks (map h (filter p xs))"
  by (auto simp: refers_iff)

lemma refers_cleared:
  "refers ks (map h xs) \<Longrightarrow> (\<And>x. p x \<Longrightarrow> h (g x) = None \<or> h (g x) = h x) \<Longrightarrow> refers ks (map h (update_where p g xs))"
  unfolding refers_iff by (metis in_update_where option.distinct(1))

lemma update_where_again:
  assumes "\<And>x. h (h x) = h x"
  shows "update_where q h (update_where p h xs) = update_where (\<lambda>x. p x \<or> q (if p x then h x else x)) h xs"
  using assms by (induction xs) auto

section \<open>Each step\<close>

text \<open>Fields the evidence steps leave alone.\<close>

definition same_core :: "db \<Rightarrow> db \<Rightarrow> bool" where
  "same_core d t \<longleftrightarrow> (\<exists>obs pv ls. t = d\<lparr>observations := obs, provenances := pv, logs := ls\<rparr>)"

lemma same_coreI: "same_core d (d\<lparr>observations := obs, provenances := pv, logs := ls\<rparr>)"
  unfolding same_core_def by blast

lemma same_core_refl: "same_core d d"
  unfolding same_core_def by (intro exI [of _ "observations d"] exI [of _ "provenances d"] exI [of _ "logs d"]) simp

lemma same_core_trans:
  assumes "same_core d t" "same_core t u"
  shows "same_core d u"
proof -
  from assms(1) obtain obs pv ls where t: "t = d\<lparr>observations := obs, provenances := pv, logs := ls\<rparr>"
    unfolding same_core_def by blast
  from assms(2) obtain obs' pv' ls' where "u = t\<lparr>observations := obs', provenances := pv', logs := ls'\<rparr>"
    unfolding same_core_def by blast
  with t have "u = d\<lparr>observations := obs', provenances := pv', logs := ls'\<rparr>" by simp
  then show ?thesis by (simp only: same_coreI)
qed

lemma same_core_fields:
  assumes "same_core d t"
  shows "facts t = facts d" "conflicts t = conflicts d" "members t = members d" "reviews t = reviews d" "clients t = clients d"
    "sessions t = sessions d" "resolutions t = resolutions d" "erasures t = erasures d" "entities t = entities d"
    "fact_entities t = fact_entities d" "jobs t = jobs d" "embeddings t = embeddings d" "queue t = queue d" "next_fact t = next_fact d"
  using assms unfolding same_core_def by auto

definition observations_ok :: "db \<Rightarrow> bool" where
  "observations_ok d \<longleftrightarrow> distinct (map ob_id (observations d))
     \<and> (\<forall>p \<in> set (provenances d). \<exists>ob \<in> set (observations d). ob_id ob = pv_observation p)"

text \<open>The evidence a fact rests on: relation, excerpt, and the observation but for its id and hash.\<close>

definition evidence :: "int \<Rightarrow> db \<Rightarrow> (string \<times> string option \<times> observation) set" where
  "evidence g d = {(pv_relation p, pv_excerpt p, ob\<lparr>ob_id := 0, ob_sha256 := []\<rparr>) |p ob.
     p \<in> set (provenances d) \<and> pv_fact p = g \<and> ob \<in> set (observations d) \<and> ob_id ob = pv_observation p}"

definition unshared :: "int \<Rightarrow> int \<Rightarrow> db \<Rightarrow> bool" where
  "unshared i oid d \<longleftrightarrow> (\<forall>p \<in> set (provenances d). pv_observation p = oid \<longrightarrow> pv_fact p = i)"

lemma next_observation_fresh: "ob \<in> set (observations d) \<Longrightarrow> ob_id ob < next_observation d"
proof -
  assume ob: "ob \<in> set (observations d)"
  then have "ob_id ob \<le> Max (set (map ob_id (observations d)))" by (intro Max_ge) auto
  with ob show ?thesis by (cases "observations d") (auto simp: next_observation_def)
qed

lemma clone_cases:
  assumes ok: "observations_ok d"
  obtains (same) "clone_shared_observation i e oid d = d" "unshared i oid d"
  | (copied) source where "source \<in> set (observations d)" "ob_id source = oid"
    "clone_shared_observation i e oid d = d\<lparr>
       observations := observations d @ [source\<lparr>ob_id := next_observation d, ob_sha256 := ''clone:'' @ e @ '':'' @ show_int oid\<rparr>],
       provenances := update_where (\<lambda>p. pv_observation p = oid \<and> pv_fact p \<noteq> i) (\<lambda>p. p\<lparr>pv_observation := next_observation d\<rparr>) (provenances d),
       logs := update_where (\<lambda>l. lg_observation l = Some oid \<and> lg_fact l \<noteq> Some i) (\<lambda>l. l\<lparr>lg_observation := Some (next_observation d)\<rparr>) (logs d)\<rparr>"
proof (cases "list_ex (\<lambda>p. pv_observation p = oid \<and> pv_fact p \<noteq> i) (provenances d)")
  case True
  then obtain p where "p \<in> set (provenances d)" "pv_observation p = oid" by (auto simp: list_ex_iff)
  with ok obtain ob where "ob \<in> set (observations d)" "ob_id ob = oid" unfolding observations_ok_def by blast
  then obtain source where "first_where (\<lambda>ob. ob_id ob = oid) (observations d) = Some source"
    by (cases "first_where (\<lambda>ob. ob_id ob = oid) (observations d)") (auto simp: first_where_None)
  with True show thesis
    by (intro copied [of source]) (auto simp: clone_shared_observation_def Let_def dest: first_where_Some)
next
  case False
  then show thesis by (intro same) (auto simp: clone_shared_observation_def unshared_def list_ex_iff)
qed

lemma clone_step:
  assumes ok: "observations_ok d" and g: "g \<noteq> i" and old: "\<exists>ob \<in> set (observations d). ob_id ob = oid"
  shows "same_core d (clone_shared_observation i e oid d) \<and> observations_ok (clone_shared_observation i e oid d)
    \<and> evidence g (clone_shared_observation i e oid d) = evidence g d \<and> unshared i oid (clone_shared_observation i e oid d)
    \<and> (\<forall>x. unshared i x d \<and> (\<exists>ob \<in> set (observations d). ob_id ob = x) \<longrightarrow> unshared i x (clone_shared_observation i e oid d))
    \<and> ob_id ` set (observations d) \<subseteq> ob_id ` set (observations (clone_shared_observation i e oid d))"
  using ok
proof (cases rule: clone_cases [where i = i and e = e and oid = oid])
  case same
  with ok show ?thesis by (simp add: same_core_refl)
next
  case (copied source)
  let ?n = "next_observation d"
  let ?new = "source\<lparr>ob_id := ?n, ob_sha256 := ''clone:'' @ e @ '':'' @ show_int oid\<rparr>"
  let ?t = "clone_shared_observation i e oid d"
  have n: "ob_id ob < ?n" if "ob \<in> set (observations d)" for ob using that by (rule next_observation_fresh)
  have obs: "observations ?t = observations d @ [?new]" and pv: "provenances ?t = update_where
      (\<lambda>p. pv_observation p = oid \<and> pv_fact p \<noteq> i) (\<lambda>p. p\<lparr>pv_observation := ?n\<rparr>) (provenances d)"
    unfolding copied(3) by simp_all
  have pn: "pv_observation p \<noteq> ?n" if "p \<in> set (provenances d)" for p
    using ok that n unfolding observations_ok_def by (metis order_less_irrefl)
  have oidn: "oid \<noteq> ?n" using copied(1,2) n by fastforce
  have uniq: "ob = source" if "ob \<in> set (observations d)" "ob_id ob = oid" for ob
    using ok that copied(1,2) by (auto simp: observations_ok_def distinct_map inj_on_def)
  have ok': "observations_ok ?t"
  proof -
    have "distinct (map ob_id (observations ?t))" using ok n unfolding obs observations_ok_def by fastforce
    moreover have "\<exists>ob \<in> set (observations ?t). ob_id ob = pv_observation p" if "p \<in> set (provenances ?t)" for p
    proof -
      from in_update_where [OF that [unfolded pv]] obtain q where q: "q \<in> set (provenances d)"
        "p = (if pv_observation q = oid \<and> pv_fact q \<noteq> i then q\<lparr>pv_observation := ?n\<rparr> else q)" by blast
      with ok show ?thesis unfolding obs observations_ok_def by (auto split: if_splits)
    qed
    ultimately show ?thesis by (simp add: observations_ok_def)
  qed
  have "evidence g ?t = evidence g d"
  proof (rule set_eqI)
    fix x
    have "x \<in> evidence g ?t" if "x \<in> evidence g d"
    proof -
      from that obtain p ob where p: "p \<in> set (provenances d)" "pv_fact p = g" "ob \<in> set (observations d)" "ob_id ob = pv_observation p"
        and x: "x = (pv_relation p, pv_excerpt p, ob\<lparr>ob_id := 0, ob_sha256 := []\<rparr>)" unfolding evidence_def by blast
      show ?thesis
      proof (cases "pv_observation p = oid")
        case True
        with p uniq have "ob = source" by simp
        moreover have "p\<lparr>pv_observation := ?n\<rparr> \<in> set (provenances ?t)"
          unfolding pv using True p g by (intro update_where_hit) auto
        ultimately show ?thesis unfolding evidence_def obs x using p(2)
          by (intro CollectI exI [of _ "p\<lparr>pv_observation := ?n\<rparr>"] exI [of _ ?new]) simp
      next
        case False
        then have "p \<in> set (provenances ?t)" unfolding pv using p by (intro update_where_miss) auto
        with p show ?thesis unfolding evidence_def obs x by auto
      qed
    qed
    moreover have "x \<in> evidence g d" if "x \<in> evidence g ?t"
    proof -
      from that obtain p ob where p: "p \<in> set (provenances ?t)" "pv_fact p = g" "ob \<in> set (observations ?t)" "ob_id ob = pv_observation p"
        and x: "x = (pv_relation p, pv_excerpt p, ob\<lparr>ob_id := 0, ob_sha256 := []\<rparr>)" unfolding evidence_def by blast
      from in_update_where [OF p(1) [unfolded pv]] obtain q where q: "q \<in> set (provenances d)"
        "p = (if pv_observation q = oid \<and> pv_fact q \<noteq> i then q\<lparr>pv_observation := ?n\<rparr> else q)" by blast
      show ?thesis
      proof (cases "pv_observation q = oid \<and> pv_fact q \<noteq> i")
        case True
        with q p(3,4) n have "ob = ?new" unfolding obs by fastforce
        with True q p(2) x copied(1,2) show ?thesis unfolding evidence_def by (intro CollectI exI [of _ q] exI [of _ source]) auto
      next
        case False
        with q p(3,4) pn [OF q(1)] have "ob \<in> set (observations d)" unfolding obs by auto
        moreover have "p = q" using q(2) by (simp only: if_not_P [OF False])
        ultimately show ?thesis unfolding evidence_def using q(1) p(2,4) x
          by (intro CollectI exI [of _ q] exI [of _ ob]) simp
      qed
    qed
    ultimately show "x \<in> evidence g ?t \<longleftrightarrow> x \<in> evidence g d" by blast
  qed
  moreover have "unshared i oid ?t" using oidn unfolding unshared_def pv by (auto dest!: in_update_where split: if_splits)
  moreover have "unshared i x ?t" if "unshared i x d" "ob \<in> set (observations d)" "ob_id ob = x" for x ob
    using that n [OF that(2)] unfolding unshared_def pv by (auto dest!: in_update_where split: if_splits)
  moreover have "same_core d ?t" unfolding copied(3) by (rule same_coreI)
  ultimately show ?thesis using ok' obs by auto
qed

lemma clones:
  assumes ok: "observations_ok d" and g: "g \<noteq> i" and old: "\<forall>x \<in> set xs. \<exists>ob \<in> set (observations d). ob_id ob = x"
  shows "same_core d (fold (clone_shared_observation i e) xs d) \<and> observations_ok (fold (clone_shared_observation i e) xs d)
    \<and> evidence g (fold (clone_shared_observation i e) xs d) = evidence g d
    \<and> (\<forall>x. (x \<in> set xs \<or> unshared i x d \<and> (\<exists>ob \<in> set (observations d). ob_id ob = x))
        \<longrightarrow> unshared i x (fold (clone_shared_observation i e) xs d))"
  using ok old
proof (induction xs arbitrary: d)
  case Nil
  then show ?case by (simp add: same_core_refl)
next
  case (Cons x xs)
  let ?c = "clone_shared_observation i e x d"
  from Cons.prems have x: "\<exists>ob \<in> set (observations d). ob_id ob = x" by simp
  note c = clone_step [OF Cons.prems(1) g x, of e]
  have sub: "\<exists>ob \<in> set (observations ?c). ob_id ob = y" if "\<exists>ob \<in> set (observations d). ob_id ob = y" for y
  proof -
    from that have "y \<in> ob_id ` set (observations d)" by blast
    moreover have "ob_id ` set (observations d) \<subseteq> ob_id ` set (observations ?c)" using c by simp
    ultimately have "y \<in> ob_id ` set (observations ?c)" by blast
    then show ?thesis by blast
  qed
  have "\<forall>y \<in> set xs. \<exists>ob \<in> set (observations ?c). ob_id ob = y"
  proof
    fix y assume "y \<in> set xs"
    then have "\<exists>ob \<in> set (observations d). ob_id ob = y" using Cons.prems(2) by simp
    then show "\<exists>ob \<in> set (observations ?c). ob_id ob = y" by (rule sub)
  qed
  note IH = Cons.IH [OF _ this]
  have x': "\<exists>ob \<in> set (observations ?c). ob_id ob = x" by (rule sub [OF x])
  from IH c have ih: "same_core ?c (fold (clone_shared_observation i e) xs ?c)"
    "observations_ok (fold (clone_shared_observation i e) xs ?c)"
    "evidence g (fold (clone_shared_observation i e) xs ?c) = evidence g d"
    "\<forall>y. (y \<in> set xs \<or> unshared i y ?c \<and> (\<exists>ob \<in> set (observations ?c). ob_id ob = y))
      \<longrightarrow> unshared i y (fold (clone_shared_observation i e) xs ?c)" by auto
  have "same_core d (fold (clone_shared_observation i e) xs ?c)" using c ih(1) by (blast intro: same_core_trans)
  moreover have "unshared i y (fold (clone_shared_observation i e) xs ?c)"
    if "y \<in> set (x # xs) \<or> unshared i y d \<and> (\<exists>ob \<in> set (observations d). ob_id ob = y)" for y
  proof -
    from that consider "y = x" | "y \<in> set xs" | "unshared i y d \<and> (\<exists>ob \<in> set (observations d). ob_id ob = y)" by auto
    then show ?thesis
    proof cases
      case 1
      with c x' ih(4) show ?thesis by blast
    next
      case 2
      with ih(4) show ?thesis by blast
    next
      case 3
      with c sub have "unshared i y ?c" "\<exists>ob \<in> set (observations ?c). ob_id ob = y" by blast+
      with ih(4) show ?thesis by blast
    qed
  qed
  ultimately show ?case using ih(2,3) by simp
qed

lemma foreign_observations: "foreign_keys_ok d \<Longrightarrow> distinct (map ob_id (observations d)) \<Longrightarrow> observations_ok d"
  by (fastforce simp: foreign_keys_ok_def other_fk_ok_def observations_ok_def refers_iff)

lemma clone_foreign_keys:
  assumes ok: "observations_ok d" and fk: "foreign_keys_ok d"
  shows "foreign_keys_ok (clone_shared_observation i e oid d)"
  using ok
proof (cases rule: clone_cases [where i = i and e = e and oid = oid])
  case (copied source)
  let ?t = "clone_shared_observation i e oid d"
  let ?n = "next_observation d"
  have ids: "set (map ob_id (observations ?t)) = insert ?n (set (map ob_id (observations d)))" unfolding copied(3) by simp
  have "(ob_client source, ob_session source) \<in> session_keys d"
    using fk copied(1) by (auto simp: foreign_keys_ok_def client_fk_ok_def refers_iff)
  then have "client_fk_ok ?t" using fk unfolding foreign_keys_ok_def client_fk_ok_def copied(3)
    by (simp add: session_keys_def)
  moreover have "fact_fk_ok ?t" using fk unfolding foreign_keys_ok_def fact_fk_ok_def copied(3)
    by (simp add: fact_ids_def)
  moreover have "refers (set (map ob_id (observations ?t))) (map (\<lambda>p. Some (pv_observation p)) (provenances ?t))"
    using fk unfolding foreign_keys_ok_def other_fk_ok_def refers_iff ids unfolding copied(3) by (auto dest!: in_update_where)
  moreover have "refers (set (map ob_id (observations ?t))) (map lg_observation (logs ?t))"
    using fk unfolding foreign_keys_ok_def other_fk_ok_def refers_iff ids unfolding copied(3)
    by (auto dest!: in_update_where split: if_splits)
  ultimately show ?thesis using fk unfolding foreign_keys_ok_def other_fk_ok_def copied(3) by simp
qed (use fk in simp)

lemma clones_foreign_keys:
  assumes "observations_ok d" "foreign_keys_ok d" "\<forall>x \<in> set xs. \<exists>ob \<in> set (observations d). ob_id ob = x"
  shows "foreign_keys_ok (fold (clone_shared_observation i e) xs d)"
  using assms
proof (induction xs arbitrary: d)
  case (Cons x xs)
  have "i + 1 \<noteq> i" by simp
  from clone_step [OF Cons.prems(1) this, of x e] Cons.prems(3)
  have c: "observations_ok (clone_shared_observation i e x d)"
    "ob_id ` set (observations d) \<subseteq> ob_id ` set (observations (clone_shared_observation i e x d))" by auto
  have "\<forall>y \<in> set xs. \<exists>ob \<in> set (observations (clone_shared_observation i e x d)). ob_id ob = y"
  proof
    fix y assume "y \<in> set xs"
    with Cons.prems(3) have "y \<in> ob_id ` set (observations d)" by auto
    then have "y \<in> ob_id ` set (observations (clone_shared_observation i e x d))" by (rule subsetD [OF c(2)])
    then show "\<exists>ob \<in> set (observations (clone_shared_observation i e x d)). ob_id ob = y" by (auto simp del: map_update_where)
  qed
  with Cons.IH [OF c(1) clone_foreign_keys [OF Cons.prems(1,2)]] show ?case by simp
qed simp

text \<open>Scrubbing an observation that no other fact uses leaves their evidence as it is.\<close>

lemma scrub_evidence_others:
  assumes "\<forall>x \<in> set obs. unshared i x d" "g \<noteq> i"
  shows "evidence g (scrub_evidence i e at_time obs d) = evidence g d"
proof -
  have pv: "p \<in> set (provenances (scrub_evidence i e at_time obs d)) \<longleftrightarrow> p \<in> set (provenances d)" if "pv_fact p = g" for p
    using that assms(2) by (auto simp: scrub_evidence_def set_update_where image_iff split: if_splits)
  have ob: "ob \<in> set (observations (scrub_evidence i e at_time obs d)) \<longleftrightarrow> ob \<in> set (observations d)" if "ob_id ob \<notin> set obs" for ob
    using that by (auto simp: scrub_evidence_def scrub_observation_def set_update_where image_iff split: if_splits)
  have clear: "pv_observation p \<notin> set obs" if "p \<in> set (provenances d)" "pv_fact p = g" for p
    using that assms by (auto simp: unshared_def)
  show ?thesis unfolding evidence_def using pv ob clear by (intro Collect_cong) (metis (no_types, lifting))
qed

lemma scrub_evidence_foreign_keys: "foreign_keys_ok d \<Longrightarrow> foreign_keys_ok (scrub_evidence i e at_time obs d)"
proof -
  have [simp]: "map ob_id (update_where p (scrub_observation e at_time) os) = map ob_id os" for p os
    by (rule map_update_where) (simp add: scrub_observation_def)
  show "foreign_keys_ok d \<Longrightarrow> foreign_keys_ok (scrub_evidence i e at_time obs d)"
    by (simp add: foreign_keys_ok_def client_fk_ok_def fact_fk_ok_def other_fk_ok_def scrub_evidence_def
        fact_ids_def session_keys_def scrub_observation_def)
qed

section \<open>Insights and conflicts\<close>

definition cites :: "int \<Rightarrow> fact \<Rightarrow> bool" where
  "cites i f \<longleftrightarrow> (case cited_facts (f_tags f) of Inl e \<Rightarrow> False | Inr ids \<Rightarrow> i \<in> set ids)"

definition live_insight :: "fact \<Rightarrow> bool" where
  "live_insight f \<longleftrightarrow> f_category f = ''insight'' \<and> f_invalid_at f = None"

definition invalidate :: "string \<Rightarrow> fact \<Rightarrow> fact" where
  "invalidate at_time f = f\<lparr>f_invalid_at := Some at_time\<rparr>"

lemma slots_unique_invalidate: "slots_unique fs \<Longrightarrow> slots_unique (update_where p (invalidate at_time) fs)"
  by (rule slots_unique_update) (auto simp: in_slot_index_def is_state_def active_def current_def invalidate_def)

lemma slots_unique_scrub: "slots_unique fs \<Longrightarrow> slots_unique (update_where p (scrub_fact i at_time) fs)"
  by (rule slots_unique_update) (auto simp: in_slot_index_def is_state_def scrub_fact_def)

lemma invalidate_insight_steps:
  "cited_facts (f_tags f) = Inl e \<Longrightarrow> invalidate_insight i at_time n f d = Inl e"
  "cited_facts (f_tags f) = Inr ids \<Longrightarrow> i \<notin> set ids \<Longrightarrow> invalidate_insight i at_time n f d = Inr (n, d)"
  "cited_facts (f_tags f) = Inr ids \<Longrightarrow> i \<in> set ids \<Longrightarrow> slots_unique (facts d) \<Longrightarrow> invalidate_insight i at_time n f d
    = Inr (Suc n, d\<lparr>facts := update_where (\<lambda>x. f_id x = f_id f) (invalidate at_time) (facts d)\<rparr>)"
proof -
  have inv: "(\<lambda>x. x\<lparr>f_invalid_at := Some at_time\<rparr>) = invalidate at_time" by (simp add: invalidate_def fun_eq_iff)
  show "cited_facts (f_tags f) = Inl e \<Longrightarrow> invalidate_insight i at_time n f d = Inl e"
    "cited_facts (f_tags f) = Inr ids \<Longrightarrow> i \<notin> set ids \<Longrightarrow> invalidate_insight i at_time n f d = Inr (n, d)"
    by (simp_all add: invalidate_insight_def)
  show "cited_facts (f_tags f) = Inr ids \<Longrightarrow> i \<in> set ids \<Longrightarrow> slots_unique (facts d) \<Longrightarrow> invalidate_insight i at_time n f d
      = Inr (Suc n, d\<lparr>facts := update_where (\<lambda>x. f_id x = f_id f) (invalidate at_time) (facts d)\<rparr>)"
    using slots_unique_invalidate [of "facts d"] by (simp add: invalidate_insight_def andThen_def update_facts_def Let_def inv)
qed

lemma invalidate_fold:
  assumes "slots_unique (facts d)"
  shows "(if \<forall>f \<in> set fs. is_ok (cited_facts (f_tags f))
      then \<exists>m. foldTx (invalidate_insight i at_time) n fs d
        = Inr (m, d\<lparr>facts := update_where (\<lambda>x. f_id x \<in> f_id ` {f \<in> set fs. cites i f}) (invalidate at_time) (facts d)\<rparr>)
      else \<not> is_ok (foldTx (invalidate_insight i at_time) n fs d))"
  using assms
proof (induction fs arbitrary: n d)
  case Nil
  then show ?case by (simp add: update_where_none)
next
  case (Cons f fs)
  show ?case
  proof (cases "cited_facts (f_tags f)")
    case (Inl e)
    then show ?thesis by (simp add: invalidate_insight_steps andThen_eval)
  next
    case (Inr ids)
    show ?thesis
    proof (cases "i \<in> set ids")
      case False
      have "{g \<in> set (f # fs). cites i g} = {g \<in> set fs. cites i g}" using False Inr by (auto simp: cites_def)
      moreover have "foldTx (invalidate_insight i at_time) n (f # fs) d = foldTx (invalidate_insight i at_time) n fs d"
        by (simp add: andThen_eval(1) [OF invalidate_insight_steps(2) [OF Inr False]])
      ultimately show ?thesis using Inr Cons.IH [OF Cons.prems, of n] by (simp only: list.set ball_simps is_ok.simps simp_thms)
    next
      case True
      let ?d = "d\<lparr>facts := update_where (\<lambda>x. f_id x = f_id f) (invalidate at_time) (facts d)\<rparr>"
      have u: "slots_unique (facts ?d)" using slots_unique_invalidate [OF Cons.prems] by simp
      then have run: "foldTx (invalidate_insight i at_time) n (f # fs) d = foldTx (invalidate_insight i at_time) (Suc n) fs ?d"
        by (simp add: andThen_eval(1) [where m = "invalidate_insight i at_time n f", OF invalidate_insight_steps(3) [OF Inr True Cons.prems]])
      have ids: "f_id ` {g \<in> set (f # fs). cites i g} = insert (f_id f) (f_id ` {g \<in> set fs. cites i g})"
        using True Inr by (auto simp: cites_def)
      have twice: "?d\<lparr>facts := update_where (\<lambda>x. f_id x \<in> S) (invalidate at_time) (facts ?d)\<rparr>
          = d\<lparr>facts := update_where (\<lambda>x. f_id x \<in> insert (f_id f) S) (invalidate at_time) (facts d)\<rparr>" for S
        by (simp add: update_where_again invalidate_def) (simp add: update_where_def)
      have "is_ok (cited_facts (f_tags f))" using Inr by simp
      then show ?thesis using Cons.IH [OF u, of "Suc n"]
        unfolding run ids twice by (simp only: list.set ball_simps simp_thms)
    qed
  qed
qed

lemma invalidate_insights_runs:
  assumes ids: "distinct (map f_id (facts d))" and u: "slots_unique (facts d)"
  shows "(if \<forall>f \<in> set (facts d). live_insight f \<longrightarrow> is_ok (cited_facts (f_tags f))
      then \<exists>m. invalidate_insights i at_time d
        = Inr (m, d\<lparr>facts := update_where (\<lambda>f. live_insight f \<and> cites i f) (invalidate at_time) (facts d)\<rparr>)
      else \<not> is_ok (invalidate_insights i at_time d))"
proof -
  let ?fs = "filter live_insight (facts d)"
  have run: "invalidate_insights i at_time d = foldTx (invalidate_insight i at_time) 0 ?fs d"
    by (simp add: invalidate_insights_def andThen_def live_insight_def [abs_def])
  have eq: "update_where (\<lambda>x. f_id x \<in> f_id ` {f \<in> set ?fs. cites i f}) (invalidate at_time) (facts d)
      = update_where (\<lambda>f. live_insight f \<and> cites i f) (invalidate at_time) (facts d)"
    unfolding update_where_def using ids by (intro map_cong) (auto simp: distinct_map inj_on_def)
  have all: "(\<forall>f \<in> set ?fs. is_ok (cited_facts (f_tags f)))
      \<longleftrightarrow> (\<forall>f \<in> set (facts d). live_insight f \<longrightarrow> is_ok (cited_facts (f_tags f)))" by auto
  from invalidate_fold [OF u, of ?fs i at_time 0] show ?thesis unfolding run eq all .
qed

lemma erasure_resolves_twice: "erasure_resolves at_time who (erasure_resolves at_time who c) = erasure_resolves at_time who c"
  by (simp add: erasure_resolves_def)

lemma leave_fold:
  "\<exists>m p. foldTx (leave_conflict at_time who) n cids d = Inr (m, d\<lparr>conflicts := update_where p (erasure_resolves at_time who) (conflicts d)\<rparr>)
    \<and> (\<forall>c. p c \<longrightarrow> cf_id c \<in> set cids \<and> cf_resolved_at c = None)"
proof (induction cids arbitrary: n d)
  case Nil
  show ?case by (intro exI [of _ n] exI [of _ "\<lambda>_. False"]) (simp add: update_where_none)
next
  case (Cons cid cids)
  let ?h = "erasure_resolves at_time who"
  show ?case
  proof (cases "length (map snd (filter (\<lambda>m. fst m = cid) (members d))) \<le> 1")
    case False
    with Cons.IH [of n d] show ?thesis by (auto simp: leave_conflict_def andThen_def)
  next
    case True
    let ?q = "\<lambda>c. cf_id c = cid \<and> cf_resolved_at c = None"
    let ?d = "d\<lparr>conflicts := update_where ?q ?h (conflicts d)\<rparr>"
    from Cons.IH [of "Suc n" ?d] obtain m p where p: "foldTx (leave_conflict at_time who) (Suc n) cids ?d
      = Inr (m, ?d\<lparr>conflicts := update_where p ?h (conflicts ?d)\<rparr>)" "\<forall>c. p c \<longrightarrow> cf_id c \<in> set cids \<and> cf_resolved_at c = None" by blast
    have "foldTx (leave_conflict at_time who) n (cid # cids) d
        = Inr (m, d\<lparr>conflicts := update_where (\<lambda>c. ?q c \<or> p (if ?q c then ?h c else c)) ?h (conflicts d)\<rparr>)"
      using True p(1) by (simp add: leave_conflict_def andThen_def update_where_again erasure_resolves_twice)
    moreover have "\<not> p (?h c)" for c using p(2) by (auto simp: erasure_resolves_def)
    ultimately show ?thesis using p(2)
      by (intro exI [of _ m] exI [of _ "\<lambda>c. ?q c \<or> p (if ?q c then ?h c else c)"]) auto
  qed
qed

lemma leave_conflicts_runs:
  "\<exists>m p. leave_conflicts i at_time who d = Inr (m, d\<lparr>members := filter (\<lambda>m. snd m \<noteq> i) (members d),
      conflicts := update_where p (erasure_resolves at_time who) (conflicts d)\<rparr>)
    \<and> (\<forall>c. p c \<longrightarrow> (cf_id c, i) \<in> set (members d) \<and> cf_resolved_at c = None)"
proof -
  let ?d = "d\<lparr>members := filter (\<lambda>m. snd m \<noteq> i) (members d)\<rparr>"
  from leave_fold [of at_time who 0 "map fst (filter (\<lambda>m. snd m = i) (members d))" ?d] obtain m p where
    p: "foldTx (leave_conflict at_time who) 0 (map fst (filter (\<lambda>m. snd m = i) (members d))) ?d
      = Inr (m, ?d\<lparr>conflicts := update_where p (erasure_resolves at_time who) (conflicts ?d)\<rparr>)"
    "\<forall>c. p c \<longrightarrow> cf_id c \<in> set (map fst (filter (\<lambda>m. snd m = i) (members d))) \<and> cf_resolved_at c = None" by blast
  from p show ?thesis
    by (intro exI [of _ m] exI [of _ p]) (auto simp: leave_conflicts_def andThen_def)
qed

section \<open>The whole operation\<close>

text \<open>What the table of facts looks like after the erasure of one of them.\<close>

definition after_erasure :: "int \<Rightarrow> string \<Rightarrow> fact \<Rightarrow> fact" where
  "after_erasure i at_time f =
     (if f_id f = i then scrub_fact i at_time f
      else if live_insight f \<and> cites i f then invalidate at_time f else f)"

definition erasure_start :: "env \<Rightarrow> db \<Rightarrow> db" where
  "erasure_start env d = d\<lparr>uuid_ctr := Suc (uuid_ctr d)\<rparr>"

definition erasure_evidence :: "env \<Rightarrow> int \<Rightarrow> db \<Rightarrow> db" where
  "erasure_evidence env i d = scrub_evidence i (uuid env (uuid_ctr d)) (now env) (fact_observations i d)
     (fold (clone_shared_observation i (uuid env (uuid_ctr d))) (fact_observations i d) (erasure_start env d))"

lemma erasure_fields [simp]:
  "facts (erasure_start env d) = facts d" "observations (erasure_start env d) = observations d"
  "provenances (erasure_start env d) = provenances d" "logs (erasure_start env d) = logs d" "queue (erasure_start env d) = queue d"
  "fact_observations i (erasure_start env d) = fact_observations i d" "evidence g (erasure_start env d) = evidence g d"
  "linked_metadata obs (erasure_start env d) = linked_metadata obs d" "unshared i x (erasure_start env d) = unshared i x d"
  "embeddings (erasure_start env d) = embeddings d" "jobs (erasure_start env d) = jobs d" "members (erasure_start env d) = members d"
  "conflicts (erasure_start env d) = conflicts d" "fact_entities (erasure_start env d) = fact_entities d"
  "clients (erasure_start env d) = clients d" "sessions (erasure_start env d) = sessions d" "reviews (erasure_start env d) = reviews d"
  "resolutions (erasure_start env d) = resolutions d" "entities (erasure_start env d) = entities d"
  "erasures (erasure_start env d) = erasures d"
  "observations_ok (erasure_start env d) = observations_ok d" "foreign_keys_ok (erasure_start env d) = foreign_keys_ok d"
  by (simp_all add: erasure_start_def fact_observations_def evidence_def linked_metadata_def unshared_def observations_ok_def
      foreign_keys_ok_def client_fk_ok_def fact_fk_ok_def other_fk_ok_def fact_ids_def session_keys_def)

lemma fact_observations_exist:
  "observations_ok d \<Longrightarrow> \<forall>x \<in> set (fact_observations i d). \<exists>ob \<in> set (observations d). ob_id ob = x"
  by (auto simp: observations_ok_def fact_observations_def)

lemma erasure_evidence_core:
  assumes "observations_ok d"
  shows "same_core (erasure_start env d) (erasure_evidence env i d)"
proof -
  have "i + 1 \<noteq> i" by simp
  from clones [OF _ this, of "erasure_start env d" "fact_observations i d" "uuid env (uuid_ctr d)"] fact_observations_exist [OF assms] assms
  have "same_core (erasure_start env d) (fold (clone_shared_observation i (uuid env (uuid_ctr d))) (fact_observations i d) (erasure_start env d))"
    by simp
  moreover have "same_core x (scrub_evidence i e at_time obs x)" for x e at_time obs
    unfolding scrub_evidence_def same_core_def
    by (intro exI [of _ "update_where (\<lambda>ob. ob_id ob \<in> set obs) (scrub_observation e at_time) (observations x)"]
        exI [of _ "update_where (\<lambda>p. pv_fact p = i) (\<lambda>p. p\<lparr>pv_excerpt := None\<rparr>) (provenances x)"] exI [of _ "logs x"]) simp
  ultimately show ?thesis unfolding erasure_evidence_def by (blast intro: same_core_trans)
qed

lemma erasure_evidence_others:
  assumes "observations_ok d" "g \<noteq> i"
  shows "evidence g (erasure_evidence env i d) = evidence g d"
proof -
  let ?c = "fold (clone_shared_observation i (uuid env (uuid_ctr d))) (fact_observations i d) (erasure_start env d)"
  from clones [OF _ assms(2), of "erasure_start env d" "fact_observations i d" "uuid env (uuid_ctr d)"] fact_observations_exist [OF assms(1)] assms(1)
  have "evidence g ?c = evidence g d" "\<forall>x \<in> set (fact_observations i d). unshared i x ?c" by auto
  then show ?thesis unfolding erasure_evidence_def using scrub_evidence_others [OF _ assms(2)] by simp
qed

lemma scrub_evidence_own:
  assumes p: "p \<in> set (provenances (scrub_evidence i e at_time obs d))" "pv_fact p = i"
    and own: "\<forall>p \<in> set (provenances d). pv_fact p = i \<longrightarrow> pv_observation p \<in> set obs"
  shows "pv_excerpt p = None \<and> (\<forall>ob \<in> set (observations (scrub_evidence i e at_time obs d)). ob_id ob = pv_observation p
    \<longrightarrow> ob_content ob = ERASED_TEXT \<and> ob_source_uri ob = None \<and> ob_asserted_by ob = None \<and> ob_metadata ob = JObj [])"
proof -
  have id: "ob_id (scrub_observation e at_time ob) = ob_id ob" for ob by (simp add: scrub_observation_def)
  from p(1) have "p \<in> set (update_where (\<lambda>p. pv_fact p = i) (\<lambda>p. p\<lparr>pv_excerpt := None\<rparr>) (provenances d))"
    by (simp add: scrub_evidence_def)
  from in_update_where [OF this] obtain q where q: "q \<in> set (provenances d)"
    "p = (if pv_fact q = i then q\<lparr>pv_excerpt := None\<rparr> else q)" by blast
  with p(2) own have o: "pv_excerpt p = None" "pv_observation p \<in> set obs" by (auto split: if_splits)
  have "ob_content ob = ERASED_TEXT \<and> ob_source_uri ob = None \<and> ob_asserted_by ob = None \<and> ob_metadata ob = JObj []"
    if ob: "ob \<in> set (observations (scrub_evidence i e at_time obs d))" "ob_id ob = pv_observation p" for ob
  proof -
    from ob(1) have "ob \<in> set (update_where (\<lambda>ob. ob_id ob \<in> set obs) (scrub_observation e at_time) (observations d))"
      by (simp add: scrub_evidence_def)
    from in_update_where [OF this] obtain ob0 where "ob = (if ob_id ob0 \<in> set obs then scrub_observation e at_time ob0 else ob0)" by blast
    with ob(2) o(2) id show ?thesis by (auto simp: scrub_observation_def split: if_splits)
  qed
  with o(1) show ?thesis by blast
qed

text \<open>Cloning moves no row of the erased fact.\<close>

lemma clone_own:
  assumes "p \<in> set (provenances (clone_shared_observation i e oid d))" "pv_fact p = i"
  shows "p \<in> set (provenances d)"
  using assms
  by (auto simp: clone_shared_observation_def Let_def dest!: in_update_where split: if_splits option.splits)

lemma clones_own: "p \<in> set (provenances (fold (clone_shared_observation i e) xs d)) \<Longrightarrow> pv_fact p = i \<Longrightarrow> p \<in> set (provenances d)"
  by (induction xs arbitrary: d) (auto dest: clone_own)

lemma erasure_evidence_own:
  assumes "p \<in> set (provenances (erasure_evidence env i d))" "pv_fact p = i"
  shows "pv_excerpt p = None \<and> (\<forall>ob \<in> set (observations (erasure_evidence env i d)). ob_id ob = pv_observation p
    \<longrightarrow> ob_content ob = ERASED_TEXT \<and> ob_source_uri ob = None \<and> ob_asserted_by ob = None \<and> ob_metadata ob = JObj [])"
  using assms unfolding erasure_evidence_def
  by (rule scrub_evidence_own) (auto dest: clones_own simp: fact_observations_def)

text \<open>The store an erasure commits, table by table.\<close>

definition erased_store :: "(rat \<Rightarrow> string) \<Rightarrow> env \<Rightarrow> int \<Rightarrow> fact \<Rightarrow> string \<Rightarrow> db \<Rightarrow> db \<Rightarrow> bool" where
  "erased_store ft env i f who d t \<longleftrightarrow>
     (let v = erasure_evidence env i d; obs = fact_observations i d in
      facts t = map (after_erasure i (now env)) (facts d) \<and> observations t = observations v \<and> provenances t = provenances v
      \<and> logs t = logs (scrub_logs ft i obs (f_content f) v)
      \<and> queue t = update_where (row_linked env (linked_metadata obs d)) (scrub_row env) (queue d)
      \<and> embeddings t = filter (\<lambda>e. em_fact e \<noteq> i) (embeddings d) \<and> fact_entities t = filter (\<lambda>e. fst e \<noteq> i) (fact_entities d)
      \<and> jobs t = jobs (drop_derived i (uuid env (uuid_ctr d)) (tick env) d)
      \<and> members t = filter (\<lambda>m. snd m \<noteq> i) (members d)
      \<and> (\<exists>p. conflicts t = update_where p (erasure_resolves (now env) who) (conflicts d)
          \<and> (\<forall>c. p c \<longrightarrow> (cf_id c, i) \<in> set (members d) \<and> cf_resolved_at c = None))
      \<and> (\<exists>er. erasures t = erasures d @ [er] \<and> er_fact er = i)
      \<and> clients t = clients d \<and> sessions t = sessions d \<and> resolutions t = resolutions d \<and> entities t = entities d
      \<and> reviews t = reviews d)"

definition insights_readable :: "int \<Rightarrow> db \<Rightarrow> bool" where
  "insights_readable i d \<longleftrightarrow> (\<forall>g \<in> set (facts d). f_id g \<noteq> i \<and> live_insight g \<longrightarrow> is_ok (cited_facts (f_tags g)))"

lemma scrubbed_fact [simp]: "f_id (scrub_fact i at_time f) = f_id f" "\<not> live_insight (scrub_fact i at_time f)"
  by (auto simp: scrub_fact_def live_insight_def split: option.splits)

lemma facts_after_erasure:
  "update_where (\<lambda>f. live_insight f \<and> cites i f) (invalidate at_time) (update_where (\<lambda>f. f_id f = i) (scrub_fact i at_time) fs)
    = map (after_erasure i at_time) fs"
  by (induction fs) (auto simp: after_erasure_def)

lemma readable_after_scrub:
  "(\<forall>f \<in> set (update_where (\<lambda>f. f_id f = i) (scrub_fact i at_time) (facts d)). live_insight f \<longrightarrow> is_ok (cited_facts (f_tags f)))
    \<longleftrightarrow> insights_readable i d"
  unfolding insights_readable_def by (auto simp: set_update_where)

lemma erase_in_transaction_runs:
  fixes d :: db and i :: int and env :: env
  defines "obs \<equiv> fact_observations i d" and "e \<equiv> uuid env (uuid_ctr d)"
  assumes ok: "observations_ok d" and ids: "ids_ok d" and slots: "slots_unique (facts d)"
    and rows: "queue_unique (update_where (row_linked env ms) (scrub_row env) (queue d))" and ms: "ms = linked_metadata obs d"
  shows "if insights_readable i d
    then \<exists>rep t. erase_in_transaction ft env i who why (f_content f) e obs ms (erasure_start env d)
        = (if foreign_keys_ok t then Inr (rep, t) else Inl (ErasureError ''privacy erasure would violate foreign keys''))
        \<and> erased_store ft env i f who d t
    else \<not> is_ok (erase_in_transaction ft env i who why (f_content f) e obs ms (erasure_start env d))"
proof -
  let ?at = "now env"
  let ?v = "erasure_evidence env i d"
  let ?fs = "update_where (\<lambda>f. f_id f = i) (scrub_fact i ?at) (facts d)"
  let ?d4 = "drop_derived i e (tick env) (?v\<lparr>facts := ?fs\<rparr>)"
  let ?d5 = "?d4\<lparr>queue := update_where (row_linked env ms) (scrub_row env) (queue d)\<rparr>"
  note core = same_core_fields [OF erasure_evidence_core [OF ok, of env i]]
  have v: "scrub_evidence i e ?at obs (fold (clone_shared_observation i e) obs (erasure_start env d)) = ?v"
    by (simp add: erasure_evidence_def obs_def e_def)
  have f3: "update_facts (\<lambda>f. f_id f = i) (scrub_fact i ?at) ?v = Inr (count_where (\<lambda>f. f_id f = i) (facts d), ?v\<lparr>facts := ?fs\<rparr>)"
    using slots_unique_scrub [OF slots] core(1) by (simp add: update_facts_def Let_def)
  have q5: "update_queue (row_linked env ms) (scrub_row env) ?d4 = Inr (count_where (row_linked env ms) (queue d), ?d5)"
    using rows core(13) by (simp add: update_queue_def Let_def drop_derived_def)
  have facts5: "facts ?d5 = ?fs" by (simp add: drop_derived_def)
  have "map f_id ?fs = map f_id (facts d)" by (intro map_update_where) simp
  then have dist: "distinct (map f_id (facts ?d5))" using ids unfolding facts5 ids_ok_def by simp
  have u5: "slots_unique (facts ?d5)" unfolding facts5 by (rule slots_unique_scrub [OF slots])
  note ins = invalidate_insights_runs [OF dist u5, of i ?at, unfolded facts5 readable_after_scrub facts_after_erasure]
  have start: "erase_in_transaction ft env i who why (f_content f) e obs ms (erasure_start env d)
      = andThen (invalidate_insights i ?at) (\<lambda>n_insights.
        andThen (leave_conflicts i ?at who) (\<lambda>n_conflicts.
        andThen (modify (scrub_logs ft i obs (f_content f))) (\<lambda>_.
        andThen (modify (\<lambda>d'. d'\<lparr>erasures := erasures d' @ [\<lparr>er_id = e, er_fact = i,
          er_requested_by = who, er_reason = why, er_erased_at = ?at, er_observations = length obs,
          er_embeddings = count_where (\<lambda>e. em_fact e = i) (embeddings d), er_queue_rows = count_where (row_linked env ms) (queue d)\<rparr>]\<rparr>)) (\<lambda>_.
        andThen (gets foreign_keys_ok) (\<lambda>fks.
        andThen (require fks (ErasureError ''privacy erasure would violate foreign keys'')) (\<lambda>_.
        ret \<lparr>ex_id = e, ex_fact = i, ex_observations = length obs, ex_embeddings = count_where (\<lambda>e. em_fact e = i) (embeddings d),
             ex_queue_rows = count_where (row_linked env ms) (queue d), ex_insights = n_insights, ex_conflicts = n_conflicts\<rparr>)))))) ?d5"
    using core(12) by (simp add: erase_in_transaction_def Let_def andThen_def v f3 q5 cong: sum.case_cong prod.case_cong)
  show ?thesis
  proof (cases "insights_readable i d")
    case False
    with ins have "\<not> is_ok (invalidate_insights i ?at ?d5)" by simp
    with False show ?thesis unfolding start by (auto simp: andThen_def is_ok_iff split: sum.splits)
  next
    case True
    with ins obtain m where i6: "invalidate_insights i ?at ?d5 = Inr (m, ?d5\<lparr>facts := map (after_erasure i ?at) (facts d)\<rparr>)" by auto
    define d6 where "d6 = ?d5\<lparr>facts := map (after_erasure i ?at) (facts d)\<rparr>"
    from leave_conflicts_runs [of i ?at who d6] obtain k p d7 where l7: "leave_conflicts i ?at who d6 = Inr (k, d7)"
      and d7: "d7 = d6\<lparr>members := filter (\<lambda>m. snd m \<noteq> i) (members d6), conflicts := update_where p (erasure_resolves ?at who) (conflicts d6)\<rparr>"
      and p: "\<forall>c. p c \<longrightarrow> (cf_id c, i) \<in> set (members d6) \<and> cf_resolved_at c = None" by blast
    let ?er = "\<lparr>er_id = e, er_fact = i, er_requested_by = who, er_reason = why, er_erased_at = ?at, er_observations = length obs,
          er_embeddings = count_where (\<lambda>e. em_fact e = i) (embeddings d), er_queue_rows = count_where (row_linked env ms) (queue d)\<rparr>"
    define t where "t = (scrub_logs ft i obs (f_content f) d7)\<lparr>erasures := erasures (scrub_logs ft i obs (f_content f) d7) @ [?er]\<rparr>"
    have "erased_store ft env i f who d t"
      using p core ms unfolding erased_store_def Let_def t_def d7 d6_def
      by (auto simp: scrub_logs_def Let_def drop_derived_def obs_def e_def)
    moreover obtain rep where "erase_in_transaction ft env i who why (f_content f) e obs ms (erasure_start env d)
        = (if foreign_keys_ok t then Inr (rep, t) else Inl (ErasureError ''privacy erasure would violate foreign keys''))"
      unfolding start andThen_def i6 [folded d6_def]
      by (cases "foreign_keys_ok t") (auto simp: l7 require_apply simp flip: t_def)
    ultimately show ?thesis using True by auto
  qed
qed

lemma after_erasure_fields:
  "f_id (after_erasure i at_time f) = f_id f" "f_superseded_by (after_erasure i at_time f) = f_superseded_by f"
  "f_object_entity (after_erasure i at_time f) = None \<or> f_object_entity (after_erasure i at_time f) = f_object_entity f"
  by (simp_all add: after_erasure_def scrub_fact_def invalidate_def)

lemma scrub_logs_map:
  assumes "\<And>l. h (l\<lparr>lg_detail := ERASED_DETAIL\<rparr>) = h l"
  shows "map h (logs (scrub_logs ft i obs original d)) = map h (logs d)"
  using assms by (simp add: scrub_logs_def Let_def map_update_where)

lemma erased_foreign_keys:
  assumes fk: "foreign_keys_ok d" and obs: "distinct (map ob_id (observations d))" and st: "erased_store ft env i f who d t"
    and found: "find_fact i d = Some f"
  shows "foreign_keys_ok t"
proof -
  let ?v = "erasure_evidence env i d"
  have ok: "observations_ok d" by (rule foreign_observations [OF fk obs])
  have "foreign_keys_ok ?v" unfolding erasure_evidence_def
    by (intro scrub_evidence_foreign_keys clones_foreign_keys) (use ok fk fact_observations_exist [OF ok] in simp_all)
  then have v: "client_fk_ok ?v" "fact_fk_ok ?v" "other_fk_ok ?v" by (simp_all add: foreign_keys_ok_def)
  note core = same_core_fields [OF erasure_evidence_core [OF ok, of env i], simplified]
  from st obtain p er where t: "facts t = map (after_erasure i (now env)) (facts d)" "observations t = observations ?v"
    "provenances t = provenances ?v" "logs t = logs (scrub_logs ft i (fact_observations i d) (f_content f) ?v)"
    "embeddings t = filter (\<lambda>e. em_fact e \<noteq> i) (embeddings d)" "fact_entities t = filter (\<lambda>e. fst e \<noteq> i) (fact_entities d)"
    "jobs t = jobs (drop_derived i (uuid env (uuid_ctr d)) (tick env) d)" "members t = filter (\<lambda>m. snd m \<noteq> i) (members d)"
    "conflicts t = update_where p (erasure_resolves (now env) who) (conflicts d)" "erasures t = erasures d @ [er]" "er_fact er = i"
    "clients t = clients d" "sessions t = sessions d" "resolutions t = resolutions d" "entities t = entities d"
    unfolding erased_store_def Let_def by blast
  have ids: "fact_ids t = fact_ids d" by (simp add: fact_ids_def t(1) after_erasure_fields image_image)
  have i: "i \<in> fact_ids d" using find_fact_Some [OF found] by (auto simp: fact_ids_def)
  have vids: "fact_ids ?v = fact_ids d" "session_keys ?v = session_keys t" by (simp_all add: fact_ids_def session_keys_def core t)
  have logs: "map lg_fact (logs t) = map lg_fact (logs ?v)" "map lg_existing (logs t) = map lg_existing (logs ?v)"
    "map lg_observation (logs t) = map lg_observation (logs ?v)" "map (\<lambda>l. Some (lg_client l)) (logs t) = map (\<lambda>l. Some (lg_client l)) (logs ?v)"
    unfolding t(4) by (rule scrub_logs_map, simp)+
  have cids: "map cf_id (conflicts t) = map cf_id (conflicts d)" unfolding t(9) by (rule map_update_where) (simp add: erasure_resolves_def)
  have "client_fk_ok t" using v(1) unfolding client_fk_ok_def logs vids core by (simp add: t(2,12,13,14))
  moreover have "fact_fk_ok t"
  proof -
    have "refers (fact_ids d) (map cf_resolution (conflicts t))" unfolding t(9)
      by (rule refers_cleared) (use v(2) core in \<open>simp_all add: fact_fk_ok_def vids erasure_resolves_def\<close>)
    moreover have "map (\<lambda>j. Some (ej_fact j)) (jobs t) = map (\<lambda>j. Some (ej_fact j)) (jobs d)"
      unfolding t(7) drop_derived_def by (simp add: map_update_where)
    moreover have "map f_superseded_by (facts t) = map f_superseded_by (facts d)" by (simp add: t(1) after_erasure_fields)
    ultimately show ?thesis using v(2) i unfolding fact_fk_ok_def ids logs vids core
      by (simp add: t(3,5,6,8,10,11,14) refers_filter)
  qed
  moreover have "other_fk_ok t"
  proof -
    have "refers (set (map en_id (entities d))) (map f_object_entity (facts t))"
    proof -
      have "refers (set (map en_id (entities d))) (map f_object_entity (facts d))" using v(3) unfolding other_fk_ok_def core by simp
      then have old: "k \<in> set (map en_id (entities d))" if "y \<in> set (facts d)" "f_object_entity y = Some k" for y k
        using that unfolding refers_iff by blast
      show ?thesis unfolding refers_iff
      proof (intro ballI allI impI)
        fix x k assume x: "x \<in> set (facts t)" "f_object_entity x = Some k"
        then obtain y where y: "y \<in> set (facts d)" "x = after_erasure i (now env) y" unfolding t(1) by auto
        with x(2) after_erasure_fields(3) [of i "now env" y] have "f_object_entity y = Some k" by simp
        with y(1) show "k \<in> set (map en_id (entities d))" by (rule old)
      qed
    qed
    then show ?thesis using v(3) unfolding other_fk_ok_def logs cids core
      by (simp add: t(2,3,6,8,14,15) refers_filter)
  qed
  ultimately show ?thesis by (simp add: foreign_keys_ok_def)
qed

section \<open>What an erasure promises\<close>

lemma erase_fact_unfold:
  assumes "find_fact i d = Some f"
  shows "is_ok (erase_fact ft env busy version i who why d) \<Longrightarrow> \<not> busy \<and> 0 < i \<and> strip who \<noteq> [] \<and> strip why \<noteq> []
      \<and> version = SUPPORTED_SCHEMA_VERSION"
    and "\<not> busy \<Longrightarrow> 0 < i \<Longrightarrow> strip who \<noteq> [] \<Longrightarrow> strip why \<noteq> [] \<Longrightarrow> version = SUPPORTED_SCHEMA_VERSION
      \<Longrightarrow> erase_fact ft env busy version i who why d
        = erase_in_transaction ft env i (strip who) (strip why) (f_content f) (uuid env (uuid_ctr d)) (fact_observations i d)
            (linked_metadata (fact_observations i d) d) (erasure_start env d)"
proof -
  show "is_ok (erase_fact ft env busy version i who why d) \<Longrightarrow> \<not> busy \<and> 0 < i \<and> strip who \<noteq> [] \<and> strip why \<noteq> []
      \<and> version = SUPPORTED_SCHEMA_VERSION"
    by (auto simp: erase_fact_def Let_def andThen_def require_apply split: if_splits)
  have u: "uuid4 env d = Inr (uuid env (uuid_ctr d), erasure_start env d)" by (simp add: uuid4_def erasure_start_def)
  show "\<not> busy \<Longrightarrow> 0 < i \<Longrightarrow> strip who \<noteq> [] \<Longrightarrow> strip why \<noteq> [] \<Longrightarrow> version = SUPPORTED_SCHEMA_VERSION
      \<Longrightarrow> erase_fact ft env busy version i who why d
        = erase_in_transaction ft env i (strip who) (strip why) (f_content f) (uuid env (uuid_ctr d)) (fact_observations i d)
            (linked_metadata (fact_observations i d) d) (erasure_start env d)"
    using assms by (simp add: erase_fact_def Let_def andThen_def u)
qed

lemma update_queue_unique: "is_ok (update_queue p g d) \<Longrightarrow> queue_unique (update_where p g (queue d))"
  by (auto simp: update_queue_def Let_def split: if_splits)

lemma erase_fact_result:
  assumes fk: "foreign_keys_ok d" and obs: "distinct (map ob_id (observations d))" and ids: "ids_ok d" and slots: "slots_unique (facts d)"
    and rows: "queue_unique (update_where (row_linked env (linked_metadata (fact_observations i d) d)) (scrub_row env) (queue d))"
    and found: "find_fact i d = Some f" and run: "erase_fact ft env busy version i who why d = Inr (rep, t)"
  shows "erased_store ft env i f (strip who) d t"
proof -
  have "is_ok (erase_fact ft env busy version i who why d)" using run by simp
  note g = erase_fact_unfold(1) [OF found this]
  then have eq: "erase_in_transaction ft env i (strip who) (strip why) (f_content f) (uuid env (uuid_ctr d)) (fact_observations i d)
      (linked_metadata (fact_observations i d) d) (erasure_start env d) = Inr (rep, t)"
    using erase_fact_unfold(2) [OF found, of busy who why version ft env] run by simp
  from erase_in_transaction_runs [OF foreign_observations [OF fk obs] ids slots rows refl, of ft "strip who" "strip why" f] eq
  show ?thesis by (auto split: if_splits)
qed

lemma find_after_erasure:
  assumes "facts t = map (after_erasure i at_time) (facts d)" "find_fact i d = Some f"
  shows "find_fact i t = Some (scrub_fact i at_time f)"
proof -
  have "find (\<lambda>f. f_id f = i) (map (after_erasure i at_time) fs) = map_option (after_erasure i at_time) (find (\<lambda>f. f_id f = i) fs)" for fs
    by (induction fs) (auto simp: after_erasure_fields)
  with assms find_fact_Some [OF assms(2)] show ?thesis
    by (auto simp: find_fact_def first_where_def after_erasure_def)
qed

lemma erased_logs:
  assumes "l \<in> set (logs (scrub_logs ft i obs original d))"
  shows "(lg_fact l = Some i \<longrightarrow> lg_detail l = ERASED_DETAIL)
    \<and> (original \<noteq> [] \<longrightarrow> lg_detail l = ERASED_DETAIL \<or> \<not> occurs_in original (json_text ft (lg_detail l)))"
proof (cases "original = []")
  case True
  then have "l \<in> set (update_where (\<lambda>l. lg_fact l = Some i \<or> lg_observation l \<in> Some ` set obs) (\<lambda>l. l\<lparr>lg_detail := ERASED_DETAIL\<rparr>) (logs d))"
    using assms by (simp add: scrub_logs_def Let_def)
  from in_update_where [OF this] obtain l0 where
    "l = (if lg_fact l0 = Some i \<or> lg_observation l0 \<in> Some ` set obs then l0\<lparr>lg_detail := ERASED_DETAIL\<rparr> else l0)" by blast
  with True show ?thesis by auto
next
  case False
  let ?ls = "update_where (\<lambda>l. lg_fact l = Some i \<or> lg_observation l \<in> Some ` set obs) (\<lambda>l. l\<lparr>lg_detail := ERASED_DETAIL\<rparr>) (logs d)"
  have "l \<in> set (update_where (\<lambda>l. occurs_in original (json_text ft (lg_detail l))) (\<lambda>l. l\<lparr>lg_detail := ERASED_DETAIL\<rparr>) ?ls)"
    using assms False by (simp add: scrub_logs_def Let_def)
  from in_update_where [OF this] obtain l1 where l1: "l1 \<in> set ?ls"
    "l = (if occurs_in original (json_text ft (lg_detail l1)) then l1\<lparr>lg_detail := ERASED_DETAIL\<rparr> else l1)" by blast
  from in_update_where [OF l1(1)] obtain l0 where
    "l1 = (if lg_fact l0 = Some i \<or> lg_observation l0 \<in> Some ` set obs then l0\<lparr>lg_detail := ERASED_DETAIL\<rparr> else l0)" by blast
  then have "lg_fact l1 = Some i \<longrightarrow> lg_detail l1 = ERASED_DETAIL" by auto
  with l1(2) show ?thesis by auto
qed


text \<open>C25: an erasure spares everything else.  Every other fact keeps every column, except that a live
  insight that cites the erased fact is retired; the evidence of every other fact is what it was,
  even where it shared an observation with the erased one; and the store stays referentially sound.
\<close>

theorem erasure_spares_others:
  assumes "foreign_keys_ok d" "distinct (map ob_id (observations d))" "ids_ok d" "slots_unique (facts d)"
    and "queue_unique (update_where (row_linked env (linked_metadata (fact_observations i d) d)) (scrub_row env) (queue d))"
    and "find_fact i d = Some f" "erase_fact ft env busy version i who why d = Inr (rep, t)"
  shows "facts t = map (\<lambda>g. if f_id g = i then scrub_fact i (now env) g
        else if f_category g = ''insight'' \<and> f_invalid_at g = None \<and> cites i g then g\<lparr>f_invalid_at := Some (now env)\<rparr> else g) (facts d)
    \<and> (\<forall>g. g \<noteq> i \<longrightarrow> evidence g t = evidence g d) \<and> foreign_keys_ok t"
proof -
  have st: "erased_store ft env i f (strip who) d t" by (rule erase_fact_result [OF assms])
  then have t: "facts t = map (after_erasure i (now env)) (facts d)" "observations t = observations (erasure_evidence env i d)"
    "provenances t = provenances (erasure_evidence env i d)" by (simp_all add: erased_store_def Let_def)
  have "evidence g t = evidence g d" if "g \<noteq> i" for g
    using erasure_evidence_others [OF foreign_observations [OF assms(1,2)] that] t(2,3) by (simp add: evidence_def)
  moreover have "after_erasure i (now env) = (\<lambda>g. if f_id g = i then scrub_fact i (now env) g
        else if f_category g = ''insight'' \<and> f_invalid_at g = None \<and> cites i g then g\<lparr>f_invalid_at := Some (now env)\<rparr> else g)"
    by (simp add: fun_eq_iff after_erasure_def live_insight_def invalidate_def)
  ultimately show ?thesis using t(1) erased_foreign_keys [OF assms(1,2) st assms(6)] by simp
qed

text \<open>C26: when an erasure succeeds.  On a sound store a well-formed request to erase an existing fact
  goes through exactly when the tags of every other live insight can be read; one insight whose
  tags end after the citation marker makes the erasure of any fact fail.
\<close>

theorem erasure_succeeds_iff:
  assumes "foreign_keys_ok d" "distinct (map ob_id (observations d))" "ids_ok d" "slots_unique (facts d)"
    and "queue_unique (update_where (row_linked env (linked_metadata (fact_observations i d) d)) (scrub_row env) (queue d))"
    and "find_fact i d = Some f" "0 < i" "strip who \<noteq> []" "strip why \<noteq> []"
  shows "is_ok (erase_fact ft env False SUPPORTED_SCHEMA_VERSION i who why d)
    \<longleftrightarrow> (\<forall>g \<in> set (facts d). f_id g \<noteq> i \<and> f_category g = ''insight'' \<and> f_invalid_at g = None \<longrightarrow> is_ok (cited_facts (f_tags g)))"
proof -
  have eq: "erase_fact ft env False SUPPORTED_SCHEMA_VERSION i who why d
      = erase_in_transaction ft env i (strip who) (strip why) (f_content f) (uuid env (uuid_ctr d)) (fact_observations i d)
            (linked_metadata (fact_observations i d) d) (erasure_start env d)"
    using erase_fact_unfold(2) [OF assms(6), of False] assms(7-9) by simp
  note run = erase_in_transaction_runs [OF foreign_observations [OF assms(1,2)] assms(3-5) refl, of ft "strip who" "strip why" f]
  have "is_ok (erase_fact ft env False SUPPORTED_SCHEMA_VERSION i who why d) \<longleftrightarrow> insights_readable i d"
  proof (cases "insights_readable i d")
    case True
    with run obtain rep t where "erase_in_transaction ft env i (strip who) (strip why) (f_content f) (uuid env (uuid_ctr d)) (fact_observations i d)
          (linked_metadata (fact_observations i d) d) (erasure_start env d)
        = (if foreign_keys_ok t then Inr (rep, t) else Inl (ErasureError ''privacy erasure would violate foreign keys''))"
      "erased_store ft env i f (strip who) d t" by auto
    with erased_foreign_keys [OF assms(1,2) _ assms(6)] True show ?thesis unfolding eq by simp
  next
    case False
    with run show ?thesis unfolding eq by simp
  qed
  then show ?thesis unfolding insights_readable_def live_insight_def by simp
qed

end
