(* ===== verification/ErasureWitnesses.thy ===== *)
theory ErasureWitnesses
  imports ErasureFacts QueueWitnesses
begin

text \<open>
  Two facts that share an observation extracted from a queued transcript, an insight that cites the
  first, and on that store one instance of each property of the erasure; and a conflict of two
  facts of which one is erased.
\<close>

definition shared_observation :: observation where
  "shared_observation = \<lparr>ob_id = 1, ob_client = ''cli'', ob_session = ''s'', ob_source_type = ''automatic_extraction'',
     ob_source_uri = None, ob_root = None, ob_repo = None, ob_branch = None, ob_commit = None, ob_content = ''I moved to Oslo'',
     ob_sha256 = ''h1'', ob_asserted_by = None, ob_performed_by = None, ob_observed_at = None, ob_recorded_at = ''2026-01-01'',
     ob_scope = ''private'', ob_sensitivity = ''normal'', ob_redacted_at = None,
     ob_metadata = JObj [(''extraction_queue_id'', JInt 1)]\<rparr>"

definition erasable_db :: db where
  "erasable_db = queue_db\<lparr>next_fact := 4,
     facts := [default_fact 1 ''lives in Oslo'' ''private'' ''2026-01-01'', default_fact 2 ''moved'' ''private'' ''2026-01-01'',
       (default_fact 3 ''travels'' ''private'' ''2026-01-02'')\<lparr>f_category := ''insight'', f_tags := ''source_facts:1,2''\<rparr>],
     clients := [\<lparr>cl_id = ''cli'', cl_surface = ''x'', cl_display = None, cl_created_at = ''2026-01-01'', cl_disabled_at = None\<rparr>],
     sessions := [\<lparr>se_id = ''s'', se_client = ''cli'', se_agent = ''a'', se_parent = None, se_root = None, se_repo = None,
       se_branch = None, se_commit = None, se_capabilities = [], se_scopes = [''private''], se_started_at = ''2026-01-01''\<rparr>],
     observations := [shared_observation],
     provenances := [\<lparr>pv_fact = 1, pv_observation = 1, pv_relation = ''supports'', pv_excerpt = Some ''Oslo'', pv_created_at = ''2026-01-01''\<rparr>,
       \<lparr>pv_fact = 2, pv_observation = 1, pv_relation = ''supports'', pv_excerpt = Some ''moved'', pv_created_at = ''2026-01-01''\<rparr>]\<rparr>"

abbreviation demo_erasure :: "error + erasure_report \<times> db" where
  "demo_erasure \<equiv> erase_fact (\<lambda>_. []) demo_env False 1 1 ''Ann'' ''request'' erasable_db"

lemmas erasable_defs = erasable_db_def queue_db_def empty_db_def default_fact_def shared_observation_def new_queue_row_def

lemma erasable_ok:
  "foreign_keys_ok erasable_db" "distinct (map ob_id (observations erasable_db))" "ids_ok erasable_db" "slots_unique (facts erasable_db)"
  "queue_unique (update_where (row_linked demo_env (linked_metadata (fact_observations 1 erasable_db) erasable_db)) (scrub_row demo_env) (queue erasable_db))"
  "find_fact 1 erasable_db = Some (default_fact 1 ''lives in Oslo'' ''private'' ''2026-01-01'')"
proof -
  show "foreign_keys_ok erasable_db" by code_simp
  show "distinct (map ob_id (observations erasable_db))" by (simp add: erasable_defs)
  show "ids_ok erasable_db" by (simp add: erasable_defs ids_ok_def)
  show "slots_unique (facts erasable_db)" by (simp add: erasable_defs slots_unique_def in_slot_index_def is_state_def)
  show "queue_unique (update_where (row_linked demo_env (linked_metadata (fact_observations 1 erasable_db) erasable_db)) (scrub_row demo_env) (queue erasable_db))"
    by code_simp
  show "find_fact 1 erasable_db = Some (default_fact 1 ''lives in Oslo'' ''private'' ''2026-01-01'')"
    by (simp add: erasable_defs find_fact_def first_where_def)
qed

theorem erasure_succeeds_iff_witness: "is_ok demo_erasure"
proof -
  have "\<forall>g \<in> set (facts erasable_db). f_id g \<noteq> 1 \<and> f_category g = ''insight'' \<and> f_invalid_at g = None \<longrightarrow> is_ok (cited_facts (f_tags g))"
    by code_simp
  moreover have "strip ''Ann'' \<noteq> []" "strip ''request'' \<noteq> []" by code_simp+
  ultimately show ?thesis using erasure_succeeds_iff [OF erasable_ok, of "''Ann''" "''request''" "\<lambda>_. []"]
    by (simp add: SUPPORTED_SCHEMA_VERSION_def)
qed

lemma demo_erasure_runs: obtains rep t where "demo_erasure = Inr (rep, t)"
proof -
  have "is_ok demo_erasure" by code_simp
  then show thesis using that by (auto simp: is_ok_iff)
qed


theorem erasure_spares_others_witness:
  "\<exists>rep t. demo_erasure = Inr (rep, t) \<and> evidence 2 t = evidence 2 erasable_db \<and> foreign_keys_ok t"
proof -
  obtain rep t where run: "demo_erasure = Inr (rep, t)" by (rule demo_erasure_runs)
  from erasure_spares_others [OF erasable_ok run] have "\<forall>g. g \<noteq> 1 \<longrightarrow> evidence g t = evidence g erasable_db" "foreign_keys_ok t" by blast+
  with run show ?thesis by (intro exI [of _ rep] exI [of _ t]) simp
qed

text \<open>
  The survivor of a conflict of two keeps its conflict group after the other is erased, although
  the conflict is closed: the default reads go on hiding it, and the conflict can no longer be
  resolved in its favour.
\<close>

lemma erasure_strands_survivor:
  "case erase_fact (\<lambda>_. []) demo_env False 1 1 ''Ann'' ''request'' contested_db of
     Inl e \<Rightarrow> False
   | Inr (rep, t) \<Rightarrow> (case find_fact 2 t of None \<Rightarrow> False | Some g \<Rightarrow> current g \<and> f_conflict g = Some ''c'' \<and> \<not> active g)
       \<and> (case resolve_state_conflict demo_env ''c'' 2 ''Ann'' ''keep'' None None None None t of
            Inl e \<Rightarrow> e = ValueError ''conflict is already resolved'' | Inr r \<Rightarrow> False)"
  by code_simp

end
