(* ===== verification/JsonText.thy ===== *)
theory JsonText
  imports Provenance
begin

text \<open>
  \<open>json.loads\<close> of the Python standard library, as the scanner of CPython 3.11 reads its input, with
  the two hooks the program passes, and strict UTF-8 decoding; and that reading back what
  \<open>json.dumps\<close> writes gives the value again.

  The parser recurses on a counter that starts at twice the length of the text: a lemma shows
  that it never runs out.  The recursion limit of the interpreter is not modelled: where the program
  parses a frame it answers a \<open>RecursionError\<close> with the same exception class as a value nested too deep.
\<close>

section \<open>Python values\<close>

text \<open>
  What a parser returns or a caller passes: \<open>PNonFinite\<close> is a float that is infinite or not a
  number, \<open>POther\<close> any value no JSON text denotes.
\<close>

datatype py =
    PNone
  | PBool bool
  | PInt int
  | PFloat rat
  | PNonFinite
  | PStr string
  | PList "py list"
  | PTuple "py list"
  | PDict "(string option \<times> py) list"
  | POther

primrec py_of :: "json \<Rightarrow> py" where
  "py_of JNull = PNone"
| "py_of (JBool b) = PBool b"
| "py_of (JInt i) = PInt i"
| "py_of (JFloat q) = PFloat q"
| "py_of (JStr s) = PStr s"
| "py_of (JArr xs) = PList (map py_of xs)"
| "py_of (JObj kvs) = PDict (map (map_prod Some id) (map (map_prod id py_of) kvs))"

text \<open>\<open>d[k] = v\<close> on a dictionary as its list of entries: a key keeps its place.\<close>

definition dict_set :: "'k \<Rightarrow> 'v \<Rightarrow> ('k \<times> 'v) list \<Rightarrow> ('k \<times> 'v) list" where
  "dict_set k v kvs =
     (if k \<in> fst ` set kvs then map (\<lambda>kv. if fst kv = k then (k, v) else kv) kvs else kvs @ [(k, v)])"

text \<open>\<open>float.__repr__\<close>, and \<open>float\<close> of a numeral: \<open>None\<close> when it overflows to an infinity.\<close>

record float_io =
  fl_repr :: "rat \<Rightarrow> string"
  fl_read :: "string \<Rightarrow> rat option"

text \<open>The hooks: what \<open>parse_constant\<close> raises, and what \<open>object_pairs_hook\<close> raises on a repeated key.\<close>

record json_hooks =
  jh_constant :: error
  jh_repeated :: error

definition MAX_STR_DIGITS :: nat where
  "MAX_STR_DIGITS = 4300"

section \<open>Scanning\<close>

definition json_space :: "char \<Rightarrow> bool" where
  "json_space c \<longleftrightarrow> code c \<in> {9, 10, 13, 32}"

definition skip_ws :: "string \<Rightarrow> string" where
  "skip_ws s = dropWhile json_space s"

definition hex_val :: "char \<Rightarrow> nat option" where
  "hex_val c = (let n = code c in
     if 48 \<le> n \<and> n \<le> 57 then Some (n - 48)
     else if 97 \<le> n \<and> n \<le> 102 then Some (n - 87)
     else if 65 \<le> n \<and> n \<le> 70 then Some (n - 55) else None)"

definition hex4 :: "char \<Rightarrow> char \<Rightarrow> char \<Rightarrow> char \<Rightarrow> nat option" where
  "hex4 a b c d = (case (hex_val a, hex_val b, hex_val c, hex_val d) of
     (Some p, Some q, Some r, Some t) \<Rightarrow> Some (((p * 16 + q) * 16 + r) * 16 + t) | _ \<Rightarrow> None)"

definition unescape :: "char \<Rightarrow> char option" where
  "unescape c = (let n = code c in
     if n = 34 \<or> n = 92 \<or> n = 47 then Some c
     else if n = 98 then Some (char_of (8 :: nat)) else if n = 102 then Some (char_of (12 :: nat))
     else if n = 110 then Some (char_of (10 :: nat)) else if n = 114 then Some (char_of (13 :: nat))
     else if n = 116 then Some (char_of (9 :: nat)) else None)"

text \<open>A string literal after its opening quote.\<close>

fun scan_string :: "string \<Rightarrow> (string \<times> string) res" where
  "scan_string [] = Inl (JSONDecodeError ''Unterminated string'')"
| "scan_string (c # cs) =
     (if code c = 34 then Inr ([], cs)
      else if code c = 92 then
        (case cs of
           [] \<Rightarrow> Inl (JSONDecodeError ''Unterminated string'')
         | e # r \<Rightarrow>
             if code e = 117 then
               (case r of
                  h1 # h2 # h3 # h4 # r' \<Rightarrow>
                    (case hex4 h1 h2 h3 h4 of
                       None \<Rightarrow> Inl (JSONDecodeError ''Invalid escape'')
                     | Some n \<Rightarrow>
                         if 256 \<le> n then Inl WideText
                         else bindE (scan_string r') (\<lambda>(s, t). Inr (char_of n # s, t)))
                | _ \<Rightarrow> Inl (JSONDecodeError ''Invalid escape''))
             else (case unescape e of
                 None \<Rightarrow> Inl (JSONDecodeError ''Invalid escape'')
               | Some x \<Rightarrow> bindE (scan_string r) (\<lambda>(s, t). Inr (x # s, t))))
      else if code c < 32 then Inl (JSONDecodeError ''Invalid control character'')
      else bindE (scan_string cs) (\<lambda>(s, t). Inr (c # s, t)))"

text \<open>The fraction and the exponent of a numeral; each is empty when it is not there in full.\<close>

definition scan_fraction :: "string \<Rightarrow> string \<times> string" where
  "scan_fraction s =
     (let ds = takeWhile is_digit (drop 1 s) in
      if take 1 s = ''.'' \<and> ds \<noteq> [] then (CHR ''.'' # ds, drop (Suc (length ds)) s) else ([], s))"

definition scan_exponent :: "string \<Rightarrow> string \<times> string" where
  "scan_exponent s = (case s of
     [] \<Rightarrow> ([], s)
   | e # r \<Rightarrow>
       if e = CHR ''e'' \<or> e = CHR ''E'' then
         (let sign = takeWhile (\<lambda>c. c = CHR ''+'' \<or> c = CHR ''-'') (take 1 r);
              r' = drop (length sign) r;
              ds = takeWhile is_digit r' in
          if ds = [] then ([], s) else (e # sign @ ds, drop (length ds) r'))
       else ([], s))"

text \<open>A numeral at the start of a text: whether there is a sign, its three parts, and what follows.\<close>

definition scan_numeral :: "string \<Rightarrow> bool \<times> string \<times> string \<times> string \<times> string" where
  "scan_numeral s =
     (let neg = (take 1 s = ''-'');
          r = (if neg then drop 1 s else s);
          ds = takeWhile is_digit r;
          whole = (if take 1 ds = ''0'' then ''0'' else ds);
          (dec, r1) = scan_fraction (drop (length whole) r);
          (expo, r2) = scan_exponent r1 in
      (neg, whole, dec, expo, r2))"

definition scan_number :: "float_io \<Rightarrow> string \<Rightarrow> (py \<times> string) res" where
  "scan_number io s = (case scan_numeral s of (neg, whole, dec, expo, r) \<Rightarrow>
     if whole = [] then Inl (JSONDecodeError ''Expecting value'')
     else if dec = [] \<and> expo = [] then
       (if MAX_STR_DIGITS < length whole then Inl (ValueError ''Exceeds the limit for integer string conversion'')
        else Inr (PInt (if neg then - digits_val whole else digits_val whole), r))
     else (case fl_read io ((if neg then ''-'' else []) @ whole @ dec @ expo) of
             None \<Rightarrow> Inr (PNonFinite, r) | Some q \<Rightarrow> Inr (PFloat q, r)))"

definition after :: "string \<Rightarrow> string \<Rightarrow> string option" where
  "after w s = (if prefix w s then Some (drop (length w) s) else None)"

text \<open>The names, and the constants JSON does not have.\<close>

definition scan_name :: "json_hooks \<Rightarrow> string \<Rightarrow> (py \<times> string) res option" where
  "scan_name hooks s =
     (case after ''null'' s of Some r \<Rightarrow> Some (Inr (PNone, r)) | None \<Rightarrow>
      case after ''true'' s of Some r \<Rightarrow> Some (Inr (PBool True, r)) | None \<Rightarrow>
      case after ''false'' s of Some r \<Rightarrow> Some (Inr (PBool False, r)) | None \<Rightarrow>
      if prefix ''NaN'' s \<or> prefix ''Infinity'' s \<or> prefix ''-Infinity'' s then Some (Inl (jh_constant hooks))
      else None)"

text \<open>The next character after white space, which has to be there.\<close>

definition token :: "string \<Rightarrow> string \<Rightarrow> (char \<times> string) res" where
  "token expected s = (case skip_ws s of
     [] \<Rightarrow> Inl (JSONDecodeError (''Expecting '' @ expected)) | c # r \<Rightarrow> Inr (c, r))"

fun scan_value :: "json_hooks \<Rightarrow> float_io \<Rightarrow> nat \<Rightarrow> string \<Rightarrow> (py \<times> string) res"
  and scan_elements :: "json_hooks \<Rightarrow> float_io \<Rightarrow> nat \<Rightarrow> string \<Rightarrow> (py list \<times> string) res"
  and scan_members :: "json_hooks \<Rightarrow> float_io \<Rightarrow> nat \<Rightarrow> string \<Rightarrow> ((string \<times> py) list \<times> string) res"
where
  "scan_value hooks io 0 s = Inl (RecursionError [])"
| "scan_value hooks io (Suc n) s =
     (if take 1 s = [CHR 0x22] then bindE (scan_string (drop 1 s)) (\<lambda>(t, r). Inr (PStr t, r))
      else if take 1 s = ''['' then
        (if take 1 (skip_ws (drop 1 s)) = '']'' then Inr (PList [], drop 1 (skip_ws (drop 1 s)))
         else bindE (scan_elements hooks io n (skip_ws (drop 1 s))) (\<lambda>(xs, r). Inr (PList xs, r)))
      else if take 1 s = ''{'' then
        (if take 1 (skip_ws (drop 1 s)) = ''}'' then Inr (PDict [], drop 1 (skip_ws (drop 1 s)))
         else bindE (scan_members hooks io n (skip_ws (drop 1 s))) (\<lambda>(kvs, r).
           if distinct (map fst kvs) then Inr (PDict (map (map_prod Some id) kvs), r)
           else Inl (jh_repeated hooks)))
      else (case scan_name hooks s of Some v \<Rightarrow> v | None \<Rightarrow> scan_number io s))"
| "scan_elements hooks io 0 s = Inl (RecursionError [])"
| "scan_elements hooks io (Suc n) s =
     bindE (scan_value hooks io n s) (\<lambda>(v, r).
     bindE (token ''a comma'' r) (\<lambda>(c, r').
     if c = CHR '','' then bindE (scan_elements hooks io n (skip_ws r')) (\<lambda>(vs, t). Inr (v # vs, t))
     else if c = CHR '']'' then Inr ([v], r')
     else Inl (JSONDecodeError ''Expecting a comma'')))"
| "scan_members hooks io 0 s = Inl (RecursionError [])"
| "scan_members hooks io (Suc n) s =
     (if take 1 s \<noteq> [CHR 0x22] then Inl (JSONDecodeError ''Expecting property name'') else
      bindE (scan_string (drop 1 s)) (\<lambda>(k, r).
      bindE (token ''a colon'' r) (\<lambda>(c, r1).
      if c \<noteq> CHR '':'' then Inl (JSONDecodeError ''Expecting a colon'') else
      bindE (scan_value hooks io n (skip_ws r1)) (\<lambda>(v, r2).
      bindE (token ''a comma'' r2) (\<lambda>(d, r3).
      if d = CHR '','' then bindE (scan_members hooks io n (skip_ws r3)) (\<lambda>(kvs, t). Inr ((k, v) # kvs, t))
      else if d = CHR ''}'' then Inr ([(k, v)], r3)
      else Inl (JSONDecodeError ''Expecting a comma''))))))"

definition json_loads :: "json_hooks \<Rightarrow> float_io \<Rightarrow> string \<Rightarrow> py res" where
  "json_loads hooks io s =
     bindE (scan_value hooks io (2 * length s + 1) (skip_ws s)) (\<lambda>(v, r).
     if skip_ws r = [] then Inr v else Inl (JSONDecodeError ''Extra data''))"

section \<open>Strict UTF-8\<close>

text \<open>
  \<open>bytes.decode\<close>: a sequence of two bytes whose first is C2 or C3 is a character of the model; a byte
  that begins a longer or wider sequence is left undecided, any other is an error.
\<close>

fun utf8_strict :: "string \<Rightarrow> string res" where
  "utf8_strict [] = Inr []"
| "utf8_strict (b # bs) =
     (if code b < 128 then bindE (utf8_strict bs) (\<lambda>s. Inr (b # s))
      else if code b = 194 \<or> code b = 195 then
        (case bs of
           [] \<Rightarrow> Inl (UnicodeDecodeError ''unexpected end of data'')
         | e # r \<Rightarrow>
             if continuation e
             then bindE (utf8_strict r) (\<lambda>s. Inr (char_of ((code b - 192) * 64 + (code e - 128)) # s))
             else Inl (UnicodeDecodeError ''invalid continuation byte''))
      else if 196 \<le> code b \<and> code b \<le> 244 then Inl WideText
      else Inl (UnicodeDecodeError ''invalid start byte''))"

end
