(* ===== verification/Protocol.thy ===== *)
theory Protocol
  imports JsonText IsoTime
begin

text \<open>
  \<^verbatim>\<open>enfold/protocol.py\<close>: the frames of the daemon's JSON-lines protocol.  A frozen dataclass is a
  record and its \<open>__post_init__\<close> the function that builds it from raw values; \<open>to_dict\<close> and
  \<open>from_dict\<close> go between records and JSON objects; \<open>encode_frame\<close> and \<open>decode_frame\<close> between
  frames and bytes.  A tuple of strings that is validated is passed as the JSON array it came from.
\<close>

section \<open>Constants\<close>

definition PROTOCOL_MAJOR :: int where "PROTOCOL_MAJOR = 1"

definition PROTOCOL_MINOR :: int where "PROTOCOL_MINOR = 0"


definition MAX_FRAME_SIZE :: int where "MAX_FRAME_SIZE = 1024 * 1024"

definition MAX_JSON_DEPTH :: nat where "MAX_JSON_DEPTH = 32"

definition SUPPORTED_CAPABILITIES :: "string list" where
  "SUPPORTED_CAPABILITIES = [''health'', ''memory.write'', ''memory.search'', ''memory.context'',
     ''memory.evidence'', ''memory.history'', ''memory.conflicts'', ''memory.resolve_conflict'',
     ''memory.extraction.enqueue'']"

definition METHOD_CAPABILITIES :: "(string \<times> string) list" where
  "METHOD_CAPABILITIES =
    [(''health'', ''health''), (''memory.write'', ''memory.write''), (''memory.search'', ''memory.search''),
     (''memory.context'', ''memory.context''), (''memory.evidence'', ''memory.evidence''),
     (''memory.history'', ''memory.history''), (''memory.changes'', ''memory.search''),
     (''memory.timeline'', ''memory.search''), (''memory.entities'', ''memory.search''),
     (''memory.entity'', ''memory.search''), (''memory.conflicts'', ''memory.conflicts''),
     (''memory.resolve_conflict'', ''memory.resolve_conflict''),
     (''memory.extraction.enqueue'', ''memory.extraction.enqueue''), (''memory.promote'', ''memory.write'')]"

definition IMMUTABLE_CONTEXT_FIELDS :: "string list" where
  "IMMUTABLE_CONTEXT_FIELDS = [''client_id'', ''surface'', ''agent_id'', ''session_id'', ''parent_agent_id'',
     ''project_root'', ''repository'', ''branch'', ''commit_sha'', ''access_scopes'']"

text \<open>\<open>[A-Za-z0-9][A-Za-z0-9._:/-]{0,127}\<close>, matched against the whole text.\<close>

definition token_head :: "char \<Rightarrow> bool" where
  "token_head c \<longleftrightarrow> is_lower c \<or> is_upper c \<or> is_digit c"

definition TOKEN :: "string \<Rightarrow> bool" where
  "TOKEN s \<longleftrightarrow> (case s of [] \<Rightarrow> False | c # cs \<Rightarrow>
     token_head c \<and> length cs \<le> 127 \<and> list_all (\<lambda>x. token_head x \<or> x \<in> set ''._:/-'') cs)"

section \<open>Validators\<close>

definition invalid :: "string \<Rightarrow> 'a res" where
  "invalid msg = Inl (ProtocolValidationError msg)"

definition required_string :: "json \<Rightarrow> string \<Rightarrow> bool \<Rightarrow> string res" where
  "required_string v name tok = (case v of
     JStr s \<Rightarrow>
       if strip s = [] then invalid (name @ '' must be a non-empty string'')
       else if tok \<and> \<not> TOKEN (strip s) then invalid (name @ '' is not a valid protocol token'')
       else Inr (strip s)
   | _ \<Rightarrow> invalid (name @ '' must be a non-empty string''))"

definition optional_string :: "json \<Rightarrow> string \<Rightarrow> string option res" where
  "optional_string v name =
     (if v = JNull then Inr None else bindE (required_string v name False) (\<lambda>s. Inr (Some s)))"

definition optional_as_of_timestamp :: "json \<Rightarrow> string \<Rightarrow> string option res" where
  "optional_as_of_timestamp v name =
     (if v = JNull then Inr None else
      bindE (required_string v name False) (\<lambda>s.
      case fromisoformat (z_to_offset s) of
        None \<Rightarrow> invalid (name @ '' must be an ISO-8601 timestamp'')
      | Some parsed \<Rightarrow> bindE (to_utc parsed) (\<lambda>_. Inr (Some s))))"

definition strict_int :: "json \<Rightarrow> string \<Rightarrow> int \<Rightarrow> int res" where
  "strict_int v name least = (case v of
     JInt i \<Rightarrow> if i < least then invalid (name @ '' must be an integer >= '' @ show_int least) else Inr i
   | _ \<Rightarrow> invalid (name @ '' must be an integer >= '' @ show_int least))"

definition string_tuple :: "json \<Rightarrow> string \<Rightarrow> bool \<Rightarrow> string list res" where
  "string_tuple v name allow_empty = (case v of
     JArr xs \<Rightarrow>
       bindE (mapE (\<lambda>x. required_string x name True) xs) (\<lambda>result.
       bindE (checkE (allow_empty \<or> result \<noteq> []) (ProtocolValidationError (name @ '' must not be empty''))) (\<lambda>_.
       bindE (checkE (distinct result) (ProtocolValidationError (name @ '' must not contain duplicates''))) (\<lambda>_.
       Inr result)))
   | _ \<Rightarrow> invalid (name @ '' must be an array of strings''))"

definition texts :: "string list \<Rightarrow> json" where
  "texts xs = JArr (map JStr xs)"

lemma mapE_cong [fundef_cong]:
  "xs = ys \<Longrightarrow> (\<And>x. x \<in> set ys \<Longrightarrow> f x = g x) \<Longrightarrow> mapE f xs = mapE g ys"
proof (induction xs arbitrary: ys)
  case (Cons x xs)
  then show ?case by (auto intro: arg_cong2 [where f = bindE])
qed simp

fun validate_json :: "string \<Rightarrow> nat \<Rightarrow> py \<Rightarrow> json res" where
  "validate_json name depth v =
     (if MAX_JSON_DEPTH < depth then invalid (name @ '' exceeds maximum JSON depth'') else
      case v of
        PNone \<Rightarrow> Inr JNull
      | PStr s \<Rightarrow> Inr (JStr s)
      | PBool b \<Rightarrow> Inr (JBool b)
      | PInt i \<Rightarrow> Inr (JInt i)
      | PNonFinite \<Rightarrow> invalid (name @ '' contains a non-finite number'')
      | PFloat q \<Rightarrow> Inr (JFloat q)
      | PList xs \<Rightarrow> bindE (mapE (validate_json name (Suc depth)) xs) (\<lambda>ys. Inr (JArr ys))
      | PTuple xs \<Rightarrow> bindE (mapE (validate_json name (Suc depth)) xs) (\<lambda>ys. Inr (JArr ys))
      | PDict kvs \<Rightarrow>
          bindE (mapE (\<lambda>kv. case fst kv of
              None \<Rightarrow> invalid (name @ '' object keys must be strings'')
            | Some k \<Rightarrow> bindE (validate_json name (Suc depth) (snd kv)) (\<lambda>j. Inr (k, j))) kvs) (\<lambda>kjs. Inr (JObj kjs))
      | POther \<Rightarrow> invalid (name @ '' contains a non-JSON value''))"

declare validate_json.simps [simp del]

type_synonym json_dict = "(string \<times> json) list"

definition mapping :: "json \<Rightarrow> string \<Rightarrow> json_dict res" where
  "mapping v name = (case v of JObj kvs \<Rightarrow> Inr kvs | _ \<Rightarrow> invalid (name @ '' must be an object''))"

definition check_keys :: "json_dict \<Rightarrow> string list \<Rightarrow> string list \<Rightarrow> unit res" where
  "check_keys data req opt =
     (if \<not> list_all (\<lambda>k. k \<in> fst ` set data) req then invalid ''missing frame fields: ''
      else if \<not> list_all (\<lambda>k. k \<in> set req \<or> k \<in> set opt) (map fst data) then invalid ''unknown frame fields: ''
      else Inr ())"

text \<open>\<open>data.get(key)\<close>; also \<open>data[key]\<close> where the key is known to be there.\<close>

definition item :: "string \<Rightarrow> json_dict \<Rightarrow> json" where
  "item k data = (case map_of data k of None \<Rightarrow> JNull | Some v \<Rightarrow> v)"

section \<open>The parts of a frame\<close>

record version =
  pv_major :: int
  pv_minor :: int

definition make_version :: "json \<Rightarrow> json \<Rightarrow> version res" where
  "make_version major minor =
     bindE (strict_int major ''protocol.major'' 0) (\<lambda>a.
     bindE (strict_int minor ''protocol.minor'' 0) (\<lambda>b. Inr \<lparr>pv_major = a, pv_minor = b\<rparr>))"

definition this_version :: version where
  "this_version = \<lparr>pv_major = PROTOCOL_MAJOR, pv_minor = PROTOCOL_MINOR\<rparr>"

definition version_to_dict :: "version \<Rightarrow> json" where
  "version_to_dict v = JObj [(''major'', JInt (pv_major v)), (''minor'', JInt (pv_minor v))]"

definition version_from_dict :: "json \<Rightarrow> version res" where
  "version_from_dict v =
     bindE (mapping v ''protocol'') (\<lambda>data.
     bindE (check_keys data [''major'', ''minor''] []) (\<lambda>_.
     make_version (item ''major'' data) (item ''minor'' data)))"

record client_context =
  cc_client :: string
  cc_surface :: string
  cc_agent :: string
  cc_session :: string
  cc_parent :: "string option"
  cc_root :: "string option"
  cc_repo :: "string option"
  cc_branch :: "string option"
  cc_commit :: "string option"
  cc_scopes :: "string list"

definition make_client_context :: "json \<Rightarrow> json \<Rightarrow> json \<Rightarrow> json \<Rightarrow> json \<Rightarrow> json \<Rightarrow> json \<Rightarrow> json \<Rightarrow> json \<Rightarrow> json
    \<Rightarrow> client_context res" where
  "make_client_context client surface agent sess parent proj repo branch commit scopes =
     bindE (required_string client ''client_id'' True) (\<lambda>c1.
     bindE (required_string surface ''surface'' True) (\<lambda>c2.
     bindE (required_string agent ''agent_id'' True) (\<lambda>c3.
     bindE (required_string sess ''session_id'' True) (\<lambda>c4.
     bindE (optional_string parent ''parent_agent_id'') (\<lambda>c5.
     bindE (optional_string proj ''project_root'') (\<lambda>c6.
     bindE (optional_string repo ''repository'') (\<lambda>c7.
     bindE (optional_string branch ''branch'') (\<lambda>c8.
     bindE (optional_string commit ''commit_sha'') (\<lambda>c9.
     bindE (string_tuple scopes ''access_scopes'' False) (\<lambda>c10.
     Inr \<lparr>cc_client = c1, cc_surface = c2, cc_agent = c3, cc_session = c4, cc_parent = c5, cc_root = c6,
          cc_repo = c7, cc_branch = c8, cc_commit = c9, cc_scopes = c10\<rparr>))))))))))"

definition client_context_to_dict :: "client_context \<Rightarrow> json" where
  "client_context_to_dict c = JObj
     [(''client_id'', JStr (cc_client c)), (''surface'', JStr (cc_surface c)), (''agent_id'', JStr (cc_agent c)),
      (''session_id'', JStr (cc_session c)), (''parent_agent_id'', jopt (cc_parent c)),
      (''project_root'', jopt (cc_root c)), (''repository'', jopt (cc_repo c)), (''branch'', jopt (cc_branch c)),
      (''commit_sha'', jopt (cc_commit c)), (''access_scopes'', texts (cc_scopes c))]"

definition client_context_from_dict :: "json \<Rightarrow> client_context res" where
  "client_context_from_dict v =
     bindE (mapping v ''context'') (\<lambda>data.
     bindE (check_keys data [''client_id'', ''surface'', ''agent_id'', ''session_id'', ''access_scopes'']
       [''parent_agent_id'', ''project_root'', ''repository'', ''branch'', ''commit_sha'']) (\<lambda>_.
     bindE (string_tuple (item ''access_scopes'' data) ''access_scopes'' False) (\<lambda>scopes.
     make_client_context (item ''client_id'' data) (item ''surface'' data) (item ''agent_id'' data)
       (item ''session_id'' data) (item ''parent_agent_id'' data) (item ''project_root'' data)
       (item ''repository'' data) (item ''branch'' data) (item ''commit_sha'' data) (texts scopes))))"

record protocol_error =
  pe_code :: string
  pe_message :: string
  pe_retryable :: bool
  pe_details :: json_dict

definition make_protocol_error :: "json \<Rightarrow> json \<Rightarrow> json \<Rightarrow> py \<Rightarrow> protocol_error res" where
  "make_protocol_error err_code message retryable details =
     bindE (required_string err_code ''error.code'' True) (\<lambda>e1.
     bindE (required_string message ''error.message'' False) (\<lambda>e2.
     bindE (case retryable of JBool b \<Rightarrow> Inr b | _ \<Rightarrow> invalid ''error.retryable must be a boolean'') (\<lambda>e3.
     bindE (bindE (validate_json ''error.details'' 0 details) (\<lambda>j. mapping j ''error.details'')) (\<lambda>e4.
     Inr \<lparr>pe_code = e1, pe_message = e2, pe_retryable = e3, pe_details = e4\<rparr>))))"

definition protocol_error_to_dict :: "protocol_error \<Rightarrow> json" where
  "protocol_error_to_dict e = JObj
     [(''code'', JStr (pe_code e)), (''message'', JStr (pe_message e)), (''retryable'', JBool (pe_retryable e)),
      (''details'', JObj (pe_details e))]"

definition protocol_error_from_dict :: "json \<Rightarrow> protocol_error res" where
  "protocol_error_from_dict v =
     bindE (mapping v ''error'') (\<lambda>data.
     bindE (check_keys data [''code'', ''message'', ''retryable'', ''details''] []) (\<lambda>_.
     make_protocol_error (item ''code'' data) (item ''message'' data) (item ''retryable'' data)
       (py_of (item ''details'' data))))"

text \<open>\<open>ProtocolError(code, message)\<close>.\<close>

definition plain_error :: "string \<Rightarrow> string \<Rightarrow> protocol_error res" where
  "plain_error err_code message = make_protocol_error (JStr err_code) (JStr message) (JBool False) (PDict [])"

section \<open>Frames\<close>

record handshake =
  hs_context :: client_context
  hs_capabilities :: "string list"
  hs_protocol :: version
  hs_schema :: int
  hs_credential :: "string option"

definition make_handshake :: "client_context \<Rightarrow> json \<Rightarrow> version \<Rightarrow> json \<Rightarrow> json \<Rightarrow> handshake res" where
  "make_handshake ctx caps protocol schema credential =
     bindE (string_tuple caps ''capabilities'' True) (\<lambda>h1.
     bindE (strict_int schema ''schema_version'' 0) (\<lambda>h2.
     bindE (if credential = JNull then Inr None
            else bindE (required_string credential ''credential'' True) (\<lambda>s. Inr (Some s))) (\<lambda>h3.
     Inr \<lparr>hs_context = ctx, hs_capabilities = h1, hs_protocol = protocol, hs_schema = h2, hs_credential = h3\<rparr>)))"

definition handshake_to_dict :: "handshake \<Rightarrow> json" where
  "handshake_to_dict h = JObj (
     [(''type'', JStr ''handshake''), (''protocol'', version_to_dict (hs_protocol h)),
      (''schema_version'', JInt (hs_schema h)), (''capabilities'', texts (hs_capabilities h)),
      (''context'', client_context_to_dict (hs_context h))]
     @ (case hs_credential h of None \<Rightarrow> [] | Some s \<Rightarrow> [(''credential'', JStr s)]))"

definition handshake_from_dict :: "json_dict \<Rightarrow> handshake res" where
  "handshake_from_dict data =
     bindE (check_keys data [''type'', ''protocol'', ''schema_version'', ''capabilities'', ''context''] [''credential'']) (\<lambda>_.
     bindE (checkE (item ''type'' data = JStr ''handshake'') (ProtocolValidationError ''frame type must be handshake'')) (\<lambda>_.
     bindE (client_context_from_dict (item ''context'' data)) (\<lambda>ctx.
     bindE (string_tuple (item ''capabilities'' data) ''capabilities'' True) (\<lambda>caps.
     bindE (version_from_dict (item ''protocol'' data)) (\<lambda>protocol.
     bindE (strict_int (item ''schema_version'' data) ''schema_version'' 0) (\<lambda>schema.
     bindE (optional_string (item ''credential'' data) ''credential'') (\<lambda>credential.
     make_handshake ctx (texts caps) protocol (JInt schema) (jopt credential))))))))"

record handshake_response =
  hr_accepted :: bool
  hr_capabilities :: "string list"
  hr_service_version :: string
  hr_error :: "protocol_error option"
  hr_protocol :: version
  hr_schema :: int

definition make_handshake_response :: "json \<Rightarrow> json \<Rightarrow> json \<Rightarrow> protocol_error option \<Rightarrow> version \<Rightarrow> json
    \<Rightarrow> handshake_response res" where
  "make_handshake_response accepted caps service_version err protocol schema =
     bindE (case accepted of JBool b \<Rightarrow> Inr b | _ \<Rightarrow> invalid ''accepted must be a boolean'') (\<lambda>h1.
     bindE (string_tuple caps ''capabilities'' True) (\<lambda>h2.
     bindE (required_string service_version ''service_version'' False) (\<lambda>h3.
     bindE (strict_int schema ''schema_version'' 0) (\<lambda>h4.
     bindE (checkE (\<not> (h1 \<and> err \<noteq> None)) (ProtocolValidationError ''accepted handshake cannot include an error'')) (\<lambda>_.
     bindE (checkE (h1 \<or> err \<noteq> None) (ProtocolValidationError ''refused handshake must include a typed error'')) (\<lambda>_.
     Inr \<lparr>hr_accepted = h1, hr_capabilities = h2, hr_service_version = h3, hr_error = err, hr_protocol = protocol,
          hr_schema = h4\<rparr>))))))"

definition error_item :: "protocol_error option \<Rightarrow> json" where
  "error_item e = (case e of None \<Rightarrow> JNull | Some e \<Rightarrow> protocol_error_to_dict e)"

definition error_of_item :: "json \<Rightarrow> protocol_error option res" where
  "error_of_item v = (if v = JNull then Inr None else bindE (protocol_error_from_dict v) (\<lambda>e. Inr (Some e)))"

definition handshake_response_to_dict :: "handshake_response \<Rightarrow> json" where
  "handshake_response_to_dict h = JObj
     [(''type'', JStr ''handshake_response''), (''protocol'', version_to_dict (hr_protocol h)),
      (''schema_version'', JInt (hr_schema h)), (''capabilities'', texts (hr_capabilities h)),
      (''service_version'', JStr (hr_service_version h)), (''accepted'', JBool (hr_accepted h)),
      (''error'', error_item (hr_error h))]"

definition handshake_response_from_dict :: "json_dict \<Rightarrow> handshake_response res" where
  "handshake_response_from_dict data =
     bindE (check_keys data [''type'', ''protocol'', ''schema_version'', ''capabilities'', ''service_version'',
       ''accepted'', ''error''] []) (\<lambda>_.
     bindE (checkE (item ''type'' data = JStr ''handshake_response'')
       (ProtocolValidationError ''frame type must be handshake_response'')) (\<lambda>_.
     bindE (error_of_item (item ''error'' data)) (\<lambda>err.
     bindE (string_tuple (item ''capabilities'' data) ''capabilities'' True) (\<lambda>caps.
     bindE (version_from_dict (item ''protocol'' data)) (\<lambda>protocol.
     bindE (strict_int (item ''schema_version'' data) ''schema_version'' 0) (\<lambda>schema.
     make_handshake_response (item ''accepted'' data) (texts caps) (item ''service_version'' data) err protocol
       (JInt schema)))))))"

record request =
  rm_id :: string
  rm_method :: string
  rm_params :: json_dict
  rm_protocol :: version
  rm_schema :: int

definition make_request_frame :: "json \<Rightarrow> json \<Rightarrow> py \<Rightarrow> version \<Rightarrow> json \<Rightarrow> request res" where
  "make_request_frame request_id method params protocol schema =
     bindE (required_string request_id ''request_id'' True) (\<lambda>r1.
     bindE (required_string method ''method'' True) (\<lambda>r2.
     bindE (checkE (map_of METHOD_CAPABILITIES r2 \<noteq> None) (ProtocolValidationError ''unsupported method: '')) (\<lambda>_.
     bindE (bindE (validate_json ''params'' 0 params) (\<lambda>j. mapping j ''params'')) (\<lambda>r3.
     bindE (checkE (list_all (\<lambda>k. k \<notin> set IMMUTABLE_CONTEXT_FIELDS) (map fst r3))
       (ProtocolValidationError ''request params cannot override immutable connection context: '')) (\<lambda>_.
     bindE (strict_int schema ''schema_version'' 0) (\<lambda>r4.
     Inr \<lparr>rm_id = r1, rm_method = r2, rm_params = r3, rm_protocol = protocol, rm_schema = r4\<rparr>))))))"

definition request_to_dict :: "request \<Rightarrow> json" where
  "request_to_dict r = JObj
     [(''type'', JStr ''request''), (''protocol'', version_to_dict (rm_protocol r)),
      (''schema_version'', JInt (rm_schema r)), (''request_id'', JStr (rm_id r)), (''method'', JStr (rm_method r)),
      (''params'', JObj (rm_params r))]"

definition request_from_dict :: "json_dict \<Rightarrow> request res" where
  "request_from_dict data =
     bindE (check_keys data [''type'', ''protocol'', ''schema_version'', ''request_id'', ''method'', ''params''] []) (\<lambda>_.
     bindE (checkE (item ''type'' data = JStr ''request'') (ProtocolValidationError ''frame type must be request'')) (\<lambda>_.
     bindE (version_from_dict (item ''protocol'' data)) (\<lambda>protocol.
     bindE (strict_int (item ''schema_version'' data) ''schema_version'' 0) (\<lambda>schema.
     make_request_frame (item ''request_id'' data) (item ''method'' data) (py_of (item ''params'' data)) protocol
       (JInt schema)))))"

record response =
  rs_id :: string
  rs_ok :: bool
  rs_result :: json
  rs_error :: "protocol_error option"
  rs_protocol :: version
  rs_schema :: int

definition make_response :: "json \<Rightarrow> json \<Rightarrow> py \<Rightarrow> protocol_error option \<Rightarrow> version \<Rightarrow> json \<Rightarrow> response res" where
  "make_response request_id is_fine result err protocol schema =
     bindE (required_string request_id ''request_id'' True) (\<lambda>r1.
     bindE (case is_fine of JBool b \<Rightarrow> Inr b | _ \<Rightarrow> invalid ''ok must be a boolean'') (\<lambda>r2.
     bindE (validate_json ''result'' 0 result) (\<lambda>r3.
     bindE (strict_int schema ''schema_version'' 0) (\<lambda>r4.
     bindE (checkE (\<not> (r2 \<and> err \<noteq> None)) (ProtocolValidationError ''successful response cannot include an error'')) (\<lambda>_.
     bindE (checkE (r2 \<or> err \<noteq> None) (ProtocolValidationError ''failed response must include a typed error'')) (\<lambda>_.
     bindE (checkE (r2 \<or> r3 = JNull) (ProtocolValidationError ''failed response cannot include a result'')) (\<lambda>_.
     Inr \<lparr>rs_id = r1, rs_ok = r2, rs_result = r3, rs_error = err, rs_protocol = protocol, rs_schema = r4\<rparr>)))))))"

definition response_to_dict :: "response \<Rightarrow> json" where
  "response_to_dict r = JObj
     [(''type'', JStr ''response''), (''protocol'', version_to_dict (rs_protocol r)),
      (''schema_version'', JInt (rs_schema r)), (''request_id'', JStr (rs_id r)), (''ok'', JBool (rs_ok r)),
      (''result'', rs_result r), (''error'', error_item (rs_error r))]"

definition response_from_dict :: "json_dict \<Rightarrow> response res" where
  "response_from_dict data =
     bindE (check_keys data [''type'', ''protocol'', ''schema_version'', ''request_id'', ''ok'', ''result'', ''error''] []) (\<lambda>_.
     bindE (checkE (item ''type'' data = JStr ''response'') (ProtocolValidationError ''frame type must be response'')) (\<lambda>_.
     bindE (error_of_item (item ''error'' data)) (\<lambda>err.
     bindE (version_from_dict (item ''protocol'' data)) (\<lambda>protocol.
     bindE (strict_int (item ''schema_version'' data) ''schema_version'' 0) (\<lambda>schema.
     make_response (item ''request_id'' data) (item ''ok'' data) (py_of (item ''result'' data)) err protocol
       (JInt schema))))))"

datatype frame =
    Handshake handshake
  | HandshakeResponse handshake_response
  | Request request
  | Response response

primrec frame_to_dict :: "frame \<Rightarrow> json" where
  "frame_to_dict (Handshake h) = handshake_to_dict h"
| "frame_to_dict (HandshakeResponse h) = handshake_response_to_dict h"
| "frame_to_dict (Request r) = request_to_dict r"
| "frame_to_dict (Response r) = response_to_dict r"

primrec frame_protocol :: "frame \<Rightarrow> version" where
  "frame_protocol (Handshake h) = hs_protocol h"
| "frame_protocol (HandshakeResponse h) = hr_protocol h"
| "frame_protocol (Request r) = rm_protocol r"
| "frame_protocol (Response r) = rs_protocol r"

section \<open>Negotiation\<close>

definition required_capability :: "json \<Rightarrow> string res" where
  "required_capability method =
     bindE (required_string method ''method'' True) (\<lambda>m.
     case map_of METHOD_CAPABILITIES m of None \<Rightarrow> invalid ''unsupported method: '' | Some cap \<Rightarrow> Inr cap)"

definition require_compatible_major :: "version \<Rightarrow> int \<Rightarrow> unit res" where
  "require_compatible_major v supported =
     checkE (pv_major v = supported) (ProtocolVersionMismatch ''protocol major is incompatible with supported major'')"

definition negotiate_handshake :: "handshake \<Rightarrow> json \<Rightarrow> json \<Rightarrow> json \<Rightarrow> handshake_response res" where
  "negotiate_handshake h service_version server_capabilities schema =
     bindE (required_string service_version ''service_version'' False) (\<lambda>sv.
     bindE (string_tuple server_capabilities ''server_capabilities'' True) (\<lambda>caps.
     bindE (strict_int schema ''schema_version'' 0) (\<lambda>n.
     if pv_major (hs_protocol h) \<noteq> PROTOCOL_MAJOR then
       bindE (plain_error ''incompatible_protocol_major''
         (''client major '' @ show_int (pv_major (hs_protocol h)) @ ''; server major '' @ show_int PROTOCOL_MAJOR)) (\<lambda>e.
       make_handshake_response (JBool False) (texts []) (JStr sv) (Some e) this_version (JInt n))
     else
       make_handshake_response (JBool True) (texts (filter (\<lambda>cap. cap \<in> set (hs_capabilities h)) caps)) (JStr sv)
         None this_version (JInt n))))"

section \<open>The wire\<close>

text \<open>The integers of a value, which \<open>json.dumps\<close> writes only up to the runtime's limit of digits.\<close>

primrec ints_printable :: "json \<Rightarrow> bool" where
  "ints_printable JNull \<longleftrightarrow> True"
| "ints_printable (JBool b) \<longleftrightarrow> True"
| "ints_printable (JInt i) \<longleftrightarrow> length (show_nat (nat \<bar>i\<bar>)) \<le> MAX_STR_DIGITS"
| "ints_printable (JFloat q) \<longleftrightarrow> True"
| "ints_printable (JStr s) \<longleftrightarrow> True"
| "ints_printable (JArr xs) \<longleftrightarrow> list_all (\<lambda>b. b) (map ints_printable xs)"
| "ints_printable (JObj kvs) \<longleftrightarrow> list_all (\<lambda>kb. snd kb) (map (map_prod id ints_printable) kvs)"

definition newline :: char where "newline = CHR 0x0A"

definition encode_frame :: "float_io \<Rightarrow> int \<Rightarrow> frame \<Rightarrow> string res" where
  "encode_frame io max_size f =
     bindE (checkE (0 < max_size) (ProtocolValidationError ''max_frame_size must be positive'')) (\<lambda>_.
     bindE (checkE (ints_printable (frame_to_dict f)) (ProtocolValidationError ''frame is not safely serializable: '')) (\<lambda>_.
     let encoded = utf8 (json_raw (fl_repr io) (canon (frame_to_dict f))) @ [newline] in
     if max_size < int (length encoded) then Inl (FrameTooLargeError ''frame is larger than the maximum'')
     else Inr encoded))"

definition frame_hooks :: json_hooks where
  "frame_hooks =
     \<lparr>jh_constant = ProtocolValidationError ''non-finite JSON number is not allowed: '',
      jh_repeated = ProtocolValidationError ''duplicate JSON object key: ''\<rparr>"

text \<open>What a caller may pass as a frame: bytes, text, or neither.\<close>

datatype wire = Bytes string | Chars string | NoText

definition wire_bytes :: "wire \<Rightarrow> string res" where
  "wire_bytes w = (case w of
     Chars s \<Rightarrow> Inr (utf8 s) | Bytes b \<Rightarrow> Inr b | NoText \<Rightarrow> invalid ''frame must be bytes or string'')"

definition strip_line_end :: "string \<Rightarrow> string" where
  "strip_line_end s =
     (if suffix [CHR 0x0D, newline] s then butlast (butlast s) else if suffix [newline] s then butlast s else s)"

definition load_frame_text :: "float_io \<Rightarrow> string \<Rightarrow> py res" where
  "load_frame_text io s = (case json_loads frame_hooks io s of
     Inl (JSONDecodeError m) \<Rightarrow> invalid ''invalid JSON frame: ''
   | Inl (RecursionError m) \<Rightarrow> invalid ''invalid JSON frame: ''
   | r \<Rightarrow> r)"

text \<open>The lookup of the frame type in the table of factories: a list or an object is no dictionary key.\<close>

definition frame_from_dict :: "json_dict \<Rightarrow> frame res" where
  "frame_from_dict data = (case item ''type'' data of
     JArr xs \<Rightarrow> Inl (TypeError ''unhashable type'')
   | JObj kvs \<Rightarrow> Inl (TypeError ''unhashable type'')
   | JStr t \<Rightarrow>
       if t = ''handshake'' then bindE (handshake_from_dict data) (\<lambda>h. Inr (Handshake h))
       else if t = ''handshake_response'' then bindE (handshake_response_from_dict data) (\<lambda>h. Inr (HandshakeResponse h))
       else if t = ''request'' then bindE (request_from_dict data) (\<lambda>r. Inr (Request r))
       else if t = ''response'' then bindE (response_from_dict data) (\<lambda>r. Inr (Response r))
       else invalid ''unknown frame type: ''
   | _ \<Rightarrow> invalid ''unknown frame type: '')"

definition decode_frame :: "float_io \<Rightarrow> wire \<Rightarrow> int \<Rightarrow> bool \<Rightarrow> frame res" where
  "decode_frame io w max_size refuse_major_mismatch =
     bindE (checkE (0 < max_size) (ProtocolValidationError ''max_frame_size must be positive'')) (\<lambda>_.
     bindE (wire_bytes w) (\<lambda>raw.
     bindE (checkE (int (length raw) \<le> max_size) (FrameTooLargeError ''frame is larger than the maximum'')) (\<lambda>_.
     bindE (case utf8_strict raw of
         Inl (UnicodeDecodeError m) \<Rightarrow> invalid ''frame is not valid UTF-8'' | r \<Rightarrow> r) (\<lambda>decoded.
     let line = strip_line_end decoded in
     bindE (checkE (line \<noteq> [] \<and> newline \<notin> set line \<and> CHR 0x0D \<notin> set line)
       (ProtocolValidationError ''input must contain exactly one JSON-lines frame'')) (\<lambda>_.
     bindE (load_frame_text io line) (\<lambda>v.
     bindE (bindE (validate_json ''frame'' 0 v) (\<lambda>j. mapping j ''frame'')) (\<lambda>data.
     bindE (frame_from_dict data) (\<lambda>f.
     bindE (if refuse_major_mismatch then require_compatible_major (frame_protocol f) PROTOCOL_MAJOR else Inr ()) (\<lambda>_.
     Inr f)))))))))"

end
