(* ===== verification/Daemon.thy ===== *)
theory Daemon
  imports Protocol
begin

text \<open>
  \<^verbatim>\<open>enfold/daemon.py\<close>: one client connection of the Unix-socket daemon, from the bytes that arrive
  to the frames that are sent.  The application behind the daemon is a parameter, a request handler
  and a health hook on a state of its own; so are the digest of the credentials and whether a send
  reaches the peer.  Binding, accepting, threads and shutdown are the operating system's; the lane
  that serialises mutations is the order in which the handler is called.
\<close>

section \<open>Configuration\<close>

definition READ_ONLY_METHODS :: "string list" where
  "READ_ONLY_METHODS = [''memory.search'', ''memory.context'', ''memory.evidence'', ''memory.history'', ''memory.changes'',
     ''memory.timeline'', ''memory.entities'', ''memory.entity'', ''memory.conflicts'']"

definition EXTRACTION_ENQUEUE_VALIDATION_ERRORS :: "string list" where
  "EXTRACTION_ENQUEUE_VALIDATION_ERRORS =
    [''transcript, source, and scope must be non-empty'',
     ''extraction scope must be present in context access scopes'',
     ''extraction metadata must contain JSON values'',
     ''canonical extraction payload exceeds size limit'']"

record daemon_config =
  dc_version :: string
  dc_schema :: int
  dc_capabilities :: "string list"
  dc_max_bytes :: int
  dc_client_timeout :: rat
  dc_shutdown_timeout :: rat
  dc_handler_timeout :: rat
  dc_backlog :: int
  dc_credentials :: "(string \<times> string) list"

text \<open>\<open>bytes.fromhex\<close> succeeds: pairs of hexadecimal digits, white space between them.\<close>

fun from_hex :: "string \<Rightarrow> bool" where
  "from_hex [] \<longleftrightarrow> True"
| "from_hex [c] \<longleftrightarrow> code c \<in> {9, 10, 11, 12, 13, 32}"
| "from_hex (c # d # r) \<longleftrightarrow>
     (if code c \<in> {9, 10, 11, 12, 13, 32} then from_hex (d # r)
      else hex_val c \<noteq> None \<and> hex_val d \<noteq> None \<and> from_hex r)"

definition credential_digest :: "string \<Rightarrow> bool" where
  "credential_digest digest \<longleftrightarrow> length digest = 71 \<and> prefix ''sha256:'' digest \<and> from_hex (drop 7 digest)"

fun credential_table :: "(string \<times> string) list \<Rightarrow> (string \<times> string) list \<Rightarrow> (string \<times> string) list res" where
  "credential_table acc [] = Inr acc"
| "credential_table acc ((client, digest) # rest) =
     bindE (checkE (strip client \<noteq> []) (ValueError ''client credential IDs must not be empty'')) (\<lambda>_.
     bindE (checkE (credential_digest digest) (ValueError ''client credentials must be sha256 digests'')) (\<lambda>_.
     credential_table (dict_set (strip client) (lower digest) acc) rest))"

definition make_daemon_config :: "daemon_config \<Rightarrow> daemon_config res" where
  "make_daemon_config c =
     bindE (checkE (strip (dc_version c) \<noteq> []) (ValueError ''server_version must not be empty'')) (\<lambda>_.
     bindE (checkE (0 \<le> dc_schema c) (ValueError ''schema_version must not be negative'')) (\<lambda>_.
     bindE (checkE (512 \<le> dc_max_bytes c) (ValueError ''max_frame_bytes must be at least 512'')) (\<lambda>_.
     bindE (checkE (0 < dc_client_timeout c \<and> 0 < dc_shutdown_timeout c \<and> 0 < dc_handler_timeout c)
       (ValueError ''timeouts must be positive'')) (\<lambda>_.
     bindE (checkE (0 < dc_backlog c) (ValueError ''backlog must be positive'')) (\<lambda>_.
     bindE (credential_table [] (dc_credentials c)) (\<lambda>credentials.
     bindE (checkE (distinct (map snd credentials)) (ValueError ''client credentials must be unique per client'')) (\<lambda>_.
     Inr (c\<lparr>dc_credentials := credentials\<rparr>))))))))"

section \<open>The connection\<close>

text \<open>What running the application on a request ends in; \<open>Late\<close> is a handler past its deadline.\<close>

datatype answer = Answer py | Raises error | Late

record 'a application =
  ap_handler :: "client_context \<Rightarrow> request \<Rightarrow> 'a \<Rightarrow> answer \<times> 'a"
  ap_health :: "(client_context \<Rightarrow> 'a \<Rightarrow> answer \<times> 'a) option"
  ap_digest :: "string \<Rightarrow> string"
  ap_floats :: float_io
  ap_arrives :: "nat \<Rightarrow> bool"

text \<open>The application's state, the frames sent, and how many sends were tried.\<close>

record 'a link =
  lk_app :: 'a
  lk_sent :: "string list"
  lk_tries :: nat

record negotiated =
  nc_context :: client_context
  nc_capabilities :: "string list"
  nc_protocol :: version
  nc_schema :: int

text \<open>Code that may raise and keeps its state when it does.\<close>

type_synonym ('a, 'b) run = "'a link \<Rightarrow> (error + 'b) \<times> 'a link"

definition retR :: "'b \<Rightarrow> ('a, 'b) run" where
  "retR b = (\<lambda>s. (Inr b, s))"

definition liftR :: "'b res \<Rightarrow> ('a, 'b) run" where
  "liftR m = (\<lambda>s. (m, s))"

definition bindR :: "('a, 'b) run \<Rightarrow> ('b \<Rightarrow> ('a, 'c) run) \<Rightarrow> ('a, 'c) run" where
  "bindR m f = (\<lambda>s. case m s of (Inl e, t) \<Rightarrow> (Inl e, t) | (Inr b, t) \<Rightarrow> f b t)"

section \<open>Sending\<close>

definition handshake_refusal :: "daemon_config \<Rightarrow> string \<Rightarrow> string \<Rightarrow> handshake_response res" where
  "handshake_refusal cfg err_code message =
     bindE (plain_error err_code message) (\<lambda>e.
     make_handshake_response (JBool False) (texts []) (JStr (dc_version cfg)) (Some e) this_version (JInt (dc_schema cfg)))"

definition error_response :: "daemon_config \<Rightarrow> string \<Rightarrow> string \<Rightarrow> string \<Rightarrow> response res" where
  "error_response cfg request_id err_code message =
     bindE (plain_error err_code message) (\<lambda>e.
     make_response (JStr request_id) (JBool False) PNone (Some e) this_version (JInt (dc_schema cfg)))"

definition sendall :: "'a application \<Rightarrow> string \<Rightarrow> ('a, bool) run" where
  "sendall app bytes = (\<lambda>s.
     if ap_arrives app (lk_tries s) then (Inr True, s\<lparr>lk_sent := lk_sent s @ [bytes], lk_tries := Suc (lk_tries s)\<rparr>)
     else (Inr False, s\<lparr>lk_tries := Suc (lk_tries s)\<rparr>))"

definition fallback_frame :: "daemon_config \<Rightarrow> frame \<Rightarrow> frame res" where
  "fallback_frame cfg message = (case message of
     Response r \<Rightarrow> bindE (error_response cfg (rs_id r) ''response_too_large'' ''response too large'') (\<lambda>r. Inr (Response r))
   | _ \<Rightarrow> bindE (handshake_refusal cfg ''response_too_large'' ''response too large'') (\<lambda>h. Inr (HandshakeResponse h)))"

definition send :: "daemon_config \<Rightarrow> 'a application \<Rightarrow> frame \<Rightarrow> ('a, bool) run" where
  "send cfg app message = (case encode_frame (ap_floats app) (dc_max_bytes cfg) message of
     Inr bytes \<Rightarrow> sendall app bytes
   | Inl (FrameTooLargeError m) \<Rightarrow>
       bindR (liftR (fallback_frame cfg message)) (\<lambda>fallback.
       case encode_frame (ap_floats app) (dc_max_bytes cfg) fallback of
         Inr bytes \<Rightarrow> sendall app bytes | Inl e \<Rightarrow> retR False)
   | Inl e \<Rightarrow> retR False)"

definition send_response_error :: "daemon_config \<Rightarrow> 'a application \<Rightarrow> string \<Rightarrow> string \<Rightarrow> string \<Rightarrow> ('a, bool) run" where
  "send_response_error cfg app request_id err_code message =
     bindR (liftR (error_response cfg request_id err_code message)) (\<lambda>r. send cfg app (Response r))"

definition send_protocol_error :: "daemon_config \<Rightarrow> 'a application \<Rightarrow> negotiated option \<Rightarrow> string \<Rightarrow> string \<Rightarrow> ('a, bool) run" where
  "send_protocol_error cfg app connection err_code message = (case connection of
     None \<Rightarrow> bindR (liftR (handshake_refusal cfg err_code message)) (\<lambda>h. send cfg app (HandshakeResponse h))
   | Some c \<Rightarrow> send_response_error cfg app ''invalid'' err_code message)"

section \<open>Negotiation\<close>

definition negotiate :: "daemon_config \<Rightarrow> (string \<Rightarrow> string) \<Rightarrow> handshake \<Rightarrow> (handshake_response \<times> negotiated option) res" where
  "negotiate cfg digest h =
     bindE (negotiate_handshake h (JStr (dc_version cfg)) (texts (dc_capabilities cfg)) (JInt (dc_schema cfg))) (\<lambda>response.
     let refuse = (\<lambda>err_code message. bindE (handshake_refusal cfg err_code message) (\<lambda>r. Inr (r, None))) in
     if \<not> hr_accepted response then Inr (response, None)
     else if PROTOCOL_MINOR < pv_minor (hs_protocol h) then
       refuse ''incompatible_protocol_minor'' (''client minor '' @ show_int (pv_minor (hs_protocol h)) @ ''; server minor '' @ show_int PROTOCOL_MINOR)
     else if hs_schema h \<noteq> dc_schema cfg then
       refuse ''incompatible_schema'' (''client schema '' @ show_int (hs_schema h) @ ''; server schema '' @ show_int (dc_schema cfg))
     else
       let expected = map_of (dc_credentials cfg) (cc_client (hs_context h));
           actual = (case hs_credential h of None \<Rightarrow> [] | Some supplied \<Rightarrow> ''sha256:'' @ digest (utf8 supplied)) in
       if dc_credentials cfg \<noteq> [] \<and> (expected = None \<or> expected \<noteq> Some actual)
       then refuse ''invalid_client_credentials'' ''client identity credentials were not accepted''
       else Inr (response, Some \<lparr>nc_context = hs_context h, nc_capabilities = hr_capabilities response,
                                nc_protocol = hs_protocol h, nc_schema = hs_schema h\<rparr>))"

definition request_incompatibility :: "negotiated \<Rightarrow> request \<Rightarrow> (string \<times> string) option" where
  "request_incompatibility c r =
     (if rm_protocol r \<noteq> nc_protocol c
      then Some (''connection_protocol_changed'', ''request protocol differs from the accepted handshake'')
      else if rm_schema r \<noteq> nc_schema c
      then Some (''connection_schema_changed'', ''request schema differs from the accepted handshake'')
      else None)"

section \<open>Running a request\<close>

text \<open>\<open>isinstance(exc, ValueError)\<close>, and \<open>str(exc)\<close> of such an exception.\<close>

definition value_error_text :: "error \<Rightarrow> string option" where
  "value_error_text e = (case e of
     ValueError m \<Rightarrow> Some m | IdempotencyConflict m \<Rightarrow> Some m | ClientIdentityConflict m \<Rightarrow> Some m
   | SessionContextConflict m \<Rightarrow> Some m | JSONDecodeError m \<Rightarrow> Some m | UnicodeDecodeError m \<Rightarrow> Some m
   | ProtocolValidationError m \<Rightarrow> Some m | FrameTooLargeError m \<Rightarrow> Some m | ProtocolVersionMismatch m \<Rightarrow> Some m
   | ServerConfigError m \<Rightarrow> Some m | ExtractionContractError m \<Rightarrow> Some m | PermanentExtractionError m \<Rightarrow> Some m
   | _ \<Rightarrow> None)"

text \<open>\<open>result.update(extension)\<close> and the fields a hook cannot override.\<close>

definition health_result :: "daemon_config \<Rightarrow> 'a application \<Rightarrow> client_context \<Rightarrow> 'a \<Rightarrow> answer \<times> 'a" where
  "health_result cfg app ctx a =
     (let fixed = [(Some ''service_version'', PStr (dc_version cfg)), (Some ''protocol'', py_of (version_to_dict this_version)),
                   (Some ''schema_version'', PInt (dc_schema cfg))];
          result = (Some ''status'', PStr ''ok'') # fixed;
          update = fold (\<lambda>kv acc. dict_set (fst kv) (snd kv) acc) in
      case ap_health app of
        None \<Rightarrow> (Answer (PDict result), a)
      | Some hook \<Rightarrow> (case hook ctx a of
            (Answer (PDict extension), b) \<Rightarrow> (Answer (PDict (update fixed (update extension result))), b)
          | (Answer v, b) \<Rightarrow> (Raises (TypeError ''health hook must return a mapping''), b)
          | (ans, b) \<Rightarrow> (ans, b)))"

definition failure_of :: "string \<Rightarrow> error \<Rightarrow> string \<times> string" where
  "failure_of method e = (case e of
     RequestHandlingError c m \<Rightarrow> (c, m)
   | _ \<Rightarrow> (case value_error_text e of
       Some m \<Rightarrow>
         if method = ''memory.extraction.enqueue'' \<and> m \<in> set EXTRACTION_ENQUEUE_VALIDATION_ERRORS
         then (''invalid_params'', m) else (''internal_error'', ''request handler failed'')
     | None \<Rightarrow> (''internal_error'', ''request handler failed'')))"

definition run_request :: "daemon_config \<Rightarrow> 'a application \<Rightarrow> negotiated \<Rightarrow> request \<Rightarrow> ('a, response) run" where
  "run_request cfg app c r = (\<lambda>s.
     let (ans, a) = (if rm_method r = ''health'' then health_result cfg app (nc_context c) (lk_app s)
                     else ap_handler app (nc_context c) r (lk_app s));
         outcome = (case ans of
             Answer v \<Rightarrow> make_response (JStr (rm_id r)) (JBool True) v None this_version (JInt (dc_schema cfg))
           | Raises e \<Rightarrow> Inl e
           | Late \<Rightarrow> Inl (RequestHandlingError ''request_timeout'' ''request handler exceeded deadline'')) in
     (case outcome of
        Inr response \<Rightarrow> Inr response
      | Inl e \<Rightarrow> (case failure_of (rm_method r) e of (err_code, message) \<Rightarrow> error_response cfg (rm_id r) err_code message),
      s\<lparr>lk_app := a\<rparr>))"

section \<open>Frames and the loop\<close>

definition handle_frame :: "daemon_config \<Rightarrow> 'a application \<Rightarrow> string \<Rightarrow> negotiated option \<Rightarrow> ('a, bool \<times> negotiated option) run" where
  "handle_frame cfg app bytes connection =
     (case decode_frame (ap_floats app) (Bytes bytes) (dc_max_bytes cfg) False of
        Inl e \<Rightarrow>
          (case e of
             ProtocolValidationError m \<Rightarrow> bindR (send_protocol_error cfg app connection ''invalid_frame'' m) (\<lambda>_. retR (False, connection))
           | FrameTooLargeError m \<Rightarrow> bindR (send_protocol_error cfg app connection ''invalid_frame'' m) (\<lambda>_. retR (False, connection))
           | ProtocolVersionMismatch m \<Rightarrow> bindR (send_protocol_error cfg app connection ''invalid_frame'' m) (\<lambda>_. retR (False, connection))
           | _ \<Rightarrow> liftR (Inl e))
      | Inr decoded \<Rightarrow> (case connection of
          None \<Rightarrow> (case decoded of
              Handshake h \<Rightarrow>
                bindR (liftR (negotiate cfg (ap_digest app) h)) (\<lambda>(response, negotiated).
                bindR (send cfg app (HandshakeResponse response)) (\<lambda>sent.
                retR (sent \<and> hr_accepted response, negotiated)))
            | _ \<Rightarrow>
                bindR (send_protocol_error cfg app None ''handshake_required'' ''the first connection frame must be a handshake'') (\<lambda>_.
                retR (False, None)))
        | Some c \<Rightarrow> (case decoded of
              Request r \<Rightarrow> (case request_incompatibility c r of
                  Some (err_code, message) \<Rightarrow>
                    bindR (send_response_error cfg app (rm_id r) err_code message) (\<lambda>_. retR (False, connection))
                | None \<Rightarrow>
                    bindR (liftR (required_capability (JStr (rm_method r)))) (\<lambda>capability.
                    if capability \<notin> set (nc_capabilities c) then
                      bindR (send_response_error cfg app (rm_id r) ''capability_not_negotiated''
                        (''method requires negotiated capability: '' @ capability)) (\<lambda>_. retR (True, connection))
                    else
                      bindR (run_request cfg app c r) (\<lambda>response.
                      bindR (send cfg app (Response response)) (\<lambda>sent. retR (sent, connection)))))
            | _ \<Rightarrow>
                bindR (send_protocol_error cfg app connection ''request_required''
                  ''only request frames are allowed after handshake'') (\<lambda>_. retR (False, connection)))))"

text \<open>
  The frames complete in the buffer, one after the other: the result is \<open>None\<close> when the connection is
  closed, otherwise the rest of the buffer and the connection.
\<close>

function drain :: "daemon_config \<Rightarrow> 'a application \<Rightarrow> string \<Rightarrow> negotiated option \<Rightarrow> ('a, (string \<times> negotiated option) option) run" where
  "drain cfg app buf connection =
     (let line = takeWhile (\<lambda>c. c \<noteq> newline) buf in
      if length line = length buf then
        (if dc_max_bytes cfg < int (length buf) then
           bindR (send_protocol_error cfg app connection ''frame_too_large'' ''request frame exceeds configured limit'') (\<lambda>_. retR None)
         else retR (Some (buf, connection)))
      else if dc_max_bytes cfg < int (length line) then
        bindR (send_protocol_error cfg app connection ''frame_too_large'' ''request frame exceeds configured limit'') (\<lambda>_. retR None)
      else
        bindR (handle_frame cfg app line connection) (\<lambda>(keep_open, connection').
        if keep_open then drain cfg app (drop (Suc (length line)) buf) connection' else retR None))"
  by auto

termination
proof (relation "measure (\<lambda>(cfg, app, buf, connection). length buf)")
  fix cfg :: daemon_config and app :: "'a application" and buf line :: string and connection connection' :: "negotiated option"
    and x :: "bool \<times> negotiated option" and keep_open
  assume "line = takeWhile (\<lambda>c. c \<noteq> newline) buf" "length line \<noteq> length buf"
  then have "buf \<noteq> []" by auto
  then show "((cfg, app, drop (Suc (length line)) buf, connection'), cfg, app, buf, connection) \<in> measure (\<lambda>(cfg, app, buf, connection). length buf)"
    by simp
qed simp

text \<open>What \<open>recv\<close> returns.  An empty chunk is the end of the stream.\<close>

datatype received = Chunk string | TimedOut | Lost

fun serve_client :: "daemon_config \<Rightarrow> 'a application \<Rightarrow> received list \<Rightarrow> string \<Rightarrow> negotiated option \<Rightarrow> ('a, unit) run" where
  "serve_client cfg app [] buf connection = retR ()"
| "serve_client cfg app (TimedOut # rest) buf connection =
     bindR (send_protocol_error cfg app connection ''request_timeout'' ''request timed out'') (\<lambda>_. retR ())"
| "serve_client cfg app (Lost # rest) buf connection = retR ()"
| "serve_client cfg app (Chunk chunk # rest) buf connection =
     (if chunk = [] then retR () else
      bindR (drain cfg app (buf @ chunk) connection) (\<lambda>r. case r of
        None \<Rightarrow> retR () | Some (buf', connection') \<Rightarrow> serve_client cfg app rest buf' connection'))"

end
