(* ===== verification/JsonFacts.thy ===== *)
theory JsonFacts
  imports JsonText
begin

text \<open>
  What the JSON reader promises: its counter never runs out, it accepts exactly what the printer
  writes as the value that was printed, and strict UTF-8 decoding inverts encoding.
\<close>

section \<open>The reader terminates\<close>

lemma length_skip_ws: "length (skip_ws s) \<le> length s"
  by (simp add: skip_ws_def length_dropWhile_le)

lemma skip_ws_Cons_length: "skip_ws s = c # r \<Longrightarrow> length r < length s"
  using length_skip_ws [of s] by simp

lemma scan_string_shorter: "scan_string s = Inr (t, r) \<Longrightarrow> length r < length s"
  by (induction s arbitrary: t r rule: scan_string.induct)
    (fastforce simp: bindE_Inr_iff split: if_splits option.splits list.splits)+

lemma scan_string_no_fuel: "scan_string s \<noteq> Inl (RecursionError m)"
  by (induction s rule: scan_string.induct)
    (auto simp: bindE_Inl_iff split: if_splits option.splits list.splits)

fun text_error :: "error \<Rightarrow> bool" where
  "text_error WideText \<longleftrightarrow> True"
| "text_error (JSONDecodeError m) \<longleftrightarrow> True"
| "text_error e \<longleftrightarrow> False"

lemma scan_string_step:
  assumes "code c \<noteq> 34" "scan_string (c # cs) = Inl e" "\<not> text_error e"
  shows "\<exists>r. length r < length (c # cs) \<and> scan_string r = Inl e"
proof (cases "code c = 92")
  case True
  then show ?thesis
  proof (cases cs)
    case (Cons x r)
    show ?thesis
    proof (cases "code x = 117")
      case u: True
      show ?thesis
      proof (cases "4 \<le> length r")
        case True
        then obtain h1 h2 h3 h4 r' where r: "r = h1 # h2 # h3 # h4 # r'"
          by (auto simp: numeral_eq_Suc Suc_le_length_iff)
        with assms \<open>code c = 92\<close> Cons u show ?thesis
          by (intro exI [of _ r']) (auto simp: bindE_Inl_iff split: option.splits if_splits)
      next
        case False
        with assms \<open>code c = 92\<close> Cons u show ?thesis by (auto split: list.splits)
      qed
    next
      case False
      with assms \<open>code c = 92\<close> Cons show ?thesis
        by (intro exI [of _ r]) (auto simp: bindE_Inl_iff split: option.splits)
    qed
  qed (use assms in auto)
next
  case False
  with assms show ?thesis by (intro exI [of _ cs]) (auto simp: bindE_Inl_iff split: if_splits)
qed

lemma scan_string_error: "scan_string s = Inl e \<Longrightarrow> text_error e"
proof (induction s rule: length_induct)
  case (1 s)
  show ?case
  proof (cases s)
    case (Cons c cs)
    with 1 scan_string_step [of c cs e] show ?thesis by (cases "code c = 34") (simp, blast)
  qed (use 1 in auto)
qed

lemma scan_fraction_shorter: "scan_fraction s = (f, r) \<Longrightarrow> length r \<le> length s"
  by (auto simp: scan_fraction_def Let_def split: if_splits)

lemma scan_exponent_shorter: "scan_exponent s = (f, r) \<Longrightarrow> length r \<le> length s"
  by (auto simp: scan_exponent_def Let_def split: list.splits if_splits)

lemma scan_numeral_shorter:
  assumes "scan_numeral s = (neg, whole, dec, expo, r)" "whole \<noteq> []"
  shows "length r < length s"
proof -
  define u where "u = (if take 1 s = ''-'' then drop 1 s else s)"
  define w where "w = (if take 1 (takeWhile is_digit u) = ''0'' then ''0'' else takeWhile is_digit u)"
  obtain f r1 where f: "scan_fraction (drop (length w) u) = (f, r1)" by fastforce
  obtain e r2 where e: "scan_exponent r1 = (e, r2)" by fastforce
  from assms(1) have "whole = w" "r = r2"
    by (simp_all only: scan_numeral_def Let_def u_def [symmetric] w_def [symmetric] f e prod.case prod.inject)
  with assms(2) have "w \<noteq> []" by simp
  then have ne: "u \<noteq> []" by (cases u) (simp_all add: w_def)
  have "length r2 \<le> length (drop (length w) u)"
    using scan_fraction_shorter [OF f] scan_exponent_shorter [OF e] by (rule order_trans [rotated])
  also have "\<dots> < length u" using \<open>w \<noteq> []\<close> ne by (simp only: length_drop) (metis diff_less length_greater_0_conv)
  also have "\<dots> \<le> length s" by (simp add: u_def)
  finally show ?thesis using \<open>r = r2\<close> by simp
qed

lemma scan_number_shorter: "scan_number io s = Inr (v, r) \<Longrightarrow> length r < length s"
  by (cases "scan_numeral s") (auto simp: scan_number_def dest: scan_numeral_shorter split: if_splits option.splits)

lemma scan_number_no_fuel: "scan_number io s \<noteq> Inl (RecursionError m)"
  by (simp add: scan_number_def split: prod.split option.split)

lemma after_shorter: "after w s = Some r \<Longrightarrow> w \<noteq> [] \<Longrightarrow> length r < length s"
  by (cases s) (auto simp: after_def split: if_splits)

lemma scan_name_result:
  "scan_name hooks s = Some (Inr (v, r)) \<Longrightarrow> \<exists>w. w \<noteq> [] \<and> after w s = Some r"
  unfolding scan_name_def by (simp split: option.splits if_split_asm) blast+

lemma scan_name_shorter: "scan_name hooks s = Some (Inr (v, r)) \<Longrightarrow> length r < length s"
  using scan_name_result after_shorter by blast

text \<open>A scan that did not run out of fuel, and consumed something of a text of length \<open>l\<close>.\<close>

definition good :: "nat \<Rightarrow> ('a \<times> string) res \<Rightarrow> bool" where
  "good l m \<longleftrightarrow> (case m of Inl e \<Rightarrow> \<forall>t. e \<noteq> RecursionError t | Inr (v, r) \<Rightarrow> length r < l)"

lemma good_simps [simp]:
  "good l (Inr (v, r)) \<longleftrightarrow> length r < l"
  "good l (Inl e) \<longleftrightarrow> (\<forall>t. e \<noteq> RecursionError t)"
  by (simp_all add: good_def)

lemma good_bind:
  "good l' m \<Longrightarrow> (\<And>v r. length r < l' \<Longrightarrow> good l (f (v, r))) \<Longrightarrow> good l (bindE m f)"
  by (cases m) (fastforce simp: good_def)+

lemma good_string: "good (length s) (scan_string s)"
  unfolding good_def using scan_string_shorter scan_string_no_fuel by (auto split: sum.split)

lemma good_number: "good (length s) (scan_number io s)"
  unfolding good_def using scan_number_shorter scan_number_no_fuel by (auto split: sum.split)

definition plain_hooks :: "json_hooks \<Rightarrow> bool" where
  "plain_hooks hooks \<longleftrightarrow> (\<forall>t. jh_constant hooks \<noteq> RecursionError t \<and> jh_repeated hooks \<noteq> RecursionError t)"

lemma good_name: "plain_hooks hooks \<Longrightarrow> scan_name hooks s = Some m \<Longrightarrow> good (length s) m"
  unfolding scan_name_def plain_hooks_def
  by (simp split: option.splits if_split_asm) (auto dest: after_shorter)

lemma good_token: "good (length s) (token w s)"
  using length_skip_ws [of s] by (auto simp: token_def split: list.split)

lemma skip_less: "length r < l \<Longrightarrow> length (skip_ws r) < l"
  using length_skip_ws [of r] by (rule le_less_trans)

lemma good_le: "good l m \<Longrightarrow> l \<le> l' \<Longrightarrow> good l' m"
  by (auto simp: good_def split: sum.splits)

lemma take_one: "take 1 s = [c] \<Longrightarrow> length (drop 1 s) < length s"
  by (cases s) simp_all

lemma scan_good:
  assumes hooks: "plain_hooks hooks"
  shows "(\<forall>s. 2 * length s + 1 \<le> n \<longrightarrow> good (length s) (scan_value hooks io n s))
    \<and> (\<forall>s. 2 * length s + 2 \<le> n \<longrightarrow> good (length s) (scan_elements hooks io n s))
    \<and> (\<forall>s. 2 * length s + 2 \<le> n \<longrightarrow> good (length s) (scan_members hooks io n s))"
proof (induction n)
  case (Suc n)
  then have V: "\<And>s. 2 * length s + 1 \<le> n \<Longrightarrow> good (length s) (scan_value hooks io n s)"
    and E: "\<And>s. 2 * length s + 2 \<le> n \<Longrightarrow> good (length s) (scan_elements hooks io n s)"
    and M: "\<And>s. 2 * length s + 2 \<le> n \<Longrightarrow> good (length s) (scan_members hooks io n s)" by blast+
  have val: "good (length s) (scan_value hooks io (Suc n) s)" if n: "2 * length s + 1 \<le> Suc n" for s
  proof (cases "s = []")
    case False
    then have one: "length (drop 1 s) < length s" by simp
    then have two: "length (skip_ws (drop 1 s)) < length s" by (rule skip_less)
    have "2 * length (skip_ws (drop 1 s)) + 2 \<le> n" using n two by linarith
    note E [OF this] M [OF this]
    then show ?thesis using hooks good_name [OF hooks] good_number one two n
      by (auto simp del: drop_Suc_Cons simp: plain_hooks_def intro!: good_bind [OF good_string] good_bind split: option.split)
  qed (simp add: scan_name_def after_def scan_number_def scan_numeral_def scan_fraction_def scan_exponent_def)
  have elements: "good (length s) (scan_elements hooks io (Suc n) s)" if n: "2 * length s + 2 \<le> Suc n" for s
    unfolding scan_elements.simps
  proof (rule good_bind [OF V], goal_cases)
    case (2 v r)
    then have "good (length s) (bindE (token ''a comma'' r) (\<lambda>(c, r').
       if c = CHR '','' then bindE (scan_elements hooks io n (skip_ws r')) (\<lambda>(vs, t). Inr (v # vs, t))
       else if c = CHR '']'' then Inr ([v], r')
       else Inl (JSONDecodeError ''Expecting a comma'')))"
    proof (intro good_bind [OF good_token], goal_cases)
      case (1 c r')
      then have "length (skip_ws r') < length r" by (simp add: skip_less)
      with 1 n have "good (length (skip_ws r')) (scan_elements hooks io n (skip_ws r'))" by (intro E) simp
      then have "good (length s) (bindE (scan_elements hooks io n (skip_ws r')) (\<lambda>(vs, t). Inr (v # vs, t)))"
        using 1 \<open>length (skip_ws r') < length r\<close> by (auto intro: good_bind)
      with 1 show ?case by simp
    qed
    then show ?case by simp
  qed (use n in simp)
  have members: "good (length s) (scan_members hooks io (Suc n) s)" if n: "2 * length s + 2 \<le> Suc n" for s
  proof (cases "take 1 s = [CHR 0x22]")
    case True
    note s1 = take_one [OF True]
    have "good (length s) (bindE (scan_string (drop 1 s)) (\<lambda>(k, r).
      bindE (token ''a colon'' r) (\<lambda>(c, r1).
      if c \<noteq> CHR '':'' then Inl (JSONDecodeError ''Expecting a colon'') else
      bindE (scan_value hooks io n (skip_ws r1)) (\<lambda>(v, r2).
      bindE (token ''a comma'' r2) (\<lambda>(d, r3).
      if d = CHR '','' then bindE (scan_members hooks io n (skip_ws r3)) (\<lambda>(kvs, t). Inr ((k, v) # kvs, t))
      else if d = CHR ''}'' then Inr ([(k, v)], r3)
      else Inl (JSONDecodeError ''Expecting a comma''))))))"
    proof (rule good_bind [OF good_string], unfold prod.case, rule good_bind [OF good_token], unfold prod.case, goal_cases)
      case (1 k r c r1)
      then have r1: "length (skip_ws r1) + 1 < length s" using s1 skip_less [OF 1(2)] by simp
      have "good (length s) (bindE (scan_value hooks io n (skip_ws r1)) (\<lambda>(v, r2).
        bindE (token ''a comma'' r2) (\<lambda>(d, r3).
        if d = CHR '','' then bindE (scan_members hooks io n (skip_ws r3)) (\<lambda>(kvs, t). Inr ((k, v) # kvs, t))
        else if d = CHR ''}'' then Inr ([(k, v)], r3)
        else Inl (JSONDecodeError ''Expecting a comma''))))"
      proof (rule good_bind [OF V], goal_cases)
        case (2 v r2)
        have "good (length s) (bindE (token ''a comma'' r2) (\<lambda>(d, r3).
          if d = CHR '','' then bindE (scan_members hooks io n (skip_ws r3)) (\<lambda>(kvs, t). Inr ((k, v) # kvs, t))
          else if d = CHR ''}'' then Inr ([(k, v)], r3)
          else Inl (JSONDecodeError ''Expecting a comma'')))"
        proof (rule good_bind [OF good_token], unfold prod.case, goal_cases)
          case (1 d r3)
          then have r3: "length (skip_ws r3) < length r2" by (simp add: skip_less)
          with 2 r1 n have "good (length (skip_ws r3)) (scan_members hooks io n (skip_ws r3))" by (intro M) simp
          then have "good (length s) (bindE (scan_members hooks io n (skip_ws r3)) (\<lambda>(kvs, t). Inr ((k, v) # kvs, t)))"
            using 2 r1 r3 by (auto intro: good_bind)
          with 1 2 r1 show ?case by simp
        qed
        then show ?case by simp
      qed (use r1 n in simp)
      then show ?case by simp
    qed
    with True show ?thesis by simp
  qed simp
  from val elements members show ?case by blast
qed simp

text \<open>Reading never fails for want of fuel.\<close>

lemma json_loads_no_fuel:
  assumes "plain_hooks hooks"
  shows "json_loads hooks io s \<noteq> Inl (RecursionError t)"
proof -
  have "2 * length (skip_ws s) + 1 \<le> 2 * length s + 1" by (simp add: length_skip_ws)
  then have "good (length (skip_ws s)) (scan_value hooks io (2 * length s + 1) (skip_ws s))"
    using scan_good [OF assms] by blast
  then show ?thesis by (auto simp: json_loads_def good_def bindE_Inl_iff split: sum.splits if_splits)
qed

section \<open>Numbers\<close>

lemma digits_val_snoc: "digits_val (s @ [c]) = 10 * digits_val s + digit_val c"
  by (simp add: digits_val_def)

lemma show_nat_facts:
  "list_all is_digit (show_nat n) \<and> show_nat n \<noteq> [] \<and> digits_val (show_nat n) = int n \<and> (hd (show_nat n) = CHR ''0'' \<longrightarrow> n = 0)"
proof (induction n rule: show_nat.induct)
  case (1 n)
  have digit: "is_digit (char_of (48 + k))" "digit_val (char_of (48 + k)) = int k" if "k < 10" for k
    using that by (simp_all add: is_digit_def digit_val_def code_char_of)
  show ?case
  proof (cases "n < 10")
    case True
    have "char_of (48 + n) = CHR ''0'' \<Longrightarrow> n = 0"
      using True arg_cong [of "char_of (48 + n)" "CHR ''0''" code] code_char_of [of "48 + n"] by (simp add: code_def)
    with True digit [of n] show ?thesis by (subst (1 2 3 4) show_nat.simps) (simp add: digits_val_def)
  next
    case False
    with 1 have IH: "list_all is_digit (show_nat (n div 10))" "show_nat (n div 10) \<noteq> []" "digits_val (show_nat (n div 10)) = int (n div 10)"
      "hd (show_nat (n div 10)) = CHR ''0'' \<longrightarrow> n div 10 = 0" by auto
    have "show_nat n = show_nat (n div 10) @ [char_of (48 + n mod 10)]" using False by (subst show_nat.simps) simp
    moreover have "10 * int (n div 10) + int (n mod 10) = int n" by (metis mult_div_mod_eq of_nat_add of_nat_mult of_nat_numeral)
    ultimately show ?thesis using IH digit [of "n mod 10"] False by (auto simp: digits_val_snoc)
  qed
qed

lemma show_nat_zero: "show_nat 0 = ''0''"
  by code_simp

text \<open>What may follow a value in a text the printer writes.\<close>

definition stops :: "string \<Rightarrow> bool" where
  "stops s \<longleftrightarrow> take 1 s \<in> {[], '','', '']'', ''}''}"

lemma stopsE: "stops s \<Longrightarrow> (s = [] \<Longrightarrow> P) \<Longrightarrow> (\<And>c r. s = c # r \<Longrightarrow> c = CHR '','' \<or> c = CHR '']'' \<or> c = CHR ''}'' \<Longrightarrow> P) \<Longrightarrow> P"
  by (cases s) (auto simp: stops_def)

lemma takeWhile_digits_stop:
  assumes "stops rest"
  shows "takeWhile is_digit (u @ rest) = takeWhile is_digit u"
proof -
  have "takeWhile is_digit rest = []" using assms by (rule stopsE) (auto simp: is_digit_def code_def)
  then show ?thesis by (induction u) auto
qed

lemma fraction_stop:
  assumes "stops rest" "scan_fraction u = (f, r)"
  shows "scan_fraction (u @ rest) = (f, r @ rest)"
proof (cases u)
  case Nil
  with assms(2) have "f = []" "r = []" by (simp_all add: scan_fraction_def)
  with Nil assms(1) show ?thesis by (auto simp: scan_fraction_def elim: stopsE)
next
  case (Cons c cs)
  have "length (takeWhile is_digit cs) \<le> length cs" by (rule length_takeWhile_le)
  with assms(2) Cons show ?thesis
    by (auto simp: scan_fraction_def Let_def takeWhile_digits_stop [OF assms(1)] split: if_splits)
qed

lemma exponent_stop:
  assumes "stops rest" "scan_exponent u = (e, r)"
  shows "scan_exponent (u @ rest) = (e, r @ rest)"
proof (cases u)
  case Nil
  with assms(2) have "e = []" "r = []" by (simp_all add: scan_exponent_def)
  with Nil assms(1) show ?thesis by (auto simp: scan_exponent_def elim: stopsE)
next
  case (Cons c cs)
  define sign where "sign = takeWhile (\<lambda>c. c = CHR ''+'' \<or> c = CHR ''-'') (take 1 cs)"
  have same: "takeWhile (\<lambda>c. c = CHR ''+'' \<or> c = CHR ''-'') (take 1 (cs @ rest)) = sign"
    using assms(1) by (cases cs) (auto simp: sign_def elim: stopsE)
  have le: "length sign \<le> length cs" by (cases cs) (simp_all add: sign_def)
  have le2: "length (takeWhile is_digit (drop (length sign) cs)) \<le> length (drop (length sign) cs)" by (rule length_takeWhile_le)
  have "drop (length sign) (cs @ rest) = drop (length sign) cs @ rest" using le by simp
  note eq = this
  show ?thesis
  proof (cases "c = CHR ''e'' \<or> c = CHR ''E''")
    case True
    then have "scan_exponent (c # v) = (if takeWhile is_digit (drop (length sg) v) = [] then ([], c # v)
        else (c # sg @ takeWhile is_digit (drop (length sg) v), drop (length (takeWhile is_digit (drop (length sg) v))) (drop (length sg) v)))"
      if "sg = takeWhile (\<lambda>c. c = CHR ''+'' \<or> c = CHR ''-'') (take 1 v)" for v sg
      unfolding scan_exponent_def using that by (simp only: list.case Let_def if_True)
    note this [OF sign_def] this [OF same [symmetric]]
    with assms(2) le2 show ?thesis unfolding Cons append_Cons eq
      by (simp only: takeWhile_digits_stop [OF assms(1)]) (auto split: if_splits)
  qed (use assms(2) Cons in \<open>auto simp: scan_exponent_def\<close>)
qed

lemma scan_numeralI:
  assumes "u = (if take 1 s = ''-'' then drop 1 s else s)"
    and "w = (if take 1 (takeWhile is_digit u) = ''0'' then ''0'' else takeWhile is_digit u)"
    and "scan_fraction (drop (length w) u) = (f, r1)" "scan_exponent r1 = (e, r2)"
  shows "scan_numeral s = (take 1 s = ''-'', w, f, e, r2)"
  unfolding scan_numeral_def Let_def assms(1) [symmetric] assms(2) [symmetric] assms(3) prod.case assms(4) ..

lemma numeral_stop:
  assumes rest: "stops rest" and t: "scan_numeral t = (neg, whole, dec, expo, r)" and ne: "whole \<noteq> []"
  shows "scan_numeral (t @ rest) = (neg, whole, dec, expo, r @ rest)"
proof -
  define u where "u = (if take 1 t = ''-'' then drop 1 t else t)"
  define w where "w = (if take 1 (takeWhile is_digit u) = ''0'' then ''0'' else takeWhile is_digit u)"
  obtain f r1 where f: "scan_fraction (drop (length w) u) = (f, r1)" by fastforce
  obtain e r2 where e: "scan_exponent r1 = (e, r2)" by fastforce
  from t have eq: "neg = (take 1 t = ''-'')" "whole = w" "dec = f" "expo = e" "r = r2"
    by (simp_all only: scan_numeral_def Let_def u_def [symmetric] w_def [symmetric] f e prod.case prod.inject)
  with ne have "w \<noteq> []" by simp
  then have "t \<noteq> []" by (auto simp: w_def u_def)
  then have u: "(if take 1 (t @ rest) = ''-'' then drop 1 (t @ rest) else t @ rest) = u @ rest" "take 1 (t @ rest) = take 1 t"
    by (cases t; simp add: u_def)+
  have "take 1 (takeWhile is_digit u) = ''0'' \<Longrightarrow> length ''0'' \<le> length u" by (cases u) simp_all
  then have le: "length w \<le> length u" unfolding w_def using length_takeWhile_le [of is_digit u] by auto
  have w: "w = (if take 1 (takeWhile is_digit (u @ rest)) = ''0'' then ''0'' else takeWhile is_digit (u @ rest))"
    by (simp only: takeWhile_digits_stop [OF rest] w_def)
  have "scan_fraction (drop (length w) (u @ rest)) = (f, r1 @ rest)" using fraction_stop [OF rest f] le by simp
  from scan_numeralI [OF u(1) [symmetric] w this exponent_stop [OF rest e]] show ?thesis unfolding eq u(2) .
qed

text \<open>A text that \<open>float\<close> reads as one numeral with a fraction or an exponent.\<close>

definition float_numeral :: "string \<Rightarrow> bool" where
  "float_numeral t \<longleftrightarrow> (case scan_numeral t of (neg, whole, dec, expo, r) \<Rightarrow>
     whole \<noteq> [] \<and> (dec \<noteq> [] \<or> expo \<noteq> []) \<and> r = [] \<and> t = (if neg then ''-'' else []) @ whole @ dec @ expo)"

lemma scan_float:
  assumes "float_numeral t" "fl_read io t = Some q" "stops rest"
  shows "scan_number io (t @ rest) = Inr (PFloat q, rest)"
proof -
  obtain neg whole dec expo r where t: "scan_numeral t = (neg, whole, dec, expo, r)" by (metis prod_cases5)
  with assms(1) have "whole \<noteq> []" "dec \<noteq> [] \<or> expo \<noteq> []" "r = []" "(if neg then ''-'' else []) @ whole @ dec @ expo = t"
    by (simp_all add: float_numeral_def)
  with numeral_stop [OF assms(3) t] assms(2) show ?thesis unfolding scan_number_def by simp
qed

lemma scan_whole:
  assumes n: "length (show_nat n) \<le> MAX_STR_DIGITS" and rest: "stops rest"
  shows "scan_numeral (show_nat n @ rest) = (False, show_nat n, [], [], rest)"
    "scan_numeral (CHR ''-'' # show_nat n @ rest) = (True, show_nat n, [], [], rest)"
proof -
  note d = show_nat_facts [of n]
  then obtain c cs where cs: "show_nat n = c # cs" "is_digit c" by (cases "show_nat n") auto
  have c: "c \<noteq> CHR ''-''" using cs(2) by (auto simp: is_digit_def code_def)
  have tw: "takeWhile is_digit (show_nat n @ rest) = show_nat n"
    using d takeWhile_digits_stop [OF rest, of "show_nat n"] by (simp add: list_all_iff takeWhile_eq_all_conv)
  have w: "show_nat n = (if take 1 (takeWhile is_digit (show_nat n @ rest)) = ''0'' then ''0'' else takeWhile is_digit (show_nat n @ rest))"
    unfolding tw using d cs(1) show_nat_zero by auto
  have f: "scan_fraction rest = ([], rest)" "scan_exponent rest = ([], rest)"
    using fraction_stop [OF rest, of "[]" "[]" "[]"] exponent_stop [OF rest, of "[]" "[]" "[]"]
    by (simp_all add: scan_fraction_def scan_exponent_def)
  then have f1: "scan_fraction (drop (length (show_nat n)) (show_nat n @ rest)) = ([], rest)" by simp
  have t: "take 1 (show_nat n @ rest) \<noteq> ''-''" using cs c by simp
  show "scan_numeral (show_nat n @ rest) = (False, show_nat n, [], [], rest)"
    using scan_numeralI [OF _ w f1 f(2)] t by simp
  show "scan_numeral (CHR ''-'' # show_nat n @ rest) = (True, show_nat n, [], [], rest)"
    using scan_numeralI [OF _ w f1 f(2), of "CHR ''-'' # show_nat n @ rest"] by simp
qed

lemma scan_int:
  assumes "length (show_nat (nat \<bar>i\<bar>)) \<le> MAX_STR_DIGITS" "stops rest"
  shows "scan_number io (show_int i @ rest) = Inr (PInt i, rest)"
  using scan_whole [OF assms] show_nat_facts [of "nat \<bar>i\<bar>"] assms(1)
  by (auto simp: show_int_def scan_number_def)

section \<open>Strings\<close>

lemma hex_digit_val:
  assumes "n < 16"
  shows "hex_val (hex_digit n) = Some n"
proof -
  have "\<forall>n \<in> set [0..<16]. hex_val (hex_digit n) = Some n" by code_simp
  with assms show ?thesis by simp
qed

lemma scan_plain: "code c \<noteq> 34 \<Longrightarrow> code c \<noteq> 92 \<Longrightarrow> \<not> code c < 32
    \<Longrightarrow> scan_string (c # u) = bindE (scan_string u) (\<lambda>(s, t). Inr (c # s, t))"
  by simp

lemma scan_escape: "unescape e = Some x \<Longrightarrow> code e \<noteq> 117
    \<Longrightarrow> scan_string (CHR 0x5C # e # u) = bindE (scan_string u) (\<lambda>(s, t). Inr (x # s, t))"
  by (simp add: code_def)

lemma scan_unicode: "n < 256 \<Longrightarrow> hex4 a b c d = Some n
    \<Longrightarrow> scan_string (CHR 0x5C # CHR ''u'' # a # b # c # d # u) = bindE (scan_string u) (\<lambda>(s, t). Inr (char_of n # s, t))"
  by (simp add: code_def)

declare scan_string.simps(2) [simp del]

lemma char_of_code [simp]: "char_of (code c) = c"
  by (simp add: code_def)

lemma char_eq_code: "c = d \<longleftrightarrow> code c = code d"
  by (metis char_of_code)

lemma scan_json_char: "scan_string (json_char_raw c @ u) = bindE (scan_string u) (\<lambda>(s, t). Inr (c # s, t))"
proof -
  consider "code c \<in> {34, 92}" | "code c \<in> {8, 9, 10, 12, 13}" | "code c < 32" "code c \<notin> {8, 9, 10, 12, 13}"
    | "32 \<le> code c" "code c \<noteq> 34" "code c \<noteq> 92" by fastforce
  then show ?thesis
  proof cases
    case 1
    then have "json_char_raw c = [CHR 0x5C, c]"
      by (auto simp: json_char_raw_def json_char_def Let_def char_eq_code) (simp_all add: code_def)
    moreover have "unescape c = Some c" "code c \<noteq> 117" using 1 by (auto simp: unescape_def Let_def)
    ultimately show ?thesis using scan_escape by simp
  next
    case 2
    then have "c = char_of (code c)" "code c = 8 \<or> code c = 9 \<or> code c = 10 \<or> code c = 12 \<or> code c = 13" by simp_all
    then consider "c = char_of (8 :: nat)" | "c = char_of (9 :: nat)" | "c = char_of (10 :: nat)" | "c = char_of (12 :: nat)" | "c = char_of (13 :: nat)"
      by metis
    then obtain e where "json_char_raw c = [CHR 0x5C, e]" "unescape e = Some c" "code e \<noteq> 117"
      by cases (auto simp: json_char_raw_def json_char_def Let_def code_char_of unescape_def code_def)
    then show ?thesis using scan_escape by simp
  next
    case 3
    define n where "n = code c"
    have n: "n < 32" "c = char_of n" using 3 by (simp_all add: n_def)
    have "json_char_raw c = [CHR 0x5C, CHR ''u'', CHR ''0'', CHR ''0'', hex_digit (n div 16), hex_digit (n mod 16)]"
      using 3 by (simp add: json_char_raw_def json_char_def Let_def n_def)
    moreover have "hex4 (CHR ''0'') (CHR ''0'') (hex_digit (n div 16)) (hex_digit (n mod 16)) = Some n"
      using n(1) by (simp add: hex4_def hex_digit_val) (simp add: hex_val_def code_def Let_def)
    ultimately show ?thesis using scan_unicode n by simp
  next
    case 4
    then have "json_char_raw c = [c]" by (auto simp: json_char_raw_def json_char_def Let_def)
    with 4 scan_plain show ?thesis by simp
  qed
qed

lemma scan_quoted: "scan_string (concat (map json_char_raw s) @ CHR 0x22 # rest) = Inr (s, rest)"
proof (induction s)
  case Nil
  then show ?case by (simp add: scan_string.simps code_def)
next
  case (Cons c s)
  then show ?case by (simp add: scan_json_char)
qed

section \<open>Reading what was printed\<close>

text \<open>The values the printer can write and the reader return: the runtime's conditions on numbers, and distinct keys.\<close>

primrec printable :: "float_io \<Rightarrow> json \<Rightarrow> bool" where
  "printable io JNull \<longleftrightarrow> True"
| "printable io (JBool b) \<longleftrightarrow> True"
| "printable io (JInt i) \<longleftrightarrow> length (show_nat (nat \<bar>i\<bar>)) \<le> MAX_STR_DIGITS"
| "printable io (JFloat q) \<longleftrightarrow> float_numeral (fl_repr io q) \<and> fl_read io (fl_repr io q) = Some q"
| "printable io (JStr s) \<longleftrightarrow> True"
| "printable io (JArr xs) \<longleftrightarrow> list_all (\<lambda>b. b) (map (printable io) xs)"
| "printable io (JObj kvs) \<longleftrightarrow> distinct (map fst kvs) \<and> list_all (\<lambda>kb. snd kb) (map (map_prod id (printable io)) kvs)"

primrec fuel :: "json \<Rightarrow> nat" where
  "fuel JNull = 1"
| "fuel (JBool b) = 1"
| "fuel (JInt i) = 1"
| "fuel (JFloat q) = 1"
| "fuel (JStr s) = 1"
| "fuel (JArr xs) = Suc (sum_list (map Suc (map fuel xs)))"
| "fuel (JObj kvs) = Suc (sum_list (map (\<lambda>kn. Suc (snd kn)) (map (map_prod id fuel) kvs)))"

lemma join_Cons: "xs \<noteq> [] \<Longrightarrow> join sep (x # xs) = x @ sep @ join sep xs"
  by (cases xs) simp_all

lemma scan_name_None: "s = [] \<or> hd s \<notin> {CHR ''n'', CHR ''t'', CHR ''f'', CHR ''N'', CHR ''I'', CHR ''-''} \<Longrightarrow> scan_name hooks s = None"
  by (cases s) (auto simp: scan_name_def after_def)

lemma scan_name_neg: "is_digit d \<Longrightarrow> scan_name hooks (CHR ''-'' # d # u) = None"
  by (auto simp: scan_name_def after_def is_digit_def code_def)

text \<open>How a printed number begins.\<close>

definition numeric_head :: "string \<Rightarrow> bool" where
  "numeric_head t \<longleftrightarrow> (\<exists>d u. is_digit d \<and> (t = d # u \<or> t = CHR ''-'' # d # u))"

lemma show_int_head: "numeric_head (show_int i)"
proof -
  have "\<exists>d u. show_nat n = d # u \<and> is_digit d" for n
    using show_nat_facts [of n] by (cases "show_nat n") simp_all
  then show ?thesis unfolding numeric_head_def show_int_def by (metis (full_types))
qed

lemma whole_head:
  assumes "scan_numeral t = (neg, whole, dec, expo, r)" "whole \<noteq> []"
  shows "is_digit (hd whole)"
proof -
  define u where "u = (if take 1 t = ''-'' then drop 1 t else t)"
  define w where "w = (if take 1 (takeWhile is_digit u) = ''0'' then ''0'' else takeWhile is_digit u)"
  obtain f r1 where f: "scan_fraction (drop (length w) u) = (f, r1)" by fastforce
  obtain e r2 where e: "scan_exponent r1 = (e, r2)" by fastforce
  from assms(1) scan_numeralI [OF u_def w_def f e] have "whole = w" by simp
  with assms(2) show ?thesis unfolding w_def
    by (auto simp: is_digit_def code_def split: if_splits) (metis hd_in_set set_takeWhileD is_digit_def code_def)+
qed

lemma float_head:
  assumes "float_numeral t"
  shows "numeric_head t"
proof -
  obtain neg whole dec expo r where t: "scan_numeral t = (neg, whole, dec, expo, r)" by (metis prod_cases5)
  with assms have "whole \<noteq> []" "t = (if neg then ''-'' else []) @ whole @ dec @ expo" by (simp_all add: float_numeral_def)
  with whole_head [OF t] show ?thesis unfolding numeric_head_def by (cases whole) (auto split: if_splits)
qed

lemma scan_value_number:
  assumes "numeric_head t" "0 < n"
  shows "scan_value hooks io n (t @ rest) = scan_number io (t @ rest)"
proof -
  from assms(2) obtain m where "n = Suc m" by (cases n) auto
  moreover from assms(1) obtain d u where d: "is_digit d" "t = d # u \<or> t = CHR ''-'' # d # u" unfolding numeric_head_def by blast
  moreover from d have "scan_name hooks (t @ rest) = None"
  proof (elim disjE)
    assume t: "t = d # u"
    have "d \<notin> {CHR ''n'', CHR ''t'', CHR ''f'', CHR ''N'', CHR ''I'', CHR ''-''}" using d(1) by (auto simp: is_digit_def code_def)
    then show ?thesis using scan_name_None [of "t @ rest" hooks] t by simp
  qed (simp add: scan_name_neg [OF d(1)])
  ultimately show ?thesis by (auto simp: is_digit_def code_def)
qed

text \<open>How a printed value begins: not with white space, nor with a bracket that closes.\<close>

definition open_head :: "string \<Rightarrow> bool" where
  "open_head t \<longleftrightarrow> t \<noteq> [] \<and> \<not> json_space (hd t) \<and> hd t \<noteq> CHR '']'' \<and> hd t \<noteq> CHR ''}''"

lemma numeric_open: "numeric_head t \<Longrightarrow> open_head t"
  by (auto simp: numeric_head_def open_head_def is_digit_def json_space_def code_def)

lemma raw_open: "printable io v \<Longrightarrow> open_head (json_raw (fl_repr io) v)"
  by (cases v) (auto simp: numeric_open show_int_head float_head, auto simp: open_head_def json_space_def code_def json_quote_raw_def)

lemma quote_open: "open_head (json_quote_raw s)"
  by (simp add: open_head_def json_space_def code_def json_quote_raw_def)

lemma skip_open: "open_head t \<Longrightarrow> skip_ws (t @ rest) = t @ rest \<and> take 1 (t @ rest) \<noteq> '']'' \<and> take 1 (t @ rest) \<noteq> ''}''"
  by (cases t) (auto simp: open_head_def skip_ws_def)

lemma skip_punct: "c \<in> {CHR '','', CHR '']'', CHR ''}'', CHR '':''} \<Longrightarrow> skip_ws (c # r) = c # r"
  by (auto simp: skip_ws_def json_space_def code_def)

lemma token_punct: "c \<in> {CHR '','', CHR '']'', CHR ''}'', CHR '':''} \<Longrightarrow> token w (c # r) = Inr (c, r)"
  by (simp add: token_def skip_punct)

lemma stops_punct: "c \<in> {CHR '','', CHR '']'', CHR ''}''} \<Longrightarrow> stops (c # r)"
  by (auto simp: stops_def)

lemma scan_elements_printed:
  assumes "\<And>x n rest. x \<in> set xs \<Longrightarrow> fuel x \<le> n \<Longrightarrow> stops rest
      \<Longrightarrow> scan_value hooks io n (json_raw (fl_repr io) x @ rest) = Inr (py_of x, rest)"
    and "\<And>x. x \<in> set xs \<Longrightarrow> printable io x" "xs \<noteq> []" "sum_list (map Suc (map fuel xs)) \<le> n"
  shows "scan_elements hooks io n (join '','' (map (json_raw (fl_repr io)) xs) @ CHR '']'' # rest) = Inr (map py_of xs, rest)"
  using assms
proof (induction xs arbitrary: n)
  case (Cons x xs)
  from Cons.prems(4) obtain m where n: "n = Suc m" "fuel x \<le> m" "sum_list (map Suc (map fuel xs)) \<le> m" by (cases n) auto
  show ?case
  proof (cases "xs = []")
    case True
    have "scan_value hooks io m (json_raw (fl_repr io) x @ CHR '']'' # rest) = Inr (py_of x, CHR '']'' # rest)"
      using n(2) by (intro Cons.prems(1)) (simp_all add: stops_punct)
    with True n(1) show ?thesis by (simp add: token_punct)
  next
    case False
    let ?tl = "join '','' (map (json_raw (fl_repr io)) xs)"
    have IH: "scan_elements hooks io m (?tl @ CHR '']'' # rest) = Inr (map py_of xs, rest)"
      using Cons.prems(1,2) False n(3) by (intro Cons.IH) auto
    have "scan_value hooks io m (json_raw (fl_repr io) x @ CHR '','' # ?tl @ CHR '']'' # rest) = Inr (py_of x, CHR '','' # ?tl @ CHR '']'' # rest)"
      using n(2) by (intro Cons.prems(1)) (simp_all add: stops_punct)
    moreover have "skip_ws (?tl @ CHR '']'' # rest) = ?tl @ CHR '']'' # rest"
    proof -
      obtain y ys where xs: "xs = y # ys" using False by (cases xs) auto
      then have "open_head (json_raw (fl_repr io) y)" using Cons.prems(2) raw_open by simp
      then have "open_head ?tl" unfolding xs by (cases ys) (auto simp: open_head_def)
      then show ?thesis using skip_open by blast
    qed
    ultimately show ?thesis using False n(1) IH by (simp add: join_Cons token_punct)
  qed
qed simp

lemma scan_members_printed:
  assumes "\<And>k x n rest. (k, x) \<in> set kvs \<Longrightarrow> fuel x \<le> n \<Longrightarrow> stops rest
      \<Longrightarrow> scan_value hooks io n (json_raw (fl_repr io) x @ rest) = Inr (py_of x, rest)"
    and "\<And>k x. (k, x) \<in> set kvs \<Longrightarrow> printable io x" "kvs \<noteq> []" "sum_list (map (\<lambda>kx. Suc (fuel (snd kx))) kvs) \<le> n"
  shows "scan_members hooks io n (join '','' (map (\<lambda>kx. json_quote_raw (fst kx) @ '':'' @ json_raw (fl_repr io) (snd kx)) kvs) @ CHR ''}'' # rest)
    = Inr (map (map_prod id py_of) kvs, rest)"
  using assms
proof (induction kvs arbitrary: n)
  case (Cons kx kvs)
  obtain k x where kx: "kx = (k, x)" by fastforce
  from Cons.prems(4) kx obtain m where n: "n = Suc m" "fuel x \<le> m" "sum_list (map (\<lambda>kx. Suc (fuel (snd kx))) kvs) \<le> m" by (cases n) auto
  have key: "take 1 (json_quote_raw k @ u) = [CHR 0x22]" "scan_string (drop 1 (json_quote_raw k @ u)) = Inr (k, u)" for u
    using scan_quoted [of k u] by (simp_all add: json_quote_raw_def)
  have x: "skip_ws (json_raw (fl_repr io) x @ u) = json_raw (fl_repr io) x @ u" for u
    using raw_open [of io x] Cons.prems(2) [of k x] skip_open kx by simp
  show ?case
  proof (cases "kvs = []")
    case True
    have "scan_value hooks io m (json_raw (fl_repr io) x @ CHR ''}'' # rest) = Inr (py_of x, CHR ''}'' # rest)"
      using n(2) kx by (intro Cons.prems(1) [of k]) (simp_all add: stops_punct)
    with True n(1) kx key x show ?thesis by (simp add: token_punct)
  next
    case False
    let ?tl = "join '','' (map (\<lambda>kx. json_quote_raw (fst kx) @ '':'' @ json_raw (fl_repr io) (snd kx)) kvs)"
    have IH: "scan_members hooks io m (?tl @ CHR ''}'' # rest) = Inr (map (map_prod id py_of) kvs, rest)"
    proof (rule Cons.IH)
      show "printable io x" if "(k, x) \<in> set kvs" for k x using Cons.prems(2) [of k x] that by simp
    qed (use Cons.prems(1) False n(3) in auto)
    have "scan_value hooks io m (json_raw (fl_repr io) x @ CHR '','' # ?tl @ CHR ''}'' # rest) = Inr (py_of x, CHR '','' # ?tl @ CHR ''}'' # rest)"
      using n(2) kx by (intro Cons.prems(1) [of k]) (simp_all add: stops_punct)
    moreover have "skip_ws (?tl @ CHR ''}'' # rest) = ?tl @ CHR ''}'' # rest"
    proof -
      obtain y ys where "kvs = y # ys" using False by (cases kvs) auto
      then have "open_head ?tl" using quote_open [of "fst y"] by (cases ys) (auto simp: open_head_def)
      then show ?thesis using skip_open by blast
    qed
    ultimately show ?thesis using False n(1) IH kx key x by (simp add: join_Cons token_punct id_def)
  qed
qed simp

theorem scan_printed:
  "printable io v \<Longrightarrow> fuel v \<le> n \<Longrightarrow> stops rest \<Longrightarrow> scan_value hooks io n (json_raw (fl_repr io) v @ rest) = Inr (py_of v, rest)"
proof (induction v arbitrary: n rest)
  case (JInt i)
  then show ?case using scan_value_number [OF show_int_head] scan_int by simp
next
  case (JFloat q)
  then show ?case using scan_value_number [OF float_head] scan_float by simp
next
  case (JStr s)
  then obtain m where "n = Suc m" by (cases n) auto
  then show ?case using scan_quoted [of s rest] by (simp add: json_quote_raw_def)
next
  case (JArr xs)
  then obtain m where n: "n = Suc m" by (cases n) auto
  show ?case
  proof (cases "xs = []")
    case True
    then show ?thesis using n by (simp add: skip_punct)
  next
    case False
    let ?t = "join '','' (map (json_raw (fl_repr io)) xs)"
    have ok: "printable io x" if "x \<in> set xs" for x using JArr.prems(1) that by (auto simp: list_all_iff)
    obtain y ys where xs: "xs = y # ys" using False by (cases xs) auto
    then have "open_head (json_raw (fl_repr io) y)" using ok raw_open by simp
    then have "open_head ?t" unfolding xs by (cases ys) (auto simp: open_head_def)
    note skip_open [OF this, of "CHR '']'' # rest"]
    moreover have "scan_elements hooks io m (?t @ CHR '']'' # rest) = Inr (map py_of xs, rest)"
      by (rule scan_elements_printed) (use JArr ok False n in auto)
    ultimately show ?thesis using n by simp
  qed
next
  case (JObj kvs)
  then obtain m where n: "n = Suc m" by (cases n) auto
  show ?case
  proof (cases "kvs = []")
    case True
    then show ?thesis using n by (simp add: skip_punct)
  next
    case False
    let ?t = "join '','' (map (\<lambda>kx. json_quote_raw (fst kx) @ '':'' @ json_raw (fl_repr io) (snd kx)) kvs)"
    have ok: "printable io x" if "(k, x) \<in> set kvs" for k x using JObj.prems(1) that by (force simp: list_all_iff)
    obtain y ys where kvs: "kvs = y # ys" using False by (cases kvs) auto
    then have "open_head ?t" using quote_open [of "fst y"] by (cases ys) (auto simp: open_head_def)
    note skip_open [OF this, of "CHR ''}'' # rest"]
    moreover have "scan_members hooks io m (?t @ CHR ''}'' # rest) = Inr (map (map_prod id py_of) kvs, rest)"
    proof (rule scan_members_printed)
      show "sum_list (map (\<lambda>kx. Suc (fuel (snd kx))) kvs) \<le> m" using JObj.prems(2) n by (simp add: comp_def)
    next
      fix k x n and rest :: string
      assume "(k, x) \<in> set kvs" "fuel x \<le> n" "stops rest"
      then show "scan_value hooks io n (json_raw (fl_repr io) x @ rest) = Inr (py_of x, rest)"
        using JObj.IH [of "(k, x)" x n rest] ok by (auto intro: snds.intros)
    qed (use ok False in auto)
    moreover have "distinct (map fst kvs)" using JObj.prems(1) by simp
    moreover have "json_raw (fl_repr io) (JObj kvs) = ''{'' @ ?t @ ''}''" by (simp add: comp_def)
    moreover have "map fst (map (map_prod id py_of) kvs) = map fst kvs" by simp
    ultimately show ?thesis using n by simp
  qed
next
  case JNull
  then obtain m where "n = Suc m" by (cases n) auto
  then show ?case by (simp add: scan_name_def after_def)
next
  case (JBool b)
  then obtain m where "n = Suc m" by (cases n) auto
  then show ?case by (cases b) (simp_all add: scan_name_def after_def)
qed

lemma sum_join:
  "sum_list (map (\<lambda>t. Suc (length t)) ts) \<le> Suc (length (join '','' ts))"
proof (induction ts)
  case (Cons t ts)
  then show ?case by (cases ts) simp_all
qed simp

lemma fuel_text: "printable io v \<Longrightarrow> fuel v \<le> length (json_raw (fl_repr io) v)"
proof (induction v)
  case (JArr xs)
  have "sum_list (map Suc (map fuel xs)) \<le> sum_list (map (\<lambda>t. Suc (length t)) (map (json_raw (fl_repr io)) xs))"
    using JArr unfolding map_map comp_def by (intro sum_list_mono) (auto simp: list_all_iff)
  with sum_join [of "map (json_raw (fl_repr io)) xs"] show ?case by simp
next
  case (JObj kvs)
  let ?m = "\<lambda>kx. json_quote_raw (fst kx) @ '':'' @ json_raw (fl_repr io) (snd kx)"
  have "fuel (snd kx) \<le> length (json_raw (fl_repr io) (snd kx))" if "kx \<in> set kvs" for kx
  proof -
    have "printable io (snd kx)" using JObj.prems that by (cases kx) (force simp: list_all_iff)
    with that show ?thesis by (intro JObj.IH) (auto intro: snds.intros)
  qed
  then have "sum_list (map (\<lambda>kx. Suc (fuel (snd kx))) kvs) \<le> sum_list (map (\<lambda>t. Suc (length t)) (map ?m kvs))"
    unfolding map_map comp_def by (intro sum_list_mono) (force simp: add.commute intro: le_SucI trans_le_add1)
  with sum_join [of "map ?m kvs"] show ?case by (simp add: comp_def)
next
  case (JInt i)
  then show ?case using show_int_head [of i] by (auto simp: numeric_head_def)
next
  case (JFloat q)
  then show ?case using float_head [of "fl_repr io q"] by (auto simp: numeric_head_def)
qed (simp_all add: json_quote_raw_def)

text \<open>\<open>json.loads(json.dumps(v))\<close> is \<open>v\<close>.\<close>

theorem json_loads_printed:
  assumes "printable io v"
  shows "json_loads hooks io (json_raw (fl_repr io) v) = Inr (py_of v)"
proof -
  let ?t = "json_raw (fl_repr io) v"
  have "skip_ws ?t = ?t" using skip_open [OF raw_open [OF assms], of "[]"] by simp
  moreover have "scan_value hooks io (2 * length ?t + 1) (?t @ []) = Inr (py_of v, [])"
    using fuel_text [OF assms] by (intro scan_printed [OF assms]) (simp_all add: stops_def)
  ultimately show ?thesis by (simp add: json_loads_def skip_ws_def)
qed

section \<open>UTF-8\<close>

lemma utf8_strict_char: "utf8_strict (utf8_char c @ rest) = bindE (utf8_strict rest) (\<lambda>s. Inr (c # s))"
proof (cases "code c < 128")
  case True
  then show ?thesis by (simp add: utf8_char_def Let_def)
next
  case False
  let ?n = "code c"
  have "?n div 64 < 4" using code_less [of c] by (intro less_mult_imp_div_less) simp
  moreover have "128 div 64 \<le> ?n div 64" using False by (intro div_le_mono) simp
  ultimately have d: "?n div 64 = 2 \<or> ?n div 64 = 3" by (simp, linarith)
  have b: "code (char_of (192 + ?n div 64)) = 192 + ?n div 64" "code (char_of (128 + ?n mod 64)) = 128 + ?n mod 64"
    using d by (auto intro!: code_char_of)
  have "char_of (?n div 64 * 64 + ?n mod 64) = c" by simp
  with b d False show ?thesis by (auto simp: utf8_char_def Let_def continuation_def)
qed

theorem utf8_strict_utf8: "utf8_strict (utf8 s) = Inr s"
  by (induction s) (simp_all add: utf8_strict_char)

end
