(* ===== verification/ProtocolFacts.thy ===== *)
theory ProtocolFacts
  imports Protocol JsonFacts
begin

text \<open>
  What the protocol promises: the frames a constructor builds are fixed points of their own
  validation, decoding inverts encoding on them, a decoded request cannot name the identity of its
  connection, and which errors decoding raises.
\<close>

lemma checkE_eval [simp]: "checkE True e = Inr ()" "checkE False e = Inl e"
  by (simp_all add: checkE_def)

lemma strip_Cons_nonempty: "\<not> py_space c \<Longrightarrow> strip (c # s) \<noteq> []"
  unfolding strip_def strip_by_def rstrip_by_def by (auto simp: dropWhile_eq_Nil_conv)

section \<open>Validation of JSON values\<close>

primrec height :: "json \<Rightarrow> nat" where
  "height JNull = 0"
| "height (JBool b) = 0"
| "height (JInt i) = 0"
| "height (JFloat q) = 0"
| "height (JStr s) = 0"
| "height (JArr xs) = foldr max (map Suc (map height xs)) 0"
| "height (JObj kvs) = foldr max (map (\<lambda>kn. Suc (snd kn)) (map (map_prod id height) kvs)) 0"

lemma foldr_max_le: "foldr max ns 0 \<le> (m :: nat) \<longleftrightarrow> (\<forall>n \<in> set ns. n \<le> m)"
  by (induction ns) auto

lemma height_Arr: "height (JArr xs) \<le> m \<longleftrightarrow> (\<forall>x \<in> set xs. Suc (height x) \<le> m)"
  by (auto simp: foldr_max_le)

lemma height_Obj: "height (JObj kvs) \<le> m \<longleftrightarrow> (\<forall>kv \<in> set kvs. Suc (height (snd kv)) \<le> m)"
  by (auto simp: foldr_max_le)

lemma mapE_all: "(\<And>x. x \<in> set xs \<Longrightarrow> f (g x) = Inr x) \<Longrightarrow> mapE f (map g xs) = Inr xs"
  by (induction xs) simp_all

lemma validate_json_of:
  "depth + height v \<le> MAX_JSON_DEPTH \<Longrightarrow> validate_json name depth (py_of v) = Inr v"
proof (induction v arbitrary: depth)
  case (JArr xs)
  have "validate_json name (Suc depth) (py_of x) = Inr x" if "x \<in> set xs" for x
    using JArr.IH [OF that, of "Suc depth"] JArr.prems that height_Arr [of xs "MAX_JSON_DEPTH - depth"] by fastforce
  then have "mapE (validate_json name (Suc depth)) (map py_of xs) = Inr xs" by (rule mapE_all)
  moreover have "\<not> MAX_JSON_DEPTH < depth" using JArr.prems by simp
  ultimately show ?case by (subst validate_json.simps) simp
next
  case (JObj kvs)
  have kv: "validate_json name (Suc depth) (py_of (snd kv)) = Inr (snd kv)" if "kv \<in> set kvs" for kv
  proof (rule JObj.IH)
    show "snd kv \<in> Basic_BNFs.snds kv" by (cases kv) (auto intro: snds.intros)
    show "Suc depth + height (snd kv) \<le> MAX_JSON_DEPTH"
      using JObj.prems that height_Obj [of kvs "MAX_JSON_DEPTH - depth"] by fastforce
  qed (rule that)
  have "mapE (\<lambda>kv. case fst kv of None \<Rightarrow> invalid (name @ '' object keys must be strings'')
      | Some k \<Rightarrow> bindE (validate_json name (Suc depth) (snd kv)) (\<lambda>j. Inr (k, j)))
    (map (map_prod Some py_of) kvs) = Inr kvs"
    by (rule mapE_all) (simp add: kv)
  moreover have "\<not> MAX_JSON_DEPTH < depth" using JObj.prems by simp
  ultimately show ?case by (subst validate_json.simps) (simp add: map_prod.compositionality comp_def)
qed (subst validate_json.simps, simp)+

text \<open>What passes validation is no higher than the limit, so it passes again as the JSON value it became.\<close>

lemma validate_json_height:
  "validate_json name depth p = Inr v \<Longrightarrow> depth + height v \<le> MAX_JSON_DEPTH"
proof (induction name depth p arbitrary: v rule: validate_json.induct)
  case (1 name depth p)
  from "1.prems" have depth: "\<not> MAX_JSON_DEPTH < depth" by (subst (asm) validate_json.simps) (auto simp: invalid_def)
  note run = "1.prems" [unfolded validate_json.simps [of name depth p] if_not_P [OF depth]]
  have list: "depth + height (JArr ys) \<le> MAX_JSON_DEPTH"
    if "mapE (validate_json name (Suc depth)) xs = Inr ys" and IH: "\<And>x v. x \<in> set xs \<Longrightarrow> validate_json name (Suc depth) x = Inr v \<Longrightarrow> Suc depth + height v \<le> MAX_JSON_DEPTH" for xs ys
  proof -
    have "Suc (height y) \<le> MAX_JSON_DEPTH - depth" if y: "y \<in> set ys" for y
      using mapE_set [OF \<open>mapE _ xs = Inr ys\<close> y] IH by fastforce
    then have "height (JArr ys) \<le> MAX_JSON_DEPTH - depth" by (simp only: height_Arr) blast
    with depth show ?thesis by linarith
  qed
  show ?case
  proof (cases p)
    case (PList xs)
    with run obtain ys where "mapE (validate_json name (Suc depth)) xs = Inr ys" "v = JArr ys" by (auto simp: bindE_Inr_iff)
    with list "1.IH"(1) [OF depth PList] show ?thesis by blast
  next
    case (PTuple xs)
    with run obtain ys where "mapE (validate_json name (Suc depth)) xs = Inr ys" "v = JArr ys" by (auto simp: bindE_Inr_iff)
    with list "1.IH"(2) [OF depth PTuple] show ?thesis by blast
  next
    case (PDict kvs)
    let ?f = "\<lambda>kv. case fst kv of None \<Rightarrow> invalid (name @ '' object keys must be strings'')
      | Some k \<Rightarrow> bindE (validate_json name (Suc depth) (snd kv)) (\<lambda>j. Inr (k, j))"
    from run PDict obtain kjs where kjs: "mapE ?f kvs = Inr kjs" "v = JObj kjs" by (auto simp: bindE_Inr_iff)
    have "Suc (height (snd kj)) \<le> MAX_JSON_DEPTH - depth" if y: "kj \<in> set kjs" for kj
    proof -
      from mapE_set [OF kjs(1) y] obtain kv where "kv \<in> set kvs" "?f kv = Inr kj" by blast
      moreover from this obtain k where "fst kv = Some k" "validate_json name (Suc depth) (snd kv) = Inr (snd kj)"
        by (auto simp: invalid_def bindE_Inr_iff split: option.splits)
      ultimately show ?thesis using "1.IH"(3) [OF depth PDict] by fastforce
    qed
    then have "height (JObj kjs) \<le> MAX_JSON_DEPTH - depth" by (simp only: height_Obj) blast
    with depth kjs(2) show ?thesis by simp
  qed (use run depth in \<open>auto simp: invalid_def\<close>)
qed

lemma validate_json_again: "validate_json name depth p = Inr v \<Longrightarrow> validate_json name' depth (py_of v) = Inr v"
  by (intro validate_json_of validate_json_height)

section \<open>Objects in any order\<close>

text \<open>The members of an object as \<open>json.dumps\<close> writes them, and that lookups do not depend on the order.\<close>

definition canon_dict :: "json_dict \<Rightarrow> json_dict" where
  "canon_dict kvs = sort_key fst (map (map_prod id canon) kvs)"

lemma canon_obj: "canon (JObj kvs) = JObj (canon_dict kvs)"
  by (simp add: canon_dict_def)

declare canon.simps(7) [simp del]

lemma keys_canon_dict [simp]: "fst ` set (canon_dict kvs) = fst ` set kvs"
  by (force simp: canon_dict_def)

lemma map_sort_fst: "map fst (sort_key fst kvs) = sort (map fst kvs)"
proof -
  have "map fst (insort_key fst kv kvs) = insort (fst kv) (map fst kvs)" for kv :: "'a \<times> 'b" and kvs
    by (induction kvs) auto
  then show ?thesis by (induction kvs) simp_all
qed

lemma distinct_canon_dict [simp]: "distinct (map fst (canon_dict kvs)) \<longleftrightarrow> distinct (map fst kvs)"
  by (simp add: canon_dict_def map_sort_fst)

lemma item_canon_dict [simp]:
  assumes d: "distinct (map fst kvs)"
  shows "item k (canon_dict kvs) = canon (item k kvs)"
proof -
  have "map_of (canon_dict kvs) = map_of (map (map_prod id canon) kvs)"
    using d by (subst map_of_inject_set) (simp_all, simp add: canon_dict_def)
  moreover have "map_of (map (map_prod id canon) kvs) k = map_option canon (map_of kvs k)" by (induction kvs) auto
  ultimately show ?thesis by (simp add: item_def split: option.split)
qed

lemma check_keys_canon_dict [simp]: "check_keys (canon_dict kvs) req opt = check_keys kvs req opt"
proof -
  have "list_all P (map fst (canon_dict kvs)) \<longleftrightarrow> list_all P (map fst kvs)" for P
    using keys_canon_dict [of kvs] by (simp only: list_all_iff set_map)
  then show ?thesis unfolding check_keys_def keys_canon_dict by (simp only:)
qed

lemma canon_texts [simp]: "canon (texts xs) = texts xs"
  by (simp add: texts_def comp_def)

lemma canon_jopt [simp]: "canon (jopt v) = jopt v"
  by (simp add: jopt_def split: option.split)

lemma height_canon [simp]: "height (canon v) = height v"
proof (induction v)
  case (JObj kvs)
  have "height (canon (snd kv)) = height (snd kv)" if "kv \<in> set kvs" for kv
    using that by (intro JObj.IH) (auto intro: snds.intros)
  then have "height (canon (JObj kvs)) \<le> m \<longleftrightarrow> height (JObj kvs) \<le> m" for m
    unfolding canon_obj height_Obj by (auto simp: canon_dict_def)
  then show ?case by (metis le_antisym le_refl)
next
  case (JArr xs)
  then have "height (canon (JArr xs)) \<le> m \<longleftrightarrow> height (JArr xs) \<le> m" for m
    unfolding canon.simps height_Arr by auto
  then show ?case by (metis le_antisym le_refl)
qed simp_all

lemma all_keys_canon_dict: "list_all P (map fst (canon_dict kvs)) \<longleftrightarrow> list_all P (map fst kvs)"
  using keys_canon_dict [of kvs] by (simp only: list_all_iff set_map)

section \<open>Valid frames\<close>

text \<open>A frame is valid when its own fields, validated again, give it back.\<close>

definition valid_version :: "version \<Rightarrow> bool" where
  "valid_version v \<longleftrightarrow> 0 \<le> pv_major v \<and> 0 \<le> pv_minor v"

definition valid_context :: "client_context \<Rightarrow> bool" where
  "valid_context c \<longleftrightarrow> make_client_context (JStr (cc_client c)) (JStr (cc_surface c)) (JStr (cc_agent c)) (JStr (cc_session c))
     (jopt (cc_parent c)) (jopt (cc_root c)) (jopt (cc_repo c)) (jopt (cc_branch c)) (jopt (cc_commit c)) (texts (cc_scopes c)) = Inr c"

definition valid_error :: "protocol_error \<Rightarrow> bool" where
  "valid_error e \<longleftrightarrow> make_protocol_error (JStr (pe_code e)) (JStr (pe_message e)) (JBool (pe_retryable e))
     (py_of (JObj (pe_details e))) = Inr e"

definition valid_error_opt :: "protocol_error option \<Rightarrow> bool" where
  "valid_error_opt e \<longleftrightarrow> (case e of None \<Rightarrow> True | Some e \<Rightarrow> valid_error e)"

primrec valid_frame :: "frame \<Rightarrow> bool" where
  "valid_frame (Handshake h) \<longleftrightarrow> valid_context (hs_context h) \<and> valid_version (hs_protocol h)
     \<and> make_handshake (hs_context h) (texts (hs_capabilities h)) (hs_protocol h) (JInt (hs_schema h)) (jopt (hs_credential h)) = Inr h"
| "valid_frame (HandshakeResponse h) \<longleftrightarrow> valid_error_opt (hr_error h) \<and> valid_version (hr_protocol h)
     \<and> make_handshake_response (JBool (hr_accepted h)) (texts (hr_capabilities h)) (JStr (hr_service_version h)) (hr_error h)
         (hr_protocol h) (JInt (hr_schema h)) = Inr h"
| "valid_frame (Request r) \<longleftrightarrow> valid_version (rm_protocol r)
     \<and> make_request_frame (JStr (rm_id r)) (JStr (rm_method r)) (py_of (JObj (rm_params r))) (rm_protocol r) (JInt (rm_schema r)) = Inr r"
| "valid_frame (Response r) \<longleftrightarrow> valid_error_opt (rs_error r) \<and> valid_version (rs_protocol r)
     \<and> make_response (JStr (rs_id r)) (JBool (rs_ok r)) (py_of (rs_result r)) (rs_error r) (rs_protocol r) (JInt (rs_schema r)) = Inr r"

text \<open>The same frame with the members of its open objects in order.\<close>

definition canon_error :: "protocol_error \<Rightarrow> protocol_error" where
  "canon_error e = e\<lparr>pe_details := canon_dict (pe_details e)\<rparr>"

primrec canon_frame :: "frame \<Rightarrow> frame" where
  "canon_frame (Handshake h) = Handshake h"
| "canon_frame (HandshakeResponse h) = HandshakeResponse (h\<lparr>hr_error := map_option canon_error (hr_error h)\<rparr>)"
| "canon_frame (Request r) = Request (r\<lparr>rm_params := canon_dict (rm_params r)\<rparr>)"
| "canon_frame (Response r) = Response (r\<lparr>rs_result := canon (rs_result r), rs_error := map_option canon_error (rs_error r)\<rparr>)"

lemma required_string_ok:
  "required_string v name tok = Inr s \<longleftrightarrow> (\<exists>t. v = JStr t \<and> s = strip t \<and> s \<noteq> [] \<and> (tok \<longrightarrow> TOKEN s))"
  by (auto simp: required_string_def invalid_def split: json.splits)

lemma required_string_idem: "required_string v name tok = Inr s \<Longrightarrow> required_string (JStr s) name' tok = Inr s"
  by (auto simp: required_string_ok)

lemma optional_string_ok:
  "optional_string v name = Inr r \<longleftrightarrow> (v = JNull \<and> r = None) \<or> (\<exists>s. required_string v name False = Inr s \<and> r = Some s)"
  by (auto simp: optional_string_def bindE_Inr_iff required_string_ok)

lemma strict_int_ok: "strict_int v name least = Inr i \<longleftrightarrow> v = JInt i \<and> least \<le> i"
  by (auto simp: strict_int_def invalid_def split: json.splits)

lemma mapping_ok [simp]: "mapping v name = Inr kvs \<longleftrightarrow> v = JObj kvs"
  by (auto simp: mapping_def invalid_def split: json.splits)

lemma string_tuple_ok:
  "string_tuple v name ae = Inr xs \<longleftrightarrow> (\<exists>vs. v = JArr vs \<and> mapE (\<lambda>x. required_string x name True) vs = Inr xs
     \<and> (ae \<or> xs \<noteq> []) \<and> distinct xs)"
  by (auto simp: string_tuple_def invalid_def bindE_Inr_iff split: json.splits)

lemma string_tuple_idem: "string_tuple v name ae = Inr xs \<Longrightarrow> string_tuple (texts xs) name' ae = Inr xs"
  by (auto simp: string_tuple_ok texts_def intro!: mapE_all dest: mapE_set required_string_idem)

lemma jopt_eq [simp]: "jopt v = JNull \<longleftrightarrow> v = None" "jopt None = JNull" "jopt (Some s) = JStr s"
  by (simp_all add: jopt_def split: option.split)

lemma optional_jopt: "optional_string (jopt v) name = Inr v \<longleftrightarrow> (case v of None \<Rightarrow> True | Some s \<Rightarrow> strip s = s \<and> s \<noteq> [])"
  by (auto simp: optional_string_ok required_string_ok split: option.split)

subsection \<open>The parts come back\<close>

lemma item_simps [simp]: "item k [] = JNull" "item k ((k', v) # kvs) = (if k = k' then v else item k kvs)"
  by (simp_all add: item_def)

lemma check_keys_Cons: "check_keys (kv # kvs) req opt =
     (if \<not> list_all (\<lambda>k. k \<in> fst ` set (kv # kvs)) req then invalid ''missing frame fields: ''
      else if \<not> list_all (\<lambda>k. k \<in> set req \<or> k \<in> set opt) (map fst (kv # kvs)) then invalid ''unknown frame fields: ''
      else Inr ())"
  by (simp only: check_keys_def)

lemma version_back: "valid_version v \<Longrightarrow> version_from_dict (canon (version_to_dict v)) = Inr v"
  by (simp add: version_to_dict_def canon_obj version_from_dict_def mapping_def make_version_def valid_version_def
      strict_int_def check_keys_Cons)

lemma context_back:
  assumes "valid_context c"
  shows "client_context_from_dict (canon (client_context_to_dict c)) = Inr c"
proof -
  from assms have "string_tuple (texts (cc_scopes c)) ''access_scopes'' False = Inr (cc_scopes c)"
    by (auto simp: valid_context_def make_client_context_def bindE_Inr_iff)
  with assms show ?thesis
    by (simp add: client_context_to_dict_def canon_obj client_context_from_dict_def mapping_def check_keys_Cons valid_context_def)
qed

lemma validate_canon:
  assumes "validate_json name 0 (py_of v) = Inr v"
  shows "validate_json name' 0 (py_of (canon v)) = Inr (canon v)"
  using validate_json_height [OF assms] by (intro validate_json_of) simp

lemma error_back:
  assumes "valid_error e"
  shows "protocol_error_from_dict (canon (protocol_error_to_dict e)) = Inr (canon_error e)"
proof -
  from assms have "validate_json ''error.details'' 0 (py_of (JObj (pe_details e))) = Inr (JObj (pe_details e))"
    by (cases e) (auto simp: valid_error_def make_protocol_error_def bindE_Inr_iff simp del: py_of.simps)
  note v = validate_canon [OF this, of "''error.details''"]
  from assms have "required_string (JStr (pe_code e)) ''error.code'' True = Inr (pe_code e)"
    "required_string (JStr (pe_message e)) ''error.message'' False = Inr (pe_message e)"
    by (cases e, auto simp: valid_error_def make_protocol_error_def bindE_Inr_iff)+
  with v show ?thesis
    by (simp add: protocol_error_to_dict_def canon_obj protocol_error_from_dict_def mapping_def check_keys_Cons
        make_protocol_error_def canon_error_def del: py_of.simps)
qed

lemma error_item_back:
  assumes "valid_error_opt e"
  shows "error_of_item (canon (error_item e)) = Inr (map_option canon_error e)"
proof (cases e)
  case (Some x)
  then have "canon (error_item e) \<noteq> JNull" by (simp add: error_item_def protocol_error_to_dict_def canon_obj)
  with Some assms error_back [of x] show ?thesis by (simp add: error_of_item_def error_item_def valid_error_opt_def)
qed (simp add: error_of_item_def error_item_def)

subsection \<open>Frames come back\<close>

lemma handshake_back:
  assumes "valid_frame (Handshake h)" "canon (handshake_to_dict h) = JObj data"
  shows "handshake_from_dict data = Inr h"
proof -
  note ctx = context_back [of "hs_context h"] and v = version_back [of "hs_protocol h"]
  from assms(1) have mk: "make_handshake (hs_context h) (texts (hs_capabilities h)) (hs_protocol h) (JInt (hs_schema h)) (jopt (hs_credential h)) = Inr h"
    by simp
  then have caps: "string_tuple (texts (hs_capabilities h)) ''capabilities'' True = Inr (hs_capabilities h)"
    and schema: "strict_int (JInt (hs_schema h)) ''schema_version'' 0 = Inr (hs_schema h)"
    by (cases h, auto simp: make_handshake_def bindE_Inr_iff)+
  from mk have cred: "optional_string (jopt (hs_credential h)) ''credential'' = Inr (hs_credential h)"
    by (cases h, cases "hs_credential h") (auto simp: make_handshake_def bindE_Inr_iff optional_jopt required_string_ok optional_string_def)
  show ?thesis
  proof (cases "hs_credential h")
    case None
    with assms ctx v caps schema cred mk show ?thesis
      by (auto simp: handshake_to_dict_def canon_obj handshake_from_dict_def check_keys_Cons)
  next
    case (Some s)
    with assms ctx v caps schema cred mk show ?thesis
      by (auto simp: handshake_to_dict_def canon_obj handshake_from_dict_def check_keys_Cons)
  qed
qed

lemma handshake_response_back:
  assumes "valid_frame (HandshakeResponse h)" "canon (handshake_response_to_dict h) = JObj data"
  shows "handshake_response_from_dict data = Inr (h\<lparr>hr_error := map_option canon_error (hr_error h)\<rparr>)"
proof -
  note e = error_item_back [of "hr_error h"] and v = version_back [of "hr_protocol h"]
  from assms(1) have mk: "make_handshake_response (JBool (hr_accepted h)) (texts (hr_capabilities h)) (JStr (hr_service_version h)) (hr_error h)
         (hr_protocol h) (JInt (hr_schema h)) = Inr h" by simp
  then have caps: "string_tuple (texts (hr_capabilities h)) ''capabilities'' True = Inr (hr_capabilities h)"
    and schema: "strict_int (JInt (hr_schema h)) ''schema_version'' 0 = Inr (hr_schema h)"
    by (cases h, auto simp: make_handshake_response_def bindE_Inr_iff)+
  from mk have "make_handshake_response (JBool (hr_accepted h)) (texts (hr_capabilities h)) (JStr (hr_service_version h))
      (map_option canon_error (hr_error h)) (hr_protocol h) (JInt (hr_schema h)) = Inr (h\<lparr>hr_error := map_option canon_error (hr_error h)\<rparr>)"
    by (cases h) (auto simp: make_handshake_response_def bindE_Inr_iff)
  with assms e v caps schema show ?thesis
    by (auto simp: handshake_response_to_dict_def canon_obj handshake_response_from_dict_def check_keys_Cons)
qed

lemma request_back:
  assumes "valid_frame (Request r)" "canon (request_to_dict r) = JObj data"
  shows "request_from_dict data = Inr (r\<lparr>rm_params := canon_dict (rm_params r)\<rparr>)"
proof -
  note v = version_back [of "rm_protocol r"]
  from assms(1) have mk: "make_request_frame (JStr (rm_id r)) (JStr (rm_method r)) (py_of (JObj (rm_params r))) (rm_protocol r) (JInt (rm_schema r)) = Inr r"
    by simp
  then have schema: "strict_int (JInt (rm_schema r)) ''schema_version'' 0 = Inr (rm_schema r)"
    and val: "validate_json ''params'' 0 (py_of (JObj (rm_params r))) = Inr (JObj (rm_params r))"
    by (cases r, auto simp: make_request_frame_def bindE_Inr_iff simp del: py_of.simps)+
  have "make_request_frame (JStr (rm_id r)) (JStr (rm_method r)) (py_of (JObj (canon_dict (rm_params r)))) (rm_protocol r) (JInt (rm_schema r))
      = Inr (r\<lparr>rm_params := canon_dict (rm_params r)\<rparr>)"
    using mk validate_canon [OF val, of "''params''", unfolded canon_obj] val
    by (cases r) (auto simp: make_request_frame_def bindE_Inr_iff all_keys_canon_dict simp del: py_of.simps)
  with assms v schema show ?thesis
    by (auto simp: request_to_dict_def canon_obj request_from_dict_def check_keys_Cons simp del: py_of.simps)
qed

lemma response_back:
  assumes "valid_frame (Response r)" "canon (response_to_dict r) = JObj data"
  shows "response_from_dict data = Inr (r\<lparr>rs_result := canon (rs_result r), rs_error := map_option canon_error (rs_error r)\<rparr>)"
proof -
  note e = error_item_back [of "rs_error r"] and v = version_back [of "rs_protocol r"]
  from assms(1) have mk: "make_response (JStr (rs_id r)) (JBool (rs_ok r)) (py_of (rs_result r)) (rs_error r) (rs_protocol r) (JInt (rs_schema r)) = Inr r"
    by simp
  then have schema: "strict_int (JInt (rs_schema r)) ''schema_version'' 0 = Inr (rs_schema r)"
    and val: "validate_json ''result'' 0 (py_of (rs_result r)) = Inr (rs_result r)"
    by (cases r, auto simp: make_response_def bindE_Inr_iff simp del: py_of.simps)+
  have "canon (rs_result r) = JNull \<longleftrightarrow> rs_result r = JNull" by (cases "rs_result r") (simp_all add: canon_obj)
  then have "make_response (JStr (rs_id r)) (JBool (rs_ok r)) (py_of (canon (rs_result r))) (map_option canon_error (rs_error r)) (rs_protocol r) (JInt (rs_schema r))
      = Inr (r\<lparr>rs_result := canon (rs_result r), rs_error := map_option canon_error (rs_error r)\<rparr>)"
    using mk validate_canon [OF val, of "''result''"] val by (cases r) (auto simp: make_response_def bindE_Inr_iff)
  with assms e v schema show ?thesis
    by (auto simp: response_to_dict_def canon_obj response_from_dict_def check_keys_Cons)
qed

lemma frame_back:
  assumes "valid_frame f" "canon (frame_to_dict f) = JObj data"
  shows "frame_from_dict data = Inr (canon_frame f)"
proof -
  have type: "item ''type'' data = JStr (case f of Handshake h \<Rightarrow> ''handshake'' | HandshakeResponse h \<Rightarrow> ''handshake_response''
      | Request r \<Rightarrow> ''request'' | Response r \<Rightarrow> ''response'')"
    using assms(2) by (cases f) (auto simp: canon_obj handshake_to_dict_def handshake_response_to_dict_def request_to_dict_def
        response_to_dict_def split: option.splits)
  show ?thesis
    using assms handshake_back [of _ data] handshake_response_back [of _ data] request_back [of _ data] response_back [of _ data] type
    by (cases f) (simp_all add: frame_from_dict_def)
qed

section \<open>Decoding yields valid frames\<close>

lemma make_version_valid: "make_version a b = Inr v \<Longrightarrow> valid_version v"
  by (auto simp: make_version_def bindE_Inr_iff strict_int_ok valid_version_def)

lemma version_from_valid: "version_from_dict v = Inr x \<Longrightarrow> valid_version x"
  by (auto simp: version_from_dict_def bindE_Inr_iff dest: make_version_valid)

lemma optional_idem: "optional_string v name = Inr r \<Longrightarrow> optional_string (jopt r) name = Inr r"
  by (cases r) (auto simp: optional_string_ok required_string_ok)

lemma make_context_valid:
  assumes "make_client_context a b c d e f g h i j = Inr ctx"
  shows "valid_context ctx"
  using assms by (cases ctx) (auto simp: make_client_context_def bindE_Inr_iff valid_context_def
    dest: required_string_idem optional_idem string_tuple_idem)

lemma context_from_valid: "client_context_from_dict v = Inr x \<Longrightarrow> valid_context x"
  by (auto simp: client_context_from_dict_def bindE_Inr_iff dest: make_context_valid)

lemma make_error_valid:
  assumes "make_protocol_error a b c d = Inr e"
  shows "valid_error e"
  using assms by (cases e) (auto simp: make_protocol_error_def bindE_Inr_iff valid_error_def invalid_def simp del: py_of.simps
    dest: required_string_idem validate_json_again [where name' = "''error.details''"] split: json.splits)

lemma error_of_item_valid: "error_of_item v = Inr x \<Longrightarrow> valid_error_opt x"
  by (auto simp: error_of_item_def bindE_Inr_iff valid_error_opt_def protocol_error_from_dict_def dest: make_error_valid split: if_splits)

lemma make_handshake_valid:
  assumes "make_handshake ctx caps v schema cred = Inr h" "valid_context ctx" "valid_version v"
  shows "valid_frame (Handshake h)"
  using assms by (cases h) (auto simp: make_handshake_def bindE_Inr_iff strict_int_ok
    dest: string_tuple_idem required_string_idem split: if_splits)

lemma make_handshake_response_valid:
  assumes "make_handshake_response acc caps sv err v schema = Inr h" "valid_error_opt err" "valid_version v"
  shows "valid_frame (HandshakeResponse h)"
  using assms by (cases h) (auto simp: make_handshake_response_def bindE_Inr_iff strict_int_ok invalid_def
    dest: string_tuple_idem required_string_idem split: json.splits)

lemma make_request_valid:
  assumes "make_request_frame rid m ps v schema = Inr r" "valid_version v"
  shows "valid_frame (Request r)"
  using assms by (cases r) (auto simp: make_request_frame_def bindE_Inr_iff strict_int_ok simp del: py_of.simps
    dest: required_string_idem validate_json_again [where name' = "''params''"])

lemma make_response_valid:
  assumes "make_response rid k res err v schema = Inr r" "valid_error_opt err" "valid_version v"
  shows "valid_frame (Response r)"
  using assms by (cases r) (auto simp: make_response_def bindE_Inr_iff strict_int_ok invalid_def
    dest: required_string_idem validate_json_again [where name' = "''result''"] split: json.splits)

lemma frame_from_dict_valid:
  assumes "frame_from_dict data = Inr f"
  shows "valid_frame f"
proof -
  have "valid_frame (Handshake h)" if "handshake_from_dict data = Inr h" for h
    using that by (auto simp del: valid_frame.simps simp: handshake_from_dict_def bindE_Inr_iff
      intro: make_handshake_valid context_from_valid version_from_valid)
  moreover have "valid_frame (HandshakeResponse h)" if "handshake_response_from_dict data = Inr h" for h
    using that by (auto simp del: valid_frame.simps simp: handshake_response_from_dict_def bindE_Inr_iff
      intro: make_handshake_response_valid error_of_item_valid version_from_valid)
  moreover have "valid_frame (Request r)" if "request_from_dict data = Inr r" for r
    using that by (auto simp del: valid_frame.simps simp: request_from_dict_def bindE_Inr_iff
      intro: make_request_valid version_from_valid)
  moreover have "valid_frame (Response r)" if "response_from_dict data = Inr r" for r
    using that by (auto simp del: valid_frame.simps simp: response_from_dict_def bindE_Inr_iff
      intro: make_response_valid error_of_item_valid version_from_valid)
  ultimately show ?thesis
    using assms by (auto simp del: valid_frame.simps simp: frame_from_dict_def invalid_def bindE_Inr_iff split: json.splits if_splits)
qed

lemma decode_frame_valid: "decode_frame io w m refuse = Inr f \<Longrightarrow> valid_frame f \<and> (refuse \<longrightarrow> pv_major (frame_protocol f) = PROTOCOL_MAJOR)"
  by (auto simp del: valid_frame.simps simp: decode_frame_def bindE_Inr_iff Let_def require_compatible_major_def
    intro: frame_from_dict_valid split: if_splits)

section \<open>The text of a frame\<close>

lemma numeral_chars:
  assumes "float_numeral t" "c \<in> set t"
  shows "32 \<le> code c"
proof -
  have digits: "\<forall>c \<in> set (takeWhile is_digit s). 32 \<le> code c" for s
    using set_takeWhileD [of _ is_digit s] by (fastforce simp: is_digit_def)
  have fr: "\<forall>c \<in> set f. 32 \<le> code c" if "scan_fraction s = (f, r)" for s f r
  proof -
    from that have "f = [] \<or> f = CHR ''.'' # takeWhile is_digit (drop 1 s)"
      unfolding scan_fraction_def Let_def by (simp split: if_splits)
    moreover have "32 \<le> code (CHR ''.'')" by (simp add: code_def)
    ultimately show ?thesis using digits [of "drop 1 s"] by (elim disjE) (simp_all del: drop_Suc)
  qed
  have ex: "\<forall>c \<in> set e. 32 \<le> code c" if "scan_exponent s = (e, r)" for s e r
  proof (cases s)
    case (Cons x u)
    define sg where "sg = takeWhile (\<lambda>c. c = CHR ''+'' \<or> c = CHR ''-'') (take 1 u)"
    have signs: "32 \<le> code (CHR ''+'')" "32 \<le> code (CHR ''-'')" by (simp_all add: code_def)
    have sg: "32 \<le> code c" if "c \<in> set sg" for c
      using set_takeWhileD [OF that [unfolded sg_def]] signs by metis
    show ?thesis
    proof (cases "x = CHR ''e'' \<or> x = CHR ''E''")
      case True
      from that Cons True have "e = [] \<or> e = x # sg @ takeWhile is_digit (drop (length sg) u)"
        unfolding scan_exponent_def Cons list.case Let_def sg_def [symmetric] by (simp split: if_splits)
      moreover have "32 \<le> code x" using True by (auto simp: code_def)
      ultimately show ?thesis using sg digits [of "drop (length sg) u"] by fastforce
    qed (use that Cons in \<open>simp add: scan_exponent_def\<close>)
  qed (use that in \<open>simp add: scan_exponent_def\<close>)
  obtain neg whole dec expo r where t: "scan_numeral t = (neg, whole, dec, expo, r)" by (metis prod_cases5)
  define u where "u = (if take 1 t = ''-'' then drop 1 t else t)"
  define w where "w = (if take 1 (takeWhile is_digit u) = ''0'' then ''0'' else takeWhile is_digit u)"
  obtain f r1 where f: "scan_fraction (drop (length w) u) = (f, r1)" by fastforce
  obtain e r2 where e: "scan_exponent r1 = (e, r2)" by fastforce
  from t scan_numeralI [OF u_def w_def f e] have "whole = w" "dec = f" "expo = e" by auto
  moreover have "\<forall>c \<in> set w. 32 \<le> code c" using digits [of u] by (auto simp: w_def code_def)
  moreover have "t = (if neg then ''-'' else []) @ whole @ dec @ expo" using assms(1) t by (simp add: float_numeral_def)
  ultimately have "c \<in> set ''-'' \<or> c \<in> set w \<or> c \<in> set f \<or> c \<in> set e" using assms(2) by (auto split: if_splits)
  then show ?thesis using fr [OF f] ex [OF e] \<open>\<forall>c \<in> set w. _\<close> by (auto simp: code_def)
qed

lemma show_int_chars: "c \<in> set (show_int i) \<Longrightarrow> 32 \<le> code c"
proof -
  have "\<forall>c \<in> set (show_nat n). 32 \<le> code c" for n
    using show_nat_facts [of n] by (auto simp: list_all_iff is_digit_def)
  then show "c \<in> set (show_int i) \<Longrightarrow> 32 \<le> code c" by (auto simp: show_int_def code_def split: if_splits)
qed

lemma quoted_chars: "c \<in> set (json_quote_raw s) \<Longrightarrow> 32 \<le> code c"
proof -
  have hex: "\<forall>n \<in> set [0..<16]. 32 \<le> code (hex_digit n)" by code_simp
  have "32 \<le> code d" if "d \<in> set (json_char_raw x)" for d x
  proof (cases "code x < 32")
    case True
    then have "code x div 16 < 16" "code x mod 16 < 16" by simp_all
    then have "32 \<le> code (hex_digit (code x div 16))" "32 \<le> code (hex_digit (code x mod 16))" using hex by simp_all
    with True that show ?thesis by (auto simp: json_char_raw_def json_char_def Let_def code_def split: if_splits)
  next
    case False
    with that show ?thesis by (auto simp: json_char_raw_def json_char_def Let_def code_def split: if_splits)
  qed
  then show "c \<in> set (json_quote_raw s) \<Longrightarrow> 32 \<le> code c" by (auto simp: json_quote_raw_def code_def)
qed

lemma join_chars: "c \<in> set (join sep ts) \<Longrightarrow> c \<in> set sep \<or> (\<exists>t \<in> set ts. c \<in> set t)"
  by (induction sep ts rule: join.induct) auto

lemma printable_arr: "printable io (JArr xs) \<longleftrightarrow> (\<forall>x \<in> set xs. printable io x)"
  by (simp add: list_all_iff)

lemma printable_obj: "printable io (JObj kvs) \<longleftrightarrow> distinct (map fst kvs) \<and> (\<forall>kv \<in> set kvs. printable io (snd kv))"
  by (simp add: list_all_iff)

declare printable.simps(6,7) [simp del]

lemma raw_chars: "printable io v \<Longrightarrow> c \<in> set (json_raw (fl_repr io) v) \<Longrightarrow> 32 \<le> code c"
proof (induction v)
  case (JArr xs)
  then have "c \<in> set ''[,]'' \<or> (\<exists>x \<in> set xs. c \<in> set (json_raw (fl_repr io) x))"
    using join_chars [of c "'',''" "map (json_raw (fl_repr io)) xs"] by auto
  with JArr show ?case by (auto simp: code_def printable_arr)
next
  case (JObj kvs)
  then have "c \<in> set ''{,}:'' \<or> (\<exists>kv \<in> set kvs. c \<in> set (json_quote_raw (fst kv)) \<or> c \<in> set (json_raw (fl_repr io) (snd kv)))"
    using join_chars [of c "'',''" "map (\<lambda>kt. json_quote_raw (fst kt) @ '':'' @ snd kt) (map (map_prod id (json_raw (fl_repr io))) kvs)"]
    by auto
  then show ?case
  proof (elim disjE bexE)
    fix kv
    assume kv: "kv \<in> set kvs" "c \<in> set (json_raw (fl_repr io) (snd kv))"
    then have "printable io (snd kv)" using JObj.prems(1) by (simp add: printable_obj)
    with kv show ?thesis by (intro JObj.IH [of kv "snd kv"]) (auto intro: snds.intros)
  qed (auto dest: quoted_chars, auto simp: code_def)
qed (auto dest: show_int_chars numeral_chars quoted_chars split: if_splits, auto simp: code_def)

lemma printable_canon: "printable io v \<Longrightarrow> printable io (canon v)"
proof (induction v)
  case (JArr xs)
  then show ?case by (simp add: printable_arr)
next
  case (JObj kvs)
  have "printable io (canon (snd kv))" if "kv \<in> set kvs" for kv
  proof (rule JObj.IH [OF that])
    show "printable io (snd kv)" using JObj.prems that by (simp add: printable_obj)
  qed (auto intro: snds.intros)
  then have "\<forall>kv \<in> set (canon_dict kvs). printable io (snd kv)" by (auto simp: canon_dict_def)
  moreover have "distinct (map fst (canon_dict kvs))" using JObj.prems by (simp add: printable_obj)
  ultimately show ?case unfolding canon_obj by (simp add: printable_obj)
qed simp_all

lemma printable_ints: "printable io v \<Longrightarrow> ints_printable v"
proof (induction v)
  case (JObj kvs)
  have "ints_printable (snd kv)" if "kv \<in> set kvs" for kv
  proof (rule JObj.IH [OF that])
    show "printable io (snd kv)" using JObj.prems that by (simp add: printable_obj)
  qed (auto intro: snds.intros)
  then show ?case by (auto simp: list_all_iff)
qed (auto simp: list_all_iff printable_arr)

lemma utf8_append: "utf8 (a @ b) = utf8 a @ utf8 b"
  by (simp add: utf8_def)

lemma utf8_newline: "utf8 [newline] = [newline]"
  by code_simp

lemma strip_line_end_of:
  assumes "\<forall>c \<in> set t. 32 \<le> code c"
  shows "strip_line_end (t @ [newline]) = t" "newline \<notin> set t" "CHR 0x0D \<notin> set t"
proof -
  have cr: "\<not> 32 \<le> code (CHR 0x0D)" "\<not> 32 \<le> code newline" by (simp_all add: code_def newline_def)
  with assms show n: "newline \<notin> set t" "CHR 0x0D \<notin> set t" by auto
  have "\<not> suffix [CHR 0x0D, newline] (t @ [newline])"
  proof
    assume "suffix [CHR 0x0D, newline] (t @ [newline])"
    then obtain u where "t @ [newline] = (u @ [CHR 0x0D]) @ [newline]" by (auto simp: suffix_def)
    then have "t = u @ [CHR 0x0D]" by blast
    with n(2) show False by simp
  qed
  then show "strip_line_end (t @ [newline]) = t" by (simp add: strip_line_end_def suffix_def)
qed

lemma frame_dict_obj: "\<exists>kvs. frame_to_dict f = JObj kvs"
  by (cases f) (simp_all add: handshake_to_dict_def handshake_response_to_dict_def request_to_dict_def response_to_dict_def)

section \<open>Which errors decoding raises\<close>

definition errs :: "(error \<Rightarrow> bool) \<Rightarrow> 'a res \<Rightarrow> bool" where
  "errs P m \<longleftrightarrow> (\<forall>e. m = Inl e \<longrightarrow> P e)"

lemma errs_simps [simp]: "errs P (Inr a)" "errs P (Inl e) \<longleftrightarrow> P e"
  by (simp_all add: errs_def)

lemma errs_bind: "errs P m \<Longrightarrow> (\<And>a. errs P (f a)) \<Longrightarrow> errs P (bindE m f)"
  by (cases m) simp_all

lemma errs_if: "(b \<Longrightarrow> errs P x) \<Longrightarrow> (\<not> b \<Longrightarrow> errs P y) \<Longrightarrow> errs P (if b then x else y)"
  by simp

lemma errs_mapE: "(\<And>x. x \<in> set xs \<Longrightarrow> errs P (f x)) \<Longrightarrow> errs P (mapE f xs)"
  by (induction xs) (auto intro!: errs_bind)

lemma errs_weaken: "errs P m \<Longrightarrow> (\<And>e. P e \<Longrightarrow> Q e) \<Longrightarrow> errs Q m"
  by (auto simp: errs_def)

lemma errs_check: "P e \<Longrightarrow> errs P (checkE b e)"
  by (simp add: errs_def)

definition refusal :: "error \<Rightarrow> bool" where
  "refusal e \<longleftrightarrow> (\<exists>m. e = ProtocolValidationError m)"

lemma refusal_invalid [simp]: "errs refusal (invalid m)"
  by (simp add: invalid_def refusal_def)

lemma errs_validators:
  "errs refusal (required_string v name tok)" "errs refusal (strict_int v name least)" "errs refusal (mapping v name)"
  "errs refusal (check_keys data req opt)"
  by (auto simp: required_string_def strict_int_def mapping_def check_keys_def split: json.splits)

lemma errs_optional: "errs refusal (optional_string v name)"
  by (auto simp: optional_string_def intro!: errs_bind errs_validators)

lemma errs_tuple: "errs refusal (string_tuple v name ae)"
  by (auto simp: string_tuple_def refusal_def intro!: errs_bind errs_mapE errs_validators errs_check split: json.splits)

lemma errs_validate: "errs refusal (validate_json name depth v)"
proof (induction name depth v rule: validate_json.induct)
  case (1 name depth v)
  show ?case
  proof (cases "MAX_JSON_DEPTH < depth")
    case False
    note IH = "1.IH" [OF False] and unfold = validate_json.simps [of name depth v] if_not_P [OF False]
    show ?thesis
    proof (cases v)
      case (PList xs)
      with IH(1) show ?thesis unfolding unfold by (simp add: errs_bind errs_mapE)
    next
      case (PTuple xs)
      with IH(2) show ?thesis unfolding unfold by (simp add: errs_bind errs_mapE)
    next
      case (PDict kvs)
      with IH(3) show ?thesis unfolding unfold by (auto intro!: errs_bind errs_mapE split: option.split)
    qed (unfold unfold, simp_all)
  qed (subst validate_json.simps, simp)
qed

lemmas errs_intros = errs_bind errs_validators errs_optional errs_tuple errs_validate errs_check

lemma errs_version: "errs refusal (version_from_dict v)"
  by (auto simp: version_from_dict_def make_version_def intro!: errs_intros)

lemma errs_context: "errs refusal (client_context_from_dict v)"
  by (auto simp: client_context_from_dict_def make_client_context_def intro!: errs_intros)

lemma errs_error: "errs refusal (error_of_item v)"
  by (auto simp: error_of_item_def protocol_error_from_dict_def make_protocol_error_def intro!: errs_intros split: json.split)

lemma errs_frames:
  "errs refusal (handshake_from_dict data)" "errs refusal (handshake_response_from_dict data)"
  "errs refusal (request_from_dict data)" "errs refusal (response_from_dict data)"
  by (auto simp: handshake_from_dict_def make_handshake_def handshake_response_from_dict_def make_handshake_response_def
      request_from_dict_def make_request_frame_def response_from_dict_def make_response_def refusal_def
      intro!: errs_bind errs_validators errs_optional errs_tuple errs_validate errs_check errs_version errs_context errs_error split: json.split)

text \<open>The exceptions of a scan: refused syntax, a hook, the digit limit, and what the model does not say.\<close>

definition digit_limit :: error where
  "digit_limit = ValueError ''Exceeds the limit for integer string conversion''"

definition scan_error :: "json_hooks \<Rightarrow> error \<Rightarrow> bool" where
  "scan_error hooks e \<longleftrightarrow> (\<exists>m. e = JSONDecodeError m \<or> e = RecursionError m) \<or> e \<in> {jh_constant hooks, jh_repeated hooks, digit_limit, WideText}"

lemma scan_error_simps [simp]:
  "scan_error hooks (JSONDecodeError m)" "scan_error hooks (RecursionError m)" "scan_error hooks (jh_constant hooks)"
  "scan_error hooks (jh_repeated hooks)" "scan_error hooks digit_limit" "scan_error hooks WideText"
  by (simp_all add: scan_error_def)

lemma errs_scan_string: "errs (scan_error hooks) (scan_string s)"
proof -
  have "text_error e \<Longrightarrow> scan_error hooks e" for e by (cases e) simp_all
  then show ?thesis using scan_string_error by (simp add: errs_def)
qed

lemma errs_scan_number: "errs (scan_error hooks) (scan_number io s)"
  by (simp add: scan_number_def digit_limit_def [symmetric] split: prod.split option.split)

lemma errs_scan_name: "scan_name hooks s = Some m \<Longrightarrow> errs (scan_error hooks) m"
  unfolding scan_name_def by (simp split: option.splits if_split_asm) (auto simp: scan_error_def)

lemma errs_token: "errs (scan_error hooks) (token w s)"
  by (auto simp: token_def scan_error_def split: list.split)

lemma errs_scan_all:
  "(\<forall>s. errs (scan_error hooks) (scan_value hooks io n s)) \<and> (\<forall>s. errs (scan_error hooks) (scan_elements hooks io n s))
    \<and> (\<forall>s. errs (scan_error hooks) (scan_members hooks io n s))"
proof (induction n)
  case (Suc n)
  then have IH: "\<And>s. errs (scan_error hooks) (scan_value hooks io n s)" "\<And>s. errs (scan_error hooks) (scan_elements hooks io n s)"
    "\<And>s. errs (scan_error hooks) (scan_members hooks io n s)" by blast+
  note rules = errs_bind [OF errs_scan_string] errs_bind [OF errs_token] IH [THEN errs_bind] errs_if
  have "errs (scan_error hooks) (scan_value hooks io (Suc n) s)" for s
    using errs_scan_name [of hooks s] errs_scan_number [of hooks io s] unfolding scan_value.simps split_beta
    by (intro rules) (simp_all split: option.split)
  moreover have "errs (scan_error hooks) (scan_elements hooks io (Suc n) s)" for s
    unfolding scan_elements.simps split_beta by (intro rules) simp_all
  moreover have "errs (scan_error hooks) (scan_members hooks io (Suc n) s)" for s
    unfolding scan_members.simps split_beta by (intro rules) simp_all
  ultimately show ?case by blast
qed simp

lemma errs_loads: "errs (scan_error hooks) (json_loads hooks io s)"
  unfolding json_loads_def by (rule errs_bind [OF errs_scan_all [THEN conjunct1, rule_format]]) auto

text \<open>The exceptions that leave \<open>decode_frame\<close>.\<close>

definition decode_error :: "error \<Rightarrow> bool" where
  "decode_error e \<longleftrightarrow> (\<exists>m. e = ProtocolValidationError m \<or> e = FrameTooLargeError m \<or> e = ProtocolVersionMismatch m)
     \<or> e \<in> {digit_limit, TypeError ''unhashable type'', WideText}"

lemma errs_refused: "errs refusal m \<Longrightarrow> errs decode_error m"
  by (erule errs_weaken) (auto simp: refusal_def decode_error_def)

lemma errs_load: "errs decode_error (load_frame_text io s)"
proof -
  have "decode_error e" if "load_frame_text io s = Inl e" for e
  proof (cases "json_loads frame_hooks io s")
    case (Inl x)
    with errs_loads [of frame_hooks io s] have "scan_error frame_hooks x" by (simp add: errs_def)
    with Inl that show ?thesis
      by (auto simp: load_frame_text_def scan_error_def frame_hooks_def decode_error_def digit_limit_def invalid_def)
  qed (use that in \<open>simp add: load_frame_text_def\<close>)
  then show ?thesis by (simp add: errs_def)
qed

lemma utf8_strict_error: "utf8_strict s = Inl e \<Longrightarrow> e = WideText \<or> (\<exists>m. e = UnicodeDecodeError m)"
  by (induction s arbitrary: e rule: utf8_strict.induct)
    (auto simp: bindE_Inl_iff split: if_splits list.splits)

lemma errs_text: "errs decode_error (case utf8_strict raw of Inl (UnicodeDecodeError m) \<Rightarrow> invalid w | r \<Rightarrow> r)"
  using utf8_strict_error [of raw] by (cases "utf8_strict raw") (auto simp: invalid_def decode_error_def)

lemma errs_frame_from_dict: "errs decode_error (frame_from_dict data)"
proof -
  note f = errs_frames [THEN errs_refused] and i = errs_refused [OF refusal_invalid]
  show ?thesis
  proof (cases "item ''type'' data")
    case (JStr t)
    then show ?thesis unfolding frame_from_dict_def JStr json.case
      by (intro errs_if i f [THEN errs_bind]) (simp_all only: errs_simps)
  qed (simp_all add: frame_from_dict_def i, simp_all add: decode_error_def)
qed

text \<open>The text of a valid frame is read back, whatever ends its line.\<close>

lemma frame_text_decoded:
  assumes "valid_frame f" "printable io (frame_to_dict f)" "height (frame_to_dict f) \<le> MAX_JSON_DEPTH"
    and "0 < max_size" "int (length bytes) \<le> max_size" "utf8_strict bytes = Inr raw"
    and "strip_line_end raw = json_raw (fl_repr io) (canon (frame_to_dict f))"
  shows "decode_frame io (Bytes bytes) max_size False = Inr (canon_frame f)"
proof -
  obtain kvs where kvs: "frame_to_dict f = JObj kvs" using frame_dict_obj by blast
  let ?v = "canon (frame_to_dict f)"
  let ?t = "json_raw (fl_repr io) ?v"
  have p: "printable io ?v" using assms(2) by (rule printable_canon)
  have chars: "\<forall>c \<in> set ?t. 32 \<le> code c" using raw_chars [OF p] by blast
  have "newline \<notin> set ?t" "CHR 0x0D \<notin> set ?t" using chars by (auto simp: newline_def code_def)
  moreover have "?t \<noteq> []" using raw_open [OF p] by (simp add: open_head_def)
  moreover have "load_frame_text io ?t = Inr (py_of ?v)" by (simp add: load_frame_text_def json_loads_printed [OF p])
  moreover have "validate_json ''frame'' 0 (py_of ?v) = Inr ?v" using assms(3) by (intro validate_json_of) simp
  moreover have "frame_from_dict (canon_dict kvs) = Inr (canon_frame f)"
    using assms(1) by (rule frame_back) (simp add: kvs canon_obj)
  ultimately show ?thesis using assms(4-7)
    by (simp add: decode_frame_def wire_bytes_def kvs canon_obj mapping_def del: py_of.simps)
qed

lemma encode_frame_ok:
  assumes "encode_frame io max_size f = Inr b"
  shows "b = utf8 (json_raw (fl_repr io) (canon (frame_to_dict f))) @ [newline] \<and> 0 < max_size \<and> int (length b) \<le> max_size"
  using assms by (auto simp: encode_frame_def bindE_Inr_iff Let_def split: if_splits)

lemma line_roundtrip:
  assumes "valid_frame f" "printable io (frame_to_dict f)" "height (frame_to_dict f) \<le> MAX_JSON_DEPTH"
    and "encode_frame io max_size f = Inr b"
  shows "decode_frame io (Bytes (butlast b)) max_size False = Inr (canon_frame f)"
proof -
  let ?t = "json_raw (fl_repr io) (canon (frame_to_dict f))"
  have chars: "\<forall>c \<in> set ?t. 32 \<le> code c" using raw_chars [OF printable_canon [OF assms(2)]] by blast
  then have "newline \<notin> set ?t" by (auto simp: newline_def code_def)
  then have "\<not> suffix [CHR 0x0D, newline] ?t" "\<not> suffix [newline] ?t"
    using set_mono_suffix [of "[CHR 0x0D, newline]" ?t] set_mono_suffix [of "[newline]" ?t] by auto
  then show ?thesis using encode_frame_ok [OF assms(4)]
    by (intro frame_text_decoded [OF assms(1-3)]) (auto simp: utf8_strict_utf8 strip_line_end_def)
qed

section \<open>Properties\<close>

text \<open>C31: frames survive the wire.  A valid frame whose numbers the runtime can write and read, with
  distinct keys and no deeper than the limit, is decoded from its own encoding as itself, up to the
  order of the members of its open objects.
\<close>

theorem frame_roundtrip:
  assumes "valid_frame f" "printable io (frame_to_dict f)" "height (frame_to_dict f) \<le> MAX_JSON_DEPTH"
    and "encode_frame io max_size f = Inr b"
  shows "decode_frame io (Bytes b) max_size False = Inr (canon_frame f)"
proof -
  let ?t = "json_raw (fl_repr io) (canon (frame_to_dict f))"
  have chars: "\<forall>c \<in> set ?t. 32 \<le> code c" using raw_chars [OF printable_canon [OF assms(2)]] by blast
  have b: "b = utf8 ?t @ [newline]" "0 < max_size" "int (length b) \<le> max_size" using encode_frame_ok [OF assms(4)] by auto
  have "utf8_strict b = Inr (?t @ [newline])"
    using utf8_strict_utf8 [of "?t @ [newline]"] by (simp only: b(1) utf8_append utf8_newline)
  then show ?thesis using b(2,3) strip_line_end_of [OF chars] by (intro frame_text_decoded [OF assms(1-3)]) auto
qed

text \<open>C32: decoding yields valid frames.  Whatever the bytes, a decoded frame passes its own validation
  again, and where the caller asks for it, it speaks the supported major version.
\<close>

theorem decoded_frames_valid:
  assumes "decode_frame io w max_size refuse = Inr f"
  shows "valid_frame f \<and> (refuse \<longrightarrow> pv_major (frame_protocol f) = PROTOCOL_MAJOR)"
  by (rule decode_frame_valid [OF assms])

text \<open>C33: a request cannot name its own identity.  The parameters of a decoded request never contain a
  field of the connection's context, its method is one of the protocol's, and its id is a token.
\<close>

theorem requests_cannot_spoof:
  assumes "decode_frame io w max_size refuse = Inr (Request r)"
  shows "(\<forall>k \<in> fst ` set (rm_params r). k \<notin> set IMMUTABLE_CONTEXT_FIELDS)
    \<and> map_of METHOD_CAPABILITIES (rm_method r) \<noteq> None \<and> TOKEN (rm_id r) \<and> 0 \<le> rm_schema r"
proof -
  have "valid_frame (Request r)" using decode_frame_valid [OF assms] by blast
  then show ?thesis
    by (cases r) (auto simp: make_request_frame_def bindE_Inr_iff required_string_ok strict_int_ok list_all_iff simp del: py_of.simps)
qed

text \<open>C34: the errors of decoding.  A frame that is not decoded raises an error of the protocol, with two
  exceptions that are not: an integer of too many digits raises the runtime's \<open>ValueError\<close>, and a
  frame type that is a list or an object a \<open>TypeError\<close>.
\<close>

theorem decode_errors:
  assumes "decode_frame io w max_size refuse = Inl e"
  shows "(\<exists>m. e = ProtocolValidationError m \<or> e = FrameTooLargeError m \<or> e = ProtocolVersionMismatch m)
    \<or> e = ValueError ''Exceeds the limit for integer string conversion'' \<or> e = TypeError ''unhashable type'' \<or> e = WideText"
proof -
  have "errs decode_error (wire_bytes w)" by (auto simp: wire_bytes_def intro: errs_refused split: wire.split)
  moreover have "errs decode_error (bindE (validate_json n 0 v) (\<lambda>j. mapping j n))" for n v
    by (intro errs_refused errs_bind errs_validate errs_validators)
  ultimately have "errs decode_error (decode_frame io w max_size refuse)"
    unfolding decode_frame_def Let_def
    by (intro errs_bind [OF errs_check] errs_bind [OF \<open>errs decode_error (wire_bytes w)\<close>] errs_bind [OF errs_text]
        errs_bind [OF errs_load] errs_bind [OF \<open>\<And>v n. errs decode_error (bindE (validate_json n 0 v) (\<lambda>j. mapping j n))\<close>]
        errs_bind [OF errs_frame_from_dict] errs_bind)
      (auto simp: decode_error_def require_compatible_major_def intro: errs_check)
  with assms show ?thesis by (auto simp: errs_def decode_error_def digit_limit_def)
qed

text \<open>Both exceptions happen.\<close>

lemma unhashable_type: "decode_frame io (Bytes (''{'' @ json_quote_raw ''type'' @ '':[]}'')) MAX_FRAME_SIZE True = Inl (TypeError ''unhashable type'')"
  by code_simp


text \<open>What a handshake negotiates.  The server always answers.  It refuses another major version with
  an error and no capability; otherwise it accepts, with exactly the capabilities both sides name, in
  its own order.
\<close>

theorem negotiation_sound:
  assumes "strip sv \<noteq> []" "string_tuple (texts caps) ''server_capabilities'' True = Inr caps" "0 \<le> n"
  shows "\<exists>r. negotiate_handshake h (JStr sv) (texts caps) (JInt n) = Inr r
    \<and> hr_accepted r = (pv_major (hs_protocol h) = PROTOCOL_MAJOR) \<and> (hr_error r = None \<longleftrightarrow> hr_accepted r)
    \<and> hr_capabilities r = (if hr_accepted r then filter (\<lambda>c. c \<in> set (hs_capabilities h)) caps else [])
    \<and> hr_service_version r = strip sv \<and> hr_schema r = n \<and> hr_protocol r = this_version"
proof -
  have caps: "TOKEN c \<and> strip c = c \<and> c \<noteq> []" if "c \<in> set caps" for c
  proof -
    from assms(2) have "mapE (\<lambda>x. required_string x ''server_capabilities'' True) (map JStr caps) = Inr caps"
      by (simp add: string_tuple_ok texts_def)
    from mapE_set [OF this that] show ?thesis by (auto simp: required_string_ok)
  qed
  have "string_tuple (texts (filter P caps)) ''capabilities'' True = Inr (filter P caps)" for P
    using assms(2) caps by (auto simp: string_tuple_ok texts_def required_string_ok intro!: mapE_all)
  moreover have "string_tuple (texts []) ''capabilities'' True = Inr []" by (simp add: string_tuple_ok texts_def)
  moreover have "required_string (JStr sv) ''service_version'' False = Inr (strip sv)"
    "required_string (JStr (strip sv)) ''service_version'' False = Inr (strip sv)" using assms(1) by (simp_all add: required_string_ok)
  moreover have "strict_int (JInt n) ''schema_version'' 0 = Inr n" using assms(3) by (simp add: strict_int_ok)
  moreover have "\<exists>e. plain_error ''incompatible_protocol_major'' (''client major '' @ m) = Inr e" for m
  proof -
    have "TOKEN ''incompatible_protocol_major''" by code_simp
    moreover have "strip ''incompatible_protocol_major'' = ''incompatible_protocol_major''" by code_simp
    moreover have "strip (''client major '' @ m) \<noteq> []" by (simp add: strip_Cons_nonempty py_space_def code_def Let_def)
    moreover have "validate_json ''error.details'' 0 (PDict []) = Inr (JObj [])" by (subst validate_json.simps) simp
    ultimately show ?thesis by (simp add: plain_error_def make_protocol_error_def required_string_def mapping_def)
  qed
  moreover from this obtain e where "plain_error ''incompatible_protocol_major'' (''client major '' @
      show_int (pv_major (hs_protocol h)) @ ''; server major '' @ show_int PROTOCOL_MAJOR) = Inr e" by blast
  ultimately show ?thesis using assms
    by (cases "pv_major (hs_protocol h) = PROTOCOL_MAJOR")
      (simp_all add: negotiate_handshake_def make_handshake_response_def del: append_Cons)
qed

end
