(* ===== verification/DaemonFacts.thy ===== *)
theory DaemonFacts
  imports Daemon ProtocolFacts
begin

text \<open>
  What one connection of the daemon promises: it does not matter how the stream is cut into chunks,
  the application is reached only through an accepted handshake and only as the client that shook
  hands, and every request it runs is answered.
\<close>

section \<open>Sequencing\<close>

lemma bindR_simps [simp]:
  "bindR (retR b) f = f b"
  "bindR (bindR m f) g = bindR m (\<lambda>b. bindR (f b) g)"
  "bindR (liftR (Inl e)) f = liftR (Inl e)"
  "bindR (liftR (Inr b)) f = f b"
  by (auto simp: bindR_def retR_def liftR_def fun_eq_iff split: sum.split prod.split)

lemma bindR_if [simp]: "bindR (if b then m else n) f = (if b then bindR m f else bindR n f)"
  by simp

lemma bindR_cong: "(\<And>b. f b = g b) \<Longrightarrow> bindR m f = bindR m g"
  by presburger

lemma bindR_run: "bindR m f s = (r, t) \<longleftrightarrow> (\<exists>e. m s = (Inl e, t) \<and> r = Inl e) \<or> (\<exists>b u. m s = (Inr b, u) \<and> f b u = (r, t))"
  by (auto simp: bindR_def split: sum.split prod.split)

lemma bindR_step: "m s = (Inr b, u) \<Longrightarrow> bindR m f s = f b u" "m s = (Inl e, u) \<Longrightarrow> bindR m f s = (Inl e, u)"
  by (simp_all add: bindR_def)

lemma retR_run [simp]: "retR b s = (r, t) \<longleftrightarrow> r = Inr b \<and> t = s"
  by (auto simp: retR_def)

lemma liftR_run [simp]: "liftR m s = (r, t) \<longleftrightarrow> r = m \<and> t = s"
  by (auto simp: liftR_def)

declare drain.simps [simp del]

section \<open>Chunks\<close>

lemma drain_partial:
  assumes "newline \<notin> set buf"
  shows "drain cfg app buf c =
    (if dc_max_bytes cfg < int (length buf) then
       bindR (send_protocol_error cfg app c ''frame_too_large'' ''request frame exceeds configured limit'') (\<lambda>_. retR None)
     else retR (Some (buf, c)))"
proof -
  from assms have "takeWhile (\<lambda>c. c \<noteq> newline) buf = buf" by (auto simp: takeWhile_eq_all_conv)
  then show ?thesis by (subst drain.simps) (simp only: Let_def if_True simp_thms)
qed

lemma drain_line:
  assumes "newline \<notin> set line"
  shows "drain cfg app (line @ newline # rest) c =
    (if dc_max_bytes cfg < int (length line) then
       bindR (send_protocol_error cfg app c ''frame_too_large'' ''request frame exceeds configured limit'') (\<lambda>_. retR None)
     else bindR (handle_frame cfg app line c) (\<lambda>r. if fst r then drain cfg app rest (snd r) else retR None))"
proof -
  from assms have "takeWhile (\<lambda>c. c \<noteq> newline) (line @ newline # rest) = line"
    by (subst takeWhile_append2) auto
  moreover have "drop (Suc (length line)) (line @ newline # rest) = rest" by simp
  moreover have "length line \<noteq> length (line @ newline # rest)" by simp
  ultimately show ?thesis by (subst drain.simps) (simp only: Let_def if_False split_beta' prod.case_eq_if)
qed

text \<open>Reading more of the stream before or after the complete frames of the buffer is the same.\<close>

lemma drain_append:
  "drain cfg app (buf @ ext) c
    = bindR (drain cfg app buf c) (\<lambda>r. case r of None \<Rightarrow> retR None | Some (b, c') \<Rightarrow> drain cfg app (b @ ext) c')"
proof (induction "length buf" arbitrary: buf c rule: less_induct)
  case less
  show ?case
  proof (cases "newline \<in> set buf")
    case True
    then obtain line rest where buf: "buf = line @ newline # rest" and line: "newline \<notin> set line"
      by (meson split_list_first)
    then have app: "buf @ ext = line @ newline # (rest @ ext)" by simp
    have IH: "drain cfg app (rest @ ext) c'
        = bindR (drain cfg app rest c') (\<lambda>r. case r of None \<Rightarrow> retR None | Some (b, c') \<Rightarrow> drain cfg app (b @ ext) c')" for c'
      by (rule less) (simp add: buf)
    show ?thesis unfolding app drain_line [OF line] unfolding buf drain_line [OF line]
      by (simp add: IH [symmetric]) (rule impI bindR_cong | simp add: IH)+
  next
    case False
    show ?thesis
    proof (cases "dc_max_bytes cfg < int (length buf)")
      case small: False
      then show ?thesis by (simp add: drain_partial [OF False])
    next
      case big: True
      show ?thesis
      proof (cases "newline \<in> set ext")
        case True
        then obtain line rest where ext: "ext = line @ newline # rest" and line: "newline \<notin> set line"
          by (meson split_list_first)
        with False have line': "newline \<notin> set (buf @ line)" by simp
        have app: "buf @ ext = (buf @ line) @ newline # rest" using ext by simp
        from big have "dc_max_bytes cfg < int (length (buf @ line))" by simp
        with big show ?thesis unfolding app drain_line [OF line'] drain_partial [OF False] by simp
      next
        case none: False
        with False have "newline \<notin> set (buf @ ext)" by simp
        moreover from big have "dc_max_bytes cfg < int (length (buf @ ext))" by simp
        ultimately have "drain cfg app (buf @ ext) c = bindR (send_protocol_error cfg app c ''frame_too_large''
            ''request frame exceeds configured limit'') (\<lambda>_. retR None)"
          by (subst drain_partial) (simp_all only: if_True if_False not_False_eq_True)
        with big show ?thesis by (simp only: drain_partial [OF False] if_True bindR_simps option.case)
      qed
    qed
  qed
qed

lemma serve_chunks:
  assumes "\<forall>k \<in> set chunks. k \<noteq> []" "chunks \<noteq> []"
  shows "serve_client cfg app (map Chunk chunks @ rest) buf c
    = bindR (drain cfg app (buf @ concat chunks) c) (\<lambda>r. case r of None \<Rightarrow> retR () | Some (b, c') \<Rightarrow> serve_client cfg app rest b c')"
  using assms
proof (induction chunks arbitrary: buf c)
  case (Cons k chunks)
  show ?case
  proof (cases "chunks = []")
    case True
    with Cons.prems show ?thesis by simp
  next
    case False
    with Cons have IH: "serve_client cfg app (map Chunk chunks @ rest) b c'
        = bindR (drain cfg app (b @ concat chunks) c') (\<lambda>r. case r of None \<Rightarrow> retR () | Some (b, c') \<Rightarrow> serve_client cfg app rest b c')" for b c'
      by simp
    have "serve_client cfg app (map Chunk (k # chunks) @ rest) buf c
        = bindR (drain cfg app (buf @ k) c) (\<lambda>r. case r of None \<Rightarrow> retR () | Some (b, c') \<Rightarrow> serve_client cfg app (map Chunk chunks @ rest) b c')"
      using Cons.prems by simp
    also have "\<dots> = bindR (drain cfg app ((buf @ k) @ concat chunks) c)
        (\<lambda>r. case r of None \<Rightarrow> retR () | Some (b, c') \<Rightarrow> serve_client cfg app rest b c')"
      unfolding drain_append [of cfg app "buf @ k" "concat chunks" c] bindR_simps
      by (rule bindR_cong) (auto simp: IH split: option.split prod.split)
    finally show ?thesis by simp
  qed
qed simp

text \<open>C37: the cut of the stream does not matter.  Two sequences of non-empty chunks with the same bytes
  leave the connection in the same place: the same frames sent, the same calls of the application, the
  same outcome of whatever comes after.
\<close>

theorem chunks_do_not_matter:
  assumes "\<forall>k \<in> set chunks. k \<noteq> []" "\<forall>k \<in> set others. k \<noteq> []" "concat chunks = concat others"
  shows "serve_client cfg app (map Chunk chunks @ rest) [] None s = serve_client cfg app (map Chunk others @ rest) [] None s"
proof (cases "chunks = []")
  case True
  with assms(2,3) have "others = []" by (cases others) auto
  with True show ?thesis by simp
next
  case False
  with assms(1,3) have "others \<noteq> []" by (cases chunks) auto
  from False have "serve_client cfg app (map Chunk chunks @ rest) [] None = serve_client cfg app (map Chunk others @ rest) [] None"
    by (simp only: serve_chunks [OF assms(1) False] serve_chunks [OF assms(2) \<open>others \<noteq> []\<close>] assms(3) simp_thms)
  then show ?thesis by simp
qed

section \<open>Who reaches the application\<close>

text \<open>What a handshake has to be for the connection \<open>c\<close> it opened.\<close>

definition granted :: "daemon_config \<Rightarrow> (string \<Rightarrow> string) \<Rightarrow> handshake \<Rightarrow> negotiated \<Rightarrow> bool" where
  "granted cfg digest h c \<longleftrightarrow> pv_major (hs_protocol h) = PROTOCOL_MAJOR \<and> pv_minor (hs_protocol h) \<le> PROTOCOL_MINOR
     \<and> hs_schema h = dc_schema cfg
     \<and> (dc_credentials cfg \<noteq> [] \<longrightarrow> (\<exists>secret. map_of (dc_credentials cfg) (cc_client (hs_context h)) = Some secret
          \<and> secret = (case hs_credential h of None \<Rightarrow> [] | Some supplied \<Rightarrow> ''sha256:'' @ digest (utf8 supplied))))
     \<and> nc_context c = hs_context h \<and> nc_protocol c = hs_protocol h \<and> nc_schema c = hs_schema h
     \<and> set (nc_capabilities c) \<subseteq> strip ` set (dc_capabilities cfg) \<inter> set (hs_capabilities h)"

text \<open>One call of the application on an open connection.\<close>

inductive served :: "daemon_config \<Rightarrow> 'a application \<Rightarrow> negotiated \<Rightarrow> 'a \<Rightarrow> 'a \<Rightarrow> bool" for cfg app c where
  handled: "rm_protocol r = nc_protocol c \<Longrightarrow> rm_schema r = nc_schema c
    \<Longrightarrow> map_of METHOD_CAPABILITIES (rm_method r) = Some cap \<Longrightarrow> cap \<in> set (nc_capabilities c)
    \<Longrightarrow> \<forall>k \<in> fst ` set (rm_params r). k \<notin> set IMMUTABLE_CONTEXT_FIELDS
    \<Longrightarrow> served cfg app c a (snd (ap_handler app (nc_context c) r a))"
| looked: "''health'' \<in> set (nc_capabilities c) \<Longrightarrow> served cfg app c a (snd (health_result cfg app (nc_context c) a))"

lemma app_kept:
  "bindR m f s = (r, t) \<Longrightarrow> (\<And>q u. m s = (q, u) \<Longrightarrow> lk_app u = lk_app s)
    \<Longrightarrow> (\<And>b u. f b u = (r, t) \<Longrightarrow> lk_app t = lk_app u) \<Longrightarrow> lk_app t = lk_app s"
  unfolding bindR_run by metis

lemma sendall_app: "sendall app b s = (r, t) \<Longrightarrow> lk_app t = lk_app s"
  by (auto simp: sendall_def split: if_splits)

lemma send_app: "send cfg app f s = (r, t) \<Longrightarrow> lk_app t = lk_app s"
  unfolding send_def
  by (auto dest: sendall_app elim!: app_kept split: sum.split_asm error.split_asm)

lemma send_response_error_app: "send_response_error cfg app i err m s = (r, t) \<Longrightarrow> lk_app t = lk_app s"
  unfolding send_response_error_def by (auto elim!: app_kept dest: send_app)

lemma send_protocol_error_app: "send_protocol_error cfg app conn err m s = (r, t) \<Longrightarrow> lk_app t = lk_app s"
  unfolding send_protocol_error_def
  by (auto elim!: app_kept dest: send_app send_response_error_app split: option.split_asm)

text \<open>A connection comes only out of a handshake the daemon grants.\<close>

lemma tuple_entries:
  assumes "mapE (\<lambda>x. required_string x name True) (map JStr xs) = Inr ys" "y \<in> set ys"
  shows "y \<in> strip ` set xs \<and> strip y = y"
  using mapE_set [OF assms] by (auto simp: required_string_ok)

lemma texts_tuple: "string_tuple (texts xs) name ae = Inr ys \<Longrightarrow> set ys \<subseteq> strip ` set xs"
  using tuple_entries by (fastforce simp: string_tuple_ok texts_def)

lemma negotiate_handshake_accepted:
  assumes "negotiate_handshake h (JStr sv) (texts caps) (JInt n) = Inr r" "hr_accepted r"
  shows "pv_major (hs_protocol h) = PROTOCOL_MAJOR \<and> set (hr_capabilities r) \<subseteq> strip ` set caps \<inter> set (hs_capabilities h)"
proof -
  from assms obtain sv' caps' where caps: "string_tuple (texts caps) ''server_capabilities'' True = Inr caps'"
      and major: "pv_major (hs_protocol h) = PROTOCOL_MAJOR"
      and made: "make_handshake_response (JBool True) (texts (filter (\<lambda>cap. cap \<in> set (hs_capabilities h)) caps')) (JStr sv')
         None this_version (JInt n) = Inr r"
    by (auto simp: negotiate_handshake_def bindE_Inr_iff make_handshake_response_def strict_int_ok required_string_ok split: if_splits)
  have "mapE (\<lambda>x. required_string x ''server_capabilities'' True) (map JStr caps) = Inr caps'"
    using caps by (simp add: string_tuple_ok texts_def)
  then have "strip c = c" if "c \<in> set caps'" for c using tuple_entries that by blast
  then have "strip ` set (filter (\<lambda>cap. cap \<in> set (hs_capabilities h)) caps') \<subseteq> set caps' \<inter> set (hs_capabilities h)" by auto
  moreover have "set (hr_capabilities r) \<subseteq> strip ` set (filter (\<lambda>cap. cap \<in> set (hs_capabilities h)) caps')"
    using made by (auto simp: make_handshake_response_def bindE_Inr_iff dest!: texts_tuple)
  ultimately show ?thesis using texts_tuple [OF caps] major by blast
qed

lemma negotiate_granted:
  assumes "negotiate cfg digest h = Inr (response, Some c)"
  shows "granted cfg digest h c"
proof -
  from assms obtain r where r: "negotiate_handshake h (JStr (dc_version cfg)) (texts (dc_capabilities cfg)) (JInt (dc_schema cfg)) = Inr r"
      "hr_accepted r" "pv_minor (hs_protocol h) \<le> PROTOCOL_MINOR" "hs_schema h = dc_schema cfg"
      "dc_credentials cfg \<noteq> [] \<longrightarrow> map_of (dc_credentials cfg) (cc_client (hs_context h))
         = Some (case hs_credential h of None \<Rightarrow> [] | Some supplied \<Rightarrow> ''sha256:'' @ digest (utf8 supplied))"
      "c = \<lparr>nc_context = hs_context h, nc_capabilities = hr_capabilities r, nc_protocol = hs_protocol h, nc_schema = hs_schema h\<rparr>"
    by (auto simp: negotiate_def bindE_Inr_iff Let_def split: if_splits)
  with negotiate_handshake_accepted [OF r(1,2)] show ?thesis by (auto simp: granted_def)
qed

lemma run_request_served:
  assumes "run_request cfg app c r s = (q, t)" "request_incompatibility c r = None"
    "required_capability (JStr (rm_method r)) = Inr cap" "cap \<in> set (nc_capabilities c)" "valid_frame (Request r)"
  shows "served cfg app c (lk_app s) (lk_app t)"
proof -
  have agree: "rm_protocol r = nc_protocol c" "rm_schema r = nc_schema c"
    using assms(2) by (auto simp: request_incompatibility_def split: if_splits)
  have own: "strip (rm_method r) = rm_method r" "\<forall>k \<in> fst ` set (rm_params r). k \<notin> set IMMUTABLE_CONTEXT_FIELDS"
    using assms(5) by (cases r, auto simp: make_request_frame_def bindE_Inr_iff required_string_ok list_all_iff simp del: py_of.simps)+
  from assms(3) own(1) have cap: "map_of METHOD_CAPABILITIES (rm_method r) = Some cap"
    by (auto simp: required_capability_def bindE_Inr_iff required_string_ok invalid_def split: option.splits)
  show ?thesis
  proof (cases "rm_method r = ''health''")
    case True
    then have "cap = ''health''" using cap by (simp add: METHOD_CAPABILITIES_def)
    with assms(4) have "served cfg app c a (snd (health_result cfg app (nc_context c) a))" for a by (auto intro: looked)
    moreover have "lk_app t = snd (health_result cfg app (nc_context c) (lk_app s))"
      using assms(1) True by (auto simp: run_request_def Let_def split: prod.split_asm)
    ultimately show ?thesis by simp
  next
    case False
    then have "lk_app t = snd (ap_handler app (nc_context c) r (lk_app s))"
      using assms(1) by (auto simp: run_request_def Let_def split: prod.split_asm)
    then show ?thesis using handled [OF agree cap assms(4) own(2)] by simp
  qed
qed

text \<open>
  How far a run may take the application: not at all before a handshake, afterwards by served calls of
  the one client that shook hands.
\<close>

definition reach :: "daemon_config \<Rightarrow> 'a application \<Rightarrow> negotiated option \<Rightarrow> 'a \<Rightarrow> negotiated option \<Rightarrow> 'a \<Rightarrow> bool" where
  "reach cfg app conn a conn' a' \<longleftrightarrow> (case conn of
     Some c \<Rightarrow> conn' = Some c \<and> (served cfg app c)\<^sup>*\<^sup>* a a'
   | None \<Rightarrow> (conn' = None \<and> a' = a)
       \<or> (\<exists>h c. granted cfg (ap_digest app) h c \<and> conn' = Some c \<and> (served cfg app c)\<^sup>*\<^sup>* a a'))"

lemma reach_refl [simp]: "reach cfg app conn a conn a"
  by (simp add: reach_def split: option.split)

lemma reach_trans: "reach cfg app c a c' a' \<Longrightarrow> reach cfg app c' a' c'' a'' \<Longrightarrow> reach cfg app c a c'' a''"
  by (auto simp: reach_def split: option.splits intro: rtranclp_trans)

lemma handle_frame_reach:
  assumes "handle_frame cfg app bytes conn s = (res, t)"
  shows "\<exists>conn'. reach cfg app conn (lk_app s) conn' (lk_app t) \<and> (\<forall>r. res = Inr r \<longrightarrow> snd r = conn')"
proof -
  have kept: "?thesis" if "lk_app t = lk_app s" "\<forall>r. res = Inr r \<longrightarrow> snd r = conn"
    using that by (intro exI [of _ conn]) auto
  note runs = bindR_run case_prod_beta
  show ?thesis
  proof (cases "decode_frame (ap_floats app) (Bytes bytes) (dc_max_bytes cfg) False")
    case (Inl e)
    with assms show ?thesis
      by (intro kept) (auto simp: handle_frame_def runs dest!: send_protocol_error_app split: error.split_asm)
  next
    case (Inr decoded)
    have valid: "valid_frame decoded" using decode_frame_valid [OF Inr] by blast
    show ?thesis
    proof (cases conn)
      case None
      show ?thesis
      proof (cases "\<exists>h. decoded = Handshake h")
        case True
        then obtain h where run: "bindR (liftR (negotiate cfg (ap_digest app) h)) (\<lambda>(response, negotiated).
              bindR (send cfg app (HandshakeResponse response)) (\<lambda>sent. retR (sent \<and> hr_accepted response, negotiated))) s = (res, t)"
          using assms Inr None by (auto simp: handle_frame_def)
        then have same: "lk_app t = lk_app s" by (auto simp: runs dest!: send_app)
        show ?thesis
        proof (cases "\<exists>k c. res = Inr (k, Some c)")
          case True
          then obtain k c where res: "res = Inr (k, Some c)" by blast
          with run have "\<exists>response. Inr (response, Some c) = negotiate cfg (ap_digest app) h"
            by (auto simp: runs)
          then obtain response where "negotiate cfg (ap_digest app) h = Inr (response, Some c)" by metis
          from negotiate_granted [OF this] have "reach cfg app None (lk_app s) (Some c) (lk_app t)"
            by (auto simp: reach_def same)
          then show ?thesis by (auto simp: None res)
        next
          case False
          then have "\<forall>r. res = Inr r \<longrightarrow> snd r = conn" using None by (metis not_None_eq prod.collapse)
          with same show ?thesis by (rule kept)
        qed
      next
        case False
        with assms Inr None show ?thesis
          by (intro kept) (auto simp: handle_frame_def runs dest!: send_protocol_error_app split: frame.split_asm)
      qed
    next
      case (Some c)
      show ?thesis
      proof (cases "\<exists>r. decoded = Request r \<and> request_incompatibility c r = None")
        case False
        with assms Inr Some show ?thesis
          by (intro kept) (auto simp: handle_frame_def runs dest!: send_protocol_error_app send_response_error_app
              split: frame.split_asm option.split_asm)
      next
        case True
        then obtain r where r: "decoded = Request r" "request_incompatibility c r = None" by blast
        show ?thesis
        proof (cases "required_capability (JStr (rm_method r))")
          case (Inl e)
          with assms Inr Some r show ?thesis by (intro kept) (auto simp: handle_frame_def)
        next
          case cap: (Inr cap)
          show ?thesis
          proof (cases "cap \<in> set (nc_capabilities c)")
            case False
            with assms Inr Some r cap show ?thesis
              by (intro kept) (auto simp: handle_frame_def runs dest!: send_response_error_app)
          next
            case True
            with assms Inr Some r cap have run: "bindR (run_request cfg app c r) (\<lambda>response.
                bindR (send cfg app (Response response)) (\<lambda>sent. retR (sent, Some c))) s = (res, t)"
              by (simp add: handle_frame_def)
            then obtain q u where q: "run_request cfg app c r s = (q, u)" by fastforce
            from run_request_served [OF q r(2) cap True] valid r(1)
            have "served cfg app c (lk_app s) (lk_app u)" by simp
            moreover have "lk_app t = lk_app u" "\<forall>r. res = Inr r \<longrightarrow> snd r = Some c"
              using run q by (auto simp: runs dest!: send_app)
            ultimately show ?thesis by (auto simp: Some reach_def intro!: r_into_rtranclp)
          qed
        qed
      qed
    qed
  qed
qed

lemma drain_reach:
  assumes "drain cfg app buf conn s = (res, t)"
  shows "\<exists>conn'. reach cfg app conn (lk_app s) conn' (lk_app t) \<and> (\<forall>b c. res = Inr (Some (b, c)) \<longrightarrow> c = conn')"
  using assms
proof (induction "length buf" arbitrary: buf conn s rule: less_induct)
  case less
  have refused: ?case if "bindR (send_protocol_error cfg app conn err m) (\<lambda>_. retR None) s = (res, t)" for err m
    using that by (intro exI [of _ conn]) (auto simp: bindR_run dest!: send_protocol_error_app)
  show ?case
  proof (cases "newline \<in> set buf")
    case False
    with less.prems show ?thesis by (auto simp: drain_partial refused split: if_splits)
  next
    case True
    then obtain line rest where buf: "buf = line @ newline # rest" and line: "newline \<notin> set line"
      by (meson split_list_first)
    show ?thesis
    proof (cases "dc_max_bytes cfg < int (length line)")
      case True
      with less.prems show ?thesis by (auto simp: buf drain_line [OF line] refused)
    next
      case False
      with less.prems have run: "bindR (handle_frame cfg app line conn)
          (\<lambda>r. if fst r then drain cfg app rest (snd r) else retR None) s = (res, t)"
        by (simp add: buf drain_line [OF line])
      obtain q u where q: "handle_frame cfg app line conn s = (q, u)" by fastforce
      from handle_frame_reach [OF q] obtain conn' where
        conn': "reach cfg app conn (lk_app s) conn' (lk_app u)" "\<forall>r. q = Inr r \<longrightarrow> snd r = conn'" by blast
      show ?thesis
      proof (cases q)
        case (Inl e)
        with run q conn'(1) show ?thesis by (intro exI [of _ conn']) (auto simp: bindR_step(2))
      next
        case (Inr r)
        show ?thesis
        proof (cases "fst r")
          case False
          with run q Inr conn'(1) show ?thesis by (intro exI [of _ conn']) (simp add: bindR_step(1))
        next
          case True
          have "drain cfg app rest (snd r) u = (res, t)" using run q Inr True by (simp add: bindR_step(1))
          with Inr conn'(2) have "drain cfg app rest conn' u = (res, t)" by simp
          from less.hyps [OF _ this] conn'(1) show ?thesis unfolding buf by (auto intro: reach_trans)
        qed
      qed
    qed
  qed
qed

lemma serve_client_reach:
  assumes "serve_client cfg app evs buf conn s = (res, t)"
  shows "\<exists>conn'. reach cfg app conn (lk_app s) conn' (lk_app t)"
  using assms
proof (induction cfg app evs buf conn arbitrary: s rule: serve_client.induct)
  case (2 cfg app rest buf conn)
  then show ?case by (intro exI [of _ conn]) (auto simp: bindR_run dest!: send_protocol_error_app)
next
  case (4 cfg app chunk rest buf conn)
  show ?case
  proof (cases "chunk = []")
    case False
    obtain q u where q: "drain cfg app (buf @ chunk) conn s = (q, u)" by fastforce
    from drain_reach [OF q] obtain conn' where
      conn': "reach cfg app conn (lk_app s) conn' (lk_app u)" "\<forall>b c. q = Inr (Some (b, c)) \<longrightarrow> c = conn'" by blast
    show ?thesis
    proof (cases "\<exists>b c. q = Inr (Some (b, c))")
      case False
      with "4.prems" q conn' \<open>chunk \<noteq> []\<close> show ?thesis
        by (intro exI [of _ conn']) (auto simp: bindR_run split: option.split_asm)
    next
      case True
      then obtain b where q': "q = Inr (Some (b, conn'))" using conn'(2) by blast
      with "4.prems" q \<open>chunk \<noteq> []\<close> have "serve_client cfg app rest b conn' u = (res, t)" by (auto simp: bindR_run)
      with "4.IH" [OF False] conn'(1) show ?thesis by (meson reach_trans)
    qed
  next
    case True
    with "4.prems" show ?thesis by (intro exI [of _ conn]) simp
  qed
qed (auto intro!: exI reach_refl)

text \<open>C36: who reaches the application.  Whatever arrives on a connection, the state of the application is
  what it was, or it was changed only by calls on behalf of one client whose handshake the daemon
  grants: the versions and the schema agree, the credential is the configured one of that client, and
  every call is of a method whose capability was negotiated, with the client's own context.
\<close>

theorem only_granted_clients_reach_the_application:
  assumes "serve_client cfg app evs [] None s = (res, t)"
  shows "lk_app t = lk_app s
    \<or> (\<exists>h c. granted cfg (ap_digest app) h c \<and> (served cfg app c)\<^sup>*\<^sup>* (lk_app s) (lk_app t))"
  using serve_client_reach [OF assms] by (auto simp: reach_def)

end
