(* ===== verification/ProtocolWitnesses.thy ===== *)
theory ProtocolWitnesses
  imports ProtocolFacts
begin

text \<open>
  A request on the wire, and on it one instance of each property of the protocol that has hypotheses;
  and the frames that show the two exceptions to the protocol's own errors.
\<close>

definition demo_floats :: float_io where
  "demo_floats = \<lparr>fl_repr = (\<lambda>_. ''0.5''), fl_read = (\<lambda>_. Some (1/2))\<rparr>"

definition demo_request :: request where
  "demo_request = \<lparr>rm_id = ''r1'', rm_method = ''memory.write'',
     rm_params = [(''trust'', JFloat (1/2)), (''content'', JStr [CHR 0x22, CHR 0xE9, CHR 0x0A]), (''ids'', JArr [JInt 0, JInt (-12)])],
     rm_protocol = this_version, rm_schema = 1\<rparr>"

definition demo_bytes :: string where
  "demo_bytes = (case encode_frame demo_floats MAX_FRAME_SIZE (Request demo_request) of Inr b \<Rightarrow> b | Inl e \<Rightarrow> [])"

lemma demo_encoded: "encode_frame demo_floats MAX_FRAME_SIZE (Request demo_request) = Inr demo_bytes"
  by code_simp

lemma demo_valid: "valid_frame (Request demo_request)"
  by code_simp

theorem frame_roundtrip_witness:
  "decode_frame demo_floats (Bytes demo_bytes) MAX_FRAME_SIZE False = Inr (canon_frame (Request demo_request))"
proof (rule frame_roundtrip)
  show "valid_frame (Request demo_request)" by (rule demo_valid)
  show "printable demo_floats (frame_to_dict (Request demo_request))" by code_simp
  show "height (frame_to_dict (Request demo_request)) \<le> MAX_JSON_DEPTH" by code_simp
  show "encode_frame demo_floats MAX_FRAME_SIZE (Request demo_request) = Inr demo_bytes" by (rule demo_encoded)
qed

lemma demo_decoded:
  "decode_frame demo_floats (Bytes demo_bytes) MAX_FRAME_SIZE True
    = Inr (Request (demo_request\<lparr>rm_params := canon_dict (rm_params demo_request)\<rparr>))"
  by code_simp

theorem decoded_frames_valid_witness:
  "valid_frame (Request (demo_request\<lparr>rm_params := canon_dict (rm_params demo_request)\<rparr>))"
  using decoded_frames_valid [OF demo_decoded] by blast

theorem requests_cannot_spoof_witness:
  "fst ` set (canon_dict (rm_params demo_request)) \<inter> set IMMUTABLE_CONTEXT_FIELDS = {} \<and> TOKEN ''r1''"
proof -
  have "\<forall>k \<in> fst ` set (canon_dict (rm_params demo_request)). k \<notin> set IMMUTABLE_CONTEXT_FIELDS" "TOKEN ''r1''"
    using requests_cannot_spoof [OF demo_decoded] by (simp_all add: demo_request_def)
  then show ?thesis by blast
qed

definition unhashable_frame :: string where
  "unhashable_frame = ''{'' @ json_quote_raw ''type'' @ '':[]}''"

theorem decode_errors_witness:
  "\<exists>e. decode_frame demo_floats (Bytes unhashable_frame) MAX_FRAME_SIZE True = Inl e \<and> e = TypeError ''unhashable type''"
proof -
  have run: "decode_frame demo_floats (Bytes unhashable_frame) MAX_FRAME_SIZE True = Inl (TypeError ''unhashable type'')"
    by code_simp
  from decode_errors [OF run] have "TypeError ''unhashable type'' = TypeError ''unhashable type''" by blast
  with run show ?thesis by blast
qed

text \<open>An integer of 4301 digits makes the runtime raise its own \<open>ValueError\<close>.\<close>

lemma long_integer:
  assumes "n = MAX_STR_DIGITS + 1"
  shows "decode_frame io (Bytes (replicate n (CHR ''1''))) MAX_FRAME_SIZE True = Inl digit_limit"
proof -
  let ?t = "replicate n (CHR ''1'')"
  have one: "is_digit (CHR ''1'')" "code (CHR ''1'') < 128" "utf8_char (CHR ''1'') = [CHR ''1'']" by code_simp+
  have t: "?t = CHR ''1'' # replicate MAX_STR_DIGITS (CHR ''1'')" using assms by simp
  have strict: "utf8_strict (replicate k (CHR ''1'')) = Inr (replicate k (CHR ''1''))" for k
    using one(2) by (induction k) simp_all
  have size: "int n \<le> MAX_FRAME_SIZE" "0 < MAX_FRAME_SIZE" using assms by (simp_all add: MAX_STR_DIGITS_def MAX_FRAME_SIZE_def)
  have chars: "newline \<notin> set ?t" "CHR 0x0D \<notin> set ?t" by (simp_all add: newline_def)
  have "\<not> suffix [CHR 0x0D, newline] ?t" "\<not> suffix [newline] ?t"
    using chars(1) set_mono_suffix [of "[CHR 0x0D, newline]" ?t] set_mono_suffix [of "[newline]" ?t] by auto
  then have line: "strip_line_end ?t = ?t" by (simp add: strip_line_end_def)
  have tw: "takeWhile is_digit ?t = ?t" using one(1) by (simp add: takeWhile_eq_all_conv)
  have "take 1 ?t \<noteq> ''-''" "take 1 ?t \<noteq> ''0''" using t by simp_all
  then have "scan_numeral ?t = (False, ?t, [], [], [])"
    using scan_numeralI [of ?t ?t ?t "[]" "[]" "[]" "[]", unfolded tw] by (simp add: scan_fraction_def scan_exponent_def del: take_replicate)
  then have num: "scan_number io ?t = Inl digit_limit" using assms by (simp add: scan_number_def digit_limit_def)
  have head: "numeric_head ?t" using t one(1) unfolding numeric_head_def by blast
  then have "skip_ws ?t = ?t" using skip_open [OF numeric_open, of ?t "[]"] by simp
  moreover have "scan_value frame_hooks io (2 * length ?t + 1) ?t = Inl digit_limit"
    using scan_value_number [OF head, of "2 * length ?t + 1" frame_hooks io "[]"] num by simp
  ultimately have "json_loads frame_hooks io ?t = Inl digit_limit" by (simp add: json_loads_def)
  then have "load_frame_text io ?t = Inl digit_limit" by (simp add: load_frame_text_def digit_limit_def)
  moreover have "?t \<noteq> []" using t by simp
  ultimately show ?thesis using size strict line chars
    by (simp add: decode_frame_def wire_bytes_def)
qed

text \<open>
  The depth limit counts from the parameters when a request is built and from the frame when it is
  read, so a request one level deeper than its own frame allows is encoded and never decoded.
\<close>

fun nested :: "nat \<Rightarrow> json" where
  "nested 0 = JNull"
| "nested (Suc n) = JArr [nested n]"

definition deep_request :: request where
  "deep_request = demo_request\<lparr>rm_params := [(''a'', nested 31)]\<rparr>"

lemma deep_request_lost:
  "valid_frame (Request deep_request)
    \<and> (case encode_frame demo_floats MAX_FRAME_SIZE (Request deep_request) of Inl e \<Rightarrow> False
       | Inr b \<Rightarrow> decode_frame demo_floats (Bytes b) MAX_FRAME_SIZE True = Inl (ProtocolValidationError ''frame exceeds maximum JSON depth''))"
  by code_simp

theorem negotiation_sound_witness:
  "\<exists>r. negotiate_handshake \<lparr>hs_context = undefined, hs_capabilities = [''health'', ''other''], hs_protocol = this_version,
      hs_schema = 1, hs_credential = None\<rparr> (JStr ''0.8.1'') (texts SUPPORTED_CAPABILITIES) (JInt 1) = Inr r
    \<and> hr_accepted r \<and> hr_capabilities r = [''health'']"
proof -
  have "strip ''0.8.1'' \<noteq> []" "string_tuple (texts SUPPORTED_CAPABILITIES) ''server_capabilities'' True = Inr SUPPORTED_CAPABILITIES"
    by code_simp+
  from negotiation_sound [OF this, of 1 "\<lparr>hs_context = undefined, hs_capabilities = [''health'', ''other''], hs_protocol = this_version,
      hs_schema = 1, hs_credential = None\<rparr>"]
  show ?thesis by (auto simp: this_version_def SUPPORTED_CAPABILITIES_def)
qed

end
