(* ===== verification/DaemonWitnesses.thy ===== *)
theory DaemonWitnesses
  imports DaemonFacts ProtocolWitnesses
begin

text \<open>
  One connection run to its end: a client with a credential shakes hands and writes twice, its bytes
  cut in the middle of a frame, and the application counts the calls.  The same daemon loses the
  connection, with nothing sent, on a frame whose type cannot be hashed.
\<close>

definition demo_daemon :: daemon_config where
  "demo_daemon = \<lparr>dc_version = ''1'', dc_schema = 1, dc_capabilities = [''health'', ''memory.write''], dc_max_bytes = 4096,
     dc_client_timeout = 10, dc_shutdown_timeout = 5, dc_handler_timeout = 30, dc_backlog = 8,
     dc_credentials = [(''laptop'', ''sha256:c2'')]\<rparr>"

definition demo_application :: "nat application" where
  "demo_application = \<lparr>ap_handler = (\<lambda>ctx r n. (Answer (PBool True), Suc n)), ap_health = None,
     ap_digest = (\<lambda>secret. if secret = ''s'' then ''c2'' else ''00''), ap_floats = demo_floats, ap_arrives = (\<lambda>_. True)\<rparr>"

definition demo_client :: client_context where
  "demo_client = \<lparr>cc_client = ''laptop'', cc_surface = ''cli'', cc_agent = ''a'', cc_session = ''s'', cc_parent = None,
     cc_root = None, cc_repo = None, cc_branch = None, cc_commit = None, cc_scopes = [''user'']\<rparr>"

definition demo_hello :: "string option \<Rightarrow> handshake" where
  "demo_hello credential = \<lparr>hs_context = demo_client, hs_capabilities = [''memory.write''], hs_protocol = this_version,
     hs_schema = 1, hs_credential = credential\<rparr>"

definition demo_write :: request where
  "demo_write = demo_request\<lparr>rm_params := []\<rparr>"

text \<open>The lines of the stream, without their ends.\<close>

definition line_of :: "frame \<Rightarrow> string" where
  "line_of f = (case encode_frame demo_floats 4096 f of Inr b \<Rightarrow> butlast b | Inl e \<Rightarrow> [])"

definition demo_stream :: string where
  "demo_stream = line_of (Handshake (demo_hello (Some ''s''))) @ newline # line_of (Request demo_write) @ newline # []"

definition demo_link :: "nat link" where
  "demo_link = \<lparr>lk_app = 0, lk_sent = [], lk_tries = 0\<rparr>"

definition demo_connection :: negotiated where
  "demo_connection = \<lparr>nc_context = demo_client, nc_capabilities = [''memory.write''], nc_protocol = this_version, nc_schema = 1\<rparr>"

lemma hello_decoded:
  "decode_frame demo_floats (Bytes (line_of (Handshake (demo_hello (Some ''s''))))) 4096 False = Inr (Handshake (demo_hello (Some ''s'')))"
proof -
  let ?f = "Handshake (demo_hello (Some ''s''))"
  have "is_ok (encode_frame demo_floats 4096 ?f)" by code_simp
  then obtain b where b: "encode_frame demo_floats 4096 ?f = Inr b" by (auto simp: is_ok_iff)
  have "valid_frame ?f" "printable demo_floats (frame_to_dict ?f)" "height (frame_to_dict ?f) \<le> MAX_JSON_DEPTH" by code_simp+
  from line_roundtrip [OF this b] show ?thesis by (simp add: line_of_def b)
qed

lemma request_decoded:
  "decode_frame demo_floats (Bytes (line_of (Request demo_write))) 4096 False = Inr (Request demo_write)"
proof -
  let ?f = "Request demo_write"
  have "is_ok (encode_frame demo_floats 4096 ?f)" by code_simp
  then obtain b where b: "encode_frame demo_floats 4096 ?f = Inr b" by (auto simp: is_ok_iff)
  have "valid_frame ?f" "printable demo_floats (frame_to_dict ?f)" "height (frame_to_dict ?f) \<le> MAX_JSON_DEPTH" by code_simp+
  moreover have "canon_frame ?f = ?f" by code_simp
  ultimately show ?thesis using line_roundtrip [OF _ _ _ b, of] by (simp add: line_of_def b)
qed

lemma demo_fields: "ap_floats demo_application = demo_floats" "dc_max_bytes demo_daemon = 4096"
  by (simp_all add: demo_application_def demo_daemon_def)

lemma hello_handled:
  "(case handle_frame demo_daemon demo_application (line_of (Handshake (demo_hello (Some ''s'')))) None demo_link of
     (Inr (b, c), t) \<Rightarrow> b \<and> c = Some demo_connection \<and> lk_app t = 0 | _ \<Rightarrow> False)"
  unfolding handle_frame_def demo_fields hello_decoded by code_simp

lemma request_handled:
  "(case handle_frame demo_daemon demo_application (line_of (Request demo_write)) (Some demo_connection) \<lparr>lk_app = 0, lk_sent = sent, lk_tries = n\<rparr> of
     (Inr (b, c), t) \<Rightarrow> b \<and> c = Some demo_connection \<and> lk_app t = 1 | _ \<Rightarrow> False)"
  unfolding handle_frame_def demo_fields request_decoded by code_simp

lemma no_newline: "newline \<notin> set (line_of (Handshake (demo_hello (Some ''s''))))" "newline \<notin> set (line_of (Request demo_write))"
  by code_simp+

lemma handled_run:
  "(case m of (Inr (b, c), t) \<Rightarrow> b \<and> c = x \<and> P t | _ \<Rightarrow> False) \<Longrightarrow> \<exists>t. m = (Inr (True, x), t) \<and> P t"
  by (auto split: prod.split_asm sum.split_asm)

lemma demo_served:
  "\<exists>t. serve_client demo_daemon demo_application (map Chunk [demo_stream] @ []) [] None demo_link = (Inr (), t)
    \<and> lk_app t = 1"
proof -
  let ?h = "line_of (Handshake (demo_hello (Some ''s'')))" and ?q = "line_of (Request demo_write)"
  have size: "\<not> 4096 < length ?h" "\<not> 4096 < length ?q" by code_simp+
  obtain t where t: "handle_frame demo_daemon demo_application ?h None demo_link = (Inr (True, Some demo_connection), t)"
      "lk_app t = 0"
    using handled_run [OF hello_handled] by blast
  then have "t = \<lparr>lk_app = 0, lk_sent = lk_sent t, lk_tries = lk_tries t\<rparr>" by (cases t) simp
  then obtain u where
      u: "handle_frame demo_daemon demo_application ?q (Some demo_connection) t = (Inr (True, Some demo_connection), u)"
      "lk_app u = 1"
    using handled_run [OF request_handled [of "lk_sent t" "lk_tries t"]] by metis
  have "drain demo_daemon demo_application demo_stream None demo_link = (Inr (Some ([], Some demo_connection)), u)"
    unfolding demo_stream_def drain_line [OF no_newline(1)]
    by (simp add: size drain_line [OF no_newline(2)] drain_partial demo_fields retR_def
        bindR_step(1) [where m = "handle_frame demo_daemon demo_application ?h None", OF t(1)]
        bindR_step(1) [where m = "handle_frame demo_daemon demo_application ?q (Some demo_connection)", OF u(1)])
  moreover have "demo_stream \<noteq> []" by (simp add: demo_stream_def)
  ultimately show ?thesis using u
    by (simp add: bindR_step(1) [where m = "drain demo_daemon demo_application demo_stream None"] retR_def)
qed

theorem chunks_do_not_matter_witness:
  "\<exists>t. serve_client demo_daemon demo_application (map Chunk [take 100 demo_stream, drop 100 demo_stream] @ []) [] None demo_link = (Inr (), t)
    \<and> lk_app t = 1"
proof -
  have long: "100 < length demo_stream" by code_simp
  have "serve_client demo_daemon demo_application (map Chunk [take 100 demo_stream, drop 100 demo_stream] @ []) [] None demo_link
      = serve_client demo_daemon demo_application (map Chunk [demo_stream] @ []) [] None demo_link"
    by (rule chunks_do_not_matter) (use long in auto)
  with demo_served show ?thesis by fastforce
qed

theorem only_granted_clients_reach_the_application_witness:
  "\<exists>h c. granted demo_daemon (ap_digest demo_application) h c \<and> (served demo_daemon demo_application c)\<^sup>*\<^sup>* 0 1"
proof -
  obtain t where run: "serve_client demo_daemon demo_application (map Chunk [demo_stream] @ []) [] None demo_link = (Inr (), t)"
      "lk_app t = 1"
    using demo_served by blast
  from only_granted_clients_reach_the_application [OF run(1)] run(2)
  show ?thesis by (simp add: demo_link_def)
qed

text \<open>No reply, and an exception the daemon does not catch.\<close>

lemma unhashable_kills_the_connection:
  "serve_client demo_daemon demo_application [Chunk (unhashable_frame @ [newline])] [] None demo_link
    = (Inl (TypeError ''unhashable type''), demo_link)"
  by code_simp

end
