(* ===== verification/PromptSafety.thy ===== *)
theory PromptSafety
  imports PyRegex
begin

text \<open>
  \<^verbatim>\<open>enfold/prompt_safety.py\<close>: what keeps text that reads like an instruction out of a prompt and out
  of the memories an extractor proposes.  The compatibility normalisation of \<open>unicodedata\<close> is a
  parameter, a function on texts; of the format characters it leaves, the soft hyphen is the one
  the texts of the model can hold.  None of the Cyrillic letters of the fold table is a character of the model.
\<close>

definition blank :: "char \<Rightarrow> bool" where
  "blank c \<longleftrightarrow> c = CHR '' '' \<or> code c = 9"

definition any_char :: "char \<Rightarrow> bool" where
  "any_char c \<longleftrightarrow> code c \<noteq> 10"

definition spaces :: rx where
  "spaces = RStar py_space"

definition plural :: "string \<Rightarrow> rx" where
  "plural w = RSeq (RLit w) (ROpt (RLit ''s''))"

definition words :: "string list \<Rightarrow> rx" where
  "words ws = RAlts (map RLit ws)"

definition ROLE_WORDS :: "string list" where
  "ROLE_WORDS = [''system'', ''developer'', ''assistant'']"

text \<open>The alternatives the patterns share: a role line, a bracketed or angled role tag.\<close>

definition role_line :: rx where
  "role_line = RSeqs [RAlt RStart (RSet (\<lambda>c. code c = 10)), RStar blank,
     ROpt (RSeq (RPlus (\<lambda>c. c \<in> set ''#>*-'')) (RStar blank)), words ROLE_WORDS, spaces,
     ROpt (RSeq (RAlts [RLit ''message'', RLit ''prompt'', plural ''instruction'']) spaces), RLit '':'']"

definition role_bracket :: rx where
  "role_bracket = RSeqs [RLit ''['', RAlt (RSeq (ROpt (RLit ''/'')) (RLit ''inst'')) (RLit ''system''), RLit '']'']"

definition role_tag :: rx where
  "role_tag = RSeqs [RLit ''<'', ROpt (RLit ''/''), words ROLE_WORDS, RAlt (RSet py_space) (RLit ''>'')]"

definition CONTROL_VERBS :: "string list" where
  "CONTROL_VERBS = [''ignore'', ''disregard'', ''forget'', ''override'', ''bypass'', ''follow'', ''obey'']"

definition control_target :: rx where
  "control_target = RSeqs [RBound, RAlts [plural ''instruction'', RLit ''prompt'', plural ''rule'', RLit ''policy'', RLit ''memory''], RBound]"

definition control_tail :: rx where
  "control_tail = RSeqs [words CONTROL_VERBS, RBound, RRep (RSet any_char) 0 (Some 96), control_target]"

definition exfiltration :: rx where
  "exfiltration = RSeqs [RBound, words [''reveal'', ''expose'', ''exfiltrate'', ''disclose''], RBound,
     RRep (RSet any_char) 0 (Some 64), RBound,
     RAlts [plural ''secret'', RSeqs [RLit ''private'', RPlus py_space, RLit ''data''],
       RSeqs [RLit ''hidden'', RPlus py_space, plural ''instruction'']], RBound]"

definition PROMPT_CONTROL_RE :: rx where
  "PROMPT_CONTROL_RE = RAlts [role_line, role_bracket, role_tag, RSeq RBound control_tail, exfiltration]"

definition STRUCTURAL_INJECTION_RE :: rx where
  "STRUCTURAL_INJECTION_RE = RAlts [role_line, role_bracket, role_tag]"

definition LEADING_CONTROL_RE :: rx where
  "LEADING_CONTROL_RE = RSeqs [RStart, spaces, control_tail]"

definition EXFIL_RE :: rx where
  "EXFIL_RE = exfiltration"

definition TASK_SHAPED_RE :: rx where
  "TASK_SHAPED_RE = RSeqs [RStart, spaces, RAlts [RSeq (RLit ''pitch'') RBound, RSeq (RLit ''todo'') RBound,
     RSeq (plural ''action item'') (RLit '':'')]]"

text \<open>\<open>re.IGNORECASE\<close>: the patterns are of lower-case letters and of sets that know no case.\<close>

definition matches :: "rx \<Rightarrow> string \<Rightarrow> bool" where
  "matches r t \<longleftrightarrow> search r (lower t)"

definition normalized_prompt_text :: "(string \<Rightarrow> string) \<Rightarrow> string \<Rightarrow> string" where
  "normalized_prompt_text nfkc s = filter (\<lambda>c. code c \<noteq> 173) (nfkc s)"

definition instruction_shaped :: "(string \<Rightarrow> string) \<Rightarrow> string \<Rightarrow> bool" where
  "instruction_shaped nfkc content =
     (let text = normalized_prompt_text nfkc content in strip text = [] \<or> matches PROMPT_CONTROL_RE text)"

definition py_alnum :: "char \<Rightarrow> bool" where
  "py_alnum c \<longleftrightarrow> word_char c \<and> c \<noteq> CHR ''_''"

definition ECHO_STOPWORDS :: "string list" where
  "ECHO_STOPWORDS = [''a'', ''an'', ''as'', ''at'', ''in'', ''longer'', ''no'', ''now'', ''the'']"

definition echo_alnum_key :: "(string \<Rightarrow> string) \<Rightarrow> string \<Rightarrow> string" where
  "echo_alnum_key nfkc content = filter py_alnum (lower (normalized_prompt_text nfkc content))"

definition echo_tokens :: "(string \<Rightarrow> string) \<Rightarrow> string \<Rightarrow> string list" where
  "echo_tokens nfkc content =
     filter (\<lambda>w. w \<notin> set ECHO_STOPWORDS) (remdups (find_runs py_alnum [] (lower (normalized_prompt_text nfkc content))))"

definition PROMPT_EXAMPLE_CONTENTS :: "string list" where
  "PROMPT_EXAMPLE_CONTENTS =
     [''Dana now works at Northwind.'', ''Dana prefers split keyboards.'', ''Dana no longer lives in Springfield.'']"

text \<open>At least three shared words, and 65 percent of all of them.\<close>

definition echoes :: "(string \<Rightarrow> string) \<Rightarrow> string \<Rightarrow> string \<Rightarrow> bool" where
  "echoes nfkc content example \<longleftrightarrow>
     (let key = echo_alnum_key nfkc content; example_key = echo_alnum_key nfkc example;
          ws = echo_tokens nfkc content; example_ws = echo_tokens nfkc example;
          shared = filter (\<lambda>w. w \<in> set example_ws) ws; all = remdups (ws @ example_ws) in
      example_key \<noteq> []
      \<and> (sublist example_key key \<or> sublist key example_key
         \<or> (example_ws \<noteq> [] \<and> 3 \<le> length shared \<and> 65 * length all \<le> 100 * length shared)))"

definition prompt_example_echo :: "(string \<Rightarrow> string) \<Rightarrow> string \<Rightarrow> bool" where
  "prompt_example_echo nfkc content \<longleftrightarrow>
     echo_alnum_key nfkc content \<noteq> [] \<and> list_ex (echoes nfkc content) PROMPT_EXAMPLE_CONTENTS"

definition extraction_instruction_shaped :: "(string \<Rightarrow> string) \<Rightarrow> string \<Rightarrow> bool" where
  "extraction_instruction_shaped nfkc content =
     (let text = normalized_prompt_text nfkc content in
      strip text = [] \<or> matches STRUCTURAL_INJECTION_RE text \<or> matches LEADING_CONTROL_RE text \<or> matches EXFIL_RE text)"

definition task_shaped :: "(string \<Rightarrow> string) \<Rightarrow> string \<Rightarrow> bool" where
  "task_shaped nfkc content = matches TASK_SHAPED_RE (normalized_prompt_text nfkc content)"

definition ephemeral_extraction_reason :: "(string \<Rightarrow> string) \<Rightarrow> string \<Rightarrow> string option" where
  "ephemeral_extraction_reason nfkc content =
     (if prompt_example_echo nfkc content then Some ''prompt_example_echo''
      else if extraction_instruction_shaped nfkc content then Some ''instruction_shaped_content''
      else if task_shaped nfkc content then Some ''task_shaped_content''
      else None)"

end
