(* ===== verification/ContextFacts.thy ===== *)
theory ContextFacts
  imports Context "HOL-Library.Multiset"
begin

text \<open>
  What a packed context promises: it stays within its budget, it consists of its entries and of nothing
  else, the entries a prompt may show come from facts that are current and harmless, and the
  counters account for every fact.
\<close>

section \<open>Dictionaries\<close>

lemma map_of_dict_set: "map_of (dict_set k v f) = (map_of f)(k \<mapsto> v)"
proof -
  have "map_of (map (\<lambda>kv. if fst kv = k then (k, v) else kv) g) = (\<lambda>x. if x = k \<and> k \<in> fst ` set g then Some v else map_of g x)" for g
    by (induction g) (auto simp: fun_eq_iff)
  moreover have "k \<notin> fst ` set f \<Longrightarrow> map_of f k = None" by (simp add: map_of_eq_None_iff)
  ultimately show ?thesis by (auto simp: dict_set_def fun_eq_iff map_add_def split: option.split)
qed

lemma fget_dict_set [simp]: "fget k (dict_set l v f) = (if k = l then v else fget k f)"
  by (simp add: fget_def map_of_dict_set)

lemma fget_pop [simp]: "k \<noteq> e \<Longrightarrow> fget k (filter (\<lambda>kv. fst kv \<noteq> e) f) = fget k f"
  by (induction f) (auto simp: fget_def)

lemma fget_mark:
  "fget k (mark f content b d) =
    (if k = ''content'' then PStr content else if k = ''prompt_eligible'' then PBool True
     else if k = ''review_status'' then PStr (review_status f) else if k = ''context_truncated'' then PBool b
     else if k = ''content_truncated'' \<and> d then PBool True else fget k f)"
  by (simp add: mark_def Let_def)

section \<open>Truncation\<close>

lemma rstrip_by_append:
  "rstrip_by p (xs @ ys) = (if \<forall>y \<in> set ys. p y then rstrip_by p xs else xs @ rstrip_by p ys)"
  by (simp add: rstrip_by_def dropWhile_append)

lemma rstrip_take: "\<exists>k \<le> length s. rstrip s = take k s"
proof -
  have "rstrip s = take (length s - length (takeWhile py_space (rev s))) s"
    by (metis rstrip_def rstrip_by_def dropWhile_eq_drop rev_drop rev_rev_ident length_rev)
  then show ?thesis by (intro exI [of _ "length s - length (takeWhile py_space (rev s))"]) simp
qed

lemma shortened_mono:
  assumes "m \<le> n"
  shows "length (shortened t m) \<le> length (shortened t n)"
proof -
  have "length (rstrip xs) \<le> length (rstrip (xs @ ys))" for xs ys
    using rstrip_take [of xs] by (auto simp: rstrip_def rstrip_by_append)
  moreover have "take n t = take m t @ take (n - m) (drop m t)"
    by (metis assms le_add_diff_inverse take_add)
  ultimately show ?thesis by (simp add: shortened_def)
qed

lemma estimate_mono: "length s \<le> length t \<Longrightarrow> estimate_tokens s \<le> estimate_tokens t"
  by (simp add: estimate_tokens_def zdiv_mono1)

lemma estimate_nonneg: "0 \<le> estimate_tokens s"
  by (simp add: estimate_tokens_def)

declare longest_fit.simps [simp del]

lemma longest_fit_spec:
  assumes "0 \<le> low" "high \<le> int (length t)" "low \<le> high + 1"
    and "\<forall>n. int n < low \<longrightarrow> estimate_tokens (shortened t n) \<le> budget"
    and "\<forall>n. high < int n \<longrightarrow> n \<le> length t \<longrightarrow> budget < estimate_tokens (shortened t n)"
    and "low = 0 \<and> best = [] \<or> 0 < low \<and> best = shortened t (nat (low - 1))"
  shows "\<exists>m. 0 \<le> m \<and> m \<le> int (length t) + 1
    \<and> (m = 0 \<and> longest_fit t budget low high best = [] \<or> 0 < m \<and> longest_fit t budget low high best = shortened t (nat (m - 1)))
    \<and> (\<forall>n. int n < m \<longrightarrow> estimate_tokens (shortened t n) \<le> budget)
    \<and> (\<forall>n. m \<le> int n \<longrightarrow> n \<le> length t \<longrightarrow> budget < estimate_tokens (shortened t n))"
  using assms
proof (induction t budget low high best rule: longest_fit.induct)
  case (1 t budget low high best)
  show ?case
  proof (cases "low \<le> high")
    case False
    then have "high = low - 1" using "1.prems"(3) by simp
    with False "1.prems" show ?thesis by (intro exI [of _ low]) (auto simp: longest_fit.simps)
  next
    case True
    let ?m = "(low + high) div 2"
    have m: "low \<le> ?m" "?m \<le> high" "0 \<le> ?m" using True "1.prems"(1) by auto
    show ?thesis
    proof (cases "estimate_tokens (shortened t (nat ?m)) \<le> budget")
      case fits: True
      have "estimate_tokens (shortened t n) \<le> budget" if "int n < ?m + 1" for n
        using fits estimate_mono [OF shortened_mono [of n "nat ?m" t]] that m(3) by linarith
      moreover have "longest_fit t budget low high best = longest_fit t budget (?m + 1) high (shortened t (nat ?m))"
        using True fits by (subst longest_fit.simps) (simp add: Let_def)
      moreover note "1.IH"(1) [OF True refl refl fits]
      ultimately show ?thesis using m "1.prems" by simp
    next
      case big: False
      have "budget < estimate_tokens (shortened t n)" if "?m - 1 < int n" for n
        using big estimate_mono [OF shortened_mono [of "nat ?m" n t]] that m(3) by linarith
      moreover have "longest_fit t budget low high best = longest_fit t budget low (?m - 1) best"
        using True big by (subst longest_fit.simps) (simp add: Let_def)
      moreover note "1.IH"(2) [OF True refl refl big]
      ultimately show ?thesis using m "1.prems" by simp
    qed
  qed
qed

text \<open>The search for the cut is exact.  A t that does not fit is cut at the largest place whose
  result, trimmed and with the ellipsis, is within the budget.
\<close>

theorem truncation_is_longest:
  assumes "0 < budget" "budget < estimate_tokens t"
  shows "\<exists>n \<le> length t. truncate_to_budget t budget = (shortened t n, True)
    \<and> estimate_tokens (shortened t n) \<le> budget
    \<and> (\<forall>m. n < m \<longrightarrow> m \<le> length t \<longrightarrow> budget < estimate_tokens (shortened t m))"
proof -
  have one: "estimate_tokens [ellipsis] = 1" by (simp add: estimate_tokens_def)
  obtain m where m: "0 \<le> m" "m \<le> int (length t) + 1"
      "m = 0 \<and> longest_fit t budget 0 (int (length t)) [] = []
        \<or> 0 < m \<and> longest_fit t budget 0 (int (length t)) [] = shortened t (nat (m - 1))"
      "\<forall>n. int n < m \<longrightarrow> estimate_tokens (shortened t n) \<le> budget"
      "\<forall>n. m \<le> int n \<longrightarrow> n \<le> length t \<longrightarrow> budget < estimate_tokens (shortened t n)"
    using longest_fit_spec [of 0 "int (length t)" t budget "[]"] by auto
  have "estimate_tokens (shortened t 0) \<le> budget" using assms(1) one by (simp add: shortened_def rstrip_def rstrip_by_def)
  with m(5) have "m \<noteq> 0" by force
  with m(1) have pos: "0 < m" by simp
  have "truncate_to_budget t budget = (shortened t (nat (m - 1)), True)"
    using assms one m(3) pos by (simp add: truncate_to_budget_def)
  moreover have "estimate_tokens (shortened t (nat (m - 1))) \<le> budget" using m(4) pos by simp
  moreover have "\<forall>k. nat (m - 1) < k \<longrightarrow> k \<le> length t \<longrightarrow> budget < estimate_tokens (shortened t k)"
    using m(5) pos by auto
  moreover have "nat (m - 1) \<le> length t" using m(2) by simp
  ultimately show ?thesis by blast
qed

section \<open>Entries\<close>

definition eligible :: "fields \<Rightarrow> bool" where
  "eligible g \<longleftrightarrow> truthy (fget ''prompt_eligible'' g)"

text \<open>The text an entry of the pack contributes to the prompt.\<close>

definition entry_text :: "context_env \<Rightarrow> fields \<Rightarrow> string" where
  "entry_text env g =
     (if eligible g
      then (case line_prefix env g of Inl e \<Rightarrow> [] | Inr pre \<Rightarrow> pre) @ text_of (fget ''content'' g) @ [CHR 0x0A]
      else case fget ''summary'' g of PStr s \<Rightarrow> s @ [CHR 0x0A] | _ \<Rightarrow> [])"

text \<open>A beginning of the whole text, followed by characters of the marker at most.\<close>

definition cut_of :: "string \<Rightarrow> string \<Rightarrow> bool" where
  "cut_of whole s \<longleftrightarrow> (\<exists>n u. s = take n whole @ u \<and> set u \<subseteq> set TRUNCATION_MARKER)"

definition CHANGED_KEYS :: "string list" where
  "CHANGED_KEYS = [''content'', ''prompt_eligible'', ''review_status'', ''context_truncated'', ''content_truncated'', ''_mmr_embedding'']"

text \<open>An entry that may be shown: what it renders, and the fact it is an entry of.\<close>

definition rendered_from :: "context_env \<Rightarrow> fields \<Rightarrow> fields \<Rightarrow> bool" where
  "rendered_from env f g \<longleftrightarrow> fget ''invalid_at'' f = PNone \<and> fget ''superseded_by'' f = PNone \<and> fget ''conflict_group'' f = PNone
     \<and> fget ''correction_status'' f \<noteq> PStr ''unreviewed'' \<and> \<not> instruction_shaped (xe_nfkc env) (text_of (fget ''content'' f))
     \<and> cut_of (text_of (fget ''content'' f)) (text_of (fget ''content'' g)) \<and> text_of (fget ''content'' g) \<noteq> []
     \<and> fget ''review_status'' g = PStr (review_status f) \<and> (\<forall>k. k \<notin> set CHANGED_KEYS \<longrightarrow> fget k g = fget k f)"

definition entry_ok :: "context_env \<Rightarrow> fields list \<Rightarrow> fields \<Rightarrow> bool" where
  "entry_ok env given g \<longleftrightarrow> (if eligible g then \<exists>f \<in> set given. rendered_from env f g else fget ''content'' g = PNone)"

lemma cut_refl: "cut_of w w"
  unfolding cut_of_def by (intro exI [of _ "length w"] exI [of _ "[]"]) simp

lemma cut_prefix:
  assumes "cut_of w s" "set v \<subseteq> set TRUNCATION_MARKER"
  shows "cut_of w (take k s @ v)"
proof -
  obtain n u where s: "s = take n w @ u" "set u \<subseteq> set TRUNCATION_MARKER" using assms(1) by (auto simp: cut_of_def)
  have "take k s @ v = take (min k n) w @ (take (k - length (take n w)) u @ v)"
    by (simp add: s min.commute)
  moreover have "set (take (k - length (take n w)) u @ v) \<subseteq> set TRUNCATION_MARKER"
    using s(2) assms(2) set_take_subset by fastforce
  ultimately show ?thesis unfolding cut_of_def by blast
qed

lemma cut_rstrip: "cut_of w s \<Longrightarrow> set v \<subseteq> set TRUNCATION_MARKER \<Longrightarrow> cut_of w (rstrip (take k s) @ v)"
  using rstrip_take [of "take k s"] cut_prefix [of w s v] by (metis take_take)

lemma cut_chars: "cut_of w (fst (truncate_to_chars w n))"
  by (auto simp: truncate_to_chars_def intro: cut_refl cut_rstrip)

lemma cut_budget:
  assumes "cut_of w s"
  shows "cut_of w (fst (truncate_to_budget s b))"
proof -
  have cut: "cut_of w (shortened s n)" for n
    unfolding shortened_def by (intro cut_rstrip assms) (simp add: TRUNCATION_MARKER_def)
  consider "b \<le> 0" | "estimate_tokens s \<le> b" "0 < b" | "0 < b" "b < estimate_tokens s" by linarith
  then show ?thesis
  proof cases
    case 1
    then show ?thesis using cut_prefix [OF assms, of "[]" 0] by (simp add: truncate_to_budget_def)
  next
    case 2
    then show ?thesis using assms by (simp add: truncate_to_budget_def)
  next
    case 3
    have one: "estimate_tokens [ellipsis] = 1" by (simp add: estimate_tokens_def)
    obtain m where "longest_fit s b 0 (int (length s)) [] = [] \<or> longest_fit s b 0 (int (length s)) [] = shortened s (nat (m - 1))"
      using longest_fit_spec [of 0 "int (length s)" s b "[]"] by auto
    then have "cut_of w (longest_fit s b 0 (int (length s)) [])" using cut cut_prefix [OF assms, of "[]" 0] by auto
    with 3 one show ?thesis by (simp add: truncate_to_budget_def)
  qed
qed

lemma line_prefix_cong:
  "(\<And>k. k \<in> {''score'', ''attribution'', ''fact_id'', ''correction_status''} \<Longrightarrow> fget k g = fget k f)
    \<Longrightarrow> line_prefix env g = line_prefix env f"
  by (simp add: line_prefix_def review_status_def)

section \<open>The steps\<close>

definition packing_ok :: "context_env \<Rightarrow> int \<Rightarrow> fields list \<Rightarrow> packing \<Rightarrow> bool" where
  "packing_ok env budget given p \<longleftrightarrow>
     estimate_tokens (pk_markdown p) \<le> budget
     \<and> pk_markdown p = HEADER @ concat (map (entry_text env) (pk_selected p))
     \<and> list_all (entry_ok env given) (pk_selected p)
     \<and> pk_slots p = List.map_filter state_slot (filter eligible (pk_selected p)) \<and> distinct (pk_slots p)
     \<and> (pk_conflicts p = [] \<longleftrightarrow> list_all (\<lambda>g. eligible g \<or> fget ''summary'' g = PNone) (pk_selected p))"

lemma packing_okD:
  assumes "packing_ok env budget given p"
  shows "estimate_tokens (pk_markdown p) \<le> budget" "pk_markdown p = HEADER @ concat (map (entry_text env) (pk_selected p))"
    "list_all (entry_ok env given) (pk_selected p)" "distinct (List.map_filter state_slot (filter eligible (pk_selected p)))"
    "pk_conflicts p = [] \<longleftrightarrow> list_all (\<lambda>g. eligible g \<or> fget ''summary'' g = PNone) (pk_selected p)"
  using assms unfolding packing_ok_def by (blast, blast, blast, metis, blast)

lemma map_filter_snoc: "List.map_filter g (xs @ [y]) = List.map_filter g xs @ (case g y of None \<Rightarrow> [] | Some z \<Rightarrow> [z])"
  by (induction xs) (auto simp: List.map_filter_def)

lemma packing_ok_omit [simp]:
  "packing_ok env budget given (omit p) \<longleftrightarrow> packing_ok env budget given p"
  "packing_ok env budget given (p\<lparr>pk_unsafe := n\<rparr>) \<longleftrightarrow> packing_ok env budget given p"
  "packing_ok env budget given (p\<lparr>pk_omitted := n\<rparr>) \<longleftrightarrow> packing_ok env budget given p"
  by (simp_all add: packing_ok_def omit_def)

lemma note_row:
  assumes "conflict_receipt_from_fact env f = Inr (Some r)"
  shows "\<not> eligible (cn_row r) \<and> fget ''content'' (cn_row r) = PNone \<and> fget ''summary'' (cn_row r) = PStr (cn_summary r)"
proof -
  from assms obtain vs w1 w2 w3 w4 w5 w6 where "cn_row r = [(''prompt_eligible'', PBool False), (''content_omitted'', PBool True),
          (''exclusion_reason'', w1), (''conflict_id'', w2), (''scope'', w3), (''subject_key'', w4),
          (''predicate_key'', w5), (''member_fact_ids'', w6), (''summary'', PStr (cn_summary r))]"
    by (auto simp: conflict_receipt_from_fact_def Let_def bindE_Inr_iff split: if_splits)
  then show ?thesis by (simp add: eligible_def fget_def)
qed

lemma emit_ok:
  assumes "packing_ok env budget given p" "\<And>r. nt = Some r \<Longrightarrow> conflict_receipt_from_fact env f = Inr (Some r)"
  shows "packing_ok env budget given (emit_conflict_receipt budget nt p)"
proof (cases nt)
  case None
  with assms(1) show ?thesis by (simp add: emit_conflict_receipt_def)
next
  case (Some r)
  note row = note_row [OF assms(2) [OF Some]]
  have "entry_text env (cn_row r) = cn_summary r @ [CHR 0x0A]" using row by (simp add: entry_text_def)
  then have "packing_ok env budget given (p\<lparr>pk_selected := pk_selected p @ [cn_row r], pk_conflicts := pk_conflicts p @ [cn_id r],
      pk_markdown := pk_markdown p @ cn_summary r @ [CHR 0x0A]\<rparr>)"
    if "estimate_tokens (pk_markdown p @ cn_summary r @ [CHR 0x0A]) \<le> budget"
    using that assms(1) row by (auto simp: packing_ok_def entry_ok_def)
  with assms(1) show ?thesis by (simp add: Some emit_conflict_receipt_def Let_def not_less)
qed

lemma pack_receipt_ok:
  "packing_ok env budget given p \<Longrightarrow> pack_receipt env budget raw p = Inr q \<Longrightarrow> packing_ok env budget given q"
  by (auto simp: pack_receipt_def bindE_Inr_iff intro!: emit_ok split: if_splits)

lemma redacted_ok:
  assumes "packing_ok env budget given p"
  shows "packing_ok env budget given (p\<lparr>pk_prompt_unsafe := n, pk_selected := pk_selected p @ [redacted_prompt_receipt f reason]\<rparr>)"
proof -
  have row: "\<not> eligible (redacted_prompt_receipt f reason)" "fget ''content'' (redacted_prompt_receipt f reason) = PNone"
      "fget ''summary'' (redacted_prompt_receipt f reason) = PNone"
    by (simp_all add: redacted_prompt_receipt_def eligible_def fget_def)
  then have "entry_text env (redacted_prompt_receipt f reason) = []" by (simp add: entry_text_def)
  with row assms show ?thesis by (auto simp: packing_ok_def entry_ok_def)
qed

lemma popped:
  "safe_candidate (filter (\<lambda>kv. fst kv \<noteq> ''_mmr_embedding'') raw) = safe_candidate raw"
  "prompt_rejection_reason env (filter (\<lambda>kv. fst kv \<noteq> ''_mmr_embedding'') raw) = prompt_rejection_reason env raw"
  "review_status (filter (\<lambda>kv. fst kv \<noteq> ''_mmr_embedding'') raw) = review_status raw"
  by (simp_all add: safe_candidate_def prompt_rejection_reason_def review_status_def)

lemma shown_ok:
  assumes p: "packing_ok env budget given p" and raw: "raw \<in> set given"
    and f: "f = filter (\<lambda>kv. fst kv \<noteq> ''_mmr_embedding'') raw" "safe_candidate f" "prompt_rejection_reason env f = None"
    and slot: "state_slot f = None \<or> the (state_slot f) \<notin> set (pk_slots p)"
    and pre: "line_prefix env f = Inr pre" and content: "cut_of (text_of (fget ''content'' f)) content" "content \<noteq> []"
    and fits: "estimate_tokens (pk_markdown p @ pre @ content @ [CHR 0x0A]) \<le> budget"
  shows "packing_ok env budget given (p\<lparr>pk_selected := pk_selected p @ [mark f content b d],
      pk_slots := (case state_slot f of None \<Rightarrow> pk_slots p | Some s \<Rightarrow> pk_slots p @ [s]),
      pk_markdown := pk_markdown p @ pre @ content @ [CHR 0x0A]\<rparr>)"
proof -
  let ?g = "mark f content b d"
  have el: "eligible ?g" by (simp add: eligible_def fget_mark)
  have "line_prefix env ?g = line_prefix env f" by (rule line_prefix_cong) (auto simp: fget_mark)
  with pre have "line_prefix env ?g = Inr pre" by simp
  then have line: "entry_text env ?g = pre @ content @ [CHR 0x0A]" using el by (simp add: entry_text_def fget_mark text_of_def)
  have keys: "fget k ?g = fget k raw" if "k \<notin> set CHANGED_KEYS" for k
    using that by (auto simp: fget_mark CHANGED_KEYS_def f(1))
  have "safe_candidate raw" "prompt_rejection_reason env raw = None" using f(2,3) by (simp_all add: f(1) popped)
  then have "rendered_from env raw ?g" using content keys
    by (simp add: rendered_from_def safe_candidate_def prompt_rejection_reason_def fget_mark text_of_def popped f(1) split: if_splits)
  then have ok: "entry_ok env given ?g" using raw el by (auto simp: entry_ok_def)
  have same: "state_slot ?g = state_slot f" by (simp add: state_slot_def fget_mark Let_def)
  show ?thesis
  proof (cases "state_slot f")
    case None
    with p fits el ok line same show ?thesis by (auto simp: packing_ok_def map_filter_snoc)
  next
    case (Some s)
    with p slot fits el ok line same show ?thesis by (auto simp: packing_ok_def map_filter_snoc)
  qed
qed

lemma pack_fact_shown:
  assumes "f = filter (\<lambda>kv. fst kv \<noteq> ''_mmr_embedding'') raw" "pack_fact env budget chars raw p = Inr q"
    "safe_candidate f" "prompt_rejection_reason env f = None"
  shows "q = omit p \<or> (\<exists>pre content b d. line_prefix env f = Inr pre \<and> cut_of (text_of (fget ''content'' f)) content \<and> content \<noteq> []
    \<and> estimate_tokens (pk_markdown p @ pre @ content @ [CHR 0x0A]) \<le> budget
    \<and> (state_slot f = None \<or> the (state_slot f) \<notin> set (pk_slots p))
    \<and> q = p\<lparr>pk_selected := pk_selected p @ [mark f content d b],
        pk_slots := (case state_slot f of None \<Rightarrow> pk_slots p | Some s \<Rightarrow> pk_slots p @ [s]),
        pk_markdown := pk_markdown p @ pre @ content @ [CHR 0x0A]\<rparr>)"
proof (cases "state_slot f \<noteq> None \<and> the (state_slot f) \<in> set (pk_slots p)")
  case True
  with assms show ?thesis by (simp add: pack_fact_def Let_def)
next
  case False
  note run = assms(2) [unfolded pack_fact_def Let_def, folded assms(1)]
  let ?whole = "text_of (fget ''content'' f)"
  obtain cut b where cut: "(case chars of None \<Rightarrow> (?whole, False) | Some n \<Rightarrow> truncate_to_chars ?whole n) = (cut, b)"
    by fastforce
  from run assms(3,4) False obtain pre where pre: "line_prefix env f = Inr pre"
    by (auto simp: bindE_Inr_iff)
  define available where "available = budget - estimate_tokens (pk_markdown p) - estimate_tokens pre - 1"
  obtain content d where content: "truncate_to_budget cut available = (content, d)" by fastforce
  have "cut_of ?whole cut" using cut cut_chars [of ?whole] cut_refl by (auto split: option.split_asm) (metis fst_conv)
  from cut_budget [OF this, of available] have "cut_of ?whole content" by (simp add: content)
  moreover have "q = omit p \<or> (content \<noteq> [] \<and> estimate_tokens (pk_markdown p @ pre @ content @ [CHR 0x0A]) \<le> budget
      \<and> q = p\<lparr>pk_selected := pk_selected p @ [mark f content (b \<or> d) b],
        pk_slots := (case state_slot f of None \<Rightarrow> pk_slots p | Some s \<Rightarrow> pk_slots p @ [s]),
        pk_markdown := pk_markdown p @ pre @ content @ [CHR 0x0A]\<rparr>)"
    using run assms(3,4) False
    by (auto simp: pre cut content available_def [symmetric] not_less split: if_splits)
  moreover have "state_slot f = None \<or> the (state_slot f) \<notin> set (pk_slots p)" using False by blast
  ultimately show ?thesis using pre by blast
qed

lemma pack_fact_ok:
  assumes "packing_ok env budget given p" "raw \<in> set given" "pack_fact env budget chars raw p = Inr q"
  shows "packing_ok env budget given q"
proof -
  define f where "f = filter (\<lambda>kv. fst kv \<noteq> ''_mmr_embedding'') raw"
  note run = assms(3) [unfolded pack_fact_def Let_def, folded f_def]
  show ?thesis
  proof (cases "safe_candidate f")
    case False
    with run assms(1) show ?thesis by (auto simp: bindE_Inr_iff intro!: emit_ok split: if_splits)
  next
    case safe: True
    show ?thesis
    proof (cases "prompt_rejection_reason env f")
      case (Some reason)
      with run safe assms(1) show ?thesis by (auto intro: redacted_ok)
    next
      case None
      from pack_fact_shown [OF f_def assms(3) safe None] show ?thesis
        using assms(1) shown_ok [OF assms(1,2) f_def safe None] by auto
    qed
  qed
qed

lemma foldE_invariant:
  assumes "\<And>x s t. x \<in> set xs \<Longrightarrow> P s \<Longrightarrow> f x s = Inr t \<Longrightarrow> P t"
  shows "P s \<Longrightarrow> foldE f xs s = Inr t \<Longrightarrow> P t"
  using assms
proof (induction xs arbitrary: s)
  case (Cons x xs)
  from Cons.prems(2) obtain u where "f x s = Inr u" "foldE f xs u = Inr t" by (auto simp: bindE_Inr_iff)
  with Cons show ?case by (metis list.set_intros(1,2))
qed simp

lemma best_of_in: "best_of b xs \<in> snd ` set (b # xs)"
  by (induction b xs rule: best_of.induct) auto

lemma mmr_loop_picks:
  "mmr_loop env w n remaining selected = Inr res
    \<Longrightarrow> mset res \<subseteq># mset selected + mset (map snd remaining)"
proof (induction env w n remaining selected rule: mmr_loop.induct)
  case (3 env w n x xs selected)
  from "3.prems" obtain ks where ks: "mapE (objective env w selected) (x # xs) = Inr ks"
      and run: "mmr_loop env w n (remove1 (best_of (hd ks, x) (zip (tl ks) xs)) (x # xs))
        (selected @ [snd (best_of (hd ks, x) (zip (tl ks) xs))]) = Inr res"
    by (auto simp: bindE_Inr_iff Let_def simp del: mapE.simps)
  define best where "best = best_of (hd ks, x) (zip (tl ks) xs)"
  have "best \<in> set (x # xs)" using best_of_in [of "(hd ks, x)" "zip (tl ks) xs"] set_zip_rightD
    by (fastforce simp: best_def)
  then have "mset (map snd (x # xs)) = add_mset (snd best) (mset (map snd (remove1 best (x # xs))))"
    by (metis image_mset_add_mset insert_DiffM mset_map mset_remove1 set_mset_mset)
  moreover have "mset res \<subseteq># mset (selected @ [snd best]) + mset (map snd (remove1 best (x # xs)))"
    using "3.IH" [OF refl run] by (simp add: best_def)
  ultimately show ?case by simp
qed simp_all

lemma mmr_select_picks:
  assumes "mmr_select env given limit w = Inr chosen"
  shows "mset chosen \<subseteq># mset given"
proof -
  have "map snd (enumerate 0 given) = given" by (simp add: map_snd_enumerate)
  with assms show ?thesis using mmr_loop_picks [of env w _ "enumerate 0 given" "[]" chosen]
    by (auto simp: mmr_select_def split: option.split_asm if_split_asm simp del: mset_map)
qed

lemma ranked_facts:
  assumes "mmr_select env given limit w = Inr chosen"
  shows "mset (reviewed_first chosen) = mset chosen" "set (reviewed_first chosen) \<subseteq> set given" "length (reviewed_first chosen) \<le> length given"
proof -
  show same: "mset (reviewed_first chosen) = mset chosen" by (simp add: reviewed_first_def mset_filter)
  with mmr_select_picks [OF assms] show "set (reviewed_first chosen) \<subseteq> set given" "length (reviewed_first chosen) \<le> length given"
    by (metis set_mset_mono set_mset_mset, metis size_mset size_mset_mono)
qed

text \<open>How a successful packing ran.\<close>

definition fresh_packing :: packing where
  "fresh_packing = \<lparr>pk_markdown = HEADER, pk_selected = [], pk_slots = [], pk_omitted = 0, pk_unsafe = 0, pk_prompt_unsafe = 0, pk_conflicts = []\<rparr>"

lemma pack_context_run:
  assumes "pack_context env given token_budget chars limit weight receipts = Inr c"
  obtains budget most w where "check_pack_arguments token_budget chars limit weight = Inr (budget, most, w)" "0 < budget"
      "budget < estimate_tokens HEADER" "c = \<lparr>cp_markdown = [], cp_facts = [], cp_abstained = True, cp_budget = budget,
         cp_estimate = 0, cp_omitted = length given, cp_unsafe = 0, cp_prompt_unsafe = 0\<rparr>"
    | budget most w p chosen q where "check_pack_arguments token_budget chars limit weight = Inr (budget, most, w)" "0 < budget"
      "estimate_tokens HEADER \<le> budget" "foldE (pack_receipt env budget) receipts fresh_packing = Inr p"
      "mmr_select env given most w = Inr chosen"
      "foldE (pack_fact env budget chars) (reviewed_first chosen)
         (p\<lparr>pk_omitted := pk_omitted p + (length given - length (reviewed_first chosen))\<rparr>) = Inr q"
      "c = finish_pack budget q"
proof -
  from assms obtain budget most w where args: "check_pack_arguments token_budget chars limit weight = Inr (budget, most, w)"
    by (auto simp: pack_context_def bindE_Inr_iff)
  then have pos: "0 < budget" by (auto simp: check_pack_arguments_def bindE_Inr_iff)
  show ?thesis
  proof (cases "budget < estimate_tokens HEADER")
    case True
    with assms args pos show ?thesis by (auto simp: pack_context_def intro!: that(1))
  next
    case False
    with assms args pos show ?thesis
      by (auto simp: pack_context_def bindE_Inr_iff Let_def fresh_packing_def [symmetric] not_less intro: that(2))
  qed
qed

lemma packed_ok:
  assumes "estimate_tokens HEADER \<le> budget" "foldE (pack_receipt env budget) receipts fresh_packing = Inr p"
    "mmr_select env given most w = Inr chosen"
    "foldE (pack_fact env budget chars) (reviewed_first chosen) (p\<lparr>pk_omitted := n\<rparr>) = Inr q"
  shows "packing_ok env budget given q"
proof -
  have fresh: "packing_ok env budget given fresh_packing" using assms(1)
    by (simp add: packing_ok_def fresh_packing_def List.map_filter_def)
  have "packing_ok env budget given p"
    by (rule foldE_invariant [where P = "packing_ok env budget given", OF pack_receipt_ok fresh assms(2)])
  then have start: "packing_ok env budget given (p\<lparr>pk_omitted := n\<rparr>)" by simp
  show ?thesis
    by (rule foldE_invariant [where P = "packing_ok env budget given", OF _ start assms(4)])
      (use ranked_facts(2) [OF assms(3)] pack_fact_ok in blast)
qed

section \<open>Accounting\<close>

definition shown :: "fields list \<Rightarrow> nat" where
  "shown gs = length (filter eligible gs)"

definition tally :: "packing \<Rightarrow> nat" where
  "tally p = shown (pk_selected p) + pk_prompt_unsafe p + pk_unsafe p"

lemma tally_simps [simp]:
  "tally (omit p) = tally p" "pk_omitted (omit p) = Suc (pk_omitted p)"
  "tally (p\<lparr>pk_unsafe := Suc (pk_unsafe p)\<rparr>) = Suc (tally p)"
  by (simp_all add: tally_def omit_def)

lemma tally_emit:
  assumes "\<And>r. nt = Some r \<Longrightarrow> conflict_receipt_from_fact env f = Inr (Some r)"
  shows "tally (emit_conflict_receipt budget nt p) = tally p \<and> pk_omitted p \<le> pk_omitted (emit_conflict_receipt budget nt p)"
proof (cases nt)
  case (Some r)
  then show ?thesis using note_row [OF assms [OF Some]]
    by (simp add: emit_conflict_receipt_def Let_def) (simp add: tally_def shown_def)
qed (simp add: emit_conflict_receipt_def)

lemma tally_receipt: "pack_receipt env budget raw p = Inr q \<Longrightarrow> tally q = tally p \<and> pk_omitted p \<le> pk_omitted q"
  using tally_emit [of _ env raw budget p] by (auto simp: pack_receipt_def bindE_Inr_iff split: if_splits)

lemma tally_fact:
  assumes "pack_fact env budget chars raw p = Inr q"
  shows "tally q = Suc (tally p) \<and> pk_omitted p \<le> pk_omitted q \<or> tally q = tally p \<and> pk_omitted q = Suc (pk_omitted p)"
proof -
  define f where "f = filter (\<lambda>kv. fst kv \<noteq> ''_mmr_embedding'') raw"
  note run = assms [unfolded pack_fact_def Let_def, folded f_def]
  show ?thesis
  proof (cases "safe_candidate f")
    case False
    show ?thesis
    proof (cases "fget ''conflict_group'' f = PNone")
      case True
      with run False show ?thesis by auto
    next
      case grouped: False
      with run False obtain nt where nt: "conflict_receipt_from_fact env f = Inr nt"
          "q = emit_conflict_receipt budget nt (p\<lparr>pk_unsafe := Suc (pk_unsafe p)\<rparr>)"
        by (auto simp: bindE_Inr_iff)
      with tally_emit [of nt env f budget "p\<lparr>pk_unsafe := Suc (pk_unsafe p)\<rparr>"] show ?thesis by simp
    qed
  next
    case safe: True
    show ?thesis
    proof (cases "prompt_rejection_reason env f")
      case (Some reason)
      have "\<not> eligible (redacted_prompt_receipt f reason)" by (simp add: redacted_prompt_receipt_def eligible_def fget_def)
      with run safe Some show ?thesis by (auto simp: tally_def shown_def)
    next
      case None
      have el: "eligible (mark f content b d)" for content b d by (simp add: eligible_def fget_mark)
      from pack_fact_shown [OF f_def assms safe None] show ?thesis
        by (auto simp: tally_def shown_def el omit_def)
    qed
  qed
qed

lemma foldE_count:
  assumes "\<And>x s t k. x \<in> set xs \<Longrightarrow> P k s \<Longrightarrow> f x s = Inr t \<Longrightarrow> P (Suc k) t"
  shows "P k s \<Longrightarrow> foldE f xs s = Inr t \<Longrightarrow> P (k + length xs) t"
  using assms
proof (induction xs arbitrary: k s)
  case (Cons x xs)
  from Cons.prems(2) obtain u where u: "f x s = Inr u" "foldE f xs u = Inr t" by (auto simp: bindE_Inr_iff)
  have "P (Suc k) u" using Cons.prems(1,3) u(1) by auto
  with Cons u(2) have "P (Suc k + length xs) t" by (meson list.set_intros(2))
  then show ?case by simp
qed simp

section \<open>Properties\<close>

text \<open>C38: the budget is kept.  A packed context never holds more text than its budget of estimated tokens,
  and the estimate it reports is that of its text.
\<close>

theorem context_within_budget:
  assumes "pack_context env given token_budget chars limit weight receipts = Inr c"
  shows "token_budget = PInt (cp_budget c) \<and> 0 < cp_budget c \<and> cp_estimate c = estimate_tokens (cp_markdown c)
    \<and> cp_estimate c \<le> cp_budget c"
proof -
  have budget: "token_budget = PInt b" if "check_pack_arguments token_budget chars limit weight = Inr (b, l, w)" for b l w
    using that by (auto simp: check_pack_arguments_def bindE_Inr_iff split: py.split_asm)
  from assms show ?thesis
  proof (cases rule: pack_context_run)
    case (1 b l w)
    with budget [OF 1(1)] show ?thesis by (simp add: estimate_tokens_def)
  next
    case (2 b l w p chosen q)
    note packing_okD(1) [OF packed_ok [OF 2(3-6)]]
    with 2(2,7) budget [OF 2(1)] show ?thesis by (auto simp: finish_pack_def Let_def estimate_tokens_def)
  qed
qed

text \<open>C39: only current, harmless facts are shown.  Every entry a prompt may show is an entry of a given fact
  that is not retired, not superseded and in no conflict, that nobody marked as unreviewed and that
  does not read like an instruction; it changes only the text, to a beginning of it, and the columns that say so;
  any other entry carries no content; and no state slot is shown twice.
\<close>

theorem context_shows_safe_facts:
  assumes "pack_context env given token_budget chars limit weight receipts = Inr c"
  shows "list_all (entry_ok env given) (cp_facts c) \<and> distinct (List.map_filter state_slot (filter eligible (cp_facts c)))"
  using assms
proof (cases rule: pack_context_run)
  case (2 b l w p chosen q)
  note packing_okD(3,4) [OF packed_ok [OF 2(3-6)]]
  with 2(7) show ?thesis by (simp add: finish_pack_def Let_def)
qed (simp add: List.map_filter_def)

text \<open>C40: the prompt is its entries.  A text that is not empty is the header followed by one line for each
  entry that may be shown and for each conflict notice, in the order of the entries, and nothing else;
  it is empty exactly when there is neither.
\<close>

theorem prompt_is_its_entries:
  assumes "pack_context env given token_budget chars limit weight receipts = Inr c"
  shows "cp_markdown c = (if list_all (\<lambda>g. \<not> eligible g \<and> fget ''summary'' g = PNone) (cp_facts c) then []
      else HEADER @ concat (map (entry_text env) (cp_facts c)))
    \<and> (cp_abstained c \<longleftrightarrow> \<not> list_ex eligible (cp_facts c))"
  using assms
proof (cases rule: pack_context_run)
  case (2 b l w p chosen q)
  have q: "pk_markdown q = HEADER @ concat (map (entry_text env) (pk_selected q))"
      "pk_conflicts q = [] \<longleftrightarrow> list_all (\<lambda>g. eligible g \<or> fget ''summary'' g = PNone) (pk_selected q)"
    by (rule packing_okD [OF packed_ok [OF 2(3-6)]])+
  define shown where "shown = list_ex eligible (pk_selected q)"
  have c: "cp_facts c = pk_selected q" "cp_abstained c = (\<not> shown)"
      "cp_markdown c = (if shown \<or> pk_conflicts q \<noteq> [] then pk_markdown q else [])"
    using 2(7) by (simp_all add: finish_pack_def Let_def shown_def eligible_def [abs_def])
  have "list_all (\<lambda>g. \<not> eligible g \<and> fget ''summary'' g = PNone) (pk_selected q) \<longleftrightarrow> \<not> shown \<and> pk_conflicts q = []"
    by (auto simp: q(2) shown_def list_ex_iff list_all_iff)
  with c q(1) show ?thesis by (simp add: shown_def)
qed simp

text \<open>Every given fact is accounted for.  Those shown, those withheld as unsafe for a prompt and those
  that are not current never count twice, and together with the omitted ones they are at least all of them.
\<close>

theorem facts_are_accounted_for:
  assumes "pack_context env given token_budget chars limit weight receipts = Inr c"
  shows "shown (cp_facts c) + cp_prompt_unsafe c + cp_unsafe c \<le> length given
    \<and> length given \<le> shown (cp_facts c) + cp_prompt_unsafe c + cp_unsafe c + cp_omitted c"
  using assms
proof (cases rule: pack_context_run)
  case (2 b l w p chosen q)
  let ?ranked = "reviewed_first chosen" and ?p = "p\<lparr>pk_omitted := pk_omitted p + (length given - length (reviewed_first chosen))\<rparr>"
  have "tally p = 0"
    by (rule foldE_invariant [where P = "\<lambda>p. tally p = 0", OF _ _ 2(4)])
      (auto dest: tally_receipt simp: tally_def shown_def fresh_packing_def)
  then have "tally ?p = 0" by (simp add: tally_def)
  then have "tally q \<le> 0 + length ?ranked \<and> 0 + length ?ranked + pk_omitted ?p \<le> tally q + pk_omitted q"
    by (intro foldE_count [where P = "\<lambda>k p'. tally p' \<le> k \<and> k + pk_omitted ?p \<le> tally p' + pk_omitted p'", OF _ _ 2(6)])
      (auto dest!: tally_fact)
  then have "tally q \<le> length ?ranked" "length ?ranked + (length given - length ?ranked) \<le> tally q + pk_omitted q" by simp_all
  with ranked_facts(3) [OF 2(5)] have "tally q \<le> length given" "length given \<le> tally q + pk_omitted q" by simp_all
  with 2(7) show ?thesis by (simp add: finish_pack_def Let_def tally_def)
qed (simp add: shown_def)

end
