(* ===== verification/Spec2Isabelle.thy ===== *)
theory Spec2Isabelle
  imports Policy SlotKeys CoreStore Temporal ConflictFacts Contradiction NearDup WriteService
    EmbeddingFacts Evolution WriteFacts WriteLaws StateWrites Witnesses WriteWitnesses Spans QueueWitnesses ErasureWitnesses DaemonWitnesses ContextWitnesses
begin

text \<open>
  A model of the memory store of Enfold (\<^verbatim>\<open>src/enfold/\<close>), and the properties that make it correct.
\<close>

end
